(* ===== verification/Prelude.thy ===== *)
theory Prelude
  imports Main "HOL-Library.Word"
begin

text \<open>
  Shared vocabulary of the development: the machine types of the armeabi-v7a build
  (32-bit \<open>int\<close>, \<open>unsigned\<close>, \<open>size_t\<close>; little-endian memory), C strings, the result
  type of code that may exit or run into undefined behaviour, and the generic lemmas on
  lists, options, characters and words that the components share.
\<close>

unbundle bit_operations_syntax

named_theorems model_defs \<open>definitional equations of small accessors, unfolded by the component proofs\<close>
named_theorems wf_intros \<open>preservation lemmas of well-formedness predicates\<close>

type_synonym u8 = "8 word"
type_synonym u16 = "16 word"
type_synonym u32 = "32 word"
type_synonym u64 = "64 word"

text \<open>
  A C \<open>char *\<close> that may be \<open>NULL\<close> is a \<open>string option\<close>; a non-null C string is the list of
  its characters before the terminating NUL (which therefore are not NUL themselves).
\<close>

abbreviation NUL :: char where "NUL \<equiv> CHR 0x00"
abbreviation NEWLINE :: char where "NEWLINE \<equiv> CHR 0x0A"

definition cstr :: "string \<Rightarrow> bool" where
  "cstr s \<longleftrightarrow> NUL \<notin> set s"

text \<open>The C string a buffer holds: everything up to the first NUL.\<close>

definition cstr_of :: "string \<Rightarrow> string" where
  "cstr_of buf = takeWhile (\<lambda>c. c \<noteq> NUL) buf"

text \<open>
  What running a piece of C code gives: a value, \<open>exit(status)\<close>, or undefined behaviour
  (a read or write outside an object, or a NULL dereference) with the kind of access.
\<close>

datatype ub = NullDeref | OutOfBounds | Uninitialised | UseAfterFree | BadShift

datatype 'a outcome = Ret 'a | Exit int | UB ub

primrec obind :: "'a outcome \<Rightarrow> ('a \<Rightarrow> 'b outcome) \<Rightarrow> 'b outcome" where
  "obind (Ret x) f = f x"
| "obind (Exit n) f = Exit n"
| "obind (UB u) f = UB u"

text \<open>\<open>strcmp\<close>: the sign of the first difference, characters compared as \<open>unsigned char\<close>.\<close>

fun strcmp :: "string \<Rightarrow> string \<Rightarrow> int" where
  "strcmp [] [] = 0"
| "strcmp [] (y # ys) = -1"
| "strcmp (x # xs) [] = 1"
| "strcmp (x # xs) (y # ys) =
     (if of_char x = (of_char y :: nat) then strcmp xs ys
      else if of_char x < (of_char y :: nat) then -1 else 1)"

text \<open>\<open>strstr\<close>, as a test: does the needle occur in the haystack?\<close>

fun strstr :: "string \<Rightarrow> string \<Rightarrow> bool" where
  "strstr [] needle = (needle = [])"
| "strstr (x # xs) needle = (take (length needle) (x # xs) = needle \<or> strstr xs needle)"

text \<open>\<open>strrchr\<close>: the suffix that starts at the last occurrence of a character.\<close>

fun strrchr :: "string \<Rightarrow> char \<Rightarrow> string option" where
  "strrchr [] c = None"
| "strrchr (x # xs) c =
     (case strrchr xs c of Some r \<Rightarrow> Some r | None \<Rightarrow> if x = c then Some (x # xs) else None)"

text \<open>\<open>isspace\<close> in the C locale.\<close>

definition isspace :: "char \<Rightarrow> bool" where
  "isspace c \<longleftrightarrow> c = CHR '' '' \<or> (9 \<le> (of_char c :: nat) \<and> (of_char c :: nat) \<le> 13)"

text \<open>
  The little-endian bytes of a machine word, as they lie in memory, in the policy image and
  on the socket, and the word a run of bytes stands for.
\<close>

primrec le_bytes :: "nat \<Rightarrow> 'a::len word \<Rightarrow> u8 list" where
  "le_bytes 0 w = []"
| "le_bytes (Suc n) w = ucast w # le_bytes n (drop_bit 8 w)"

primrec le_word :: "u8 list \<Rightarrow> 'a::len word" where
  "le_word [] = 0"
| "le_word (b # bs) = ucast b OR push_bit 8 (le_word bs)"

text \<open>The 32-bit words at the start of a run of bytes.\<close>

primrec le_words :: "nat \<Rightarrow> u8 list \<Rightarrow> u32 list" where
  "le_words 0 bs = []"
| "le_words (Suc n) bs = le_word (take 4 bs) # le_words n (drop 4 bs)"

section \<open>Lemmas\<close>

lemma obind_Ret_iff [simp]: "obind m f = Ret y \<longleftrightarrow> (\<exists>x. m = Ret x \<and> f x = Ret y)"
  by (cases m) auto

lemma obind_assoc: "obind (obind m f) g = obind m (\<lambda>x. obind (f x) g)"
  by (cases m) auto

lemma of_char_eq_iff_nat [simp]: "(of_char x = (of_char y :: nat)) \<longleftrightarrow> x = y"
  by simp

lemma strcmp_eq_0 [simp]: "strcmp xs ys = 0 \<longleftrightarrow> xs = ys"
  by (induction xs ys rule: strcmp.induct) auto

lemma strcmp_antisym: "strcmp ys xs = - strcmp xs ys"
  by (induction xs ys rule: strcmp.induct) auto

lemma strcmp_gt_trans: "strcmp xs ys > 0 \<Longrightarrow> strcmp ys zs > 0 \<Longrightarrow> strcmp xs zs > 0"
proof (induction xs ys arbitrary: zs rule: strcmp.induct)
  case (4 x xs y ys)
  then show ?case by (cases zs) (auto split: if_splits)
next
  case (3 x xs)
  then show ?case by (cases zs) auto
qed auto

lemma strstr_iff: "strstr hay needle \<longleftrightarrow> (\<exists>pre post. hay = pre @ needle @ post)"
proof (induction hay needle rule: strstr.induct)
  case (2 x xs needle)
  have "take (length needle) (x # xs) = needle \<longleftrightarrow> (\<exists>post. x # xs = needle @ post)"
    by (metis append_eq_conv_conj append_take_drop_id)
  moreover have "(\<exists>pre post. x # xs = pre @ needle @ post) \<longleftrightarrow>
      (\<exists>post. x # xs = needle @ post) \<or> (\<exists>pre post. xs = pre @ needle @ post)"
    by (metis append_Cons append_Nil neq_Nil_conv list.inject)
  ultimately show ?case using "2" by simp
qed auto

lemma cstr_simps [simp]:
  "cstr []"
  "cstr (x # xs) \<longleftrightarrow> x \<noteq> NUL \<and> cstr xs"
  "cstr (xs @ ys) \<longleftrightarrow> cstr xs \<and> cstr ys"
  by (auto simp: cstr_def)

lemma cstr_of_cstr [simp]: "cstr s \<Longrightarrow> cstr_of (s @ NUL # rest) = s"
  by (induction s) (auto simp: cstr_of_def)

lemma cstr_of_id [simp]: "cstr s \<Longrightarrow> cstr_of s = s"
  by (auto simp: cstr_of_def cstr_def takeWhile_eq_all_conv)

lemma cstr_cstr_of [simp]: "cstr (cstr_of s)"
  by (auto simp: cstr_of_def cstr_def dest: set_takeWhileD)

lemma nth_append_last [simp]: "(xs @ [x]) ! length xs = x"
  by (simp add: nth_append)

lemma unat_lt32 [simp]: "unat (w :: u32) < 4294967296"
  using unsigned_less[of w] by simp

lemma unat_Suc32: "unat (w :: u32) < 4294967295 \<Longrightarrow> unat (w + 1) = Suc (unat w)"
  by (simp add: unat_word_ariths)

lemma length_le_bytes [simp]: "length (le_bytes n w) = n"
  by (induction n arbitrary: w) auto

lemma le_word_le_bytes: "le_word (le_bytes n w) = take_bit (8 * n) (w :: 'a::len word)"
proof (induction n arbitrary: w)
  case (Suc n)
  show ?case
    by (rule bit_word_eqI) (auto simp: Suc bit_simps le_add_diff_inverse2)
qed simp

lemma le_roundtrip16 [simp]: "le_word (le_bytes 2 (w :: u16)) = w"
  by (simp add: le_word_le_bytes take_bit_word_eq_self)

lemma le_roundtrip32 [simp]: "le_word (le_bytes 4 (w :: u32)) = w"
  by (simp add: le_word_le_bytes take_bit_word_eq_self)

lemma length_le_words [simp]: "length (le_words n bs) = n"
  by (induction n arbitrary: bs) auto

lemma le_words_append [simp]: "length ws = n \<Longrightarrow> le_words n (concat (map (le_bytes 4) ws) @ rest) = ws"
  by (induction ws arbitrary: n) (auto simp del: le_bytes.simps)

lemma le_words_bytes [simp]: "length ws = n \<Longrightarrow> le_words n (concat (map (le_bytes 4) ws)) = ws"
  using le_words_append[of ws n "[]"] by (simp del: le_words_append)

lemma length_concat_le_bytes [simp]: "length (concat (map (le_bytes n) ws)) = n * length ws"
  by (induction ws) auto

lemma le_roundtrip64 [simp]: "le_word (le_bytes 8 (w :: u64)) = w"
  by (simp add: le_word_le_bytes take_bit_word_eq_self)

lemma nonzero_has_bit: "(w :: 'a::len word) \<noteq> 0 \<Longrightarrow> \<exists>k < LENGTH('a). bit w k"
  by (metis bit_imp_le_length bit_0_eq bot_apply bot_bool_def bit_eq_iff)

lemma and_eq_iff_subset: "m AND n = n \<longleftrightarrow> (\<forall>k. bit n k \<longrightarrow> bit m k)" for m n :: "'a::len word"
  by (metis bit_and_iff bit_eq_iff)

lemma and_nonzero_iff: "m AND n \<noteq> 0 \<longleftrightarrow> (\<exists>k. bit m k \<and> bit n k)" for m n :: "'a::len word"
proof
  assume "m AND n \<noteq> 0"
  then show "\<exists>k. bit m k \<and> bit n k" using nonzero_has_bit[of "m AND n"] by (auto simp: bit_and_iff)
next
  assume "\<exists>k. bit m k \<and> bit n k"
  then obtain k where "bit (m AND n) k" by (auto simp: bit_and_iff)
  then show "m AND n \<noteq> 0" by (cases "m AND n = 0") auto
qed

lemma unat_of_nat32: "n < 4294967296 \<Longrightarrow> unat (of_nat n :: u32) = n"
  by (simp add: unsigned_of_nat take_bit_nat_eq_self)

end
