(* ===== verification/Hashtab.thy ===== *)
theory Hashtab
  imports Prelude
begin

text \<open>
  The chained hash table of libsepol (\<^verbatim>\<open>libsepol/src/hashtab.c\<close>) and the symbol tables built
  on it (\<^verbatim>\<open>symtab.c\<close>). A table is its array of buckets, each a chain ascending in the
  table's key comparison, the number of elements \<open>nel\<close>, and the two function pointers. The
  policy patcher looks up types, classes and permissions by name in these tables.

  Chains are lists of key/datum pairs. The flag \<open>mok\<close> tells whether \<open>malloc\<close> succeeds.
  Laws are stated against the partial map \<open>hashtab_abs\<close>.
\<close>

section \<open>Definitions\<close>

abbreviation (input) SEPOL_OK :: int where "SEPOL_OK \<equiv> 0"
abbreviation (input) SEPOL_ENOMEM :: int where "SEPOL_ENOMEM \<equiv> -12"
abbreviation (input) SEPOL_EEXIST :: int where "SEPOL_EEXIST \<equiv> -17"
abbreviation (input) SEPOL_ENOENT :: int where "SEPOL_ENOENT \<equiv> -2"

record ('k, 'd) hashtab =
  htable :: "('k \<times> 'd) list list"
  hsize :: u32
  nel :: u32
  hash_value :: "u32 \<Rightarrow> 'k \<Rightarrow> u32"
  keycmp :: "'k \<Rightarrow> 'k \<Rightarrow> int"

definition hashtab_create ::
  "bool \<Rightarrow> (u32 \<Rightarrow> 'k \<Rightarrow> u32) \<Rightarrow> ('k \<Rightarrow> 'k \<Rightarrow> int) \<Rightarrow> u32 \<Rightarrow> ('k, 'd) hashtab option" where
  "hashtab_create mok hash cmp sz =
     (if \<not> mok then None
      else Some \<lparr>htable = replicate (unat sz) [], hsize = sz, nel = 0, hash_value = hash, keycmp = cmp\<rparr>)"

text \<open>The bucket of a key.\<close>

definition hvalue :: "('k, 'd) hashtab \<Rightarrow> 'k \<Rightarrow> nat" where
  "hvalue h key = unat (hash_value h (hsize h) key)"

fun chain_insert :: "('k \<Rightarrow> 'k \<Rightarrow> int) \<Rightarrow> 'k \<Rightarrow> 'd \<Rightarrow> ('k \<times> 'd) list \<Rightarrow> ('k \<times> 'd) list option" where
  "chain_insert cmp key datum [] = Some [(key, datum)]"
| "chain_insert cmp key datum ((k, d) # cur) =
     (if cmp key k > 0 then map_option ((#) (k, d)) (chain_insert cmp key datum cur)
      else if cmp key k = 0 then None
      else Some ((key, datum) # (k, d) # cur))"

definition hashtab_insert ::
  "bool \<Rightarrow> ('k, 'd) hashtab option \<Rightarrow> 'k \<Rightarrow> 'd \<Rightarrow> int \<times> ('k, 'd) hashtab option" where
  "hashtab_insert mok ho key datum =
     (case ho of None \<Rightarrow> (SEPOL_ENOMEM, None)
      | Some h \<Rightarrow>
          let hv = hvalue h key in
          case chain_insert (keycmp h) key datum (htable h ! hv) of
            None \<Rightarrow> (SEPOL_EEXIST, Some h)
          | Some ch \<Rightarrow>
              if \<not> mok then (SEPOL_ENOMEM, Some h)
              else (SEPOL_OK, Some (h\<lparr>htable := (htable h)[hv := ch], nel := nel h + 1\<rparr>)))"

fun chain_remove :: "('k \<Rightarrow> 'k \<Rightarrow> int) \<Rightarrow> 'k \<Rightarrow> ('k \<times> 'd) list \<Rightarrow> (('k \<times> 'd) \<times> ('k \<times> 'd) list) option" where
  "chain_remove cmp key [] = None"
| "chain_remove cmp key ((k, d) # cur) =
     (if cmp key k > 0 then map_option (\<lambda>(x, rest). (x, (k, d) # rest)) (chain_remove cmp key cur)
      else if cmp key k \<noteq> 0 then None
      else Some ((k, d), cur))"

text \<open>\<open>hashtab_remove\<close>: the middle component is what is passed to \<open>destroy\<close>, if anything.\<close>

definition hashtab_remove ::
  "('k, 'd) hashtab option \<Rightarrow> 'k \<Rightarrow> int \<times> ('k \<times> 'd) option \<times> ('k, 'd) hashtab option" where
  "hashtab_remove ho key =
     (case ho of None \<Rightarrow> (SEPOL_ENOENT, None, None)
      | Some h \<Rightarrow>
          let hv = hvalue h key in
          case chain_remove (keycmp h) key (htable h ! hv) of
            None \<Rightarrow> (SEPOL_ENOENT, None, Some h)
          | Some (x, ch) \<Rightarrow>
              (SEPOL_OK, Some x, Some (h\<lparr>htable := (htable h)[hv := ch], nel := nel h - 1\<rparr>)))"

text \<open>\<open>hashtab_replace\<close>: as in the source, the branch that adds a node does not touch \<open>nel\<close>.\<close>

fun chain_replace ::
  "('k \<Rightarrow> 'k \<Rightarrow> int) \<Rightarrow> 'k \<Rightarrow> 'd \<Rightarrow> ('k \<times> 'd) list \<Rightarrow> ('k \<times> 'd) option \<times> ('k \<times> 'd) list" where
  "chain_replace cmp key datum [] = (None, [(key, datum)])"
| "chain_replace cmp key datum ((k, d) # cur) =
     (if cmp key k > 0 then map_prod id ((#) (k, d)) (chain_replace cmp key datum cur)
      else if cmp key k = 0 then (Some (k, d), (key, datum) # cur)
      else (None, (key, datum) # (k, d) # cur))"

definition hashtab_replace ::
  "bool \<Rightarrow> ('k, 'd) hashtab option \<Rightarrow> 'k \<Rightarrow> 'd \<Rightarrow> int \<times> ('k \<times> 'd) option \<times> ('k, 'd) hashtab option" where
  "hashtab_replace mok ho key datum =
     (case ho of None \<Rightarrow> (SEPOL_ENOMEM, None, None)
      | Some h \<Rightarrow>
          let hv = hvalue h key in
          case chain_replace (keycmp h) key datum (htable h ! hv) of (old, ch) \<Rightarrow>
            if Option.is_none old \<and> \<not> mok then (SEPOL_ENOMEM, None, Some h)
            else (SEPOL_OK, old, Some (h\<lparr>htable := (htable h)[hv := ch]\<rparr>)))"

fun chain_search :: "('k \<Rightarrow> 'k \<Rightarrow> int) \<Rightarrow> 'k \<Rightarrow> ('k \<times> 'd) list \<Rightarrow> 'd option" where
  "chain_search cmp key [] = None"
| "chain_search cmp key ((k, d) # cur) =
     (if cmp key k > 0 then chain_search cmp key cur
      else if cmp key k \<noteq> 0 then None
      else Some d)"

definition hashtab_search :: "('k, 'd) hashtab option \<Rightarrow> 'k \<Rightarrow> 'd option" where
  "hashtab_search ho key =
     (case ho of None \<Rightarrow> None
      | Some h \<Rightarrow> chain_search (keycmp h) key (htable h ! hvalue h key))"

definition hashtab_destroy :: "('k, 'd) hashtab option \<Rightarrow> ('k, 'd) hashtab option" where
  "hashtab_destroy ho = None"

text \<open>The nodes in the order of \<open>hashtab_map\<close> and of the macro \<open>hashtab_for_each\<close>.\<close>

definition hashtab_nodes :: "('k, 'd) hashtab \<Rightarrow> ('k \<times> 'd) list" where
  "hashtab_nodes h = concat (htable h)"

fun map_nodes :: "('k \<Rightarrow> 'd \<Rightarrow> 's \<Rightarrow> int \<times> 's) \<Rightarrow> ('k \<times> 'd) list \<Rightarrow> 's \<Rightarrow> int \<times> 's" where
  "map_nodes apply [] s = (SEPOL_OK, s)"
| "map_nodes apply ((k, d) # cur) s =
     (case apply k d s of (ret, s') \<Rightarrow> if ret \<noteq> 0 then (ret, s') else map_nodes apply cur s')"

definition hashtab_map ::
  "('k \<Rightarrow> 'd \<Rightarrow> 's \<Rightarrow> int \<times> 's) \<Rightarrow> ('k, 'd) hashtab option \<Rightarrow> 's \<Rightarrow> int \<times> 's" where
  "hashtab_map apply ho s =
     (case ho of None \<Rightarrow> (SEPOL_OK, s) | Some h \<Rightarrow> map_nodes apply (hashtab_nodes h) s)"

text \<open>
  \<open>hashtab_map_remove_on_error\<close>: every node is visited, those for which \<open>apply\<close> fails are
  unlinked and handed to \<open>destroy\<close> (the list returned), and \<open>nel\<close> is counted down.
\<close>

fun chain_remove_on_error ::
  "('k \<Rightarrow> 'd \<Rightarrow> 's \<Rightarrow> int \<times> 's) \<Rightarrow> ('k \<times> 'd) list \<Rightarrow> 's \<Rightarrow> ('k \<times> 'd) list \<times> ('k \<times> 'd) list \<times> 's" where
  "chain_remove_on_error apply [] s = ([], [], s)"
| "chain_remove_on_error apply ((k, d) # cur) s =
     (case apply k d s of (ret, s1) \<Rightarrow>
      case chain_remove_on_error apply cur s1 of (gone, kept, s2) \<Rightarrow>
        if ret \<noteq> 0 then ((k, d) # gone, kept, s2) else (gone, (k, d) # kept, s2))"

fun buckets_remove_on_error ::
  "('k \<Rightarrow> 'd \<Rightarrow> 's \<Rightarrow> int \<times> 's) \<Rightarrow> ('k \<times> 'd) list list \<Rightarrow> 's \<Rightarrow>
     ('k \<times> 'd) list \<times> ('k \<times> 'd) list list \<times> 's" where
  "buckets_remove_on_error apply [] s = ([], [], s)"
| "buckets_remove_on_error apply (b # bs) s =
     (case chain_remove_on_error apply b s of (gone, kept, s1) \<Rightarrow>
      case buckets_remove_on_error apply bs s1 of (gones, keeps, s2) \<Rightarrow> (gone @ gones, kept # keeps, s2))"

definition hashtab_map_remove_on_error ::
  "('k \<Rightarrow> 'd \<Rightarrow> 's \<Rightarrow> int \<times> 's) \<Rightarrow> ('k, 'd) hashtab option \<Rightarrow> 's \<Rightarrow>
     ('k \<times> 'd) list \<times> ('k, 'd) hashtab option \<times> 's" where
  "hashtab_map_remove_on_error apply ho s =
     (case ho of None \<Rightarrow> ([], None, s)
      | Some h \<Rightarrow> case buckets_remove_on_error apply (htable h) s of (gone, bs, s') \<Rightarrow>
          (gone, Some (h\<lparr>htable := bs, nel := nel h - of_nat (length gone)\<rparr>), s'))"

text \<open>\<open>hashtab_hash_eval\<close>: entries, buckets used, buckets, longest chain (what is printed).\<close>

definition hashtab_hash_eval :: "('k, 'd) hashtab \<Rightarrow> u32 \<times> nat \<times> u32 \<times> nat" where
  "hashtab_hash_eval h =
     (nel h, length (filter (\<lambda>b. b \<noteq> []) (htable h)), hsize h,
      foldl (\<lambda>m b. if length b > m then length b else m) 0 (htable h))"

text \<open>Assignment through the datum pointer that \<open>hashtab_search\<close> returned.\<close>

definition hashtab_assign :: "('k, 'd) hashtab option \<Rightarrow> 'k \<Rightarrow> ('d \<Rightarrow> 'd) \<Rightarrow> ('k, 'd) hashtab option" where
  "hashtab_assign ho key f =
     map_option (\<lambda>h. h\<lparr>htable := map (map (\<lambda>(k, d). if keycmp h key k = 0 then (k, f d) else (k, d))) (htable h)\<rparr>) ho"

subsection \<open>Symbol tables\<close>

definition symhash_step :: "u32 \<Rightarrow> char \<Rightarrow> u32" where
  "symhash_step val p = (push_bit 4 val OR drop_bit 28 val) XOR of_char p"

definition symhash :: "u32 \<Rightarrow> string \<Rightarrow> u32" where
  "symhash sz key = foldl symhash_step 0 key AND (sz - 1)"

definition symcmp :: "string \<Rightarrow> string \<Rightarrow> int" where
  "symcmp key1 key2 = strcmp key1 key2"

record 'd symtab =
  table :: "(string, 'd) hashtab option"
  nprim :: u32

definition symtab_init :: "bool \<Rightarrow> 'd symtab \<Rightarrow> u32 \<Rightarrow> int \<times> 'd symtab" where
  "symtab_init mok s sz =
     (case hashtab_create mok symhash symcmp sz of
        None \<Rightarrow> (-1, s\<lparr>table := None\<rparr>)
      | Some h \<Rightarrow> (0, s\<lparr>table := Some h, nprim := 0\<rparr>))"

definition symtab_destroy :: "'d symtab option \<Rightarrow> 'd symtab option" where
  "symtab_destroy so =
     (case so of None \<Rightarrow> None
      | Some s \<Rightarrow> (case table s of None \<Rightarrow> Some s | Some h \<Rightarrow> Some (s\<lparr>table := hashtab_destroy (Some h)\<rparr>)))"

subsection \<open>Abstraction and invariant\<close>

definition hashtab_abs :: "('k, 'd) hashtab \<Rightarrow> 'k \<rightharpoonup> 'd" where
  "hashtab_abs h = map_of (hashtab_nodes h)"

definition chain_ok :: "('k \<Rightarrow> 'k \<Rightarrow> int) \<Rightarrow> ('k \<times> 'd) list \<Rightarrow> bool" where
  "chain_ok cmp ch \<longleftrightarrow> sorted_wrt (\<lambda>x y. cmp (fst y) (fst x) > 0) ch"

definition hashtab_wf :: "('k, 'd) hashtab \<Rightarrow> bool" where
  "hashtab_wf h \<longleftrightarrow> length (htable h) = unat (hsize h) \<and> (\<forall>key. hvalue h key < unat (hsize h)) \<and>
     (\<forall>i < length (htable h). chain_ok (keycmp h) (htable h ! i) \<and> (\<forall>x \<in> set (htable h ! i). hvalue h (fst x) = i))"

definition hashtab_on :: "('k \<Rightarrow> 'k \<Rightarrow> int) \<Rightarrow> ('k, 'd) hashtab \<Rightarrow> bool" where
  "hashtab_on cmp h \<longleftrightarrow> keycmp h = cmp \<and> hashtab_wf h"

definition hashtab_counted :: "('k, 'd) hashtab \<Rightarrow> bool" where
  "hashtab_counted h \<longleftrightarrow> nel h = of_nat (length (hashtab_nodes h))"

section \<open>Chains under a total key order\<close>

locale key_order =
  fixes cmp :: "'k \<Rightarrow> 'k \<Rightarrow> int"
  assumes cmp_eq [simp]: "cmp a b = 0 \<longleftrightarrow> a = b"
    and cmp_flip: "cmp a b < 0 \<longleftrightarrow> cmp b a > 0"
    and cmp_trans: "cmp a b > 0 \<Longrightarrow> cmp b c > 0 \<Longrightarrow> cmp a c > 0"
begin

lemma cmp_cases:
  obtains (gt) "cmp a b > 0" "a \<noteq> b" | (eq) "a = b" | (lt) "cmp b a > 0" "\<not> cmp a b > 0" "a \<noteq> b"
proof (cases "cmp a b > 0")
  case True
  then have "a \<noteq> b" by (metis cmp_eq less_irrefl)
  with True gt show ?thesis by blast
next
  case False
  then show ?thesis
    using eq lt cmp_flip[of a b] cmp_eq[of a b] by (metis linorder_neqE_linordered_idom)
qed

lemma cmp_self [simp]: "\<not> cmp a a > 0"
  by (metis cmp_eq less_irrefl)

lemma chain_ok_simps [simp]:
  "chain_ok cmp []"
  "chain_ok cmp (x # ch) \<longleftrightarrow> (\<forall>y \<in> set ch. cmp (fst y) (fst x) > 0) \<and> chain_ok cmp ch"
  by (auto simp: chain_ok_def)

lemma chain_above:
  "chain_ok cmp ((k, d) # ch) \<Longrightarrow> cmp k key > 0 \<Longrightarrow> \<forall>y \<in> set ((k, d) # ch). cmp (fst y) key > 0"
  by (auto dest: cmp_trans)

lemma below_chain: "chain_ok cmp ((k, d) # ch) \<Longrightarrow> cmp k key > 0 \<Longrightarrow> map_of ((k, d) # ch) key = None"
  by (auto simp: map_of_eq_None_iff dest: cmp_trans)

lemma chain_search_map_of: "chain_ok cmp ch \<Longrightarrow> chain_search cmp key ch = map_of ch key"
proof (induction ch)
  case (Cons x ch)
  obtain k d where x: "x = (k, d)" by (cases x)
  show ?case
  proof (cases key k rule: cmp_cases)
    case lt
    with Cons.prems x below_chain[of k d ch key] show ?thesis by simp
  qed (use Cons x in auto)
qed simp

lemma chain_insert_correct:
  assumes "chain_ok cmp ch"
  shows "case chain_insert cmp key datum ch of
      None \<Rightarrow> map_of ch key \<noteq> None
    | Some ch' \<Rightarrow> map_of ch key = None \<and> chain_ok cmp ch' \<and> map_of ch' = (map_of ch)(key \<mapsto> datum) \<and>
        set ch' = insert (key, datum) (set ch) \<and> length ch' = Suc (length ch)"
  using assms
proof (induction ch)
  case (Cons x ch)
  obtain k d where x: "x = (k, d)" by (cases x)
  show ?case
  proof (cases key k rule: cmp_cases)
    case gt
    with Cons x show ?thesis by (auto split: option.splits simp: fun_upd_twist)
  next
    case lt
    with Cons.prems x below_chain[of k d ch key] show ?thesis by (auto dest: cmp_trans)
  qed (use x in auto)
qed simp

lemma chain_remove_correct:
  assumes "chain_ok cmp ch"
  shows "case chain_remove cmp key ch of
      None \<Rightarrow> map_of ch key = None
    | Some (x, ch') \<Rightarrow> map_of ch key = Some (snd x) \<and> fst x = key \<and> chain_ok cmp ch' \<and>
        map_of ch' = (map_of ch)(key := None) \<and> set ch' \<subseteq> set ch \<and> Suc (length ch') = length ch"
  using assms
proof (induction ch)
  case (Cons x ch)
  obtain k d where x: "x = (k, d)" by (cases x)
  show ?case
  proof (cases key k rule: cmp_cases)
    case gt
    with Cons x show ?thesis by (auto split: option.splits simp: fun_upd_twist)
  next
    case eq
    with Cons.prems x have "map_of ch key = None" by (auto simp: map_of_eq_None_iff)
    with eq x Cons.prems show ?thesis by (auto simp: fun_eq_iff)
  next
    case lt
    with Cons.prems x below_chain[of k d ch key] show ?thesis by auto
  qed
qed simp

lemma chain_replace_correct:
  assumes "chain_ok cmp ch" and "chain_replace cmp key datum ch = (old, ch')"
  shows "map_option snd old = map_of ch key \<and> chain_ok cmp ch' \<and> map_of ch' = (map_of ch)(key \<mapsto> datum) \<and>
      fst ` set ch' = insert key (fst ` set ch) \<and>
      length ch' = (case old of None \<Rightarrow> Suc (length ch) | Some _ \<Rightarrow> length ch)"
  using assms
proof (induction ch arbitrary: old ch')
  case (Cons x ch)
  obtain k d where x: "x = (k, d)" by (cases x)
  obtain o1 c1 where rec: "chain_replace cmp key datum ch = (o1, c1)" by (metis surj_pair)
  show ?case
  proof (cases key k rule: cmp_cases)
    case gt
    with Cons.prems x rec have eq: "old = o1" "ch' = (k, d) # c1" by auto
    have IH: "map_option snd o1 = map_of ch key" "chain_ok cmp c1" "map_of c1 = (map_of ch)(key \<mapsto> datum)"
      "fst ` set c1 = insert key (fst ` set ch)" "length c1 = (case o1 of None \<Rightarrow> Suc (length ch) | Some _ \<Rightarrow> length ch)"
      using Cons.IH[OF _ rec] Cons.prems x by auto
    have "cmp (fst y) k > 0" if "y \<in> set c1" for y
    proof -
      from that IH(4) have "fst y \<in> insert key (fst ` set ch)" by blast
      with gt Cons.prems(1) x show ?thesis by auto
    qed
    with gt IH eq x show ?thesis by (auto simp: fun_upd_twist split: option.splits)
  next
    case eq
    with Cons.prems x show ?thesis by (auto simp: fun_eq_iff)
  next
    case lt
    with Cons.prems x below_chain[of k d ch key] chain_above[of k d ch key] show ?thesis by auto
  qed
qed auto

lemma chain_keys_distinct: "chain_ok cmp ch \<Longrightarrow> distinct (map fst ch)"
proof (induction ch)
  case (Cons x ch)
  then have "fst x \<notin> fst ` set ch" by auto
  with Cons show ?case by auto
qed simp

end

interpretation sym: key_order symcmp
proof
  fix a b c :: string
  show "symcmp a b = 0 \<longleftrightarrow> a = b" by (simp add: symcmp_def)
  show "symcmp a b < 0 \<longleftrightarrow> symcmp b a > 0" using strcmp_antisym[of b a] by (simp add: symcmp_def)
  show "symcmp a b > 0 \<Longrightarrow> symcmp b c > 0 \<Longrightarrow> symcmp a c > 0"
    unfolding symcmp_def by (rule strcmp_gt_trans)
qed

section \<open>Tables\<close>

text \<open>Association lists spread over buckets by a hash function \<open>hf\<close>.\<close>

definition bucketed :: "('k \<Rightarrow> nat) \<Rightarrow> ('k \<times> 'd) list list \<Rightarrow> bool" where
  "bucketed hf bs \<longleftrightarrow> (\<forall>k. hf k < length bs) \<and> (\<forall>i < length bs. \<forall>x \<in> set (bs ! i). hf (fst x) = i)"

lemma map_of_concat_other:
  "\<forall>b \<in> set bs. key \<notin> fst ` set b \<Longrightarrow> map_of (concat bs) key = None"
  by (force simp: map_of_eq_None_iff)

lemma bucketed_lookup:
  assumes "bucketed hf bs"
  shows "map_of (concat bs) key = map_of (bs ! hf key) key"
proof -
  let ?i = "hf key"
  have i: "?i < length bs" using assms by (simp add: bucketed_def)
  have other: "key \<notin> fst ` set (bs ! j)" if "j < length bs" "j \<noteq> ?i" for j
    using that assms by (force simp: bucketed_def)
  have "map_of (concat (take ?i bs)) key = None" "map_of (concat (drop (Suc ?i) bs)) key = None"
    using other i by (auto intro!: map_of_concat_other simp: set_conv_nth image_iff)
  then have "map_of (concat (take ?i bs @ bs ! ?i # drop (Suc ?i) bs)) key = map_of (bs ! ?i) key"
    by (simp add: map_add_def split: option.splits)
  with i show ?thesis by (simp add: id_take_nth_drop[symmetric])
qed

lemma bucketed_update:
  "bucketed hf bs \<Longrightarrow> \<forall>x \<in> set ch. hf (fst x) = i \<Longrightarrow> bucketed hf (bs[i := ch])"
  by (cases "i < length bs") (auto simp: bucketed_def nth_list_update split: if_splits)

lemma bucketed_map_of_update:
  assumes b: "bucketed hf bs" and hash: "\<forall>x \<in> set ch. hf (fst x) = hf key"
    and upd: "\<forall>k. k \<noteq> key \<longrightarrow> map_of ch k = map_of (bs ! hf key) k"
  shows "map_of (concat (bs[hf key := ch])) = (map_of (concat bs))(key := map_of ch key)"
proof (rule ext)
  fix k
  have "hf k < length bs" "hf key < length bs" using b by (auto simp: bucketed_def)
  then show "map_of (concat (bs[hf key := ch])) k = ((map_of (concat bs))(key := map_of ch key)) k"
    using bucketed_lookup[OF bucketed_update[OF b hash], of k] bucketed_lookup[OF b, of k] upd
    by (cases "hf k = hf key") auto
qed

lemma length_concat_update:
  assumes "i < length bs"
  shows "length (concat (bs[i := b])) + length (bs ! i) = length (concat bs) + length b"
proof -
  have split: "bs = take i bs @ bs ! i # drop (Suc i) bs"
    using assms by (simp add: id_take_nth_drop)
  have "bs[i := b] = take i bs @ b # drop (Suc i) bs"
    using assms by (simp add: upd_conv_take_nth_drop)
  moreover have "length (concat bs) =
      length (concat (take i bs)) + length (bs ! i) + length (concat (drop (Suc i) bs))"
    by (subst split) simp
  ultimately show ?thesis by simp
qed

lemma bucket_in_range: "hashtab_wf h \<Longrightarrow> hvalue h key < length (htable h)"
  by (simp add: hashtab_wf_def)

lemma bucket_hash: "hashtab_wf h \<Longrightarrow> i < length (htable h) \<Longrightarrow> x \<in> set (htable h ! i) \<Longrightarrow> hvalue h (fst x) = i"
  by (simp add: hashtab_wf_def)

lemma wf_bucketed: "hashtab_wf h \<Longrightarrow> bucketed (hvalue h) (htable h)"
  by (simp add: hashtab_wf_def bucketed_def)

lemma abs_bucket: "hashtab_wf h \<Longrightarrow> hashtab_abs h key = map_of (htable h ! hvalue h key) key"
  by (simp add: hashtab_abs_def hashtab_nodes_def bucketed_lookup[OF wf_bucketed])

lemma hvalue_upd [simp]: "hvalue (h\<lparr>htable := bs, nel := n\<rparr>) = hvalue h" "hvalue (h\<lparr>htable := bs\<rparr>) = hvalue h"
  by (simp_all add: hvalue_def fun_eq_iff)

text \<open>Replacing one bucket by a chain that hashes there changes the map at the key only.\<close>

lemma upd_bucket:
  assumes wf: "hashtab_wf h" and ok: "chain_ok (keycmp h) ch"
    and hash: "\<forall>x \<in> set ch. hvalue h (fst x) = hvalue h key"
    and upd: "\<forall>k. k \<noteq> key \<longrightarrow> map_of ch k = map_of (htable h ! hvalue h key) k"
  shows "hashtab_wf (h\<lparr>htable := (htable h)[hvalue h key := ch], nel := n\<rparr>)"
    and "hashtab_abs (h\<lparr>htable := (htable h)[hvalue h key := ch], nel := n\<rparr>) =
      (hashtab_abs h)(key := map_of ch key)"
proof -
  let ?bs = "(htable h)[hvalue h key := ch]"
  let ?h' = "h\<lparr>htable := ?bs, nel := n\<rparr>"
  show "hashtab_wf ?h'"
    unfolding hashtab_wf_def hvalue_upd using wf ok hash
    by (auto simp: nth_list_update hashtab_wf_def)
  show "hashtab_abs ?h' = (hashtab_abs h)(key := map_of ch key)"
    using bucketed_map_of_update[OF wf_bucketed[OF wf] hash upd]
    by (simp add: hashtab_abs_def hashtab_nodes_def)
qed

lemma counted_upd:
  assumes "hashtab_wf h" and "hashtab_counted h" and "n = nel h + of_nat (length ch) - of_nat (length (htable h ! hvalue h key))"
  shows "hashtab_counted (h\<lparr>htable := (htable h)[hvalue h key := ch], nel := n\<rparr>)"
proof -
  have "length (concat ((htable h)[hvalue h key := ch])) + length (htable h ! hvalue h key) =
      length (concat (htable h)) + length ch"
    using assms(1) by (intro length_concat_update bucket_in_range)
  then have "(of_nat (length (concat ((htable h)[hvalue h key := ch]))) :: u32) =
      of_nat (length (concat (htable h))) + of_nat (length ch) - of_nat (length (htable h ! hvalue h key))"
    by (metis add_diff_cancel_right' of_nat_add)
  with assms show ?thesis by (simp add: hashtab_counted_def hashtab_nodes_def)
qed

lemma create_correct:
  assumes "0 < sz" and "\<forall>key. hash sz key < sz"
  obtains h where "hashtab_create True hash cmp sz = Some h" and "hashtab_on cmp h"
    and "hashtab_abs h = Map.empty" and "hashtab_counted h"
proof (rule that)
  let ?h = "\<lparr>htable = replicate (unat sz) [], hsize = sz, nel = 0, hash_value = hash, keycmp = cmp\<rparr>"
  show "hashtab_create True hash cmp sz = Some ?h" by (simp add: hashtab_create_def)
  show "hashtab_on cmp ?h"
    using assms by (auto simp: hashtab_on_def hashtab_wf_def hvalue_def word_less_nat_alt chain_ok_def)
  have "concat (replicate n []) = []" for n by (induction n) auto
  then show "hashtab_abs ?h = Map.empty" "hashtab_counted ?h"
    by (simp_all add: hashtab_abs_def hashtab_counted_def hashtab_nodes_def)
qed

context key_order
begin

lemma on_chain_ok: "hashtab_on cmp h \<Longrightarrow> chain_ok cmp (htable h ! hvalue h key)"
  using bucket_in_range[of h key] by (auto simp: hashtab_on_def hashtab_wf_def)

lemma search_correct: "hashtab_on cmp h \<Longrightarrow> hashtab_search (Some h) key = hashtab_abs h key"
  using on_chain_ok[of h key] by (simp add: hashtab_search_def hashtab_on_def abs_bucket chain_search_map_of)

lemma insert_correct:
  assumes "hashtab_on cmp h"
  shows "case hashtab_abs h key of
      Some d \<Rightarrow> hashtab_insert True (Some h) key datum = (SEPOL_EEXIST, Some h)
    | None \<Rightarrow> \<exists>h'. hashtab_insert True (Some h) key datum = (SEPOL_OK, Some h') \<and> hashtab_on cmp h' \<and>
        hashtab_abs h' = (hashtab_abs h)(key \<mapsto> datum) \<and> (hashtab_counted h \<longrightarrow> hashtab_counted h') \<and>
        nel h' = nel h + 1 \<and> hsize h' = hsize h"
proof -
  let ?ch = "htable h ! hvalue h key"
  from assms have on: "keycmp h = cmp" "hashtab_wf h" by (auto simp: hashtab_on_def)
  note ins = chain_insert_correct[OF on_chain_ok[OF assms], of key key datum]
  show ?thesis
  proof (cases "chain_insert cmp key datum ?ch")
    case None
    with ins on show ?thesis by (auto simp: abs_bucket hashtab_insert_def split: option.splits)
  next
    case (Some ch')
    let ?h' = "h\<lparr>htable := (htable h)[hvalue h key := ch'], nel := nel h + 1\<rparr>"
    from ins Some have ch': "map_of ?ch key = None" "chain_ok cmp ch'" "map_of ch' = (map_of ?ch)(key \<mapsto> datum)"
      "set ch' = insert (key, datum) (set ?ch)" "length ch' = Suc (length ?ch)" by auto
    have hash: "\<forall>x \<in> set ch'. hvalue h (fst x) = hvalue h key"
      using ch'(4) bucket_hash[OF on(2) bucket_in_range[OF on(2)]] by auto
    have "hashtab_wf ?h'" "hashtab_abs ?h' = (hashtab_abs h)(key \<mapsto> datum)"
      using upd_bucket[OF on(2) _ hash, of "nel h + 1"] ch' on by auto
    moreover have "hashtab_counted h \<longrightarrow> hashtab_counted ?h'"
      using counted_upd[OF on(2), of "nel h + 1" ch' key] ch'(5) by simp
    moreover have "hashtab_insert True (Some h) key datum = (0, Some ?h')"
      using Some on by (simp add: hashtab_insert_def Let_def)
    ultimately show ?thesis using on ch'(1) by (simp add: abs_bucket hashtab_on_def)
  qed
qed

lemma remove_correct:
  assumes "hashtab_on cmp h"
  shows "case hashtab_abs h key of
      None \<Rightarrow> hashtab_remove (Some h) key = (SEPOL_ENOENT, None, Some h)
    | Some d \<Rightarrow> \<exists>h'. hashtab_remove (Some h) key = (SEPOL_OK, Some (key, d), Some h') \<and> hashtab_on cmp h' \<and>
        hashtab_abs h' = (hashtab_abs h)(key := None) \<and> (hashtab_counted h \<longrightarrow> hashtab_counted h')"
proof -
  let ?ch = "htable h ! hvalue h key"
  from assms have on: "keycmp h = cmp" "hashtab_wf h" by (auto simp: hashtab_on_def)
  note rem = chain_remove_correct[OF on_chain_ok[OF assms], of key key]
  show ?thesis
  proof (cases "chain_remove cmp key ?ch")
    case None
    with rem on show ?thesis by (auto simp: abs_bucket hashtab_remove_def)
  next
    case (Some r)
    obtain k d ch' where r: "r = ((k, d), ch')" by (metis surj_pair)
    let ?h' = "h\<lparr>htable := (htable h)[hvalue h key := ch'], nel := nel h - 1\<rparr>"
    from rem Some r have ch': "map_of ?ch key = Some d" "k = key" "chain_ok cmp ch'"
      "map_of ch' = (map_of ?ch)(key := None)" "set ch' \<subseteq> set ?ch" "Suc (length ch') = length ?ch" by auto
    have hash: "\<forall>x \<in> set ch'. hvalue h (fst x) = hvalue h key"
      using ch'(5) bucket_hash[OF on(2) bucket_in_range[OF on(2)]] by auto
    have "hashtab_wf ?h'" "hashtab_abs ?h' = (hashtab_abs h)(key := None)"
      using upd_bucket[OF on(2) _ hash, of "nel h - 1"] ch' on by auto
    moreover have "hashtab_counted h \<longrightarrow> hashtab_counted ?h'"
      using counted_upd[OF on(2), of "nel h - 1" ch' key] ch'(6)[symmetric] by simp
    moreover have "hashtab_remove (Some h) key = (0, Some (key, d), Some ?h')"
      using Some on r ch'(2) by (simp add: hashtab_remove_def Let_def)
    ultimately show ?thesis using on ch'(1) by (simp add: abs_bucket hashtab_on_def)
  qed
qed

lemma replace_correct:
  assumes "hashtab_on cmp h"
  obtains old h' where "hashtab_replace True (Some h) key datum = (SEPOL_OK, old, Some h')"
    and "map_option snd old = hashtab_abs h key" and "hashtab_on cmp h'"
    and "hashtab_abs h' = (hashtab_abs h)(key \<mapsto> datum)" and "nel h' = nel h"
    and "length (hashtab_nodes h') = length (hashtab_nodes h) + (if hashtab_abs h key = None then 1 else 0)"
proof -
  let ?ch = "htable h ! hvalue h key"
  from assms have on: "keycmp h = cmp" "hashtab_wf h" by (auto simp: hashtab_on_def)
  obtain old ch' where c: "chain_replace cmp key datum ?ch = (old, ch')" by (metis surj_pair)
  let ?h' = "h\<lparr>htable := (htable h)[hvalue h key := ch']\<rparr>"
  have nel: "?h' = h\<lparr>htable := (htable h)[hvalue h key := ch'], nel := nel h\<rparr>" by simp
  from chain_replace_correct[OF on_chain_ok[OF assms] c]
  have ch': "map_option snd old = map_of ?ch key" "chain_ok cmp ch'" "map_of ch' = (map_of ?ch)(key \<mapsto> datum)"
    "fst ` set ch' = insert key (fst ` set ?ch)"
    "length ch' = (case old of None \<Rightarrow> Suc (length ?ch) | Some _ \<Rightarrow> length ?ch)" by auto
  have "hvalue h k = hvalue h key" if "k \<in> fst ` set ch'" for k
    using that ch'(4) bucket_hash[OF on(2) bucket_in_range[OF on(2)]] by auto
  then have hash: "\<forall>x \<in> set ch'. hvalue h (fst x) = hvalue h key" by simp
  show ?thesis
  proof (rule that)
    show "hashtab_replace True (Some h) key datum = (0, old, Some ?h')"
      using on c by (simp add: hashtab_replace_def Let_def)
    show "map_option snd old = hashtab_abs h key" using ch'(1) on by (simp add: abs_bucket)
    show "hashtab_on cmp ?h'" "hashtab_abs ?h' = (hashtab_abs h)(key \<mapsto> datum)"
      using upd_bucket[OF on(2) _ hash, of "nel h"] ch' on by (auto simp: hashtab_on_def)
    show "length (hashtab_nodes ?h') = length (hashtab_nodes h) + (if hashtab_abs h key = None then 1 else 0)"
      using length_concat_update[OF bucket_in_range[OF on(2), of key], of ch'] ch'(1,5) on
      by (cases old) (simp_all add: hashtab_nodes_def abs_bucket, metis option.distinct(1))
  qed simp
qed

lemma map_of_assign:
  "map_of (map (\<lambda>(k, d). if cmp key k = 0 then (k, f d) else (k, d)) ch) = (map_of ch)(key := map_option f (map_of ch key))"
  by (induction ch) (auto simp: fun_eq_iff)

lemma assign_correct:
  assumes "hashtab_on cmp h"
  obtains h' where "hashtab_assign (Some h) key f = Some h'" and "hashtab_on cmp h'"
    and "hashtab_abs h' = (hashtab_abs h)(key := map_option f (hashtab_abs h key))" and "nel h' = nel h"
proof -
  from assms have on: "keycmp h = cmp" "hashtab_wf h" by (auto simp: hashtab_on_def)
  let ?g = "\<lambda>(k, d). if cmp key k = 0 then (k, f d) else (k, d)"
  let ?h' = "h\<lparr>htable := map (map ?g) (htable h)\<rparr>"
  have fst: "fst (?g x) = fst x" for x by (simp add: split_beta)
  have "chain_ok cmp (map ?g ch) \<longleftrightarrow> chain_ok cmp ch" for ch
    unfolding chain_ok_def sorted_wrt_map fst ..
  then have "hashtab_on cmp ?h'"
    using on unfolding hashtab_on_def hashtab_wf_def hvalue_upd by (auto simp: split_beta) (metis fst_conv)
  moreover have "hashtab_abs ?h' = (hashtab_abs h)(key := map_option f (hashtab_abs h key))"
    unfolding hashtab_abs_def hashtab_nodes_def by (simp add: map_concat[symmetric] map_of_assign[simplified])
  moreover have "hashtab_assign (Some h) key f = Some ?h'" using on by (simp add: hashtab_assign_def)
  ultimately show ?thesis using that by simp
qed

end

lemma symhash_less: "0 < sz \<Longrightarrow> symhash sz key < sz"
  unfolding symhash_def using word_and_le1[of "foldl symhash_step 0 key" "sz - 1"]
  by (rule le_less_trans) (simp add: word_less_nat_alt measure_unat word_neq_0_conv)

lemma symtab_init_correct:
  assumes "0 < sz"
  obtains h where "symtab_init True s sz = (0, s\<lparr>table := Some h, nprim := 0\<rparr>)" and "hashtab_on symcmp h"
    and "hashtab_abs h = Map.empty" and "hashtab_counted h"
proof -
  obtain h :: "(string, 'a) hashtab" where "hashtab_create True symhash symcmp sz = Some h" and "hashtab_on symcmp h"
    and "hashtab_abs h = Map.empty" and "hashtab_counted h"
    using create_correct[OF assms, of symhash symcmp] symhash_less[OF assms] by blast
  then show ?thesis using that by (simp add: symtab_init_def)
qed

text \<open>\<open>hashtab_replace\<close> on a missing key adds an element without counting it.\<close>

lemma replace_miscounts:
  assumes "hashtab_on symcmp h" and "hashtab_counted h" and "hashtab_search (Some h) key = None"
    and "length (hashtab_nodes h) < 4294967295"
  shows "\<exists>h'. hashtab_replace True (Some h) key datum = (SEPOL_OK, None, Some h') \<and> hashtab_search (Some h') key = Some datum \<and>
    nel h' = nel h \<and> length (hashtab_nodes h') = length (hashtab_nodes h) + 1 \<and> \<not> hashtab_counted h'"
proof (rule sym.replace_correct[OF assms(1), of key datum])
  fix old h'
  assume r: "hashtab_replace True (Some h) key datum = (SEPOL_OK, old, Some h')" "map_option snd old = hashtab_abs h key"
    "hashtab_on symcmp h'" "hashtab_abs h' = (hashtab_abs h)(key \<mapsto> datum)" "nel h' = nel h"
    "length (hashtab_nodes h') = length (hashtab_nodes h) + (if hashtab_abs h key = None then 1 else 0)"
  have none: "hashtab_abs h key = None" using assms(3) sym.search_correct[OF assms(1)] by simp
  have "(of_nat (length (hashtab_nodes h)) :: u32) \<noteq> of_nat (length (hashtab_nodes h)) + 1" by simp
  then have "\<not> hashtab_counted h'" using assms(2) r(5,6) none by (simp add: hashtab_counted_def add.commute)
  with r none show ?thesis using sym.search_correct[OF r(3)] by simp
qed

end
