(* ===== verification/PolicyFile.thy ===== *)
theory PolicyFile
  imports Prelude
begin

text \<open>
  The policy "file" of libsepol (\<^verbatim>\<open>struct policy_file\<close>, \<open>next_entry\<close> and \<open>put_entry\<close> in
  \<^verbatim>\<open>src/jni/selinux/libsepol/src/services.c\<close>) in the two modes the policy patcher uses:
  \<open>PF_USE_MEMORY\<close>, a buffer of which \<open>data\<close>/\<open>len\<close> describe what is left, and \<open>PF_LEN\<close>,
  which only counts. A buffer being read is the list of its remaining bytes; a buffer being
  written is what has been written and the room that is left.
\<close>

section \<open>Definitions\<close>

datatype pf_mode = PF_USE_MEMORY | PF_LEN

record pf_out =
  pf_type :: pf_mode
  pf_data :: "u8 list"
  pf_len :: nat

text \<open>\<open>next_entry\<close>: return code, the bytes copied to the caller's buffer, what is left.\<close>

definition next_entry :: "u8 list \<Rightarrow> nat \<Rightarrow> int \<times> u8 list \<times> u8 list" where
  "next_entry fp bytes =
     (if bytes > length fp then (-1, [], fp) else (0, take bytes fp, drop bytes fp))"

text \<open>\<open>put_entry(ptr, size, n, fp)\<close> with the bytes at \<open>ptr\<close> given; the number of items put.\<close>

definition put_entry :: "u8 list \<Rightarrow> nat \<Rightarrow> nat \<Rightarrow> pf_out \<Rightarrow> nat \<times> pf_out" where
  "put_entry ptr sz n fp =
     (let bytes = sz * n in
      case pf_type fp of
        PF_USE_MEMORY \<Rightarrow>
          if bytes > pf_len fp then (0, fp)
          else (n, fp\<lparr>pf_data := pf_data fp @ take bytes ptr, pf_len := pf_len fp - bytes\<rparr>)
      | PF_LEN \<Rightarrow> (n, fp\<lparr>pf_len := pf_len fp + bytes\<rparr>))"

section \<open>Lemmas\<close>

lemma next_entry_append [simp]:
  "length xs = n \<Longrightarrow> next_entry (xs @ ys) n = (0, xs, ys)"
  by (simp add: next_entry_def)

lemma next_entry_short: "length fp < n \<Longrightarrow> next_entry fp n = (-1, [], fp)"
  by (simp add: next_entry_def)

lemma put_entry_memory [simp]:
  "pf_type fp = PF_USE_MEMORY \<Longrightarrow> length ptr = sz * n \<Longrightarrow> sz * n \<le> pf_len fp \<Longrightarrow>
     put_entry ptr sz n fp =
       (n, fp\<lparr>pf_data := pf_data fp @ ptr, pf_len := pf_len fp - sz * n\<rparr>)"
  by (simp add: put_entry_def)

lemma put_entry_full:
  "pf_type fp = PF_USE_MEMORY \<Longrightarrow> pf_len fp < sz * n \<Longrightarrow> put_entry ptr sz n fp = (0, fp)"
  by (simp add: put_entry_def)

end
