(* ===== verification/Avtab.thy ===== *)
theory Avtab
  imports Hashtab PolicyFile
begin

text \<open>
  The access vector table of libsepol (\<^verbatim>\<open>libsepol/src/avtab.c\<close>, \<^verbatim>\<open>policydb/avtab.h\<close>): the
  hash table that holds every type-enforcement rule of a policy, and that the policy patcher
  edits. A key is three 16-bit values and a bit mask \<open>specified\<close>; two keys match when the
  values agree and the masks overlap. A node pointer is the suffix of its chain that starts at
  the node, so \<open>next\<close> is the tail.

  The flag \<open>mok\<close> tells whether allocation succeeds. Laws are stated against the partial map
  \<open>avtab_abs\<close> from a rule's identity (source, target, class, kind of rule) to its datum.
\<close>

section \<open>Definitions\<close>

abbreviation (input) AVTAB_ALLOWED :: u16 where "AVTAB_ALLOWED \<equiv> 0x0001"
abbreviation (input) AVTAB_AUDITALLOW :: u16 where "AVTAB_AUDITALLOW \<equiv> 0x0002"
abbreviation (input) AVTAB_AUDITDENY :: u16 where "AVTAB_AUDITDENY \<equiv> 0x0004"
abbreviation (input) AVTAB_AV :: u16 where "AVTAB_AV \<equiv> 0x0007"
abbreviation (input) AVTAB_TRANSITION :: u16 where "AVTAB_TRANSITION \<equiv> 0x0010"
abbreviation (input) AVTAB_MEMBER :: u16 where "AVTAB_MEMBER \<equiv> 0x0020"
abbreviation (input) AVTAB_CHANGE :: u16 where "AVTAB_CHANGE \<equiv> 0x0040"
abbreviation (input) AVTAB_TYPE :: u16 where "AVTAB_TYPE \<equiv> 0x0070"
abbreviation (input) AVTAB_XPERMS_ALLOWED :: u16 where "AVTAB_XPERMS_ALLOWED \<equiv> 0x0100"
abbreviation (input) AVTAB_XPERMS_AUDITALLOW :: u16 where "AVTAB_XPERMS_AUDITALLOW \<equiv> 0x0200"
abbreviation (input) AVTAB_XPERMS_DONTAUDIT :: u16 where "AVTAB_XPERMS_DONTAUDIT \<equiv> 0x0400"
abbreviation (input) AVTAB_XPERMS :: u16 where "AVTAB_XPERMS \<equiv> 0x0700"
abbreviation (input) AVTAB_ENABLED :: u16 where "AVTAB_ENABLED \<equiv> 0x8000"
abbreviation (input) AVTAB_ENABLED_OLD :: u32 where "AVTAB_ENABLED_OLD \<equiv> 0x80000000"
abbreviation (input) AVTAB_OPTYPE :: u16 where "AVTAB_OPTYPE \<equiv> 0x7000"
abbreviation (input) AVTAB_XPERMS_IOCTLFUNCTION :: u8 where "AVTAB_XPERMS_IOCTLFUNCTION \<equiv> 1"
abbreviation (input) AVTAB_XPERMS_IOCTLDRIVER :: u8 where "AVTAB_XPERMS_IOCTLDRIVER \<equiv> 2"
abbreviation (input) MAX_AVTAB_HASH_BUCKETS :: u32 where "MAX_AVTAB_HASH_BUCKETS \<equiv> 1048576"
abbreviation (input) POLICYDB_VERSION_AVTAB :: u32 where "POLICYDB_VERSION_AVTAB \<equiv> 20"
abbreviation (input) POLICYDB_VERSION_XPERMS_IOCTL :: u32 where "POLICYDB_VERSION_XPERMS_IOCTL \<equiv> 30"

record avtab_key =
  source_type :: u16
  target_type :: u16
  target_class :: u16
  specified :: u16

record avtab_extended_perms =
  xp_specified :: u8
  xp_driver :: u8
  xp_perms :: "u32 list"

record avtab_datum =
  av_data :: u32
  av_xperms :: "avtab_extended_perms option"

type_synonym avtab_node = "avtab_key \<times> avtab_datum"

record avtab =
  av_htable :: "avtab_node list list option"
  av_nel :: u32
  av_nslot :: u32
  av_mask :: u32

definition zero_xperms :: avtab_extended_perms where
  "zero_xperms = \<lparr>xp_specified = 0, xp_driver = 0, xp_perms = replicate 8 0\<rparr>"

definition zero_datum :: avtab_datum where
  "zero_datum = \<lparr>av_data = 0, av_xperms = None\<rparr>"

subsection \<open>Hashing\<close>

definition rotl32 :: "nat \<Rightarrow> u32 \<Rightarrow> u32" where
  "rotl32 r v = push_bit r v OR drop_bit (32 - r) v"

definition avtab_mix :: "u32 \<Rightarrow> u32 \<Rightarrow> u32" where
  "avtab_mix hash input =
     (let v = rotl32 15 (input * 0xcc9e2d51) * 0x1b873593 in
      rotl32 13 (hash XOR v) * 5 + 0xe6546b64)"

definition avtab_hash :: "avtab_key \<Rightarrow> u32 \<Rightarrow> u32" where
  "avtab_hash keyp msk =
     (let hash = avtab_mix (avtab_mix (avtab_mix 0 (ucast (target_class keyp)))
                   (ucast (target_type keyp))) (ucast (source_type keyp));
          hash = (hash XOR drop_bit 16 hash) * 0x85ebca6b;
          hash = (hash XOR drop_bit 13 hash) * 0xc2b2ae35;
          hash = hash XOR drop_bit 16 hash
      in hash AND msk)"

subsection \<open>Insertion and search\<close>

text \<open>The tests the loops over a chain make on each node.\<close>

definition same_types :: "avtab_key \<Rightarrow> avtab_key \<Rightarrow> bool" where
  "same_types key cur \<longleftrightarrow> source_type key = source_type cur \<and> target_type key = target_type cur \<and>
     target_class key = target_class cur"

definition key_match :: "avtab_key \<Rightarrow> u16 \<Rightarrow> avtab_key \<Rightarrow> bool" where
  "key_match key sp cur \<longleftrightarrow> same_types key cur \<and> sp AND specified cur \<noteq> 0"

definition key_before :: "avtab_key \<Rightarrow> avtab_key \<Rightarrow> bool" where
  "key_before key cur \<longleftrightarrow> source_type key < source_type cur
     \<or> source_type key = source_type cur \<and> target_type key < target_type cur
     \<or> source_type key = source_type cur \<and> target_type key = target_type cur \<and> target_class key < target_class cur"

definition mask_enabled :: "u16 \<Rightarrow> u16" where
  "mask_enabled sp = ucast ((ucast sp :: u32) AND NOT (ucast AVTAB_ENABLED OR AVTAB_ENABLED_OLD))"

text \<open>What \<open>avtab_insert_node\<close> puts into the new node.\<close>

definition new_datum :: "avtab_key \<Rightarrow> avtab_datum \<Rightarrow> avtab_datum" where
  "new_datum key datum =
     (if specified key AND AVTAB_XPERMS \<noteq> 0
      then \<lparr>av_data = av_data datum,
            av_xperms = Some (case av_xperms datum of Some x \<Rightarrow> x | None \<Rightarrow> zero_xperms)\<rparr>
      else datum)"

text \<open>
  \<open>avtab_insert_node\<close>: the chain is given as the nodes up to and including \<open>prev\<close> and the
  rest. The new node goes in between.
\<close>

definition avtab_insert_node ::
  "bool \<Rightarrow> avtab \<Rightarrow> nat \<Rightarrow> avtab_node list \<Rightarrow> avtab_node list \<Rightarrow> avtab_key \<Rightarrow> avtab_datum \<Rightarrow> avtab option" where
  "avtab_insert_node mok h hv pre rest key datum =
     (if \<not> mok then None
      else Some (h\<lparr>av_htable := map_option (\<lambda>bs. bs[hv := pre @ (key, new_datum key datum) # rest]) (av_htable h),
                   av_nel := av_nel h + 1\<rparr>))"

text \<open>Where \<open>avtab_insert\<close> stops: before a chain suffix, or at an entry that already exists.\<close>

datatype stop = Exists | At "avtab_node list" "avtab_node list"

fun insert_stop :: "avtab_key \<Rightarrow> u16 \<Rightarrow> avtab_node list \<Rightarrow> avtab_node list \<Rightarrow> stop" where
  "insert_stop key sp pre [] = At pre []"
| "insert_stop key sp pre (x # cur) =
     (if key_match key sp (fst x) then
        (if sp AND AVTAB_XPERMS \<noteq> 0 then At pre (x # cur) else Exists)
      else if key_before key (fst x) then At pre (x # cur)
      else insert_stop key sp (pre @ [x]) cur)"

definition avtab_insert :: "bool \<Rightarrow> avtab option \<Rightarrow> avtab_key \<Rightarrow> avtab_datum \<Rightarrow> int \<times> avtab option" where
  "avtab_insert mok ho key datum =
     (case ho of None \<Rightarrow> (SEPOL_ENOMEM, None)
      | Some h \<Rightarrow> (case av_htable h of None \<Rightarrow> (SEPOL_ENOMEM, Some h)
        | Some bs \<Rightarrow>
            let hv = unat (avtab_hash key (av_mask h)) in
            case insert_stop key (mask_enabled (specified key)) [] (bs ! hv) of
              Exists \<Rightarrow> (SEPOL_EEXIST, Some h)
            | At pre rest \<Rightarrow>
                (case avtab_insert_node mok h hv pre rest key datum of
                   None \<Rightarrow> (SEPOL_ENOMEM, Some h)
                 | Some h' \<Rightarrow> (0, Some h'))))"

fun nonunique_stop :: "avtab_key \<Rightarrow> u16 \<Rightarrow> avtab_node list \<Rightarrow> avtab_node list \<Rightarrow> avtab_node list \<times> avtab_node list" where
  "nonunique_stop key sp pre [] = (pre, [])"
| "nonunique_stop key sp pre (x # cur) =
     (if key_match key sp (fst x) then (pre, x # cur)
      else if key_before key (fst x) then (pre, x # cur)
      else nonunique_stop key sp (pre @ [x]) cur)"

text \<open>\<open>avtab_insert_nonunique\<close>: the node inserted (a chain suffix), and the table.\<close>

definition avtab_insert_nonunique ::
  "bool \<Rightarrow> avtab option \<Rightarrow> avtab_key \<Rightarrow> avtab_datum \<Rightarrow> avtab_node list \<times> avtab option" where
  "avtab_insert_nonunique mok ho key datum =
     (case ho of None \<Rightarrow> ([], None)
      | Some h \<Rightarrow> (case av_htable h of None \<Rightarrow> ([], Some h)
        | Some bs \<Rightarrow>
            let hv = unat (avtab_hash key (av_mask h)) in
            case nonunique_stop key (mask_enabled (specified key)) [] (bs ! hv) of (pre, rest) \<Rightarrow>
              (case avtab_insert_node mok h hv pre rest key datum of
                 None \<Rightarrow> ([], Some h)
               | Some h' \<Rightarrow> ((key, new_datum key datum) # rest, Some h'))))"

text \<open>The search loop; the result is the suffix that starts at the node found, \<open>[]\<close> for NULL.\<close>

fun chain_find :: "avtab_key \<Rightarrow> u16 \<Rightarrow> avtab_node list \<Rightarrow> avtab_node list" where
  "chain_find key sp [] = []"
| "chain_find key sp (x # cur) =
     (if key_match key sp (fst x) then x # cur
      else if key_before key (fst x) then []
      else chain_find key sp cur)"

definition avtab_search_node :: "avtab option \<Rightarrow> avtab_key \<Rightarrow> avtab_node list" where
  "avtab_search_node ho key =
     (case ho of None \<Rightarrow> []
      | Some h \<Rightarrow> (case av_htable h of None \<Rightarrow> []
        | Some bs \<Rightarrow> chain_find key (mask_enabled (specified key)) (bs ! unat (avtab_hash key (av_mask h)))))"

definition avtab_search :: "avtab option \<Rightarrow> avtab_key \<Rightarrow> avtab_datum option" where
  "avtab_search ho key =
     (case avtab_search_node ho key of [] \<Rightarrow> None | (k, d) # _ \<Rightarrow> Some d)"

definition avtab_search_node_next :: "avtab_node list \<Rightarrow> u16 \<Rightarrow> avtab_node list" where
  "avtab_search_node_next node sp =
     (case node of [] \<Rightarrow> [] | (k, d) # nxt \<Rightarrow> chain_find k (mask_enabled sp) nxt)"

text \<open>Assignment through the datum pointer that \<open>avtab_search\<close> returned.\<close>

fun chain_assign :: "avtab_key \<Rightarrow> u16 \<Rightarrow> (avtab_datum \<Rightarrow> avtab_datum) \<Rightarrow> avtab_node list \<Rightarrow> avtab_node list" where
  "chain_assign key sp f [] = []"
| "chain_assign key sp f (x # cur) =
     (if key_match key sp (fst x) then (fst x, f (snd x)) # cur
      else if key_before key (fst x) then x # cur
      else x # chain_assign key sp f cur)"

definition avtab_assign :: "avtab \<Rightarrow> avtab_key \<Rightarrow> (avtab_datum \<Rightarrow> avtab_datum) \<Rightarrow> avtab" where
  "avtab_assign h key f =
     (let hv = unat (avtab_hash key (av_mask h)) in
      h\<lparr>av_htable := map_option
          (\<lambda>bs. bs[hv := chain_assign key (mask_enabled (specified key)) f (bs ! hv)]) (av_htable h)\<rparr>)"

subsection \<open>Creation, traversal, destruction\<close>

definition avtab_init :: "avtab \<Rightarrow> int \<times> avtab" where
  "avtab_init h = (0, h\<lparr>av_htable := None, av_nel := 0\<rparr>)"

text \<open>The loop \<^verbatim>\<open>while (work) { work = work >> 1; shift++; }\<close>.\<close>

function alloc_shift :: "u32 \<Rightarrow> nat \<Rightarrow> nat" where
  "alloc_shift work shift = (if work \<noteq> 0 then alloc_shift (drop_bit 1 work) (shift + 1) else shift)"
  by auto
termination
  by (relation "measure (\<lambda>(work, _). unat work)") (auto simp: unat_drop_bit_eq drop_bit_nat_def unat_eq_zero Suc_le_eq unat_gt_0)

definition avtab_alloc :: "bool \<Rightarrow> avtab \<Rightarrow> u32 \<Rightarrow> int \<times> avtab" where
  "avtab_alloc mok h nrules =
     (if nrules = 0 then (0, h\<lparr>av_nel := 0, av_nslot := 0, av_mask := 0\<rparr>)
      else
        let shift = alloc_shift nrules 0;
            shift = if shift > 2 then shift - 2 else shift;
            nslot = push_bit shift 1;
            nslot = if nslot > MAX_AVTAB_HASH_BUCKETS then MAX_AVTAB_HASH_BUCKETS else nslot;
            msk = nslot - 1
        in if \<not> mok then (-1, h\<lparr>av_htable := None\<rparr>)
           else (0, h\<lparr>av_htable := Some (replicate (unat nslot) []), av_nel := 0, av_nslot := nslot, av_mask := msk\<rparr>))"

definition avtab_destroy :: "avtab \<Rightarrow> avtab" where
  "avtab_destroy h =
     (case av_htable h of None \<Rightarrow> h
      | Some _ \<Rightarrow> h\<lparr>av_htable := None, av_nslot := 0, av_mask := 0\<rparr>)"

definition avtab_nodes :: "avtab \<Rightarrow> avtab_node list" where
  "avtab_nodes h = (case av_htable h of None \<Rightarrow> [] | Some bs \<Rightarrow> concat (take (unat (av_nslot h)) bs))"

definition avtab_map ::
  "(avtab_key \<Rightarrow> avtab_datum \<Rightarrow> 's \<Rightarrow> int \<times> 's) \<Rightarrow> avtab option \<Rightarrow> 's \<Rightarrow> int \<times> 's" where
  "avtab_map apply ho s = (case ho of None \<Rightarrow> (0, s) | Some h \<Rightarrow> map_nodes apply (avtab_nodes h) s)"

text \<open>\<open>avtab_hash_eval\<close>: entries, slots used, slots, longest chain (what is printed).\<close>

definition avtab_hash_eval :: "avtab \<Rightarrow> u32 \<times> nat \<times> u32 \<times> nat" where
  "avtab_hash_eval h =
     (let bs = (case av_htable h of None \<Rightarrow> [] | Some bs \<Rightarrow> take (unat (av_nslot h)) bs) in
      (av_nel h, length (filter (\<lambda>b. b \<noteq> []) bs), av_nslot h,
       foldl (\<lambda>m b. if length b > m then length b else m) 0 bs))"

subsection \<open>Abstraction and invariant\<close>

text \<open>The kinds of rule, in the order of the policy file.\<close>

definition spec_order :: "u16 list" where
  "spec_order = [AVTAB_ALLOWED, AVTAB_AUDITDENY, AVTAB_AUDITALLOW, AVTAB_TRANSITION, AVTAB_CHANGE,
     AVTAB_MEMBER, AVTAB_XPERMS_ALLOWED, AVTAB_XPERMS_AUDITALLOW, AVTAB_XPERMS_DONTAUDIT]"

definition av_kind :: "u16 \<Rightarrow> u16" where
  "av_kind sp = sp AND (AVTAB_AV OR AVTAB_TYPE OR AVTAB_XPERMS)"

type_synonym rule_id = "u16 \<times> u16 \<times> u16 \<times> u16"

definition av_id :: "avtab_key \<Rightarrow> rule_id" where
  "av_id k = (source_type k, target_type k, target_class k, av_kind (specified k))"

definition single_kind :: "avtab_key \<Rightarrow> bool" where
  "single_kind k \<longleftrightarrow> av_kind (specified k) \<in> set spec_order"

definition plain_key :: "avtab_key \<Rightarrow> bool" where
  "plain_key k \<longleftrightarrow> specified k \<in> set spec_order"

definition av_assoc :: "avtab_node list \<Rightarrow> (rule_id \<times> avtab_datum) list" where
  "av_assoc ch = map (map_prod av_id id) ch"

definition avtab_abs :: "avtab \<Rightarrow> rule_id \<rightharpoonup> avtab_datum" where
  "avtab_abs h = map_of (concat (map av_assoc (case av_htable h of None \<Rightarrow> [] | Some bs \<Rightarrow> bs)))"

definition av_chain_ok :: "avtab_node list \<Rightarrow> bool" where
  "av_chain_ok ch \<longleftrightarrow> sorted_wrt (\<lambda>x y. \<not> key_before (fst y) (fst x)) ch \<and> (\<forall>x \<in> set ch. plain_key (fst x))"

definition id_bucket :: "u32 \<Rightarrow> rule_id \<Rightarrow> nat" where
  "id_bucket m r = (case r of (s, t, c, k) \<Rightarrow>
     unat (avtab_hash \<lparr>source_type = s, target_type = t, target_class = c, specified = k\<rparr> m))"

definition avtab_wf :: "avtab \<Rightarrow> bool" where
  "avtab_wf h \<longleftrightarrow> (case av_htable h of None \<Rightarrow> False
     | Some bs \<Rightarrow> length bs = unat (av_nslot h) \<and> av_mask h < av_nslot h \<and>
         (\<forall>i < length bs. av_chain_ok (bs ! i) \<and> (\<forall>x \<in> set (bs ! i). id_bucket (av_mask h) (av_id (fst x)) = i)))"

section \<open>Chains\<close>

lemma key_before_cong:
  "same_types a b \<Longrightarrow> key_before a c \<longleftrightarrow> key_before b c"
  "same_types a b \<Longrightarrow> key_before c a \<longleftrightarrow> key_before c b"
  by (auto simp: same_types_def key_before_def)

lemma key_before_trans: "key_before a b \<Longrightarrow> key_before b c \<Longrightarrow> key_before a c"
  by (auto simp: key_before_def)

lemma kind_hit:
  assumes "b \<in> set spec_order" and "av_kind sp \<in> set spec_order"
  shows "mask_enabled b AND sp \<noteq> 0 \<longleftrightarrow> b = av_kind sp"
proof -
  have b: "mask_enabled b = b" "b AND (AVTAB_AV OR AVTAB_TYPE OR AVTAB_XPERMS) = b"
    using assms(1) unfolding spec_order_def mask_enabled_def by auto
  have "b AND av_kind sp = (b AND (AVTAB_AV OR AVTAB_TYPE OR AVTAB_XPERMS)) AND sp"
    unfolding av_kind_def by (simp only: and.commute[of sp] and.assoc)
  then have "mask_enabled b AND sp = b AND av_kind sp" by (simp only: b)
  moreover have "b AND c \<noteq> 0 \<longleftrightarrow> b = c" if "c \<in> set spec_order" for c
    using assms(1) that unfolding spec_order_def by auto
  ultimately show ?thesis using assms(2) by simp
qed

lemma plain_kind [simp]: "plain_key k \<Longrightarrow> av_kind (specified k) = specified k"
  by (auto simp: plain_key_def spec_order_def av_kind_def)

lemma plain_single [simp]: "plain_key k \<Longrightarrow> single_kind k"
  by (metis plain_key_def plain_kind single_kind_def)

lemma match_iff:
  assumes "plain_key key" and "single_kind cur"
  shows "key_match key (mask_enabled (specified key)) cur \<longleftrightarrow> av_id cur = av_id key"
proof -
  have "mask_enabled (specified key) AND specified cur \<noteq> 0 \<longleftrightarrow> specified key = av_kind (specified cur)"
    using assms by (intro kind_hit) (auto simp: plain_key_def single_kind_def)
  then show ?thesis
    unfolding key_match_def same_types_def av_id_def plain_kind[OF assms(1)] prod.inject by metis
qed

lemma id_same_types: "av_id a = av_id b \<Longrightarrow> same_types a b"
  by (simp add: av_id_def same_types_def)

lemma av_chain_ok_simps [simp]:
  "av_chain_ok []"
  "av_chain_ok (x # ch) \<longleftrightarrow> (\<forall>y \<in> set ch. \<not> key_before (fst y) (fst x)) \<and> plain_key (fst x) \<and> av_chain_ok ch"
  by (auto simp: av_chain_ok_def)

lemma av_assoc_simps [simp]:
  "av_assoc [] = []" "av_assoc (x # ch) = (av_id (fst x), snd x) # av_assoc ch"
  "av_assoc (a @ b) = av_assoc a @ av_assoc b" "fst ` set (av_assoc ch) = (av_id \<circ> fst) ` set ch"
  by (auto simp: av_assoc_def map_prod_def split_beta image_image)

lemma before_none:
  assumes "av_chain_ok (x # ch)" and "key_before key (fst x)" and "\<not> av_id (fst x) = av_id key"
  shows "map_of (av_assoc (x # ch)) (av_id key) = None"
proof -
  have "av_id key \<notin> (\<lambda>y. av_id (fst y)) ` set ch"
  proof
    assume "av_id key \<in> (\<lambda>y. av_id (fst y)) ` set ch"
    then obtain y where y: "y \<in> set ch" "av_id key = av_id (fst y)" by blast
    with assms(1,2) key_before_cong(1)[OF id_same_types[OF y(2)], of "fst x"] show False by simp
  qed
  then have "av_id key \<notin> fst ` set (av_assoc (x # ch))" using assms(3)
    by (simp add: comp_def)
  then show ?thesis by (simp add: map_of_eq_None_iff)
qed

lemma chain_find_correct:
  "plain_key key \<Longrightarrow> av_chain_ok ch \<Longrightarrow>
   (case chain_find key (mask_enabled (specified key)) ch of [] \<Rightarrow> None | x # _ \<Rightarrow> Some (snd x)) =
     map_of (av_assoc ch) (av_id key)"
proof (induction ch)
  case (Cons x ch)
  then show ?case using match_iff[OF Cons.prems(1), of "fst x"] before_none[OF Cons.prems(2), of key]
    by (auto simp del: av_assoc_simps(2)) auto
qed simp

text \<open>Where the insertion loop stops: the scanned prefix holds no match and nothing above the key.\<close>

lemma insert_stop_At:
  assumes "insert_stop key sp pre ch = At a b"
  obtains m where "a = pre @ m" "ch = m @ b" "\<forall>x \<in> set m. \<not> key_match key sp (fst x) \<and> \<not> key_before key (fst x)"
    and "b = [] \<or> key_before key (fst (hd b)) \<or> (key_match key sp (fst (hd b)) \<and> sp AND AVTAB_XPERMS \<noteq> 0)"
  using assms
proof (induction key sp pre ch arbitrary: thesis rule: insert_stop.induct)
  case (2 key sp pre x cur)
  show ?case
  proof (cases "key_match key sp (fst x) \<or> key_before key (fst x)")
    case True
    with 2(3) have "a = pre @ []" "x # cur = [] @ b" and
      "b = [] \<or> key_before key (fst (hd b)) \<or> (key_match key sp (fst (hd b)) \<and> sp AND AVTAB_XPERMS \<noteq> 0)"
      by (auto split: if_splits)
    then show ?thesis by (intro 2(2)[of "[]"]) auto
  next
    case False
    with 2(3) have rec: "insert_stop key sp (pre @ [x]) cur = At a b" by simp
    show ?thesis
    proof (rule 2(1)[OF _ _ _ rec])
      fix m
      assume "a = (pre @ [x]) @ m" "cur = m @ b" "\<forall>x \<in> set m. \<not> key_match key sp (fst x) \<and> \<not> key_before key (fst x)"
        "b = [] \<or> key_before key (fst (hd b)) \<or> (key_match key sp (fst (hd b)) \<and> sp AND AVTAB_XPERMS \<noteq> 0)"
      then show thesis using False by (intro 2(2)[of "x # m"]) auto
    qed (use False in auto)
  qed
qed simp

lemma insert_stop_Exists:
  "plain_key key \<Longrightarrow> av_chain_ok ch \<Longrightarrow>
   insert_stop key (mask_enabled (specified key)) pre ch = Exists \<longleftrightarrow>
     mask_enabled (specified key) AND AVTAB_XPERMS = 0 \<and> map_of (av_assoc ch) (av_id key) \<noteq> None"
proof (induction ch arbitrary: pre)
  case (Cons x ch)
  then show ?case using match_iff[OF Cons.prems(1), of "fst x"] before_none[OF Cons.prems(2), of key]
    by (auto simp del: av_assoc_simps(2)) auto
qed simp

lemma chain_above_key:
  assumes "av_chain_ok b" and "b = [] \<or> key_before key (fst (hd b)) \<or> key_match key sp (fst (hd b))"
  shows "\<forall>y \<in> set b. \<not> key_before (fst y) key"
proof (cases b)
  case (Cons z b')
  have "\<not> key_before (fst y) (fst z)" if "y \<in> set b" for y
    using that assms(1) Cons by (auto simp: key_before_def)
  moreover have "key_before key (fst z) \<or> same_types key (fst z)"
    using assms(2) Cons by (auto simp: key_match_def)
  ultimately show ?thesis using key_before_trans key_before_cong(2) by blast
qed simp

lemma av_chain_insert:
  assumes ok: "av_chain_ok ch" "plain_key key"
    and stop: "insert_stop key sp [] ch = At a b"
  shows "av_chain_ok (a @ (key, d) # b)" and "ch = a @ b"
proof -
  from stop show ch: "ch = a @ b" by (rule insert_stop_At) simp
  have pre: "\<forall>x \<in> set a. \<not> key_before key (fst x)" using stop by (rule insert_stop_At) simp
  have "b = [] \<or> key_before key (fst (hd b)) \<or> key_match key sp (fst (hd b))"
    using stop by (rule insert_stop_At) auto
  then have "\<forall>y \<in> set b. \<not> key_before (fst y) key"
    using ok(1) ch by (intro chain_above_key) (auto simp: av_chain_ok_def sorted_wrt_append)
  with pre ok ch show "av_chain_ok (a @ (key, d) # b)" by (auto simp: av_chain_ok_def sorted_wrt_append)
qed

lemma insert_stop_prefix:
  assumes "plain_key key" and "av_chain_ok ch"
    and "insert_stop key (mask_enabled (specified key)) [] ch = At a b"
  shows "map_of (av_assoc a) (av_id key) = None"
proof -
  have "\<forall>x \<in> set a. av_id (fst x) \<noteq> av_id key"
    using assms(3)
  proof (rule insert_stop_At)
    fix m
    assume "a = [] @ m" "ch = m @ b" "\<forall>x \<in> set m. \<not> key_match key (mask_enabled (specified key)) (fst x) \<and> \<not> key_before key (fst x)"
    then show ?thesis using assms(1,2) match_iff[OF assms(1)] by (auto simp: av_chain_ok_def)
  qed
  then show ?thesis unfolding map_of_eq_None_iff av_assoc_simps by force
qed

section \<open>Tables\<close>

lemma hash_id: "unat (avtab_hash key m) = id_bucket m (av_id key)"
  by (simp add: id_bucket_def av_id_def avtab_hash_def)

lemma wf_Some:
  assumes "avtab_wf h"
  obtains bs where "av_htable h = Some bs" and "length bs = unat (av_nslot h)"
    and "bucketed (id_bucket (av_mask h)) (map av_assoc bs)"
    and "\<And>i. i < length bs \<Longrightarrow> av_chain_ok (bs ! i)"
    and "\<And>i x. i < length bs \<Longrightarrow> x \<in> set (bs ! i) \<Longrightarrow> id_bucket (av_mask h) (av_id (fst x)) = i"
proof (cases "av_htable h")
  case (Some bs)
  have "id_bucket (av_mask h) r < unat (av_nslot h)" for r
    using assms Some word_and_le1[of _ "av_mask h"]
    by (cases r) (auto simp: avtab_wf_def id_bucket_def avtab_hash_def Let_def word_less_nat_alt[symmetric]
        intro: le_less_trans)
  then show ?thesis using assms Some by (intro that) (fastforce simp: avtab_wf_def bucketed_def av_assoc_def simp del: split_paired_All)+
qed (use assms in \<open>simp add: avtab_wf_def\<close>)

lemma wf_bucket:
  fixes key :: avtab_key
  assumes "avtab_wf h"
  defines "hv \<equiv> unat (avtab_hash key (av_mask h))"
  obtains bs where "av_htable h = Some bs" and "hv < length bs" and "av_chain_ok (bs ! hv)"
    and "avtab_abs h (av_id key) = map_of (av_assoc (bs ! hv)) (av_id key)"
proof -
  from assms(1) obtain bs where bs: "av_htable h = Some bs" "bucketed (id_bucket (av_mask h)) (map av_assoc bs)"
    and ok: "\<And>i. i < length bs \<Longrightarrow> av_chain_ok (bs ! i)" by (auto elim: wf_Some)
  have range: "hv < length bs" unfolding hv_def hash_id using bs(2) by (simp add: bucketed_def del: split_paired_All)
  moreover have "avtab_abs h (av_id key) = map_of (av_assoc (bs ! hv)) (av_id key)"
    using bucketed_lookup[OF bs(2), of "av_id key"] range by (simp add: avtab_abs_def bs hv_def hash_id)
  ultimately show ?thesis using bs(1) ok by (intro that) auto
qed

text \<open>One bucket replaced by a chain that differs from it at one rule only.\<close>

lemma upd_chain:
  assumes wf: "avtab_wf h" and bs: "av_htable h = Some bs" and hv: "hv = unat (avtab_hash key (av_mask h))"
    and ok: "av_chain_ok ch" and keys: "\<forall>k \<in> fst ` set ch. k \<in> fst ` set (bs ! hv) \<or> av_id k = av_id key"
    and upd: "\<forall>r. r \<noteq> av_id key \<longrightarrow> map_of (av_assoc ch) r = map_of (av_assoc (bs ! hv)) r"
  shows "avtab_wf (h\<lparr>av_htable := Some (bs[hv := ch]), av_nel := n\<rparr>)"
    and "avtab_abs (h\<lparr>av_htable := Some (bs[hv := ch]), av_nel := n\<rparr>) =
      (avtab_abs h)(av_id key := map_of (av_assoc ch) (av_id key))"
proof -
  from wf bs have b: "bucketed (id_bucket (av_mask h)) (map av_assoc bs)" by (auto elim: wf_Some)
  then have range: "id_bucket (av_mask h) (av_id key) < length bs" by (simp add: bucketed_def del: split_paired_All)
  have hv': "hv = id_bucket (av_mask h) (av_id key)" by (simp add: hv hash_id)
  have el: "id_bucket (av_mask h) (av_id k) = hv" if "k \<in> fst ` set (bs ! hv)" for k
    using wf that bs range hv' by (auto simp: avtab_wf_def)
  with keys hv' have "\<forall>k \<in> fst ` set ch. id_bucket (av_mask h) (av_id k) = hv" by metis
  then have hash': "\<forall>x \<in> set ch. id_bucket (av_mask h) (av_id (fst x)) = hv" by blast
  have "av_chain_ok (bs[hv := ch] ! i) \<and> (\<forall>x \<in> set (bs[hv := ch] ! i). id_bucket (av_mask h) (av_id (fst x)) = i)"
    if "i < length bs" for i
    using that wf bs ok hash' by (cases "i = hv") (auto simp: avtab_wf_def)
  then show "avtab_wf (h\<lparr>av_htable := Some (bs[hv := ch]), av_nel := n\<rparr>)"
    using wf bs by (simp add: avtab_wf_def)
  have "map_of (concat ((map av_assoc bs)[id_bucket (av_mask h) (av_id key) := av_assoc ch])) =
      (map_of (concat (map av_assoc bs)))(av_id key := map_of (av_assoc ch) (av_id key))"
    using hash' upd hv' range by (intro bucketed_map_of_update[OF b]) (auto simp: av_assoc_def)
  then show "avtab_abs (h\<lparr>av_htable := Some (bs[hv := ch]), av_nel := n\<rparr>) =
      (avtab_abs h)(av_id key := map_of (av_assoc ch) (av_id key))"
    by (simp add: avtab_abs_def bs hv' map_update)
qed

lemma avtab_search_correct:
  assumes "avtab_wf h" and "plain_key key"
  shows "avtab_search (Some h) key = avtab_abs h (av_id key)"
  using assms(1)
proof (rule wf_bucket[where key = key])
  fix bs
  let ?hv = "unat (avtab_hash key (av_mask h))"
  assume bs: "av_htable h = Some bs" "av_chain_ok (bs ! ?hv)"
    "avtab_abs h (av_id key) = map_of (av_assoc (bs ! ?hv)) (av_id key)"
  show ?thesis
    using chain_find_correct[OF assms(2) bs(2)]
    by (simp add: avtab_search_def avtab_search_node_def bs split_beta cong: list.case_cong)
qed

lemma plain_mask: "plain_key key \<Longrightarrow> mask_enabled (specified key) = specified key"
  by (auto simp: plain_key_def spec_order_def mask_enabled_def)

lemma avtab_insert_correct:
  assumes wf: "avtab_wf h" and plain: "plain_key key"
    and new: "avtab_abs h (av_id key) = None \<or> specified key AND AVTAB_XPERMS \<noteq> 0"
  obtains h' where "avtab_insert True (Some h) key d = (0, Some h')" and "avtab_wf h'"
    and "avtab_abs h' = (avtab_abs h)(av_id key \<mapsto> new_datum key d)" and "av_nel h' = av_nel h + 1"
  using wf
proof (rule wf_bucket[where key = key])
  fix bs
  let ?hv = "unat (avtab_hash key (av_mask h))" and ?sp = "mask_enabled (specified key)"
  assume bs: "av_htable h = Some bs" and ok: "av_chain_ok (bs ! ?hv)"
    and look: "avtab_abs h (av_id key) = map_of (av_assoc (bs ! ?hv)) (av_id key)"
  from new look obtain a b where stop: "insert_stop key ?sp [] (bs ! ?hv) = At a b"
    using insert_stop_Exists[OF plain ok, of "[]"] plain_mask[OF plain]
    by (cases "insert_stop key ?sp [] (bs ! ?hv)") auto
  let ?ch = "a @ (key, new_datum key d) # b"
  note ch = av_chain_insert[OF ok plain stop]
  have "map_of (av_assoc ?ch) = (map_of (av_assoc (bs ! ?hv)))(av_id key \<mapsto> new_datum key d)"
    unfolding ch(2) using insert_stop_prefix[OF plain ok stop] by (auto simp: map_add_def fun_eq_iff split: option.splits)
  then have "avtab_wf (h\<lparr>av_htable := Some (bs[?hv := ?ch]), av_nel := av_nel h + 1\<rparr>)"
    "avtab_abs (h\<lparr>av_htable := Some (bs[?hv := ?ch]), av_nel := av_nel h + 1\<rparr>) =
      (avtab_abs h)(av_id key \<mapsto> new_datum key d)"
    using upd_chain[OF wf bs refl ch(1), of "new_datum key d" key "av_nel h + 1"] ch(2) by auto
  then show ?thesis
    using stop by (intro that) (auto simp: avtab_insert_def bs avtab_insert_node_def)
qed

lemma avtab_insert_exists:
  assumes wf: "avtab_wf h" and plain: "plain_key key"
    and old: "avtab_abs h (av_id key) \<noteq> None" "specified key AND AVTAB_XPERMS = 0"
  shows "avtab_insert mok (Some h) key d = (SEPOL_EEXIST, Some h)"
  using wf
proof (rule wf_bucket[where key = key])
  fix bs
  let ?hv = "unat (avtab_hash key (av_mask h))"
  assume bs: "av_htable h = Some bs" and ok: "av_chain_ok (bs ! ?hv)"
    and look: "avtab_abs h (av_id key) = map_of (av_assoc (bs ! ?hv)) (av_id key)"
  have "insert_stop key (mask_enabled (specified key)) [] (bs ! ?hv) = Exists"
    using insert_stop_Exists[OF plain ok, of "[]"] old look plain_mask[OF plain] by simp
  then show ?thesis by (simp add: avtab_insert_def bs)
qed

lemma chain_assign_keys [simp]: "map fst (chain_assign key sp f ch) = map fst ch"
  by (induction ch) auto

lemma chain_assign_correct:
  assumes "plain_key key" and "av_chain_ok ch"
  shows "map_of (av_assoc (chain_assign key (mask_enabled (specified key)) f ch)) =
      (map_of (av_assoc ch))(av_id key := map_option f (map_of (av_assoc ch) (av_id key)))"
  using assms(2)
proof (induction ch)
  case (Cons x ch)
  then have IH: "map_of (av_assoc (chain_assign key (mask_enabled (specified key)) f ch)) =
      (map_of (av_assoc ch))(av_id key := map_option f (map_of (av_assoc ch) (av_id key)))" by (simp only: av_chain_ok_simps)
  show ?case
  proof (cases "av_id (fst x) = av_id key")
    case False
    with match_iff[OF assms(1), of "fst x"] Cons.prems
    have m: "\<not> key_match key (mask_enabled (specified key)) (fst x)" by simp
    show ?thesis
    proof (cases "key_before key (fst x)")
      case True
      with m before_none[OF Cons.prems True False] show ?thesis
        by (simp only: chain_assign.simps if_True if_False option.map) (metis fun_upd_idem)
    qed (use m False IH in \<open>auto simp: fun_eq_iff simp del: split_paired_All\<close>)
  qed (use match_iff[OF assms(1), of "fst x"] Cons.prems in \<open>auto simp: fun_eq_iff simp del: split_paired_All\<close>)
qed auto

lemma av_chain_ok_keys: "map fst ch = map fst ch' \<Longrightarrow> av_chain_ok ch \<Longrightarrow> av_chain_ok ch'"
proof -
  have "av_chain_ok ch \<longleftrightarrow> sorted_wrt (\<lambda>x y. \<not> key_before y x) (map fst ch) \<and> list_all plain_key (map fst ch)" for ch
    by (simp add: av_chain_ok_def sorted_wrt_map list_all_iff)
  then show "map fst ch = map fst ch' \<Longrightarrow> av_chain_ok ch \<Longrightarrow> av_chain_ok ch'" by metis
qed

lemma avtab_assign_correct:
  assumes wf: "avtab_wf h" and plain: "plain_key key"
  shows "avtab_wf (avtab_assign h key f)"
    and "avtab_abs (avtab_assign h key f) = (avtab_abs h)(av_id key := map_option f (avtab_abs h (av_id key)))"
proof (atomize (full), rule wf_bucket[OF wf, where key = key])
  fix bs
  let ?hv = "unat (avtab_hash key (av_mask h))"
  let ?ch = "chain_assign key (mask_enabled (specified key)) f (bs ! ?hv)"
  assume bs: "av_htable h = Some bs" and ok: "av_chain_ok (bs ! ?hv)"
    and look: "avtab_abs h (av_id key) = map_of (av_assoc (bs ! ?hv)) (av_id key)"
  have "fst ` set ?ch = fst ` set (bs ! ?hv)" by (metis chain_assign_keys list.set_map)
  moreover have "av_chain_ok ?ch" using ok by (rule av_chain_ok_keys[rotated]) simp
  moreover have "avtab_assign h key f = h\<lparr>av_htable := Some (bs[?hv := ?ch]), av_nel := av_nel h\<rparr>"
    by (simp add: avtab_assign_def bs Let_def)
  ultimately show "avtab_wf (avtab_assign h key f) \<and>
      avtab_abs (avtab_assign h key f) = (avtab_abs h)(av_id key := map_option f (avtab_abs h (av_id key)))"
    using upd_chain[OF wf bs refl, of ?ch key "av_nel h"] chain_assign_correct[OF plain ok, of f] look by simp
qed

section \<open>Allocation\<close>

declare alloc_shift.simps [simp del]

lemma alloc_slots_nonzero: "n \<le> 31 \<Longrightarrow> (push_bit n 1 :: u32) \<noteq> 0"
  by (simp add: push_bit_eq_mult)

lemma alloc_shift_bound: "unat work < 2 ^ n \<Longrightarrow> alloc_shift work shift \<le> shift + n"
proof (induction work shift arbitrary: n rule: alloc_shift.induct)
  case (1 work shift)
  show ?case
  proof (cases "work = 0")
    case False
    with 1(2) obtain m where m: "n = Suc m" by (cases n) (auto simp: unat_eq_zero)
    have "unat (drop_bit 1 work) < 2 ^ m" using 1(2) m by (simp add: unat_drop_bit_eq drop_bit_nat_def)
    with 1(1)[OF False, of m] False m show ?thesis by (subst alloc_shift.simps) simp
  qed (simp add: alloc_shift.simps)
qed

lemma avtab_alloc_correct:
  assumes "nrules \<noteq> 0"
  obtains h' where "avtab_alloc True h nrules = (0, h')" and "avtab_wf h'" and "avtab_abs h' = Map.empty"
    and "av_nel h' = 0"
proof -
  let ?s = "alloc_shift nrules 0"
  let ?s' = "if ?s > 2 then ?s - 2 else ?s"
  let ?raw = "push_bit ?s' 1 :: u32"
  let ?n = "if ?raw > MAX_AVTAB_HASH_BUCKETS then MAX_AVTAB_HASH_BUCKETS else ?raw"
  have "?s \<le> 32" using alloc_shift_bound[of nrules 32 0] by (simp add: unat_lt32)
  then have "?raw \<noteq> 0" by (intro alloc_slots_nonzero) auto
  then have nz: "?n \<noteq> 0" by simp
  define n where "n = ?n"
  let ?h = "h\<lparr>av_htable := Some (replicate (unat n) []), av_nel := 0, av_nslot := n, av_mask := n - 1\<rparr>"
  have "n - 1 < n" using nz unfolding n_def by (simp add: word_less_nat_alt measure_unat)
  then have "avtab_wf ?h" by (simp add: avtab_wf_def)
  moreover have "concat (map av_assoc (replicate k [])) = []" for k by (induction k) auto
  then have "avtab_abs ?h = Map.empty" by (simp add: avtab_abs_def del: map_replicate)
  moreover have "avtab_alloc True h nrules = (0, ?h)"
    using assms unfolding n_def avtab_alloc_def Let_def by simp
  ultimately show ?thesis using that by simp
qed

section \<open>The interface the policy editor relies on\<close>

text \<open>
  Every rule edit of the policy patcher has the same shape: look the rule up, edit its datum in
  place if it is there, insert an edited blank one otherwise. \<open>upsert\<close> is that shape.
\<close>

locale rule_store =
  fixes wf :: "'h \<Rightarrow> bool" and key_ok :: "'k \<Rightarrow> bool" and ident :: "'k \<Rightarrow> 'i" and stored :: "'k \<Rightarrow> 'd \<Rightarrow> 'd"
    and abs :: "'h \<Rightarrow> 'i \<rightharpoonup> 'd" and find :: "'h \<Rightarrow> 'k \<Rightarrow> 'd option"
    and add :: "'h \<Rightarrow> 'k \<Rightarrow> 'd \<Rightarrow> int \<times> 'h" and assign :: "'h \<Rightarrow> 'k \<Rightarrow> ('d \<Rightarrow> 'd) \<Rightarrow> 'h"
  assumes find_abs: "wf h \<Longrightarrow> key_ok k \<Longrightarrow> find h k = abs h (ident k)"
    and add_new: "wf h \<Longrightarrow> key_ok k \<Longrightarrow> abs h (ident k) = None \<Longrightarrow>
      \<exists>h'. add h k d = (0, h') \<and> wf h' \<and> abs h' = (abs h)(ident k \<mapsto> stored k d)"
    and assign_wf: "wf h \<Longrightarrow> key_ok k \<Longrightarrow> wf (assign h k f)"
    and assign_abs: "wf h \<Longrightarrow> key_ok k \<Longrightarrow> abs (assign h k f) = (abs h)(ident k := map_option f (abs h (ident k)))"
begin

definition upsert :: "'h \<Rightarrow> 'k \<Rightarrow> 'd \<Rightarrow> ('d \<Rightarrow> 'd) \<Rightarrow> int \<times> 'h" where
  "upsert h k d f = (case find h k of None \<Rightarrow> add h k d | Some _ \<Rightarrow> (0, assign h k f))"

lemma upsert_correct:
  assumes "wf h" and "key_ok k"
  shows "\<exists>h'. upsert h k d f = (0, h') \<and> wf h' \<and>
    abs h' = (abs h)(ident k \<mapsto> (case abs h (ident k) of None \<Rightarrow> stored k d | Some d \<Rightarrow> f d))"
proof (cases "abs h (ident k)")
  case None
  with add_new[OF assms None, of d] find_abs[OF assms] show ?thesis by (simp add: upsert_def)
next
  case (Some d0)
  with find_abs[OF assms] assign_wf[OF assms] assign_abs[OF assms] show ?thesis by (simp add: upsert_def)
qed

lemma upsert_found:
  assumes "wf h" and "key_ok k" and "key_ok k'" and "upsert h k d f = (0, h')" and "ident k' \<noteq> ident k"
  shows "find h' k' = find h k'"
  using upsert_correct[OF assms(1,2), of d f] assms find_abs by auto

end

definition avtab_add :: "avtab \<Rightarrow> avtab_key \<Rightarrow> avtab_datum \<Rightarrow> int \<times> avtab" where
  "avtab_add h key d = map_prod id the (avtab_insert True (Some h) key d)"

interpretation te: rule_store avtab_wf plain_key av_id new_datum avtab_abs "\<lambda>h. avtab_search (Some h)" avtab_add avtab_assign
proof
  fix h k d
  assume "avtab_wf h" "plain_key k" "avtab_abs h (av_id k) = None"
  then show "\<exists>h'. avtab_add h k d = (0, h') \<and> avtab_wf h' \<and> avtab_abs h' = (avtab_abs h)(av_id k \<mapsto> new_datum k d)"
    using avtab_insert_correct[of h k d] unfolding avtab_add_def by (metis id_apply map_prod_simp option.sel)
qed (simp_all add: avtab_search_correct avtab_assign_correct)

end
