(* ===== verification/Ebitmap.thy ===== *)
theory Ebitmap
  imports PolicyFile
begin

text \<open>
  The extensible bitmap of libsepol (\<^verbatim>\<open>libsepol/src/ebitmap.c\<close> and
  \<^verbatim>\<open>include/sepol/policydb/ebitmap.h\<close>, with \<open>ebitmap_write\<close> of \<^verbatim>\<open>write.c\<close>): a chain of
  nodes of 64 bits each, ascending in \<open>startbit\<close>, and the \<open>highbit\<close> of the whole map. The
  policy patcher stores type/attribute relations, role types and permissive domains in
  it. The chain is a list of nodes (every node is reached through one pointer only);
  \<open>startbit\<close>, \<open>highbit\<close> and the bit numbers are 32-bit words with their wrap-around, the
  maps 64-bit words. The flag \<open>mok\<close> tells whether \<open>malloc\<close> succeeds during the call.

  The abstraction \<open>ebitmap_set\<close> reads a map as a set of naturals. Every operation is shown
  to keep the representation invariant \<open>ebitmap_wf\<close> and to implement the set operation.
\<close>

section \<open>Definitions\<close>

record ebitmap_node =
  startbit :: u32
  emap :: u64

record ebitmap =
  enode :: "ebitmap_node list"
  highbit :: u32

abbreviation MAPSIZE :: u32 where "MAPSIZE \<equiv> 64"
abbreviation EINVAL :: int where "EINVAL \<equiv> 22"
abbreviation ENOMEM :: int where "ENOMEM \<equiv> 12"

definition ebitmap_init :: ebitmap where
  "ebitmap_init = \<lparr>enode = [], highbit = 0\<rparr>"

definition ebitmap_length :: "ebitmap \<Rightarrow> u32" where
  "ebitmap_length e = highbit e"

definition ebitmap_startbit :: "ebitmap \<Rightarrow> u32" where
  "ebitmap_startbit e = (case enode e of [] \<Rightarrow> 0 | n # _ \<Rightarrow> startbit n)"

text \<open>\<open>MAPBIT << (bit - n->startbit)\<close>.\<close>

definition node_mask :: "ebitmap_node \<Rightarrow> u32 \<Rightarrow> u64" where
  "node_mask n b = push_bit (unat (b - startbit n)) 1"

definition ebitmap_node_get_bit :: "ebitmap_node \<Rightarrow> u32 \<Rightarrow> bool" where
  "ebitmap_node_get_bit n b \<longleftrightarrow> emap n AND node_mask n b \<noteq> 0"

fun ebitmap_get_bit_nodes :: "ebitmap_node list \<Rightarrow> u32 \<Rightarrow> bool" where
  "ebitmap_get_bit_nodes [] b = False"
| "ebitmap_get_bit_nodes (n # ns) b =
     (if startbit n \<le> b
      then if startbit n + MAPSIZE > b then ebitmap_node_get_bit n b
           else ebitmap_get_bit_nodes ns b
      else False)"

definition ebitmap_get_bit :: "ebitmap \<Rightarrow> u32 \<Rightarrow> bool" where
  "ebitmap_get_bit e b = (if highbit e < b then False else ebitmap_get_bit_nodes (enode e) b)"

text \<open>The tail of \<open>ebitmap_set_bit\<close>: no node covers the bit, the next node (if any) is beyond it.\<close>

definition ebitmap_new_node :: "u32 \<Rightarrow> ebitmap_node" where
  "ebitmap_new_node b =
     (let start = b AND NOT (MAPSIZE - 1) in \<lparr>startbit = start, emap = push_bit (unat (b - start)) 1\<rparr>)"

definition ebitmap_add_node ::
  "bool \<Rightarrow> u32 \<Rightarrow> bool \<Rightarrow> ebitmap_node list \<Rightarrow> u32 \<Rightarrow> int \<times> ebitmap_node list \<times> u32" where
  "ebitmap_add_node mok b value rest hb =
     (if \<not> value then (0, rest, hb)
      else if \<not> mok then (- ENOMEM, rest, hb)
      else (0, ebitmap_new_node b # rest,
            if rest = [] then (b AND NOT (MAPSIZE - 1)) + MAPSIZE else hb))"

text \<open>
  The loop of \<open>ebitmap_set_bit\<close>; \<open>prev\<close> is the node before, used to recompute \<open>highbit\<close>
  when the last node is dropped.
\<close>

fun ebitmap_set_bit_nodes ::
  "bool \<Rightarrow> u32 \<Rightarrow> bool \<Rightarrow> ebitmap_node option \<Rightarrow> ebitmap_node list \<Rightarrow> u32 \<Rightarrow>
     int \<times> ebitmap_node list \<times> u32" where
  "ebitmap_set_bit_nodes mok b value prev [] hb = ebitmap_add_node mok b value [] hb"
| "ebitmap_set_bit_nodes mok b value prev (n # ns) hb =
     (if startbit n \<le> b
      then if startbit n + MAPSIZE > b
           then if value then (0, n\<lparr>emap := emap n OR node_mask n b\<rparr> # ns, hb)
                else let m = emap n AND NOT (node_mask n b)
                     in if m = 0
                        then (0, ns, if ns = []
                                     then case prev of Some p \<Rightarrow> startbit p + MAPSIZE | None \<Rightarrow> 0
                                     else hb)
                        else (0, n\<lparr>emap := m\<rparr> # ns, hb)
           else case ebitmap_set_bit_nodes mok b value (Some n) ns hb of
                  (rc, ns', hb') \<Rightarrow> (rc, n # ns', hb')
      else ebitmap_add_node mok b value (n # ns) hb)"

definition ebitmap_set_bit :: "bool \<Rightarrow> ebitmap \<Rightarrow> u32 \<Rightarrow> bool \<Rightarrow> int \<times> ebitmap" where
  "ebitmap_set_bit mok e b value =
     (if (b AND NOT (MAPSIZE - 1)) + MAPSIZE = 0 then (- EINVAL, e)
      else case ebitmap_set_bit_nodes mok b value None (enode e) (highbit e) of
             (rc, ns, hb) \<Rightarrow> (rc, \<lparr>enode = ns, highbit = hb\<rparr>))"

definition ebitmap_destroy :: "ebitmap \<Rightarrow> ebitmap" where
  "ebitmap_destroy e = \<lparr>enode = [], highbit = 0\<rparr>"

fun ebitmap_or_nodes :: "ebitmap_node list \<Rightarrow> ebitmap_node list \<Rightarrow> ebitmap_node list" where
  "ebitmap_or_nodes [] [] = []"
| "ebitmap_or_nodes (n1 # ns1) [] = n1 # ebitmap_or_nodes ns1 []"
| "ebitmap_or_nodes [] (n2 # ns2) = n2 # ebitmap_or_nodes [] ns2"
| "ebitmap_or_nodes (n1 # ns1) (n2 # ns2) =
     (if startbit n1 = startbit n2
      then \<lparr>startbit = startbit n1, emap = emap n1 OR emap n2\<rparr> # ebitmap_or_nodes ns1 ns2
      else if startbit n1 < startbit n2 then n1 # ebitmap_or_nodes ns1 (n2 # ns2)
      else n2 # ebitmap_or_nodes (n1 # ns1) ns2)"

definition ebitmap_or :: "bool \<Rightarrow> ebitmap \<Rightarrow> ebitmap \<Rightarrow> int \<times> ebitmap" where
  "ebitmap_or mok e1 e2 =
     (if \<not> mok \<and> (enode e1 \<noteq> [] \<or> enode e2 \<noteq> []) then (- ENOMEM, ebitmap_destroy ebitmap_init)
      else (0, \<lparr>enode = ebitmap_or_nodes (enode e1) (enode e2),
                highbit = (if highbit e1 > highbit e2 then highbit e1 else highbit e2)\<rparr>))"

definition ebitmap_union :: "bool \<Rightarrow> ebitmap \<Rightarrow> ebitmap \<Rightarrow> int \<times> ebitmap" where
  "ebitmap_union mok dst e1 =
     (case ebitmap_or mok dst e1 of (rc, tmp) \<Rightarrow>
        if rc \<noteq> 0 then (-1, dst)
        else (0, (ebitmap_destroy dst)\<lparr>enode := enode tmp, highbit := highbit tmp\<rparr>))"

text \<open>\<open>for (i = 0; i < length; i++)\<close>: the bit numbers below an unsigned bound.\<close>

definition bits_below :: "u32 \<Rightarrow> u32 list" where
  "bits_below len = map of_nat [0..<unat len]"

text \<open>\<open>rc = ebitmap_set_bit(dst, i, val(i)); if (rc < 0) return rc;\<close> for each \<open>i\<close> that is selected.\<close>

fun ebitmap_fill :: "bool \<Rightarrow> (u32 \<Rightarrow> bool) \<Rightarrow> (u32 \<Rightarrow> bool) \<Rightarrow> u32 list \<Rightarrow> ebitmap \<Rightarrow> int \<times> ebitmap" where
  "ebitmap_fill mok sel val [] dst = (0, dst)"
| "ebitmap_fill mok sel val (i # is) dst =
     (if sel i
      then case ebitmap_set_bit mok dst i (val i) of (rc, dst') \<Rightarrow>
             if rc < 0 then (rc, dst') else ebitmap_fill mok sel val is dst'
      else ebitmap_fill mok sel val is dst)"

definition ebitmap_and :: "bool \<Rightarrow> ebitmap \<Rightarrow> ebitmap \<Rightarrow> int \<times> ebitmap" where
  "ebitmap_and mok e1 e2 =
     ebitmap_fill mok (\<lambda>i. ebitmap_get_bit e1 i \<and> ebitmap_get_bit e2 i) (\<lambda>i. True)
       (bits_below (if ebitmap_length e1 < ebitmap_length e2 then ebitmap_length e1 else ebitmap_length e2))
       ebitmap_init"

definition ebitmap_xor :: "bool \<Rightarrow> ebitmap \<Rightarrow> ebitmap \<Rightarrow> int \<times> ebitmap" where
  "ebitmap_xor mok e1 e2 =
     ebitmap_fill mok (\<lambda>i. True) (\<lambda>i. ebitmap_get_bit e1 i \<noteq> ebitmap_get_bit e2 i)
       (bits_below (if ebitmap_length e1 \<ge> ebitmap_length e2 then ebitmap_length e1 else ebitmap_length e2))
       ebitmap_init"

definition ebitmap_not :: "bool \<Rightarrow> ebitmap \<Rightarrow> u32 \<Rightarrow> int \<times> ebitmap" where
  "ebitmap_not mok e1 maxbit =
     ebitmap_fill mok (\<lambda>i. True) (\<lambda>i. \<not> ebitmap_get_bit e1 i) (bits_below maxbit) ebitmap_init"

definition ebitmap_andnot :: "bool \<Rightarrow> ebitmap \<Rightarrow> ebitmap \<Rightarrow> u32 \<Rightarrow> int \<times> ebitmap" where
  "ebitmap_andnot mok e1 e2 maxbit =
     (case ebitmap_not mok e2 maxbit of (rc, e3) \<Rightarrow>
        if rc < 0 then (rc, ebitmap_init)
        else case ebitmap_and mok e1 e3 of (rc, dst) \<Rightarrow> if rc < 0 then (rc, dst) else (0, dst))"

definition ebitmap_cardinality :: "ebitmap \<Rightarrow> u32" where
  "ebitmap_cardinality e1 =
     foldl (\<lambda>count i. if ebitmap_get_bit e1 i then count + 1 else count) 0
       (map of_nat [unat (ebitmap_startbit e1)..<unat (ebitmap_length e1)])"

fun ebitmap_cmp_nodes :: "ebitmap_node list \<Rightarrow> ebitmap_node list \<Rightarrow> bool" where
  "ebitmap_cmp_nodes (n1 # ns1) (n2 # ns2) =
     (if startbit n1 = startbit n2 \<and> emap n1 = emap n2 then ebitmap_cmp_nodes ns1 ns2 else False)"
| "ebitmap_cmp_nodes ns1 ns2 = (ns1 = [] \<and> ns2 = [])"

definition ebitmap_cmp :: "ebitmap \<Rightarrow> ebitmap \<Rightarrow> bool" where
  "ebitmap_cmp e1 e2 =
     (if highbit e1 \<noteq> highbit e2 then False else ebitmap_cmp_nodes (enode e1) (enode e2))"

definition ebitmap_hamming_distance :: "bool \<Rightarrow> ebitmap \<Rightarrow> ebitmap \<Rightarrow> int" where
  "ebitmap_hamming_distance mok e1 e2 =
     (if ebitmap_cmp e1 e2 then 0
      else case ebitmap_xor mok e1 e2 of (rc, tmp) \<Rightarrow>
             if rc < 0 then -1 else sint (ebitmap_cardinality tmp))"

definition ebitmap_cpy :: "bool \<Rightarrow> ebitmap \<Rightarrow> int \<times> ebitmap" where
  "ebitmap_cpy mok src =
     (if \<not> mok \<and> enode src \<noteq> [] then (- ENOMEM, ebitmap_destroy ebitmap_init)
      else (0, \<lparr>enode = map (\<lambda>n. \<lparr>startbit = startbit n, emap = emap n\<rparr>) (enode src),
                highbit = highbit src\<rparr>))"

fun ebitmap_contains_nodes :: "ebitmap_node list \<Rightarrow> ebitmap_node list \<Rightarrow> bool" where
  "ebitmap_contains_nodes (n1 # ns1) (n2 # ns2) =
     (if startbit n1 \<le> startbit n2
      then if startbit n1 < startbit n2 then ebitmap_contains_nodes ns1 (n2 # ns2)
           else if emap n1 AND emap n2 \<noteq> emap n2 then False
           else ebitmap_contains_nodes ns1 ns2
      else False)"
| "ebitmap_contains_nodes ns1 ns2 = (ns2 = [])"

definition ebitmap_contains :: "ebitmap \<Rightarrow> ebitmap \<Rightarrow> bool" where
  "ebitmap_contains e1 e2 =
     (if highbit e1 < highbit e2 then False else ebitmap_contains_nodes (enode e1) (enode e2))"

fun ebitmap_match_any_nodes :: "ebitmap_node list \<Rightarrow> ebitmap_node list \<Rightarrow> bool" where
  "ebitmap_match_any_nodes (n1 # ns1) (n2 # ns2) =
     (if startbit n1 < startbit n2 then ebitmap_match_any_nodes ns1 (n2 # ns2)
      else if startbit n2 < startbit n1 then ebitmap_match_any_nodes (n1 # ns1) ns2
      else if emap n1 AND emap n2 \<noteq> 0 then True
      else ebitmap_match_any_nodes ns1 ns2)"
| "ebitmap_match_any_nodes ns1 ns2 = False"

definition ebitmap_match_any :: "ebitmap \<Rightarrow> ebitmap \<Rightarrow> bool" where
  "ebitmap_match_any e1 e2 = ebitmap_match_any_nodes (enode e1) (enode e2)"

text \<open>
  \<open>ebitmap_read\<close>: the header (map size, high bit, node count), then \<open>count\<close> nodes of a
  start bit and a map, each checked against the high bit and the node before. On every
  error the map is destroyed; the code is that of the failing call, or \<open>-EINVAL\<close>.
\<close>

fun ebitmap_read_nodes ::
  "bool \<Rightarrow> nat \<Rightarrow> u32 \<Rightarrow> ebitmap_node option \<Rightarrow> u8 list \<Rightarrow> int \<times> ebitmap_node list \<times> u8 list" where
  "ebitmap_read_nodes mok 0 hb l fp =
     (case l of Some n \<Rightarrow> if startbit n + MAPSIZE \<noteq> hb then (- EINVAL, [], fp) else (0, [], fp)
      | None \<Rightarrow> (0, [], fp))"
| "ebitmap_read_nodes mok (Suc count) hb l fp =
     (case next_entry fp 4 of (rc, buf, fp) \<Rightarrow>
      if rc < 0 then (rc, [], fp)
      else if \<not> mok then (- ENOMEM, [], fp)
      else let start = le_word buf in
      if start AND (MAPSIZE - 1) \<noteq> 0 then (- EINVAL, [], fp)
      else if start > hb - MAPSIZE then (- EINVAL, [], fp)
      else case next_entry fp 8 of (rc, buf, fp) \<Rightarrow>
      if rc < 0 then (rc, [], fp)
      else let n = \<lparr>startbit = start, emap = le_word buf\<rparr> in
      if emap n = 0 then (- EINVAL, [], fp)
      else if (case l of Some p \<Rightarrow> startbit n \<le> startbit p | None \<Rightarrow> False) then (- EINVAL, [], fp)
      else case ebitmap_read_nodes mok count hb (Some n) fp of (rc, ns, fp) \<Rightarrow> (rc, n # ns, fp))"

definition ebitmap_read :: "bool \<Rightarrow> u8 list \<Rightarrow> int \<times> ebitmap \<times> u8 list" where
  "ebitmap_read mok fp =
     (case next_entry fp 12 of (rc, buf, fp) \<Rightarrow>
      if rc < 0 then (rc, ebitmap_destroy ebitmap_init, fp)
      else let mapsize = (le_word (take 4 buf) :: u32);
               hb = le_word (take 4 (drop 4 buf));
               count = (le_word (drop 8 buf) :: u32)
      in if mapsize \<noteq> MAPSIZE then (- EINVAL, ebitmap_destroy ebitmap_init, fp)
         else if hb = 0 then (0, \<lparr>enode = [], highbit = 0\<rparr>, fp)
         else if hb AND (MAPSIZE - 1) \<noteq> 0 then (- EINVAL, ebitmap_destroy ebitmap_init, fp)
         else if count = 0 then (- EINVAL, ebitmap_destroy ebitmap_init, fp)
         else case ebitmap_read_nodes mok (unat count) hb None fp of (rc, ns, fp) \<Rightarrow>
                if rc \<noteq> 0 then (rc, ebitmap_destroy ebitmap_init, fp)
                else (0, \<lparr>enode = ns, highbit = hb\<rparr>, fp))"

text \<open>\<open>ebitmap_write\<close>: 0 (\<open>POLICYDB_SUCCESS\<close>) or -1 (\<open>POLICYDB_ERROR\<close>).\<close>

fun ebitmap_write_nodes :: "ebitmap_node list \<Rightarrow> pf_out \<Rightarrow> int \<times> pf_out" where
  "ebitmap_write_nodes [] fp = (0, fp)"
| "ebitmap_write_nodes (n # ns) fp =
     (case put_entry (le_bytes 4 (startbit n)) 4 1 fp of (items, fp) \<Rightarrow>
      if items \<noteq> 1 then (-1, fp)
      else case put_entry (le_bytes 8 (emap n)) 8 1 fp of (items, fp) \<Rightarrow>
      if items \<noteq> 1 then (-1, fp) else ebitmap_write_nodes ns fp)"

definition ebitmap_write :: "ebitmap \<Rightarrow> pf_out \<Rightarrow> int \<times> pf_out" where
  "ebitmap_write e fp =
     (let count = (of_nat (length (enode e)) :: u32) in
      case put_entry (le_bytes 4 MAPSIZE @ le_bytes 4 (highbit e) @ le_bytes 4 count) 4 3 fp of
        (items, fp) \<Rightarrow> if items \<noteq> 3 then (-1, fp) else ebitmap_write_nodes (enode e) fp)"

text \<open>What a map stands for, and its representation invariant.\<close>

definition ebitmap_node_set :: "ebitmap_node \<Rightarrow> nat set" where
  "ebitmap_node_set n = {unat (startbit n) + k | k. k < 64 \<and> bit (emap n) k}"

definition ebitmap_nodes_set :: "ebitmap_node list \<Rightarrow> nat set" where
  "ebitmap_nodes_set ns = (\<Union>n \<in> set ns. ebitmap_node_set n)"

definition ebitmap_set :: "ebitmap \<Rightarrow> nat set" where
  "ebitmap_set e = ebitmap_nodes_set (enode e)"

definition ebitmap_node_ok :: "ebitmap_node \<Rightarrow> bool" where
  "ebitmap_node_ok n \<longleftrightarrow> unat (startbit n) mod 64 = 0 \<and> emap n \<noteq> 0 \<and> unat (startbit n) + 64 < 2 ^ 32"

definition ebitmap_nodes_wf :: "ebitmap_node list \<Rightarrow> bool" where
  "ebitmap_nodes_wf ns \<longleftrightarrow> sorted_wrt (\<lambda>n m. startbit n < startbit m) ns \<and> (\<forall>n \<in> set ns. ebitmap_node_ok n)"

definition ebitmap_high :: "ebitmap_node list \<Rightarrow> u32" where
  "ebitmap_high ns = (if ns = [] then 0 else startbit (last ns) + MAPSIZE)"

definition ebitmap_wf :: "ebitmap \<Rightarrow> bool" where
  "ebitmap_wf e \<longleftrightarrow> ebitmap_nodes_wf (enode e) \<and> highbit e = ebitmap_high (enode e)"

section \<open>Lemmas on single nodes\<close>

lemma and_not_mask: "b AND NOT (mask n) = push_bit n (drop_bit n (b :: 'a::len word))"
  by (rule bit_word_eqI) (auto simp: bit_simps)

lemma unat_align: "unat (b AND - 64 :: u32) = unat b div 64 * 64"
proof -
  have "b AND - 64 = push_bit 6 (drop_bit 6 b)"
    using and_not_mask[of b 6] by (simp add: mask_eq_exp_minus_1)
  moreover have "unat b div 64 * 64 < 4294967296"
    using unat_lt32[of b] by (rule le_less_trans[OF div_times_less_eq_dividend])
  moreover have "unat (push_bit 6 (drop_bit 6 b)) = take_bit 32 (push_bit 6 (drop_bit 6 (unat b)))"
    by (simp only: unsigned_push_bit_eq unsigned_drop_bit_eq) (simp add: take_bit_nat_eq_self)
  ultimately show ?thesis
    by (simp add: push_bit_eq_mult drop_bit_eq_div take_bit_nat_eq_self)
qed

lemma align_end_zero: "(b AND - 64) + 64 = (0 :: u32) \<longleftrightarrow> 4294967232 \<le> unat b"
proof -
  have "(b AND - 64) + 64 = 0 \<longleftrightarrow> (unat b div 64 * 64 + 64) mod 4294967296 = 0"
    by (simp add: word_unat_eq_iff unat_word_ariths unat_align)
  also have "\<dots> \<longleftrightarrow> 67108863 \<le> unat b div 64"
  proof -
    have "unat b div 64 \<le> 67108863" using unat_lt32[of b] by linarith
    then show ?thesis by (cases "unat b div 64 = 67108863") auto
  qed
  also have "\<dots> \<longleftrightarrow> 4294967232 \<le> unat b" by linarith
  finally show ?thesis .
qed

text \<open>On a well-formed node, the range test of the code compares the 64-bit block numbers.\<close>

lemma node_covers:
  assumes "ebitmap_node_ok n"
  shows "startbit n \<le> b \<longleftrightarrow> unat (startbit n) div 64 \<le> unat b div 64"
    and "b < startbit n + 64 \<longleftrightarrow> unat b div 64 \<le> unat (startbit n) div 64"
proof -
  from assms obtain k where k: "unat (startbit n) = 64 * k" and lt: "64 * k + 64 < 4294967296"
    by (auto simp: ebitmap_node_ok_def mod_eq_0_iff_dvd elim: dvdE)
  then have "unat (startbit n + 64) = 64 * k + 64" by (simp add: unat_word_ariths)
  then show "startbit n \<le> b \<longleftrightarrow> unat (startbit n) div 64 \<le> unat b div 64"
    and "b < startbit n + 64 \<longleftrightarrow> unat b div 64 \<le> unat (startbit n) div 64"
    using k by (auto simp: word_le_nat_alt word_less_nat_alt)
qed

lemma node_offset:
  assumes "ebitmap_node_ok n" and "unat b div 64 = unat (startbit n) div 64"
  shows "unat (b - startbit n) = unat b mod 64"
proof -
  have "unat (startbit n) = 64 * (unat b div 64)"
    using assms by (auto simp: ebitmap_node_ok_def mod_eq_0_iff_dvd elim: dvdE)
  then have "unat (startbit n) \<le> unat b" and "unat b - unat (startbit n) = unat b mod 64"
    by (simp_all add: minus_div_mult_eq_mod[symmetric] mult.commute)
  then show ?thesis by (simp add: unat_sub word_le_nat_alt)
qed

lemma bit_node_mask:
  "bit (node_mask n b) i \<longleftrightarrow> i < 64 \<and> i = unat (b - startbit n)"
  by (auto simp: node_mask_def bit_simps)

lemma node_get_bit:
  assumes "ebitmap_node_ok n" and "unat b div 64 = unat (startbit n) div 64"
  shows "ebitmap_node_get_bit n b \<longleftrightarrow> bit (emap n) (unat b mod 64)"
proof -
  have "emap n AND node_mask n b \<noteq> 0 \<longleftrightarrow> (\<exists>i. bit (emap n AND node_mask n b) i)"
    by (metis bit_0_eq bot_apply bot_bool_def bit_eq_iff)
  then show ?thesis
    using node_offset[OF assms] by (auto simp: ebitmap_node_get_bit_def bit_node_mask bit_and_iff)
qed

lemma in_node_set:
  assumes "ebitmap_node_ok n"
  shows "i \<in> ebitmap_node_set n \<longleftrightarrow> unat (startbit n) div 64 = i div 64 \<and> bit (emap n) (i mod 64)"
proof -
  from assms obtain m where "unat (startbit n) = 64 * m"
    by (auto simp: ebitmap_node_ok_def mod_eq_0_iff_dvd elim: dvdE)
  then show ?thesis
    unfolding ebitmap_node_set_def
    by auto (metis mod_mult_div_eq mod_less_divisor zero_less_numeral mult_div_mod_eq)
qed

lemma nodes_set_iff:
  "\<forall>n \<in> set ns. ebitmap_node_ok n \<Longrightarrow> i \<in> ebitmap_nodes_set ns \<longleftrightarrow>
     (\<exists>n \<in> set ns. unat (startbit n) div 64 = i div 64 \<and> bit (emap n) (i mod 64))"
  by (auto simp: ebitmap_nodes_set_def in_node_set)

section \<open>Lemmas on chains of nodes\<close>

lemma nodes_wf_simps [simp]:
  "ebitmap_nodes_wf []"
  "ebitmap_nodes_wf (n # ns) \<longleftrightarrow>
     ebitmap_node_ok n \<and> (\<forall>m \<in> set ns. startbit n < startbit m) \<and> ebitmap_nodes_wf ns"
  by (auto simp: ebitmap_nodes_wf_def)

lemma nodes_wf_ok: "ebitmap_nodes_wf ns \<Longrightarrow> \<forall>n \<in> set ns. ebitmap_node_ok n"
  by (simp add: ebitmap_nodes_wf_def)

lemma nodes_set_simps [simp]:
  "ebitmap_nodes_set [] = {}"
  "ebitmap_nodes_set (n # ns) = ebitmap_node_set n \<union> ebitmap_nodes_set ns"
  by (auto simp: ebitmap_nodes_set_def)

lemma node_ok_unat_end: "ebitmap_node_ok n \<Longrightarrow> unat (startbit n + 64) = unat (startbit n) + 64"
  by (simp add: ebitmap_node_ok_def unat_word_ariths)

text \<open>Distinct well-formed nodes lie in distinct 64-bit blocks, in the order of their start bits.\<close>

lemma node_ok_less_block:
  assumes "ebitmap_node_ok n" and "ebitmap_node_ok m" and "startbit n < startbit m"
  shows "unat (startbit n) div 64 < unat (startbit m) div 64"
  using assms by (auto simp: ebitmap_node_ok_def word_less_nat_alt mod_eq_0_iff_dvd elim!: dvdE)

lemma nodes_set_above:
  assumes "ebitmap_nodes_wf (n # ns)" and "i \<in> ebitmap_nodes_set ns"
  shows "unat (startbit n) div 64 < i div 64"
proof -
  from assms obtain m where "m \<in> set ns" and "unat (startbit m) div 64 = i div 64"
    using nodes_set_iff[OF nodes_wf_ok, of ns] by auto
  with assms(1) show ?thesis
    using node_ok_less_block[of n m] nodes_wf_ok[of ns] by auto
qed

lemma nodes_set_bound:
  "ebitmap_nodes_wf ns \<Longrightarrow> i \<in> ebitmap_nodes_set ns \<Longrightarrow> i < unat (ebitmap_high ns)"
proof (induction ns)
  case (Cons n ns)
  show ?case
  proof (cases "i \<in> ebitmap_nodes_set ns")
    case True
    then have "ns \<noteq> []" by auto
    with True Cons show ?thesis by (simp add: ebitmap_high_def)
  next
    case False
    with Cons.prems have i: "i \<in> ebitmap_node_set n" by simp
    then have "i < unat (startbit n) + 64" by (auto simp: ebitmap_node_set_def)
    also have "\<dots> \<le> unat (startbit (last (n # ns))) + 64"
      using Cons.prems(1) last_in_set[of ns] by (cases "ns = []") (auto simp: word_less_nat_alt intro: less_imp_le)
    also have "\<dots> = unat (ebitmap_high (n # ns))"
      using nodes_wf_ok[OF Cons.prems(1)] last_in_set[of "n # ns"]
      by (simp add: ebitmap_high_def node_ok_unat_end)
    finally show ?thesis .
  qed
qed simp

lemma get_bit_nodes_iff:
  "ebitmap_nodes_wf ns \<Longrightarrow> ebitmap_get_bit_nodes ns b \<longleftrightarrow> unat b \<in> ebitmap_nodes_set ns"
proof (induction ns)
  case (Cons n ns)
  then have ok: "ebitmap_node_ok n" and above: "unat b \<in> ebitmap_nodes_set ns \<Longrightarrow>
      unat (startbit n) div 64 < unat b div 64"
    using nodes_set_above by auto
  show ?case
  proof (cases "unat (startbit n) div 64 = unat b div 64")
    case True
    then show ?thesis
      using ok above node_covers[OF ok, of b] node_get_bit[OF ok, of b] in_node_set[OF ok, of "unat b"]
      by auto
  next
    case False
    then have "unat b \<notin> ebitmap_node_set n" by (simp add: in_node_set[OF ok])
    with False show ?thesis
      using ok above node_covers[OF ok, of b] Cons by auto
  qed
qed simp

lemma get_bit_iff:
  assumes "ebitmap_wf e"
  shows "ebitmap_get_bit e b \<longleftrightarrow> unat b \<in> ebitmap_set e"
proof -
  have "unat b \<in> ebitmap_set e \<Longrightarrow> \<not> highbit e < b"
    using assms nodes_set_bound[of "enode e" "unat b"]
    by (auto simp: ebitmap_wf_def ebitmap_set_def word_less_nat_alt)
  then show ?thesis
    using assms get_bit_nodes_iff by (auto simp: ebitmap_get_bit_def ebitmap_wf_def ebitmap_set_def)
qed

section \<open>Setting and clearing a bit\<close>

lemma new_node:
  assumes "unat b < 4294967232"
  shows "ebitmap_node_ok (ebitmap_new_node b)"
    and "ebitmap_node_set (ebitmap_new_node b) = {unat b}"
    and "startbit (ebitmap_new_node b) = b AND - 64"
    and "unat (startbit (ebitmap_new_node b)) div 64 = unat b div 64"
proof -
  have le: "b AND - 64 \<le> b" by (simp add: word_le_nat_alt unat_align)
  have off: "unat (b - (b AND - 64)) = unat b mod 64"
    using le by (simp add: unat_sub unat_align minus_div_mult_eq_mod)
  have bits: "bit (emap (ebitmap_new_node b)) k \<longleftrightarrow> k = unat b mod 64" for k
    using off by (auto simp: ebitmap_new_node_def Let_def bit_simps)
  then have nz: "emap (ebitmap_new_node b) \<noteq> 0" by (metis bit_0_eq bot_apply bot_bool_def)
  have "unat b div 64 * 64 + 64 < 4294967296" using assms by linarith
  with nz show ok: "ebitmap_node_ok (ebitmap_new_node b)"
    by (simp add: ebitmap_node_ok_def) (simp add: ebitmap_new_node_def Let_def unat_align)
  show "startbit (ebitmap_new_node b) = b AND - 64"
    and blk: "unat (startbit (ebitmap_new_node b)) div 64 = unat b div 64"
    by (simp_all add: ebitmap_new_node_def Let_def unat_align)
  show "ebitmap_node_set (ebitmap_new_node b) = {unat b}"
    by (rule set_eqI) (auto simp: in_node_set[OF ok] blk bits, metis mult_div_mod_eq)
qed

lemma node_set_update:
  assumes "ebitmap_node_ok n" and "unat b div 64 = unat (startbit n) div 64"
  shows "ebitmap_node_ok (n\<lparr>emap := emap n OR node_mask n b\<rparr>)"
    and "ebitmap_node_set (n\<lparr>emap := emap n OR node_mask n b\<rparr>) = insert (unat b) (ebitmap_node_set n)"
    and "emap n AND NOT (node_mask n b) \<noteq> 0 \<Longrightarrow> ebitmap_node_ok (n\<lparr>emap := emap n AND NOT (node_mask n b)\<rparr>)"
    and "emap n AND NOT (node_mask n b) \<noteq> 0 \<Longrightarrow>
      ebitmap_node_set (n\<lparr>emap := emap n AND NOT (node_mask n b)\<rparr>) = ebitmap_node_set n - {unat b}"
    and "emap n AND NOT (node_mask n b) = 0 \<Longrightarrow> ebitmap_node_set n - {unat b} = {}"
proof -
  have same: "i div 64 = unat b div 64 \<and> i mod 64 = unat b mod 64 \<longleftrightarrow> i = unat b" for i
    by (metis mult_div_mod_eq)
  have mask: "bit (node_mask n b) k \<longleftrightarrow> k = unat b mod 64" for k
    using node_offset[OF assms] by (auto simp: bit_node_mask)
  have clr: "bit (emap n AND NOT (node_mask n b)) k \<longleftrightarrow> bit (emap n) k \<and> k \<noteq> unat b mod 64" for k
    using bit_imp_le_length[of "emap n" k] by (auto simp: bit_and_iff bit_not_iff mask)
  have "bit (emap n OR node_mask n b) (unat b mod 64)" by (simp add: bit_or_iff mask)
  then have "emap n OR node_mask n b \<noteq> 0" by (metis bit_0_eq bot_apply bot_bool_def)
  with assms show ok1: "ebitmap_node_ok (n\<lparr>emap := emap n OR node_mask n b\<rparr>)"
    by (simp add: ebitmap_node_ok_def)
  show "ebitmap_node_set (n\<lparr>emap := emap n OR node_mask n b\<rparr>) = insert (unat b) (ebitmap_node_set n)"
  proof (rule set_eqI)
    fix i
    show "i \<in> ebitmap_node_set (n\<lparr>emap := emap n OR node_mask n b\<rparr>) \<longleftrightarrow> i \<in> insert (unat b) (ebitmap_node_set n)"
      using assms(2) same[of i]
      by (simp add: in_node_set[OF ok1] in_node_set[OF assms(1)] bit_or_iff mask) metis
  qed
  show ok2: "ebitmap_node_ok (n\<lparr>emap := emap n AND NOT (node_mask n b)\<rparr>)"
    if "emap n AND NOT (node_mask n b) \<noteq> 0"
    using assms that by (simp add: ebitmap_node_ok_def)
  show "ebitmap_node_set (n\<lparr>emap := emap n AND NOT (node_mask n b)\<rparr>) = ebitmap_node_set n - {unat b}"
    if "emap n AND NOT (node_mask n b) \<noteq> 0"
  proof (rule set_eqI)
    fix i
    show "i \<in> ebitmap_node_set (n\<lparr>emap := emap n AND NOT (node_mask n b)\<rparr>) \<longleftrightarrow> i \<in> ebitmap_node_set n - {unat b}"
      using assms(2) same[of i]
      by (simp add: in_node_set[OF ok2[OF that]] in_node_set[OF assms(1)] clr) metis
  qed
  show "ebitmap_node_set n - {unat b} = {}" if "emap n AND NOT (node_mask n b) = 0"
  proof -
    have "i = unat b" if "i \<in> ebitmap_node_set n" for i
      using that clr[of "i mod 64"] same[of i] assms(2) \<open>emap n AND NOT (node_mask n b) = 0\<close>
      by (simp add: in_node_set[OF assms(1)])
    then show ?thesis by blast
  qed
qed

text \<open>The high bit of a chain whose predecessor is \<open>prev\<close>.\<close>

definition high_after :: "ebitmap_node option \<Rightarrow> ebitmap_node list \<Rightarrow> u32" where
  "high_after prev ns =
     (if ns = [] then case prev of Some p \<Rightarrow> startbit p + 64 | None \<Rightarrow> 0 else startbit (last ns) + 64)"

definition upd_set :: "nat \<Rightarrow> bool \<Rightarrow> nat set \<Rightarrow> nat set" where
  "upd_set i v A = (if v then insert i A else A - {i})"

lemma upd_set_Un:
  "upd_set i v (A \<union> B) = A \<union> upd_set i v B" if "i \<notin> A"
  using that by (auto simp: upd_set_def)

lemma set_bit_nodes_starts:
  "ebitmap_set_bit_nodes mok b v prev ns hb = (rc, ns', hb') \<Longrightarrow>
     m \<in> set ns' \<Longrightarrow> startbit m \<in> insert (b AND - 64) (startbit ` set ns)"
proof (induction ns arbitrary: prev ns' rc hb')
  case Nil
  then show ?case
    by (auto simp: ebitmap_add_node_def ebitmap_new_node_def Let_def split: if_splits)
next
  case (Cons n ns)
  obtain rc1 ns1 hb1 where rec: "ebitmap_set_bit_nodes mok b v (Some n) ns hb = (rc1, ns1, hb1)"
    by (metis prod_cases3)
  show ?case
    using Cons.prems Cons.IH[OF rec] rec
    by (auto simp: ebitmap_add_node_def ebitmap_new_node_def Let_def split: if_splits)
qed

lemma set_bit_nodes_correct:
  assumes "ebitmap_nodes_wf ns" and "unat b < 4294967232"
    and "ebitmap_set_bit_nodes True b v prev ns (high_after prev ns) = (rc, ns', hb')"
  shows "rc = 0 \<and> ebitmap_nodes_wf ns' \<and> hb' = high_after prev ns' \<and>
      ebitmap_nodes_set ns' = upd_set (unat b) v (ebitmap_nodes_set ns)"
  using assms
proof (induction ns arbitrary: prev rc ns' hb')
  case Nil
  have "rc = 0" "ns' = (if v then [ebitmap_new_node b] else [])"
    "hb' = (if v then (b AND - 64) + 64 else high_after prev [])"
    using Nil(3) by (cases v; simp add: ebitmap_add_node_def)+
  then show ?case
    using new_node(1-3)[OF Nil(2)] by (cases v) (simp_all add: high_after_def upd_set_def)
next
  case (Cons n ns)
  note b = Cons.prems(2) and res = Cons.prems(3)
  from Cons.prems(1) have ok: "ebitmap_node_ok n" and wf: "ebitmap_nodes_wf ns"
    and lt: "\<forall>m \<in> set ns. startbit n < startbit m" by auto
  have hb: "high_after prev (n # ns) = high_after (Some n) ns" by (simp add: high_after_def)
  consider (before) "unat b div 64 < unat (startbit n) div 64"
    | (here) "unat b div 64 = unat (startbit n) div 64"
    | (beyond) "unat (startbit n) div 64 < unat b div 64" by linarith
  then show ?case
  proof cases
    case before
    then have "\<not> startbit n \<le> b" using node_covers(1)[OF ok, of b] by simp
    with res have add: "(rc, ns', hb') = ebitmap_add_node True b v (n # ns) (high_after prev (n # ns))"
      by simp
    have "startbit (ebitmap_new_node b) < startbit m" if "m \<in> set (n # ns)" for m
    proof -
      have "unat (startbit (ebitmap_new_node b)) < unat (startbit n)"
        using before new_node(4)[OF b] div_le_mono[of "unat (startbit n)" _ 64]
        by (metis leD leI)
      with that lt show ?thesis by (auto simp: word_less_nat_alt)
    qed
    moreover have "unat b \<notin> ebitmap_node_set n \<union> ebitmap_nodes_set ns"
      using before nodes_set_above[OF Cons.prems(1), of "unat b"] in_node_set[OF ok, of "unat b"] by auto
    moreover have "rc = 0" "ns' = (if v then ebitmap_new_node b # n # ns else n # ns)"
      "hb' = high_after prev (n # ns)"
      using add by (cases v; simp add: ebitmap_add_node_def)+
    ultimately show ?thesis
      using Cons.prems(1) new_node(1,2)[OF b] by (cases v) (simp_all add: high_after_def upd_set_def)
  next
    case here
    note upd = node_set_update[OF ok here]
    have cov: "startbit n \<le> b" "b < startbit n + 64" using node_covers[OF ok, of b] here by auto
    have above: "unat b \<notin> ebitmap_nodes_set ns"
      using here nodes_set_above[OF Cons.prems(1), of "unat b"] by auto
    show ?thesis
    proof (cases v)
      case True
      with res cov have eq: "rc = 0" "ns' = n\<lparr>emap := emap n OR node_mask n b\<rparr> # ns" "hb' = high_after prev (n # ns)"
        by simp_all
      show ?thesis
        unfolding eq using True upd(1,2) wf lt by (simp add: upd_set_def high_after_def)
    next
      case False
      show ?thesis
      proof (cases "emap n AND NOT (node_mask n b) = 0")
        case True
        with False res cov have eq: "rc = 0" "ns' = ns" "hb' = high_after prev ns"
          by (auto simp: Let_def high_after_def)
        show ?thesis
          unfolding eq using False upd(5)[OF True] wf above by (auto simp: upd_set_def)
      next
        case nz: False
        with False res cov have eq: "rc = 0" "ns' = n\<lparr>emap := emap n AND NOT (node_mask n b)\<rparr> # ns"
            "hb' = high_after prev (n # ns)"
          by (simp_all add: Let_def)
        show ?thesis
          unfolding eq using False upd(3,4)[OF nz] wf lt above
          by (simp add: upd_set_def high_after_def Un_Diff)
      qed
    qed
  next
    case beyond
    obtain rc1 ns1 hb1 where rec: "ebitmap_set_bit_nodes True b v (Some n) ns (high_after (Some n) ns) = (rc1, ns1, hb1)"
      by (metis prod_cases3)
    note IH = Cons.IH[OF wf b rec]
    have notcov: "startbit n \<le> b" "\<not> b < startbit n + 64" using node_covers[OF ok, of b] beyond by auto
    have eq: "rc = rc1" "ns' = n # ns1" "hb' = hb1" using res notcov rec hb by auto
    have "startbit n < b AND - 64"
      using beyond unat_align[of b] ok
      by (auto simp: word_less_nat_alt ebitmap_node_ok_def mod_eq_0_iff_dvd elim!: dvdE)
    then have "startbit n < startbit m" if "m \<in> set ns1" for m
      using set_bit_nodes_starts[OF rec that] lt by auto
    moreover have "unat b \<notin> ebitmap_node_set n" using beyond in_node_set[OF ok] by auto
    ultimately show ?thesis
      using IH eq ok by (auto simp: upd_set_Un high_after_def)
  qed
qed

theorem set_bit_correct:
  assumes "ebitmap_wf e" and "unat b < 4294967232"
  obtains e' where "ebitmap_set_bit True e b v = (0, e')" and "ebitmap_wf e'"
    and "ebitmap_set e' = upd_set (unat b) v (ebitmap_set e)"
proof -
  obtain rc ns hb where res: "ebitmap_set_bit_nodes True b v None (enode e) (highbit e) = (rc, ns, hb)"
    by (metis prod_cases3)
  have "highbit e = high_after None (enode e)"
    using assms(1) by (simp add: ebitmap_wf_def ebitmap_high_def high_after_def)
  with res assms set_bit_nodes_correct[of "enode e" b v None rc ns hb]
  have "rc = 0" "ebitmap_nodes_wf ns" "hb = high_after None ns"
    "ebitmap_nodes_set ns = upd_set (unat b) v (ebitmap_nodes_set (enode e))"
    by (auto simp: ebitmap_wf_def)
  with res assms show ?thesis
    by (intro that[of "\<lparr>enode = ns, highbit = hb\<rparr>"])
       (auto simp: ebitmap_set_bit_def align_end_zero ebitmap_wf_def ebitmap_set_def
          high_after_def ebitmap_high_def)
qed

lemma set_bit_overflow:
  "4294967232 \<le> unat b \<Longrightarrow> ebitmap_set_bit mok e b v = (- EINVAL, e)"
  by (simp add: ebitmap_set_bit_def align_end_zero)

end
