(* ===== verification/EbitmapAlgebra.thy ===== *)
theory EbitmapAlgebra
  imports Ebitmap
begin

text \<open>
  The set algebra of the bitmaps of \<^verbatim>\<open>ebitmap.c\<close>: on well-formed maps, union, intersection,
  symmetric difference and complement compute the set operation, comparison decides equality
  (a map is determined by its set), containment and the intersection test decide the set
  relation, the cardinality counts, and writing a map to a policy image and reading it back
  gives the same map.
\<close>

section \<open>Union, comparison, containment, intersection test\<close>

lemma node_or:
  assumes "ebitmap_node_ok n" and "ebitmap_node_ok m" and "startbit n = startbit m"
  shows "ebitmap_node_ok \<lparr>startbit = startbit n, emap = emap n OR emap m\<rparr>"
    and "ebitmap_node_set \<lparr>startbit = startbit n, emap = emap n OR emap m\<rparr> =
      ebitmap_node_set n \<union> ebitmap_node_set m"
proof -
  have "emap n OR emap m \<noteq> 0"
    using assms by (metis ebitmap_node_ok_def or_eq_0_iff)
  with assms show "ebitmap_node_ok \<lparr>startbit = startbit n, emap = emap n OR emap m\<rparr>"
    by (simp add: ebitmap_node_ok_def)
  show "ebitmap_node_set \<lparr>startbit = startbit n, emap = emap n OR emap m\<rparr> =
      ebitmap_node_set n \<union> ebitmap_node_set m"
    using assms by (auto simp: ebitmap_node_set_def bit_or_iff)
qed

lemma or_nodes_Nil [simp]: "ebitmap_or_nodes ns [] = ns" "ebitmap_or_nodes [] ns = ns"
  by (induction ns) auto

lemma or_nodes_above:
  "\<forall>m \<in> set ns1. w < startbit m \<Longrightarrow> \<forall>m \<in> set ns2. w < startbit m \<Longrightarrow>
     \<forall>m \<in> set (ebitmap_or_nodes ns1 ns2). w < startbit m"
  by (induction ns1 ns2 rule: ebitmap_or_nodes.induct) auto

lemma or_nodes_correct:
  "ebitmap_nodes_wf ns1 \<Longrightarrow> ebitmap_nodes_wf ns2 \<Longrightarrow>
     ebitmap_nodes_wf (ebitmap_or_nodes ns1 ns2) \<and>
     ebitmap_nodes_set (ebitmap_or_nodes ns1 ns2) = ebitmap_nodes_set ns1 \<union> ebitmap_nodes_set ns2"
proof (induction ns1 ns2 rule: ebitmap_or_nodes.induct)
  case (4 n1 ns1 n2 ns2)
  from "4.prems" have wf: "ebitmap_node_ok n1" "ebitmap_node_ok n2" "ebitmap_nodes_wf ns1" "ebitmap_nodes_wf ns2"
    and lt: "\<forall>m \<in> set ns1. startbit n1 < startbit m" "\<forall>m \<in> set ns2. startbit n2 < startbit m" by auto
  consider "startbit n1 = startbit n2" | "startbit n1 < startbit n2" | "startbit n2 < startbit n1"
    by (rule linorder_cases)
  then show ?case
  proof cases
    case 1
    then have "\<forall>m \<in> set (ebitmap_or_nodes ns1 ns2). startbit n1 < startbit m"
      using lt by (intro or_nodes_above) auto
    then show ?thesis
      using 1 "4.IH"(1)[OF 1 wf(3,4)] node_or[OF wf(1,2) 1] by auto
  next
    case 2
    then have "\<forall>m \<in> set (ebitmap_or_nodes ns1 (n2 # ns2)). startbit n1 < startbit m"
      using lt by (intro or_nodes_above) (auto intro: less_trans)
    then show ?thesis
      using 2 less_imp_neq[OF 2] "4.IH"(2)[OF less_imp_neq[OF 2] 2 wf(3) "4.prems"(2)] wf(1)
      by (simp add: Un_assoc)
  next
    case 3
    then have above: "\<forall>m \<in> set (ebitmap_or_nodes (n1 # ns1) ns2). startbit n2 < startbit m"
      using lt by (intro or_nodes_above) (auto intro: less_trans)
    have ne: "startbit n1 \<noteq> startbit n2" "\<not> startbit n1 < startbit n2" using 3 by auto
    show ?thesis
      using ne above "4.IH"(3)[OF ne "4.prems"(1) wf(4)] wf(2) by (simp add: Un_ac)
  qed
qed auto

text \<open>
  The high bit of a non-empty chain is a function of the set it stands for: the end of the
  64-bit block of its largest element. So two chains with the same set, and the union of two
  chains, have the high bits they should.
\<close>

lemma high_Max:
  assumes "ebitmap_nodes_wf ns" and "ns \<noteq> []"
  shows "finite (ebitmap_nodes_set ns)" and "ebitmap_nodes_set ns \<noteq> {}"
    and "unat (ebitmap_high ns) = Max (ebitmap_nodes_set ns) div 64 * 64 + 64"
proof -
  let ?l = "last ns"
  have l: "?l \<in> set ns" "ebitmap_node_ok ?l" using assms nodes_wf_ok by auto
  have below: "i < unat (startbit ?l) + 64" if "i \<in> ebitmap_nodes_set ns" for i
    using nodes_set_bound[OF assms(1) that] assms(2) l by (simp add: ebitmap_high_def node_ok_unat_end)
  then show fin: "finite (ebitmap_nodes_set ns)"
    by (meson bounded_nat_set_is_finite)
  obtain k where k: "bit (emap ?l) k"
    using l(2) by (auto simp: ebitmap_node_ok_def bit_eq_iff)
  then have "k < 64" using bit_imp_le_length[OF k] by simp
  with k l have el: "unat (startbit ?l) + k \<in> ebitmap_nodes_set ns"
    by (auto simp: ebitmap_nodes_set_def ebitmap_node_set_def)
  then show ne: "ebitmap_nodes_set ns \<noteq> {}" by auto
  have "unat (startbit ?l) \<le> Max (ebitmap_nodes_set ns)"
    using Max_ge[OF fin el] by simp
  moreover have "Max (ebitmap_nodes_set ns) < unat (startbit ?l) + 64"
    using below Max_in[OF fin ne] by simp
  moreover obtain q where "unat (startbit ?l) = 64 * q"
    using l(2) by (auto simp: ebitmap_node_ok_def mod_eq_0_iff_dvd elim: dvdE)
  ultimately have "Max (ebitmap_nodes_set ns) div 64 * 64 = unat (startbit ?l)"
    by (metis add.commute div_nat_eqI mult.commute mult_Suc)
  then show "unat (ebitmap_high ns) = Max (ebitmap_nodes_set ns) div 64 * 64 + 64"
    using assms(2) l by (simp add: ebitmap_high_def node_ok_unat_end)
qed

lemma nodes_set_empty_iff: "ebitmap_nodes_wf ns \<Longrightarrow> ebitmap_nodes_set ns = {} \<longleftrightarrow> ns = []"
  using high_Max(2) by (cases "ns = []") auto

lemma finite_nodes_set: "ebitmap_nodes_wf ns \<Longrightarrow> finite (ebitmap_nodes_set ns)"
  using high_Max(1) by (cases "ns = []") auto

lemma high_mono:
  assumes "ebitmap_nodes_wf ns" and "ebitmap_nodes_wf ms" and "ebitmap_nodes_set ns \<subseteq> ebitmap_nodes_set ms"
  shows "unat (ebitmap_high ns) \<le> unat (ebitmap_high ms)"
proof (cases "ns = []")
  case False
  with assms have "ms \<noteq> []" using nodes_set_empty_iff by blast
  moreover have "Max (ebitmap_nodes_set ns) \<le> Max (ebitmap_nodes_set ms)"
    using assms False high_Max by (intro Max_mono) (auto simp: finite_nodes_set)
  ultimately show ?thesis
    using high_Max(3)[OF assms(1) False] high_Max(3)[OF assms(2)]
    by (simp add: div_le_mono)
qed (simp add: ebitmap_high_def)

lemma high_or:
  assumes "ebitmap_nodes_wf ns1" and "ebitmap_nodes_wf ns2"
  shows "ebitmap_high (ebitmap_or_nodes ns1 ns2) =
    (if ebitmap_high ns1 > ebitmap_high ns2 then ebitmap_high ns1 else ebitmap_high ns2)"
proof (cases "ns1 = [] \<or> ns2 = []")
  case True
  then show ?thesis by (auto simp: ebitmap_high_def word_gt_0)
next
  case False
  let ?A = "ebitmap_nodes_set ns1" and ?B = "ebitmap_nodes_set ns2"
  from False assms have fin: "finite ?A" "?A \<noteq> {}" "finite ?B" "?B \<noteq> {}"
    using high_Max by auto
  have or: "ebitmap_nodes_wf (ebitmap_or_nodes ns1 ns2)" "ebitmap_nodes_set (ebitmap_or_nodes ns1 ns2) = ?A \<union> ?B"
    using or_nodes_correct[OF assms] by auto
  then have ne: "ebitmap_or_nodes ns1 ns2 \<noteq> []" using fin nodes_set_empty_iff by force
  have "unat (ebitmap_high (ebitmap_or_nodes ns1 ns2)) = max (Max ?A) (Max ?B) div 64 * 64 + 64"
    using high_Max(3)[OF or(1) ne] or(2) fin by (simp add: Max_Un)
  also have "\<dots> = max (unat (ebitmap_high ns1)) (unat (ebitmap_high ns2))"
    using high_Max(3)[OF assms(1)] high_Max(3)[OF assms(2)] False
    by (cases "Max ?A \<le> Max ?B") (auto simp: max_def dest: div_le_mono[of _ _ 64])
  finally show ?thesis
    by (auto simp: word_unat_eq_iff word_less_nat_alt max_def)
qed

lemma or_correct:
  assumes "ebitmap_wf e1" and "ebitmap_wf e2"
  obtains e where "ebitmap_or True e1 e2 = (0, e)" and "ebitmap_wf e"
    and "ebitmap_set e = ebitmap_set e1 \<union> ebitmap_set e2"
  using assms or_nodes_correct[of "enode e1" "enode e2"] high_or[of "enode e1" "enode e2"]
  by (auto simp: ebitmap_or_def ebitmap_wf_def ebitmap_set_def)

text \<open>Canonicity: a chain is determined by the set it stands for.\<close>

lemma nodes_blocks:
  assumes "ebitmap_nodes_wf ns"
  shows "map (\<lambda>n. unat (startbit n) div 64) ns = sorted_list_of_set ((\<lambda>i. i div 64) ` ebitmap_nodes_set ns)"
proof -
  have "sorted_wrt (<) (map (\<lambda>n. unat (startbit n) div 64) ns)"
    using assms by (induction ns) (auto simp: node_ok_less_block nodes_wf_ok)
  moreover have "set (map (\<lambda>n. unat (startbit n) div 64) ns) = (\<lambda>i. i div 64) ` ebitmap_nodes_set ns"
  proof -
    have "(\<lambda>i. i div 64) ` ebitmap_node_set n = {unat (startbit n) div 64}" if ok: "ebitmap_node_ok n" for n
    proof -
      obtain k where "bit (emap n) k" using ok nonzero_has_bit[of "emap n"] by (auto simp: ebitmap_node_ok_def)
      then have "unat (startbit n) + k \<in> ebitmap_node_set n"
        using bit_imp_le_length[of "emap n" k] by (auto simp: ebitmap_node_set_def)
      with in_node_set[OF ok] show ?thesis by auto
    qed
    with nodes_wf_ok[OF assms] show ?thesis by (auto simp: ebitmap_nodes_set_def image_UN)
  qed
  ultimately show ?thesis
    by (metis sorted_list_of_set.idem_if_sorted_distinct strict_sorted_iff)
qed

lemma node_bit_unique:
  assumes "ebitmap_nodes_wf ns" and "n \<in> set ns" and "unat (startbit n) div 64 = i div 64"
  shows "bit (emap n) (i mod 64) \<longleftrightarrow> i \<in> ebitmap_nodes_set ns"
proof -
  have "distinct (map (\<lambda>n. unat (startbit n) div 64) ns)"
    using nodes_blocks[OF assms(1)] by simp
  then have "m = n" if "m \<in> set ns" "unat (startbit m) div 64 = i div 64" for m
    using that assms(2,3) by (metis distinct_map inj_onD)
  then show ?thesis
    unfolding nodes_set_iff[OF nodes_wf_ok[OF assms(1)]] using assms(2,3) by blast
qed

lemma nodes_canonical:
  assumes "ebitmap_nodes_wf ns" and "ebitmap_nodes_wf ms" and "ebitmap_nodes_set ns = ebitmap_nodes_set ms"
  shows "ns = ms"
proof (rule map_inj_on[where f = "\<lambda>n. unat (startbit n) div 64"])
  show "map (\<lambda>n. unat (startbit n) div 64) ns = map (\<lambda>n. unat (startbit n) div 64) ms"
    using assms by (simp add: nodes_blocks)
  show "inj_on (\<lambda>n. unat (startbit n) div 64) (set ns \<union> set ms)"
  proof (rule inj_onI)
    fix n m
    assume nm: "n \<in> set ns \<union> set ms" "m \<in> set ns \<union> set ms"
      and blk: "unat (startbit n) div 64 = unat (startbit m) div 64"
    have ok: "ebitmap_node_ok n" "ebitmap_node_ok m" using nm assms nodes_wf_ok by auto
    then have "startbit n = startbit m"
      using blk by (auto simp: ebitmap_node_ok_def word_unat_eq_iff mod_eq_0_iff_dvd elim!: dvdE)
    moreover have "bit (emap n) k = bit (emap m) k" if "k < 64" for k
    proof -
      let ?i = "unat (startbit n) div 64 * 64 + k"
      have "?i mod 64 = k" "?i div 64 = unat (startbit n) div 64" using that by auto
      moreover have "bit (emap x) (?i mod 64) \<longleftrightarrow> ?i \<in> ebitmap_nodes_set ns"
        if "x \<in> set ns \<union> set ms" "unat (startbit x) div 64 = ?i div 64" for x
        using that assms node_bit_unique[of ns x ?i] node_bit_unique[of ms x ?i] by blast
      ultimately show ?thesis using nm blk by metis
    qed
    then have "emap n = emap m" by (intro bit_word_eqI) auto
    ultimately show "n = m" by simp
  qed
qed

lemma cmp_nodes_iff: "ebitmap_cmp_nodes ns ms \<longleftrightarrow> ns = (ms :: ebitmap_node list)"
  by (induction ns ms rule: ebitmap_cmp_nodes.induct) auto

lemma cmp_iff:
  assumes "ebitmap_wf e1" and "ebitmap_wf e2"
  shows "ebitmap_cmp e1 e2 \<longleftrightarrow> ebitmap_set e1 = ebitmap_set e2"
  using assms nodes_canonical[of "enode e1" "enode e2"]
  by (auto simp: ebitmap_cmp_def cmp_nodes_iff ebitmap_wf_def ebitmap_set_def)

lemma contains_nodes_iff:
  "ebitmap_nodes_wf ns1 \<Longrightarrow> ebitmap_nodes_wf ns2 \<Longrightarrow>
     ebitmap_contains_nodes ns1 ns2 \<longleftrightarrow> ebitmap_nodes_set ns2 \<subseteq> ebitmap_nodes_set ns1"
proof (induction ns1 ns2 rule: ebitmap_contains_nodes.induct)
  case (1 n1 ns1 n2 ns2)
  from "1.prems" have ok: "ebitmap_node_ok n1" "ebitmap_node_ok n2" by auto
  have ne: "ebitmap_node_set n2 \<noteq> {}"
    using nodes_set_empty_iff[of "[n2]"] ok by simp
  note above1 = nodes_set_above[OF "1.prems"(1)] and above2 = nodes_set_above[OF "1.prems"(2)]
  consider "startbit n1 < startbit n2" | "startbit n1 = startbit n2" | "startbit n2 < startbit n1"
    using linorder_less_linear by blast
  then show ?case
  proof cases
    case 1
    then have "i \<notin> ebitmap_node_set n1" if "i \<in> ebitmap_nodes_set (n2 # ns2)" for i
      using that above2[of i] node_ok_less_block[OF ok 1] in_node_set[OF ok(1), of i] in_node_set[OF ok(2), of i]
      by auto
    then have "ebitmap_nodes_set (n2 # ns2) \<subseteq> ebitmap_nodes_set (n1 # ns1) \<longleftrightarrow>
        ebitmap_nodes_set (n2 # ns2) \<subseteq> ebitmap_nodes_set ns1" by auto
    with 1 less_imp_le[OF 1] "1.IH"(1) "1.prems" show ?thesis by simp
  next
    case 2
    have sep: "ebitmap_nodes_set (n2 # ns2) \<subseteq> ebitmap_nodes_set (n1 # ns1) \<longleftrightarrow>
        ebitmap_node_set n2 \<subseteq> ebitmap_node_set n1 \<and> ebitmap_nodes_set ns2 \<subseteq> ebitmap_nodes_set ns1"
    proof -
      have "i \<notin> ebitmap_nodes_set ns1" if "i \<in> ebitmap_node_set n2" for i
        using that 2 above1[of i] in_node_set[OF ok(2), of i] by auto
      moreover have "i \<notin> ebitmap_node_set n1" if "i \<in> ebitmap_nodes_set ns2" for i
        using that 2 above2[of i] in_node_set[OF ok(1), of i] by auto
      ultimately show ?thesis by auto
    qed
    have "ebitmap_node_set n2 \<subseteq> ebitmap_node_set n1 \<longleftrightarrow> emap n1 AND emap n2 = emap n2"
      using 2 by (fastforce simp: and_eq_iff_subset ebitmap_node_set_def dest: bit_imp_le_length)
    with 2 "1.IH"(2) "1.prems" sep show ?thesis by auto
  next
    case 3
    have "i \<notin> ebitmap_nodes_set (n1 # ns1)" if "i \<in> ebitmap_node_set n2" for i
      using that above1[of i] node_ok_less_block[OF ok(2,1) 3] in_node_set[OF ok(1), of i] in_node_set[OF ok(2), of i]
      by (metis Un_iff nodes_set_simps(2) less_asym less_irrefl)
    with ne have "\<not> ebitmap_nodes_set (n2 # ns2) \<subseteq> ebitmap_nodes_set (n1 # ns1)" by auto
    moreover have "\<not> startbit n1 \<le> startbit n2" using 3 by simp
    ultimately show ?thesis by (simp del: not_le)
  qed
qed (auto simp: nodes_set_empty_iff)

lemma contains_iff:
  assumes "ebitmap_wf e1" and "ebitmap_wf e2"
  shows "ebitmap_contains e1 e2 \<longleftrightarrow> ebitmap_set e2 \<subseteq> ebitmap_set e1"
  using assms contains_nodes_iff[of "enode e1" "enode e2"] high_mono[of "enode e2" "enode e1"]
  by (auto simp: ebitmap_contains_def ebitmap_wf_def ebitmap_set_def word_less_nat_alt)

lemma node_set_Int:
  assumes "startbit n = startbit m"
  shows "emap n AND emap m \<noteq> 0 \<longleftrightarrow> ebitmap_node_set n \<inter> ebitmap_node_set m \<noteq> {}"
proof -
  have "ebitmap_node_set n \<inter> ebitmap_node_set m = (+) (unat (startbit n)) ` {k. k < 64 \<and> bit (emap n) k \<and> bit (emap m) k}"
    using assms by (auto simp: ebitmap_node_set_def)
  moreover have "k < 64" if "bit (emap n) k" for k using bit_imp_le_length[OF that] by simp
  ultimately show ?thesis by (auto simp: and_nonzero_iff)
qed

lemma match_any_nodes_iff:
  "ebitmap_nodes_wf ns1 \<Longrightarrow> ebitmap_nodes_wf ns2 \<Longrightarrow>
     ebitmap_match_any_nodes ns1 ns2 \<longleftrightarrow> ebitmap_nodes_set ns1 \<inter> ebitmap_nodes_set ns2 \<noteq> {}"
proof (induction ns1 ns2 rule: ebitmap_match_any_nodes.induct)
  case (1 n1 ns1 n2 ns2)
  from "1.prems" have ok: "ebitmap_node_ok n1" "ebitmap_node_ok n2" by auto
  note above1 = nodes_set_above[OF "1.prems"(1)] and above2 = nodes_set_above[OF "1.prems"(2)]
  note blk1 = in_node_set[OF ok(1)] and blk2 = in_node_set[OF ok(2)]
  consider "startbit n1 < startbit n2" | "startbit n1 = startbit n2" | "startbit n2 < startbit n1"
    using linorder_less_linear by blast
  then show ?case
  proof cases
    case 1
    have "i \<notin> ebitmap_nodes_set (n2 # ns2)" if "i \<in> ebitmap_node_set n1" for i
      using that above2[of i] node_ok_less_block[OF ok 1] blk1[of i] blk2[of i]
      by (metis Un_iff nodes_set_simps(2) less_asym less_irrefl)
    then have "ebitmap_nodes_set (n1 # ns1) \<inter> ebitmap_nodes_set (n2 # ns2) =
        ebitmap_nodes_set ns1 \<inter> ebitmap_nodes_set (n2 # ns2)" by auto
    with 1 "1.IH"(1)[OF 1] "1.prems" show ?thesis by simp
  next
    case 2
    have "i \<notin> ebitmap_nodes_set ns2" if "i \<in> ebitmap_node_set n1" for i
      using that 2 above2[of i] blk1[of i] by auto
    moreover have "i \<notin> ebitmap_nodes_set ns1" if "i \<in> ebitmap_node_set n2" for i
      using that 2 above1[of i] blk2[of i] by auto
    ultimately have "ebitmap_nodes_set (n1 # ns1) \<inter> ebitmap_nodes_set (n2 # ns2) =
        ebitmap_node_set n1 \<inter> ebitmap_node_set n2 \<union> ebitmap_nodes_set ns1 \<inter> ebitmap_nodes_set ns2" by auto
    moreover have "emap n1 AND emap n2 \<noteq> 0 \<longleftrightarrow> ebitmap_node_set n1 \<inter> ebitmap_node_set n2 \<noteq> {}"
      using node_set_Int[OF 2] by simp
    ultimately show ?thesis using 2 "1.IH"(3) "1.prems" by auto
  next
    case 3
    have "i \<notin> ebitmap_nodes_set (n1 # ns1)" if "i \<in> ebitmap_node_set n2" for i
      using that above1[of i] node_ok_less_block[OF ok(2,1) 3] blk1[of i] blk2[of i]
      by (metis Un_iff nodes_set_simps(2) less_asym less_irrefl)
    then have "ebitmap_nodes_set (n1 # ns1) \<inter> ebitmap_nodes_set (n2 # ns2) =
        ebitmap_nodes_set (n1 # ns1) \<inter> ebitmap_nodes_set ns2" by auto
    with 3 "1.IH"(2)[OF less_not_sym[OF 3] 3] "1.prems" show ?thesis by (simp add: less_not_sym)
  qed
qed auto

lemma match_any_iff:
  "ebitmap_wf e1 \<Longrightarrow> ebitmap_wf e2 \<Longrightarrow> ebitmap_match_any e1 e2 \<longleftrightarrow> ebitmap_set e1 \<inter> ebitmap_set e2 \<noteq> {}"
  using match_any_nodes_iff by (simp add: ebitmap_match_any_def ebitmap_wf_def ebitmap_set_def)

lemma cpy_id [simp]: "ebitmap_cpy True e = (0, e)"
  by (cases e) (simp add: ebitmap_cpy_def map_idI)

lemma init_wf [simp]: "ebitmap_wf ebitmap_init" and init_set [simp]: "ebitmap_set ebitmap_init = {}"
  by (simp_all add: ebitmap_init_def ebitmap_wf_def ebitmap_high_def ebitmap_set_def)

section \<open>Operations built bit by bit\<close>

lemma fill_correct:
  assumes "ebitmap_wf e" and "\<forall>i \<in> set is. unat i < 4294967232" and "distinct is"
  shows "\<exists>e'. ebitmap_fill True sel val is e = (0, e') \<and> ebitmap_wf e' \<and>
    ebitmap_set e' = ebitmap_set e - unat ` {i \<in> set is. sel i \<and> \<not> val i} \<union> unat ` {i \<in> set is. sel i \<and> val i}"
  using assms
proof (induction "is" arbitrary: e)
  case (Cons i "is")
  show ?case
  proof (cases "sel i")
    case True
    obtain e1 where e1: "ebitmap_set_bit True e i (val i) = (0, e1)" "ebitmap_wf e1"
        "ebitmap_set e1 = upd_set (unat i) (val i) (ebitmap_set e)"
      using set_bit_correct[of e i "val i"] Cons.prems by auto
    then obtain e2 where e2: "ebitmap_fill True sel val is e1 = (0, e2)" "ebitmap_wf e2"
        "ebitmap_set e2 = ebitmap_set e1 - unat ` {i \<in> set is. sel i \<and> \<not> val i} \<union> unat ` {i \<in> set is. sel i \<and> val i}"
      using Cons.IH[of e1] Cons.prems by auto
    have "unat i \<notin> unat ` set is" using Cons.prems(3) by (auto simp: word_unat_eq_iff[symmetric])
    then have "ebitmap_set e2 = ebitmap_set e - unat ` {j \<in> set (i # is). sel j \<and> \<not> val j} \<union>
        unat ` {j \<in> set (i # is). sel j \<and> val j}"
      using True e1(3) e2(3) by (cases "val i") (auto simp: upd_set_def image_iff)
    with True e1 e2 show ?thesis by simp
  next
    case False
    have "{j \<in> set (i # is). sel j \<and> P j} = {j \<in> set is. sel j \<and> P j}" for P
      using False by auto
    with False Cons show ?thesis by simp
  qed
qed simp

lemma bits_below: "unat ` set (bits_below len) = {..<unat len}" "distinct (bits_below len)"
  "i \<in> set (bits_below len) \<longleftrightarrow> i < len"
proof -
  have id: "unat (of_nat k :: u32) = k" if "k < unat len" for k
    using that unat_lt32[of len] by (intro unat_of_nat32) linarith
  have "inj_on (of_nat :: nat \<Rightarrow> u32) {0..<unat len}"
    by (intro inj_onI) (metis atLeastLessThan_iff id)
  then show "distinct (bits_below len)" by (simp add: bits_below_def distinct_map)
  show img: "unat ` set (bits_below len) = {..<unat len}"
    using id by (force simp: bits_below_def image_image)
  then show "i \<in> set (bits_below len) \<longleftrightarrow> i < len"
    by (metis (no_types, lifting) imageE imageI lessThan_iff word_less_nat_alt word_unat_eq_iff)
qed

lemma wf_highbit_bound: "ebitmap_wf e \<Longrightarrow> unat (highbit e) \<le> 4294967232"
proof (cases "enode e = []")
  case False
  moreover assume "ebitmap_wf e"
  ultimately have "ebitmap_node_ok (last (enode e))" "highbit e = startbit (last (enode e)) + 64"
    using nodes_wf_ok by (auto simp: ebitmap_wf_def ebitmap_high_def)
  then show ?thesis
    by (auto simp: node_ok_unat_end) (auto simp: ebitmap_node_ok_def mod_eq_0_iff_dvd elim!: dvdE)
qed (simp add: ebitmap_wf_def ebitmap_high_def)

lemma set_bound: "ebitmap_wf e \<Longrightarrow> i \<in> ebitmap_set e \<Longrightarrow> i < unat (highbit e)"
  using nodes_set_bound by (simp add: ebitmap_wf_def ebitmap_set_def)

lemma finite_set [simp]: "ebitmap_wf e \<Longrightarrow> finite (ebitmap_set e)"
  by (simp add: ebitmap_wf_def ebitmap_set_def finite_nodes_set)

text \<open>A map filled from nothing below a bound holds exactly the bits that were selected.\<close>

lemma fill_init:
  assumes "unat len \<le> 4294967232"
  obtains e where "ebitmap_fill True sel val (bits_below len) ebitmap_init = (0, e)" and "ebitmap_wf e"
    and "ebitmap_set e = {i. i < unat len \<and> sel (of_nat i) \<and> val (of_nat i)}"
proof -
  have small: "\<forall>i \<in> set (bits_below len). unat i < 4294967232"
    using assms by (auto simp: bits_below(3) word_less_nat_alt)
  obtain e where e: "ebitmap_fill True sel val (bits_below len) ebitmap_init = (0, e)" "ebitmap_wf e"
      "ebitmap_set e = unat ` {i \<in> set (bits_below len). sel i \<and> val i}"
    using fill_correct[OF init_wf small bits_below(2), of sel val] by auto
  have "unat ` {i \<in> set (bits_below len). sel i \<and> val i} = {i. i < unat len \<and> sel (of_nat i) \<and> val (of_nat i)}"
  proof (rule set_eqI)
    fix k
    have "k < unat len \<Longrightarrow> unat (of_nat k :: u32) = k"
      using unat_lt32[of len] by (intro unat_of_nat32) linarith
    then show "k \<in> unat ` {i \<in> set (bits_below len). sel i \<and> val i} \<longleftrightarrow>
        k \<in> {i. i < unat len \<and> sel (of_nat i) \<and> val (of_nat i)}"
      by (auto simp: bits_below(3) word_less_nat_alt image_iff intro!: exI[of _ "of_nat k"])
  qed
  with e that show ?thesis by simp
qed

lemma get_bit_of_nat:
  "ebitmap_wf e \<Longrightarrow> i < 4294967296 \<Longrightarrow> ebitmap_get_bit e (of_nat i) \<longleftrightarrow> i \<in> ebitmap_set e"
  by (simp add: get_bit_iff unat_of_nat32)

lemma and_correct:
  assumes "ebitmap_wf e1" and "ebitmap_wf e2"
  obtains e where "ebitmap_and True e1 e2 = (0, e)" and "ebitmap_wf e"
    and "ebitmap_set e = ebitmap_set e1 \<inter> ebitmap_set e2"
proof -
  let ?len = "if ebitmap_length e1 < ebitmap_length e2 then ebitmap_length e1 else ebitmap_length e2"
  have "unat ?len \<le> 4294967232" using assms wf_highbit_bound by (simp add: ebitmap_length_def)
  then obtain e where e: "ebitmap_and True e1 e2 = (0, e)" "ebitmap_wf e" "ebitmap_set e = {i. i < unat ?len \<and>
      ebitmap_get_bit e1 (of_nat i) \<and> ebitmap_get_bit e2 (of_nat i)}"
    using fill_init[of ?len "\<lambda>i. ebitmap_get_bit e1 i \<and> ebitmap_get_bit e2 i" "\<lambda>i. True"]
    by (auto simp: ebitmap_and_def)
  have "ebitmap_set e = ebitmap_set e1 \<inter> ebitmap_set e2"
  proof (rule set_eqI)
    fix i
    have "i < unat ?len \<Longrightarrow> i < 4294967296" using unat_lt32[of ?len] by linarith
    then show "i \<in> ebitmap_set e \<longleftrightarrow> i \<in> ebitmap_set e1 \<inter> ebitmap_set e2"
      using assms set_bound[of e1 i] set_bound[of e2 i]
      by (auto simp: e(3) get_bit_of_nat ebitmap_length_def word_less_nat_alt)
  qed
  with e that show ?thesis by blast
qed

lemma xor_correct:
  assumes "ebitmap_wf e1" and "ebitmap_wf e2"
  obtains e where "ebitmap_xor True e1 e2 = (0, e)" and "ebitmap_wf e"
    and "ebitmap_set e = sym_diff (ebitmap_set e1) (ebitmap_set e2)"
proof -
  let ?len = "if ebitmap_length e1 \<ge> ebitmap_length e2 then ebitmap_length e1 else ebitmap_length e2"
  have "unat ?len \<le> 4294967232" using assms wf_highbit_bound by (simp add: ebitmap_length_def)
  then obtain e where e: "ebitmap_xor True e1 e2 = (0, e)" "ebitmap_wf e" "ebitmap_set e = {i. i < unat ?len \<and>
      ebitmap_get_bit e1 (of_nat i) \<noteq> ebitmap_get_bit e2 (of_nat i)}"
    using fill_init[of ?len "\<lambda>i. True" "\<lambda>i. ebitmap_get_bit e1 i \<noteq> ebitmap_get_bit e2 i"]
    by (auto simp: ebitmap_xor_def)
  have "ebitmap_set e = sym_diff (ebitmap_set e1) (ebitmap_set e2)"
  proof (rule set_eqI)
    fix i
    have "i < unat ?len \<Longrightarrow> i < 4294967296" using unat_lt32[of ?len] by linarith
    then show "i \<in> ebitmap_set e \<longleftrightarrow> i \<in> sym_diff (ebitmap_set e1) (ebitmap_set e2)"
      using assms set_bound[of e1 i] set_bound[of e2 i]
      by (auto simp: e(3) get_bit_of_nat ebitmap_length_def word_less_nat_alt word_le_nat_alt)
  qed
  with e that show ?thesis by blast
qed

lemma not_correct:
  assumes "ebitmap_wf e1" and "unat maxbit \<le> 4294967232"
  obtains e where "ebitmap_not True e1 maxbit = (0, e)" and "ebitmap_wf e"
    and "ebitmap_set e = {..<unat maxbit} - ebitmap_set e1"
proof -
  obtain e where e: "ebitmap_not True e1 maxbit = (0, e)" "ebitmap_wf e"
      "ebitmap_set e = {i. i < unat maxbit \<and> \<not> ebitmap_get_bit e1 (of_nat i)}"
    using fill_init[OF assms(2), of "\<lambda>i. True" "\<lambda>i. \<not> ebitmap_get_bit e1 i"]
    by (auto simp: ebitmap_not_def)
  have "ebitmap_set e = {..<unat maxbit} - ebitmap_set e1"
    using assms by (auto simp: e(3) get_bit_of_nat)
  with e that show ?thesis by blast
qed

lemma andnot_correct:
  assumes "ebitmap_wf e1" and "ebitmap_wf e2" and "unat maxbit \<le> 4294967232"
  obtains e where "ebitmap_andnot True e1 e2 maxbit = (0, e)" and "ebitmap_wf e"
    and "ebitmap_set e = {i \<in> ebitmap_set e1. i < unat maxbit} - ebitmap_set e2"
proof -
  obtain e3 where e3: "ebitmap_not True e2 maxbit = (0, e3)" "ebitmap_wf e3"
      "ebitmap_set e3 = {..<unat maxbit} - ebitmap_set e2"
    using not_correct[OF assms(2,3)] by blast
  obtain e where "ebitmap_and True e1 e3 = (0, e)" "ebitmap_wf e" "ebitmap_set e = ebitmap_set e1 \<inter> ebitmap_set e3"
    using and_correct[OF assms(1) e3(2)] by blast
  with e3 that show ?thesis by (auto simp: ebitmap_andnot_def)
qed

lemma foldl_count:
  "foldl (\<lambda>c i. if P i then c + 1 else c) (c :: u32) xs = c + of_nat (length (filter P xs))"
  by (induction xs arbitrary: c) auto

lemma cardinality_correct:
  assumes "ebitmap_wf e"
  shows "ebitmap_cardinality e = of_nat (card (ebitmap_set e))"
    and "unat (ebitmap_cardinality e) = card (ebitmap_set e)"
proof -
  let ?r = "[unat (ebitmap_startbit e)..<unat (ebitmap_length e)]"
  have low: "unat (ebitmap_startbit e) \<le> i" if "i \<in> ebitmap_set e" for i
  proof (cases "enode e")
    case (Cons n ns)
    then have wf: "ebitmap_nodes_wf (n # ns)" using assms by (simp add: ebitmap_wf_def)
    then have "\<forall>m \<in> set (n # ns). unat (startbit n) \<le> unat (startbit m)"
      by (auto simp: word_less_nat_alt intro: less_imp_le)
    with that Cons show ?thesis
      by (fastforce simp: ebitmap_set_def ebitmap_nodes_set_def ebitmap_node_set_def ebitmap_startbit_def)
  qed (use that in \<open>simp add: ebitmap_set_def\<close>)
  have "filter (\<lambda>i. ebitmap_get_bit e (of_nat i)) ?r = filter (\<lambda>i. i \<in> ebitmap_set e) ?r"
    using assms
    by (intro filter_cong) (auto intro!: get_bit_of_nat less_trans[OF _ unat_lt32[of "ebitmap_length e"]])
  moreover have "set (filter (\<lambda>i. i \<in> ebitmap_set e) ?r) = ebitmap_set e"
    using low set_bound[OF assms] by (auto simp: ebitmap_length_def)
  ultimately have "length (filter (\<lambda>i. ebitmap_get_bit e (of_nat i)) ?r) = card (ebitmap_set e)"
    by (metis distinct_card distinct_filter distinct_upt)
  then show eq: "ebitmap_cardinality e = of_nat (card (ebitmap_set e))"
    by (simp add: ebitmap_cardinality_def foldl_count filter_map o_def)
  have "card (ebitmap_set e) \<le> card {..<unat (highbit e)}"
    using set_bound[OF assms] by (intro card_mono) auto
  then have "card (ebitmap_set e) < 4294967296"
    by (metis card_lessThan le_less_trans unat_lt32)
  then show "unat (ebitmap_cardinality e) = card (ebitmap_set e)"
    by (simp add: eq unat_of_nat32)
qed

section \<open>The binary format\<close>

definition node_bytes :: "ebitmap_node \<Rightarrow> u8 list" where
  "node_bytes n = le_bytes 4 (startbit n) @ le_bytes 8 (emap n)"

definition ebitmap_bytes :: "ebitmap \<Rightarrow> u8 list" where
  "ebitmap_bytes e = le_bytes 4 MAPSIZE @ le_bytes 4 (highbit e) @
     le_bytes 4 (of_nat (length (enode e)) :: u32) @ concat (map node_bytes (enode e))"

lemma write_nodes_bytes:
  "pf_type fp = PF_USE_MEMORY \<Longrightarrow> 12 * length ns \<le> pf_len fp \<Longrightarrow>
     ebitmap_write_nodes ns fp =
       (0, fp\<lparr>pf_data := pf_data fp @ concat (map node_bytes ns), pf_len := pf_len fp - 12 * length ns\<rparr>)"
  by (induction ns arbitrary: fp) (auto simp: node_bytes_def)

lemma write_bytes:
  assumes "pf_type fp = PF_USE_MEMORY" and "12 + 12 * length (enode e) \<le> pf_len fp"
  shows "ebitmap_write e fp =
     (0, fp\<lparr>pf_data := pf_data fp @ ebitmap_bytes e, pf_len := pf_len fp - (12 + 12 * length (enode e))\<rparr>)"
  using assms by (simp add: ebitmap_write_def write_nodes_bytes ebitmap_bytes_def Let_def)

lemma aligned_and_mask: "ebitmap_node_ok n \<Longrightarrow> startbit n AND 63 = 0"
proof -
  assume "ebitmap_node_ok n"
  then have "startbit n mod 64 = 0"
    by (simp add: word_unat_eq_iff unat_mod_distrib ebitmap_node_ok_def)
  moreover have "startbit n AND 63 = take_bit 6 (startbit n)"
    by (simp add: take_bit_eq_mask mask_eq_exp_minus_1)
  ultimately show ?thesis by (simp add: take_bit_eq_mod)
qed

lemma node_eta: "\<lparr>startbit = startbit n, emap = emap n\<rparr> = n"
  by (cases n) simp

lemma read_nodes_bytes:
  assumes "ebitmap_nodes_wf ns" and "case l of Some p \<Rightarrow> \<forall>n \<in> set ns. startbit p < startbit n | None \<Rightarrow> True"
    and "ns = [] \<Longrightarrow> case l of Some p \<Rightarrow> startbit p + 64 = hb | None \<Rightarrow> True"
    and "ns \<noteq> [] \<Longrightarrow> ebitmap_high ns = hb"
  shows "ebitmap_read_nodes True (length ns) hb l (concat (map node_bytes ns) @ rest) = (0, ns, rest)"
  using assms
proof (induction ns arbitrary: l)
  case Nil
  then show ?case by (auto split: option.splits)
next
  case (Cons n ns)
  then have ok: "ebitmap_node_ok n" and lt: "\<forall>m \<in> set ns. startbit n < startbit m" by auto
  have hb: "hb = startbit (last (n # ns)) + 64"
    using Cons.prems(4) by (simp add: ebitmap_high_def)
  have "ebitmap_node_ok (last (n # ns))"
    using nodes_wf_ok[OF Cons.prems(1)] last_in_set[of "n # ns"] by blast
  moreover have "startbit n \<le> startbit (last (n # ns))"
    using lt last_in_set[of ns] by (auto simp: less_imp_le)
  ultimately have "\<not> hb - 64 < startbit n" by (simp add: hb not_less)
  moreover have "\<not> (case l of Some p \<Rightarrow> startbit n \<le> startbit p | None \<Rightarrow> False)"
    using Cons.prems(2) by (auto split: option.splits)
  moreover have "ebitmap_read_nodes True (length ns) hb (Some n) (concat (map node_bytes ns) @ rest) = (0, ns, rest)"
    using Cons.prems lt hb by (intro Cons.IH) (auto simp: ebitmap_high_def)
  ultimately show ?case
    using ok aligned_and_mask[OF ok]
    by (cases l) (simp_all add: node_bytes_def[of n] node_eta Let_def ebitmap_node_ok_def)
qed

lemma length_nodes_bound: "ebitmap_nodes_wf ns \<Longrightarrow> length ns < 4294967296"
proof -
  assume wf: "ebitmap_nodes_wf ns"
  have "length ns = length (map (\<lambda>n. unat (startbit n) div 64) ns)" by simp
  also have "\<dots> = card (set (map (\<lambda>n. unat (startbit n) div 64) ns))"
    using nodes_blocks[OF wf] by (metis distinct_card distinct_sorted_list_of_set)
  also have "\<dots> \<le> card {..<67108864 :: nat}"
  proof (intro card_mono subsetI)
    fix k
    assume "k \<in> set (map (\<lambda>n. unat (startbit n) div 64) ns)"
    then show "k \<in> {..<67108864}" by (auto intro!: less_mult_imp_div_less simp: unat_lt32[THEN less_le_trans])
  qed simp
  finally show ?thesis by simp
qed

lemma read_bytes:
  assumes "ebitmap_wf e"
  shows "ebitmap_read True (ebitmap_bytes e @ rest) = (0, e, rest)"
proof (cases "enode e = []")
  case True
  then have "e = \<lparr>enode = [], highbit = 0\<rparr>"
    using assms by (cases e) (simp add: ebitmap_wf_def ebitmap_high_def)
  then show ?thesis
    using next_entry_append[of "le_bytes 4 MAPSIZE @ le_bytes 4 (0 :: u32) @ le_bytes 4 (0 :: u32)" 12 rest]
    by (simp add: ebitmap_read_def ebitmap_bytes_def Let_def del: next_entry_append)
next
  case False
  let ?cnt = "of_nat (length (enode e)) :: u32"
  let ?hd = "le_bytes 4 MAPSIZE @ le_bytes 4 (highbit e) @ le_bytes 4 ?cnt"
  from assms have wf: "ebitmap_nodes_wf (enode e)" and high: "highbit e = ebitmap_high (enode e)"
    by (auto simp: ebitmap_wf_def)
  have cnt: "unat ?cnt = length (enode e)" using length_nodes_bound[OF wf] by (simp add: unat_of_nat32)
  with False have cnt0: "?cnt \<noteq> 0" by (metis length_0_conv unat_0)
  have l: "ebitmap_node_ok (last (enode e))" using wf False nodes_wf_ok by auto
  have mod: "unat (highbit e) mod 64 = 0"
    using False l high by (simp add: ebitmap_high_def node_ok_unat_end) (simp add: ebitmap_node_ok_def)
  have al: "highbit e AND 63 = 0"
  proof -
    have "highbit e mod 64 = 0"
      using mod by (simp add: word_unat_eq_iff unat_mod_distrib)
    then show ?thesis
      using take_bit_eq_mask[of 6 "highbit e"] by (simp add: take_bit_eq_mod mask_eq_exp_minus_1)
  qed
  have hb0: "highbit e \<noteq> 0"
    using l high False node_ok_unat_end[OF l] by (auto simp: ebitmap_high_def)
  have nodes: "ebitmap_read_nodes True (length (enode e)) (highbit e) None (concat (map node_bytes (enode e)) @ rest)
      = (0, enode e, rest)"
    using wf high False by (intro read_nodes_bytes) auto
  have "next_entry (ebitmap_bytes e @ rest) 12 = (0, ?hd, concat (map node_bytes (enode e)) @ rest)"
    using next_entry_append[of ?hd 12 "concat (map node_bytes (enode e)) @ rest"] by (simp add: ebitmap_bytes_def)
  then show ?thesis
    using al hb0 cnt0 nodes cnt by (simp add: ebitmap_read_def Let_def)
qed

lemma hamming_correct:
  assumes "ebitmap_wf e1" and "ebitmap_wf e2"
    and "card (sym_diff (ebitmap_set e1) (ebitmap_set e2)) < 2 ^ 31"
  shows "ebitmap_hamming_distance True e1 e2 = int (card (sym_diff (ebitmap_set e1) (ebitmap_set e2)))"
proof -
  obtain e where e: "ebitmap_xor True e1 e2 = (0, e)" "ebitmap_wf e"
      "ebitmap_set e = sym_diff (ebitmap_set e1) (ebitmap_set e2)"
    using xor_correct[OF assms(1,2)] by blast
  have "sint (of_nat n :: u32) = int n" if "n < 2 ^ 31" for n
    using that by (simp add: signed_of_nat signed_take_bit_int_eq_self)
  then show ?thesis
    using e assms by (auto simp: ebitmap_hamming_distance_def cmp_iff cardinality_correct(1))
qed

end
