(* ===== verification/EbitmapIter.thy ===== *)
theory EbitmapIter
  imports EbitmapAlgebra
begin

text \<open>
  Iteration over a bitmap (\<open>ebitmap_start\<close>, \<open>ebitmap_next\<close> and the macro
  \<open>ebitmap_for_each_bit\<close> of \<^verbatim>\<open>ebitmap.h\<close>), the loop with which libsepol walks the attributes
  of a type; and the interface of bitmaps as sets that the policy editor relies on.
\<close>

section \<open>Definitions\<close>

text \<open>The node pointer is the suffix of the chain that starts at the node.\<close>

definition ebitmap_next :: "ebitmap_node list \<Rightarrow> u32 \<Rightarrow> ebitmap_node list \<times> u32" where
  "ebitmap_next n b =
     (case n of
        x # y # ns \<Rightarrow> if b = startbit x + MAPSIZE - 1 then (y # ns, startbit y) else (n, b + 1)
      | _ \<Rightarrow> (n, b + 1))"

text \<open>
  The loop \<^verbatim>\<open>ebitmap_for_each_bit(e, n, i) if (ebitmap_node_get_bit(n, i)) ...\<close>: the bits for
  which the body runs. Every node is visited for 64 values of the bit, which is the fuel.
\<close>

fun each_bit :: "nat \<Rightarrow> u32 \<Rightarrow> ebitmap_node list \<Rightarrow> u32 \<Rightarrow> u32 list" where
  "each_bit 0 len n b = []"
| "each_bit (Suc fuel) len n b =
     (if b < len then
        (case ebitmap_next n b of (n', b') \<Rightarrow>
          (if ebitmap_node_get_bit (hd n) b then b # each_bit fuel len n' b' else each_bit fuel len n' b'))
      else [])"

definition ebitmap_for_each_bit :: "ebitmap \<Rightarrow> u32 list" where
  "ebitmap_for_each_bit e =
     each_bit (64 * length (enode e)) (ebitmap_length e) (enode e) (ebitmap_startbit e)"

section \<open>The loop visits exactly the bits that are set\<close>

definition node_bits :: "ebitmap_node \<Rightarrow> nat \<Rightarrow> u32 list" where
  "node_bits n k = filter (ebitmap_node_get_bit n) (map (\<lambda>i. startbit n + of_nat i) [k..<64])"

lemma node_bits_simps:
  "node_bits n 64 = []"
  "k < 64 \<Longrightarrow> node_bits n k = (if ebitmap_node_get_bit n (startbit n + of_nat k)
     then (startbit n + of_nat k) # node_bits n (Suc k) else node_bits n (Suc k))"
  by (simp_all add: node_bits_def upt_conv_Cons)

lemma node_bits_set:
  assumes "ebitmap_node_ok n"
  shows "unat ` set (node_bits n 0) = ebitmap_node_set n"
proof -
  have u: "unat (startbit n + of_nat k) = unat (startbit n) + k" if "k < 64" for k
    using that assms by (simp add: ebitmap_node_ok_def unat_word_ariths unat_of_nat32)
  have m: "unat (startbit n) mod 64 = 0" using assms by (simp add: ebitmap_node_ok_def)
  have g: "ebitmap_node_get_bit n (startbit n + of_nat k) \<longleftrightarrow> bit (emap n) k" if "k < 64" for k
  proof -
    from m obtain q where q: "unat (startbit n) = 64 * q" by (auto simp: mod_eq_0_iff_dvd elim: dvdE)
    then have "unat (startbit n + of_nat k) div 64 = unat (startbit n) div 64"
      "unat (startbit n + of_nat k) mod 64 = k" using that by (simp_all add: u)
    with node_get_bit[OF assms] show ?thesis by simp
  qed
  have "unat ` set (node_bits n 0) = {unat (startbit n + of_nat k) | k. k < 64 \<and> ebitmap_node_get_bit n (startbit n + of_nat k)}"
    by (auto simp: node_bits_def)
  also have "\<dots> = ebitmap_node_set n"
    unfolding ebitmap_node_set_def using u g by (intro Collect_cong) metis
  finally show ?thesis .
qed

text \<open>Within a node the loop steps bit by bit; at its end it goes to the next node.\<close>

definition after_node :: "ebitmap_node \<Rightarrow> ebitmap_node list \<Rightarrow> ebitmap_node list \<times> u32" where
  "after_node n ns = (case ns of [] \<Rightarrow> ([n], startbit n + MAPSIZE) | m # _ \<Rightarrow> (ns, startbit m))"

lemma each_bit_node:
  assumes ok: "ebitmap_node_ok n" and len: "unat (startbit n) + 64 \<le> unat len" and k: "k < 64"
  shows "each_bit (64 - k + fuel) len (n # ns) (startbit n + of_nat k) =
    node_bits n k @ (case after_node n ns of (ns', b) \<Rightarrow> each_bit fuel len ns' b)"
  using k
proof (induction "63 - k" arbitrary: k)
  case 0
  then have "k = 63" by simp
  have "startbit n + 63 < len" using ok len by (simp add: ebitmap_node_ok_def word_less_nat_alt unat_word_ariths)
  moreover have "ebitmap_next (n # ns) (startbit n + 63) = after_node n ns"
    by (simp add: ebitmap_next_def after_node_def split: list.split)
  ultimately show ?case using \<open>k = 63\<close> by (simp add: node_bits_simps split_beta)
next
  case (Suc d)
  then have k: "k < 63" by simp
  have lt: "startbit n + of_nat k < len"
    using ok len k by (simp add: ebitmap_node_ok_def word_less_nat_alt unat_word_ariths unat_of_nat32)
  have "of_nat k \<noteq> (63 :: u32)" using k unat_of_nat32[of k] by auto
  then have "ebitmap_next (n # ns) (startbit n + of_nat k) = (n # ns, startbit n + of_nat (Suc k))"
    by (auto simp: ebitmap_next_def algebra_simps split: list.split)
  moreover have "64 - k + fuel = Suc (64 - Suc k + fuel)" using k by simp
  ultimately show ?case
    using Suc(1)[of "Suc k"] Suc(2) k lt by (simp add: node_bits_simps(2)[of k])
qed

lemma each_bit_stop: "\<not> b < len \<Longrightarrow> each_bit fuel len n b = []"
  by (cases fuel) auto

lemma each_bit_nodes:
  assumes "ebitmap_nodes_wf ns" and "ns \<noteq> []"
  shows "each_bit (64 * length ns) (ebitmap_high ns) ns (startbit (hd ns)) = concat (map (\<lambda>n. node_bits n 0) ns)"
  using assms
proof (induction ns)
  case (Cons n ns)
  then have ok: "ebitmap_node_ok n" by simp
  have "unat (startbit n) \<le> unat (startbit (last (n # ns)))"
    using Cons.prems(1) last_in_set[of ns] by (cases "ns = []") (auto simp: word_less_nat_alt intro: less_imp_le)
  then have len: "unat (startbit n) + 64 \<le> unat (ebitmap_high (n # ns))"
    using nodes_wf_ok[OF Cons.prems(1)] last_in_set[of "n # ns"] by (simp add: ebitmap_high_def node_ok_unat_end)
  have step: "each_bit (64 * length (n # ns)) (ebitmap_high (n # ns)) (n # ns) (startbit n) =
      node_bits n 0 @ (case after_node n ns of (ns', b) \<Rightarrow> each_bit (64 * length ns) (ebitmap_high (n # ns)) ns' b)"
    using each_bit_node[OF ok len, of 0 "64 * length ns" ns] by simp
  show ?case
  proof (cases ns)
    case Nil
    then show ?thesis using step by (simp add: after_node_def ebitmap_high_def each_bit_stop)
  next
    case (Cons m ms)
    then have "ebitmap_high (n # ns) = ebitmap_high ns" by (simp add: ebitmap_high_def)
    with step Cons Cons.IH Cons.prems show ?thesis by (simp add: after_node_def)
  qed
qed simp

lemma for_each_bit_set:
  assumes "ebitmap_wf e"
  shows "unat ` set (ebitmap_for_each_bit e) = ebitmap_set e"
proof (cases "enode e = []")
  case False
  then have "ebitmap_for_each_bit e = concat (map (\<lambda>n. node_bits n 0) (enode e))"
    using each_bit_nodes[of "enode e"] assms
    by (cases "enode e") (auto simp: ebitmap_for_each_bit_def ebitmap_length_def ebitmap_startbit_def ebitmap_wf_def)
  moreover have "\<forall>n \<in> set (enode e). unat ` set (node_bits n 0) = ebitmap_node_set n"
    using assms nodes_wf_ok[of "enode e"] by (intro ballI node_bits_set) (simp add: ebitmap_wf_def)
  ultimately show ?thesis by (simp add: ebitmap_set_def ebitmap_nodes_set_def image_UN)
qed (simp add: ebitmap_for_each_bit_def ebitmap_set_def)

section \<open>Bitmaps as sets\<close>

text \<open>
  What the policy editor uses of a bitmap: setting a bit in range succeeds, keeps the
  invariant and changes membership of that bit only; the test reads membership.
\<close>

locale bitset =
  fixes wf :: "'b \<Rightarrow> bool" and mem :: "'b \<Rightarrow> nat set" and get :: "'b \<Rightarrow> u32 \<Rightarrow> bool"
    and put :: "'b \<Rightarrow> u32 \<Rightarrow> bool \<Rightarrow> int \<times> 'b" and limit :: nat
  assumes get_mem: "wf e \<Longrightarrow> get e b \<longleftrightarrow> unat b \<in> mem e"
    and put_ok: "wf e \<Longrightarrow> unat b < limit \<Longrightarrow>
      \<exists>e'. put e b v = (0, e') \<and> wf e' \<and> mem e' = (if v then insert (unat b) (mem e) else mem e - {unat b})"
    and put_out: "limit \<le> unat b \<Longrightarrow> fst (put e b v) \<noteq> 0 \<and> snd (put e b v) = e"
begin

lemma put_result:
  assumes "wf e" and "put e b v = (rc, e')"
  shows "wf e' \<and> (rc = 0 \<longleftrightarrow> unat b < limit) \<and> (rc \<noteq> 0 \<longrightarrow> e' = e) \<and>
    (rc = 0 \<longrightarrow> (\<forall>c. get e' c \<longleftrightarrow> (if c = b then v else get e c)))"
proof (cases "unat b < limit")
  case True
  with put_ok[OF assms(1) True, of v] assms get_mem show ?thesis
    by (auto simp: word_unat_eq_iff split: if_splits)
next
  case False
  with put_out[of b e v] assms show ?thesis by auto
qed

lemma put_mono: "wf e \<Longrightarrow> put e b True = (rc, e') \<Longrightarrow> mem e \<subseteq> mem e'"
  using put_ok[of e b True] put_out[of b e True] by (cases "unat b < limit") auto

lemma put_twice:
  assumes "wf e" and "put e b v = (0, e1)" and "put e1 b v = (rc, e2)"
  shows "rc = 0" and "mem e2 = mem e1"
proof -
  have b: "unat b < limit" using put_result[OF assms(1,2)] by simp
  have "wf e1" using put_result[OF assms(1,2)] by simp
  then show "rc = 0" "mem e2 = mem e1" using put_ok[OF assms(1) b, of v] put_ok[OF \<open>wf e1\<close> b, of v] assms by auto
qed

end

interpretation eb: bitset ebitmap_wf ebitmap_set ebitmap_get_bit "ebitmap_set_bit True" 4294967232
proof
  fix e b v
  assume "ebitmap_wf e" "unat (b :: u32) < 4294967232"
  then show "\<exists>e'. ebitmap_set_bit True e b v = (0, e') \<and> ebitmap_wf e' \<and>
      ebitmap_set e' = (if v then insert (unat b) (ebitmap_set e) else ebitmap_set e - {unat b})"
    using set_bit_correct[of e b v] unfolding upd_set_def by metis
qed (simp_all add: get_bit_iff set_bit_overflow)

end
