(* ===== verification/Policydb.thy ===== *)
theory Policydb
  imports Avtab EbitmapIter
begin

text \<open>
  The policy database (\<^verbatim>\<open>libsepol/include/sepol/policydb/policydb.h\<close>, \<open>constraint.h\<close>) as far as
  the policy patcher reads and writes it, with the operations of libsepol it calls on the
  whole database: \<open>symtab_insert\<close> and the \<open>policydb_index_*\<close> functions of \<^verbatim>\<open>policydb.c\<close>, and
  \<open>type_set_expand\<close> of \<^verbatim>\<open>expand.c\<close>.

  A pointer from one of the \<open>val_to_struct\<close> arrays into a symbol table is the key of the
  entry it points to; following it is a lookup of that key. Users, booleans, levels and
  categories are not represented; whether indexing them succeeds is the field \<open>p_rest_ok\<close>.
\<close>

section \<open>Definitions\<close>

abbreviation (input) TYPE_TYPE :: u32 where "TYPE_TYPE \<equiv> 0"
abbreviation (input) TYPE_ATTRIB :: u32 where "TYPE_ATTRIB \<equiv> 1"
abbreviation (input) TYPE_FLAGS_EXPAND_ATTR_TRUE :: u32 where "TYPE_FLAGS_EXPAND_ATTR_TRUE \<equiv> 2"
abbreviation (input) TYPE_STAR :: u32 where "TYPE_STAR \<equiv> 1"
abbreviation (input) TYPE_COMP :: u32 where "TYPE_COMP \<equiv> 2"
abbreviation (input) SCOPE_REQ :: u32 where "SCOPE_REQ \<equiv> 1"
abbreviation (input) SCOPE_DECL :: u32 where "SCOPE_DECL \<equiv> 2"
abbreviation (input) CEXPR_NAMES :: u32 where "CEXPR_NAMES \<equiv> 5"

record type_set =
  ts_types :: ebitmap
  ts_negset :: ebitmap
  ts_flags :: u32

record perm_datum =
  pm_value :: u32

record common_datum =
  com_value :: u32
  com_permissions :: "perm_datum symtab"

record constraint_expr =
  ce_expr_type :: u32
  ce_attr :: u32
  ce_op :: u32
  ce_names :: ebitmap
  ce_type_names :: "type_set option"

record constraint_node =
  cn_permissions :: u32
  cn_expr :: "constraint_expr list"

record class_datum =
  cl_value :: u32
  cl_comkey :: "string option"
  cl_comdatum :: "common_datum option"
  cl_permissions :: "perm_datum symtab"
  cl_constraints :: "constraint_node list"
  cl_validatetrans :: "constraint_node list"
  cl_default_user :: u32
  cl_default_role :: u32
  cl_default_type :: u32
  cl_default_range :: u32

record role_datum =
  r_value :: u32
  r_dominates :: ebitmap
  r_types :: type_set
  r_cache :: ebitmap
  r_bounds :: u32
  r_flavor :: u32
  r_roles :: ebitmap

record filename_trans =
  ft_stype :: u32
  ft_ttype :: u32
  ft_tclass :: u32
  ft_name :: string

record type_datum =
  t_value :: u32
  t_primary :: u32
  t_flavor :: u32
  t_types :: ebitmap
  t_flags :: u32
  t_bounds :: u32

record scope_datum =
  sc_scope :: u32
  sc_decl_ids :: "u32 list"

text \<open>
  A key of the file name transition table: one that lives in the heap, or the address of a
  local variable of a call that has returned.
\<close>

datatype ft_key = HeapKey filename_trans | StackKey

record policydb =
  p_commons :: "common_datum symtab"
  p_classes :: "class_datum symtab"
  p_roles :: "role_datum symtab"
  p_types :: "type_datum symtab"
  scope_types :: "scope_datum symtab"
  declared_types :: ebitmap
  decl_blocks :: "u32 list list"
  te_avtab :: avtab
  te_cond_avtab :: avtab
  type_attr_map :: "ebitmap list"
  attr_type_map :: "ebitmap list"
  permissive_map :: ebitmap
  p_filename_trans :: "(ft_key \<times> u32) list list"
  common_val_to_name :: "string option list"
  class_val_to_struct :: "string option list"
  role_val_to_struct :: "string option list"
  type_val_to_struct :: "string option list"
  user_val_to_name :: "string option list"
  decl_val_to_struct :: "bool list"
  p_role_allow :: "(u32 \<times> u32) list"
  policyvers :: u32
  p_rest_ok :: bool

definition type_datum_init :: type_datum where
  "type_datum_init = \<lparr>t_value = 0, t_primary = 0, t_flavor = 0, t_types = ebitmap_init, t_flags = 0, t_bounds = 0\<rparr>"

text \<open>Reading an array element.\<close>

definition array_at :: "'a list \<Rightarrow> u32 \<Rightarrow> 'a outcome" where
  "array_at xs i = (if unat i < length xs then Ret (xs ! unat i) else UB OutOfBounds)"

text \<open>\<open>p->type_val_to_struct[i]\<close>, NULL being \<open>None\<close>.\<close>

definition type_at :: "policydb \<Rightarrow> u32 \<Rightarrow> type_datum option outcome" where
  "type_at p i = obind (array_at (type_val_to_struct p) i)
     (\<lambda>ko. Ret (case ko of None \<Rightarrow> None | Some k \<Rightarrow> hashtab_search (table (p_types p)) k))"

subsection \<open>Symbol insertion\<close>

text \<open>
  \<open>symtab_insert\<close> on one symbol table and its scope table. \<open>multi\<close> tells whether the table is
  one that may hold several declarations of a symbol (roles and users), \<open>role_attr\<close> whether
  the entry is a role attribute (for roles only). The result is the return code, both tables,
  and the value assigned, if one was.
\<close>

definition symtab_insert ::
  "bool \<Rightarrow> bool \<Rightarrow> bool \<Rightarrow> ('d \<Rightarrow> bool) \<Rightarrow> 'd symtab \<Rightarrow> scope_datum symtab \<Rightarrow> string \<Rightarrow> 'd \<Rightarrow> u32 \<Rightarrow> u32 \<Rightarrow>
     int \<times> 'd symtab \<times> scope_datum symtab \<times> u32 option" where
  "symtab_insert mok multi is_roles role_attr st sc key datum scope decl_id =
     (case hashtab_insert mok (table st) key datum of (rc, tab) \<Rightarrow>
      if rc \<noteq> SEPOL_OK \<and> rc \<noteq> SEPOL_EEXIST then (rc, st, sc, None)
      else
        let st' = (if rc = SEPOL_OK then st\<lparr>table := tab, nprim := nprim st + 1\<rparr> else st);
            val = (if rc = SEPOL_OK then Some (nprim st + 1) else None);
            retval = (if rc = SEPOL_OK then 0 else 1)
        in
        case hashtab_search (table sc) key of
          None \<Rightarrow>
            if \<not> mok then (- ENOMEM, st', sc, val)
            else (case hashtab_insert mok (table sc) key \<lparr>sc_scope = scope, sc_decl_ids = [decl_id]\<rparr> of (rc, tab) \<Rightarrow>
                    if rc \<noteq> 0 then (rc, st', sc, val) else (retval, st', sc\<lparr>table := tab\<rparr>, val))
        | Some sd \<Rightarrow>
            if sc_scope sd = SCOPE_DECL \<and> scope = SCOPE_DECL \<and> \<not> multi then (-2, st', sc, val)
            else if sc_scope sd = SCOPE_DECL \<and> scope = SCOPE_DECL \<and> is_roles \<and>
                    (role_attr datum \<or> (case hashtab_search (table st') key of Some b \<Rightarrow> role_attr b | None \<Rightarrow> False))
                 then (-2, st', sc, val)
            else
              let sd1 = (if sc_scope sd = SCOPE_REQ \<and> scope = SCOPE_DECL then sd\<lparr>sc_scope := SCOPE_DECL\<rparr> else sd);
                  put = (\<lambda>sd. sc\<lparr>table := hashtab_assign (table sc) key (\<lambda>_. sd)\<rparr>)
              in
              if decl_id \<in> set (sc_decl_ids sd1) then (retval, st', put sd1, val)
              else if \<not> mok then (- ENOMEM, st', put sd1, val)
              else
                let ids = sc_decl_ids sd1 @ [decl_id] in
                if sc_scope sd1 = SCOPE_DECL \<and> scope = SCOPE_REQ then
                  (if length ids < 2 then (-1, st', put (sd1\<lparr>sc_decl_ids := ids\<rparr>), val)
                   else (retval, st',
                         put (sd1\<lparr>sc_decl_ids := butlast (butlast ids) @ [last ids, last (butlast ids)]\<rparr>), val))
                else (retval, st', put (sd1\<lparr>sc_decl_ids := ids\<rparr>), val))"

subsection \<open>Index arrays\<close>

text \<open>What \<open>common_index\<close>, \<open>class_index\<close>, \<open>role_index\<close> and \<open>type_index\<close> do with a symbol's value.\<close>

definition index_slot :: "string \<Rightarrow> u32 \<Rightarrow> u32 \<Rightarrow> string option list \<Rightarrow> int \<times> string option list" where
  "index_slot key value np arr =
     (if value = 0 \<or> value > np then (- EINVAL, arr)
      else if arr ! unat (value - 1) \<noteq> None then (- EINVAL, arr)
      else (0, arr[unat (value - 1) := Some key]))"

definition common_index :: "u32 \<Rightarrow> string \<Rightarrow> common_datum \<Rightarrow> string option list \<Rightarrow> int \<times> string option list" where
  "common_index np key d arr = index_slot key (com_value d) np arr"

definition class_index :: "u32 \<Rightarrow> string \<Rightarrow> class_datum \<Rightarrow> string option list \<Rightarrow> int \<times> string option list" where
  "class_index np key d arr = index_slot key (cl_value d) np arr"

definition role_index :: "u32 \<Rightarrow> string \<Rightarrow> role_datum \<Rightarrow> string option list \<Rightarrow> int \<times> string option list" where
  "role_index np key d arr = index_slot key (r_value d) np arr"

definition type_index :: "u32 \<Rightarrow> string \<Rightarrow> type_datum \<Rightarrow> string option list \<Rightarrow> int \<times> string option list" where
  "type_index np key d arr = (if t_primary d \<noteq> 0 then index_slot key (t_value d) np arr else (0, arr))"

definition fresh_index :: "'d symtab \<Rightarrow> string option list" where
  "fresh_index st = replicate (unat (nprim st)) None"

definition policydb_index_classes :: "bool \<Rightarrow> policydb \<Rightarrow> int \<times> policydb" where
  "policydb_index_classes mok p =
     (if \<not> mok then (-1, p\<lparr>common_val_to_name := []\<rparr>)
      else case hashtab_map (common_index (nprim (p_commons p))) (table (p_commons p)) (fresh_index (p_commons p)) of
        (rc, commons) \<Rightarrow>
          let p = p\<lparr>common_val_to_name := commons\<rparr> in
          if rc \<noteq> 0 then (-1, p)
          else case hashtab_map (class_index (nprim (p_classes p))) (table (p_classes p)) (fresh_index (p_classes p)) of
            (rc, classes) \<Rightarrow>
              (if rc \<noteq> 0 then -1 else 0, p\<lparr>class_val_to_struct := classes\<rparr>))"

text \<open>\<open>policydb_index_decls\<close>: the declarations are given by their ids, per block.\<close>

fun index_decls :: "u32 list \<Rightarrow> bool list \<Rightarrow> int \<times> bool list" where
  "index_decls [] arr = (0, arr)"
| "index_decls (d # ds) arr =
     (if d < 1 \<or> unat d > length arr then (-1, arr)
      else if arr ! unat (d - 1) then (-1, arr)
      else index_decls ds (arr[unat (d - 1) := True]))"

definition policydb_index_decls :: "bool \<Rightarrow> policydb \<Rightarrow> int \<times> policydb" where
  "policydb_index_decls mok p =
     (let ids = concat (decl_blocks p) in
      if \<not> mok then (-1, p\<lparr>decl_val_to_struct := []\<rparr>)
      else case index_decls ids (replicate (length ids) False) of (rc, arr) \<Rightarrow>
        (rc, p\<lparr>decl_val_to_struct := arr\<rparr>))"

subsection \<open>Expanding a type set\<close>

text \<open>The first loop: attributes are replaced by their types when \<open>expand\<close> is set.\<close>

fun expand_types :: "bool \<Rightarrow> bool \<Rightarrow> policydb \<Rightarrow> u32 list \<Rightarrow> ebitmap \<Rightarrow> (int \<times> ebitmap) outcome" where
  "expand_types mok expand p [] acc = Ret (0, acc)"
| "expand_types mok expand p (i # is) acc =
     (if i \<ge> nprim (p_types p) then Ret (-1, acc)
      else obind (type_at p i) (\<lambda>t.
        case t of None \<Rightarrow> Ret (-1, acc)
        | Some ty \<Rightarrow>
            (case (if t_flavor ty = TYPE_ATTRIB \<and> (expand \<or> t_flags ty AND TYPE_FLAGS_EXPAND_ATTR_TRUE \<noteq> 0)
                   then ebitmap_union mok acc (t_types ty) else ebitmap_set_bit mok acc i True) of (rc, acc') \<Rightarrow>
              if rc \<noteq> 0 then Ret (-1, acc') else expand_types mok expand p is acc')))"

text \<open>The second loop, over the excluded types: the array is indexed without a bounds check.\<close>

fun expand_neg :: "bool \<Rightarrow> policydb \<Rightarrow> u32 list \<Rightarrow> ebitmap \<Rightarrow> (int \<times> ebitmap) outcome" where
  "expand_neg mok p [] acc = Ret (0, acc)"
| "expand_neg mok p (i # is) acc =
     obind (type_at p i) (\<lambda>t.
       case (case t of
               Some ty \<Rightarrow> if t_flavor ty = TYPE_ATTRIB then ebitmap_union mok acc (t_types ty)
                          else ebitmap_set_bit mok acc i True
             | None \<Rightarrow> ebitmap_set_bit mok acc i True) of (rc, acc') \<Rightarrow>
         if rc \<noteq> 0 then Ret (-1, acc') else expand_neg mok p is acc')"

text \<open>The loop for \<open>TYPE_STAR\<close>, over all type values.\<close>

fun expand_star :: "bool \<Rightarrow> policydb \<Rightarrow> ebitmap \<Rightarrow> u32 list \<Rightarrow> ebitmap \<Rightarrow> (int \<times> ebitmap) outcome" where
  "expand_star mok p neg [] t = Ret (0, t)"
| "expand_star mok p neg (i # is) t =
     (if ebitmap_get_bit neg i then expand_star mok p neg is t
      else obind (type_at p i) (\<lambda>ty.
        if (case ty of Some d \<Rightarrow> t_flavor d = TYPE_ATTRIB | None \<Rightarrow> False) then expand_star mok p neg is t
        else case ebitmap_set_bit mok t i True of (rc, t') \<Rightarrow>
          if rc \<noteq> 0 then Ret (-1, t') else expand_star mok p neg is t'))"

fun expand_minus :: "bool \<Rightarrow> ebitmap \<Rightarrow> u32 list \<Rightarrow> ebitmap \<Rightarrow> int \<times> ebitmap" where
  "expand_minus mok neg [] t = (0, t)"
| "expand_minus mok neg (i # is) t =
     (if \<not> ebitmap_get_bit neg i
      then case ebitmap_set_bit mok t i True of (rc, t') \<Rightarrow>
             if rc \<noteq> 0 then (-1, t') else expand_minus mok neg is t'
      else expand_minus mok neg is t)"

text \<open>The loop for \<open>TYPE_COMP\<close>; a failed \<open>assert\<close> aborts.\<close>

fun expand_comp :: "bool \<Rightarrow> policydb \<Rightarrow> u32 list \<Rightarrow> ebitmap \<Rightarrow> (int \<times> ebitmap) outcome" where
  "expand_comp mok p [] t = Ret (0, t)"
| "expand_comp mok p (i # is) t =
     obind (type_at p i) (\<lambda>ty.
       if (case ty of Some d \<Rightarrow> t_flavor d = TYPE_ATTRIB | None \<Rightarrow> False)
       then (if ebitmap_get_bit t i then Exit 134 else expand_comp mok p is t)
       else case ebitmap_set_bit mok t i (\<not> ebitmap_get_bit t i) of (rc, t') \<Rightarrow>
         if rc \<noteq> 0 then Ret (-1, t') else expand_comp mok p is t')"

definition type_set_expand :: "bool \<Rightarrow> type_set \<Rightarrow> policydb \<Rightarrow> bool \<Rightarrow> (int \<times> ebitmap) outcome" where
  "type_set_expand mok ts p alwaysexpand =
     (let expand = (alwaysexpand \<or> ebitmap_length (ts_negset ts) \<noteq> 0 \<or> ts_flags ts \<noteq> 0);
          all = bits_below (nprim (p_types p)) in
      obind (expand_types mok expand p (ebitmap_for_each_bit (ts_types ts)) ebitmap_init) (\<lambda>(rc, types).
      if rc \<noteq> 0 then Ret (-1, ebitmap_init)
      else obind (expand_neg mok p (ebitmap_for_each_bit (ts_negset ts)) ebitmap_init) (\<lambda>(rc, neg).
      if rc \<noteq> 0 then Ret (-1, ebitmap_init)
      else if ts_flags ts AND TYPE_STAR \<noteq> 0 then expand_star mok p neg all ebitmap_init
      else case expand_minus mok neg (ebitmap_for_each_bit types) ebitmap_init of (rc, t) \<Rightarrow>
        if rc \<noteq> 0 then Ret (-1, t)
        else if ts_flags ts AND TYPE_COMP \<noteq> 0 then expand_comp mok p all t
        else Ret (0, t))))"

subsection \<open>Caches and the remaining index arrays\<close>

text \<open>\<open>policydb_role_cache\<close>, applied to every role in the order of the table.\<close>

fun role_caches :: "bool \<Rightarrow> (string \<times> role_datum) list \<Rightarrow> policydb \<Rightarrow> (int \<times> policydb) outcome" where
  "role_caches mok [] p = Ret (0, p)"
| "role_caches mok ((k, r) # rs) p =
     obind (type_set_expand mok (r_types r) p True) (\<lambda>(rc, c).
       let p' = p\<lparr>p_roles := (p_roles p)\<lparr>table := hashtab_assign (table (p_roles p)) k (\<lambda>r. r\<lparr>r_cache := c\<rparr>)\<rparr>\<rparr> in
       if rc \<noteq> 0 then Ret (-1, p') else role_caches mok rs p')"

text \<open>The loop of \<open>policydb_index_others\<close> for one table: without primary symbols nothing is indexed.\<close>

definition index_table :: "(string \<Rightarrow> 'd \<Rightarrow> string option list \<Rightarrow> int \<times> string option list) \<Rightarrow> 'd symtab \<Rightarrow> int \<times> string option list" where
  "index_table f st = (if nprim st = 0 then (0, []) else hashtab_map f (table st) (fresh_index st))"

definition policydb_index_others :: "bool \<Rightarrow> policydb \<Rightarrow> (int \<times> policydb) outcome" where
  "policydb_index_others mok p =
     (if \<not> mok then Ret (-1, p\<lparr>role_val_to_struct := []\<rparr>)
      else case index_table (role_index (nprim (p_roles p))) (p_roles p) of (rc, roles) \<Rightarrow>
        let p = p\<lparr>role_val_to_struct := roles, type_val_to_struct := fresh_index (p_types p)\<rparr> in
        if rc \<noteq> 0 then Ret (-1, p)
        else case index_table (type_index (nprim (p_types p))) (p_types p) of (rc, types) \<Rightarrow>
          let p = p\<lparr>type_val_to_struct := types\<rparr> in
          if rc \<noteq> 0 \<or> \<not> p_rest_ok p then Ret (-1, p)
          else role_caches mok (case table (p_roles p) of None \<Rightarrow> [] | Some h \<Rightarrow> hashtab_nodes h) p)"

end
