(* ===== verification/Sepolicy.thy ===== *)
theory Sepolicy
  imports Policydb
begin

text \<open>
  The policy editor (\<^verbatim>\<open>src/jni/magiskpolicy/sepolicy.c\<close>): the operations that add and remove
  rules, types, attributes and transitions in the loaded policy database. The global
  \<open>policydb\<close> is passed and returned explicitly. \<open>cok\<close> tells whether \<open>cmalloc\<close>'s \<open>calloc\<close>
  succeeds (it exits the program otherwise) and \<open>mok\<close> whether the allocations of libsepol do.
\<close>

section \<open>Definitions\<close>

subsection \<open>Attributes\<close>

definition lookup_type :: "policydb \<Rightarrow> string \<Rightarrow> type_datum option" where
  "lookup_type p name = hashtab_search (table (p_types p)) name"

definition lookup_class :: "policydb \<Rightarrow> string \<Rightarrow> class_datum option" where
  "lookup_class p name = hashtab_search (table (p_classes p)) name"

definition get_attr :: "policydb \<Rightarrow> string \<Rightarrow> u32 \<Rightarrow> int outcome" where
  "get_attr p ty value =
     (case lookup_type p ty of None \<Rightarrow> Ret 1
      | Some attr \<Rightarrow>
          if t_flavor attr \<noteq> TYPE_ATTRIB then Ret 1
          else obind (array_at (attr_type_map p) (t_value attr - 1))
                 (\<lambda>e. Ret (if ebitmap_get_bit e (value - 1) then 1 else 0)))"

definition get_attr_id :: "policydb \<Rightarrow> string \<Rightarrow> u32" where
  "get_attr_id p ty =
     (case lookup_type p ty of None \<Rightarrow> 1
      | Some attr \<Rightarrow> if t_flavor attr \<noteq> TYPE_ATTRIB then 1 else t_value attr)"

definition set_attr :: "bool \<Rightarrow> policydb \<Rightarrow> string \<Rightarrow> u32 \<Rightarrow> (int \<times> policydb) outcome" where
  "set_attr mok p ty value =
     (case lookup_type p ty of None \<Rightarrow> Ret (1, p)
      | Some attr \<Rightarrow>
          if t_flavor attr \<noteq> TYPE_ATTRIB then Ret (1, p)
          else obind (array_at (type_attr_map p) (value - 1)) (\<lambda>e.
            case ebitmap_set_bit mok e (t_value attr - 1) True of (rc, e') \<Rightarrow>
              let p1 = p\<lparr>type_attr_map := (type_attr_map p)[unat (value - 1) := e']\<rparr> in
              if rc \<noteq> 0 then Ret (1, p1)
              else obind (array_at (attr_type_map p1) (t_value attr - 1)) (\<lambda>e.
                case ebitmap_set_bit mok e (value - 1) True of (rc, e') \<Rightarrow>
                  let p2 = p1\<lparr>attr_type_map := (attr_type_map p1)[unat (t_value attr - 1) := e']\<rparr> in
                  if rc \<noteq> 0 then Ret (1, p2) else Ret (0, p2))))"

subsection \<open>Access vector rules\<close>

text \<open>The edit of the access vector: \<open>perm\<close> is the permission's value, \<open>-1\<close> for all.\<close>

definition edit_av :: "int \<Rightarrow> bool \<Rightarrow> u32 \<Rightarrow> u32" where
  "edit_av perm neg d =
     (if neg then (if perm < 0 then 0 else d AND NOT (push_bit (nat (perm - 1)) 1))
      else (if perm < 0 then NOT 0 else d OR push_bit (nat (perm - 1)) 1))"

definition rule_key :: "u32 \<Rightarrow> u32 \<Rightarrow> u32 \<Rightarrow> u16 \<Rightarrow> avtab_key" where
  "rule_key s t c effect =
     \<lparr>source_type = ucast s, target_type = ucast t, target_class = ucast c, specified = effect\<rparr>"

definition add_rule_one ::
  "bool \<Rightarrow> bool \<Rightarrow> policydb \<Rightarrow> u32 \<Rightarrow> u32 \<Rightarrow> u32 \<Rightarrow> int \<Rightarrow> u16 \<Rightarrow> bool \<Rightarrow> (int \<times> policydb) outcome" where
  "add_rule_one cok mok p s t c perm effect neg =
     (let key = rule_key s t c effect;
          f = (\<lambda>d. d\<lparr>av_data := edit_av perm neg (av_data d)\<rparr>) in
      case avtab_search (Some (te_avtab p)) key of
        None \<Rightarrow>
          if \<not> cok then Exit 1
          else if perm = 0 \<or> perm > 32 then UB BadShift
          else (case avtab_insert mok (Some (te_avtab p)) key (f zero_datum) of (rc, te) \<Rightarrow>
                  if rc \<noteq> 0 then Ret (1, p) else Ret (0, p\<lparr>te_avtab := the te\<rparr>))
      | Some _ \<Rightarrow>
          if perm = 0 \<or> perm > 32 then UB BadShift
          else Ret (0, p\<lparr>te_avtab := avtab_assign (te_avtab p) key f\<rparr>))"

text \<open>\<open>hashtab_for_each\<close> with \<open>ret |= ...\<close> as its body.\<close>

fun for_each_or :: "('x \<Rightarrow> policydb \<Rightarrow> (int \<times> policydb) outcome) \<Rightarrow> 'x list \<Rightarrow> int \<Rightarrow> policydb \<Rightarrow> (int \<times> policydb) outcome" where
  "for_each_or f [] ret p = Ret (ret, p)"
| "for_each_or f (x # xs) ret p = obind (f x p) (\<lambda>(r, p'). for_each_or f xs (ret OR r) p')"

definition each_entry ::
  "(string, 'd) hashtab option \<Rightarrow> ('d \<Rightarrow> policydb \<Rightarrow> (int \<times> policydb) outcome) \<Rightarrow> policydb \<Rightarrow> (int \<times> policydb) outcome" where
  "each_entry tab f p =
     (case tab of None \<Rightarrow> UB NullDeref | Some h \<Rightarrow> for_each_or f (map snd (hashtab_nodes h)) 0 p)"

definition add_rule_cls ::
  "bool \<Rightarrow> bool \<Rightarrow> type_datum \<Rightarrow> type_datum \<Rightarrow> class_datum option \<Rightarrow> perm_datum option \<Rightarrow> u16 \<Rightarrow> bool \<Rightarrow>
     policydb \<Rightarrow> (int \<times> policydb) outcome" where
  "add_rule_cls cok mok src tgt cls perm effect neg p =
     (case cls of
        None \<Rightarrow> each_entry (table (p_classes p))
                  (\<lambda>cls p. add_rule_one cok mok p (t_value src) (t_value tgt) (cl_value cls) (-1) effect neg) p
      | Some cls \<Rightarrow>
          add_rule_one cok mok p (t_value src) (t_value tgt) (cl_value cls)
            (case perm of Some d \<Rightarrow> sint (pm_value d) | None \<Rightarrow> -1) effect neg)"

definition add_rule_tgt ::
  "bool \<Rightarrow> bool \<Rightarrow> type_datum \<Rightarrow> type_datum option \<Rightarrow> class_datum option \<Rightarrow> perm_datum option \<Rightarrow> u16 \<Rightarrow> bool \<Rightarrow>
     policydb \<Rightarrow> (int \<times> policydb) outcome" where
  "add_rule_tgt cok mok src tgt cls perm effect neg p =
     (case tgt of
        None \<Rightarrow> each_entry (table (p_types p)) (\<lambda>tgt. add_rule_cls cok mok src tgt cls perm effect neg) p
      | Some tgt \<Rightarrow> add_rule_cls cok mok src tgt cls perm effect neg p)"

text \<open>
  \<open>add_rule_auto\<close> calls itself with the source, then the target filled in; the two inner levels
  of that recursion are \<open>add_rule_tgt\<close> and \<open>add_rule_cls\<close>.
\<close>

definition add_rule_auto ::
  "bool \<Rightarrow> bool \<Rightarrow> type_datum option \<Rightarrow> type_datum option \<Rightarrow> class_datum option \<Rightarrow> perm_datum option \<Rightarrow> u16 \<Rightarrow> bool \<Rightarrow>
     policydb \<Rightarrow> (int \<times> policydb) outcome" where
  "add_rule_auto cok mok src tgt cls perm effect neg p =
     (case src of
        None \<Rightarrow> each_entry (table (p_types p)) (\<lambda>src. add_rule_tgt cok mok src tgt cls perm effect neg) p
      | Some src \<Rightarrow> add_rule_tgt cok mok src tgt cls perm effect neg p)"

text \<open>A name argument: NULL, a name that is not in the policy, or an entry.\<close>

datatype 'd resolved = Any | is_Missing: Missing | Entry 'd

definition resolve :: "(string, 'd) hashtab option \<Rightarrow> string option \<Rightarrow> 'd resolved" where
  "resolve tab name =
     (case name of None \<Rightarrow> Any
      | Some n \<Rightarrow> (case hashtab_search tab n of None \<Rightarrow> Missing | Some d \<Rightarrow> Entry d))"

definition entry_opt :: "'d resolved \<Rightarrow> 'd option" where
  "entry_opt r = (case r of Entry d \<Rightarrow> Some d | _ \<Rightarrow> None)"

definition find_perm :: "class_datum \<Rightarrow> string \<Rightarrow> perm_datum option" where
  "find_perm cls name =
     (case hashtab_search (table (cl_permissions cls)) name of
        Some d \<Rightarrow> Some d
      | None \<Rightarrow> (case cl_comdatum cls of None \<Rightarrow> None
                 | Some com \<Rightarrow> hashtab_search (table (com_permissions com)) name))"

definition add_rule ::
  "bool \<Rightarrow> bool \<Rightarrow> policydb \<Rightarrow> string option \<Rightarrow> string option \<Rightarrow> string option \<Rightarrow> string option \<Rightarrow> u16 \<Rightarrow> bool \<Rightarrow>
     (int \<times> policydb) outcome" where
  "add_rule cok mok p s t c perm effect neg =
     (let src = resolve (table (p_types p)) s;
          tgt = resolve (table (p_types p)) t;
          cls = resolve (table (p_classes p)) c in
      if is_Missing src then Ret (1, p)
      else if is_Missing tgt then Ret (1, p)
      else if is_Missing cls then Ret (1, p)
      else case perm of
        None \<Rightarrow> add_rule_auto cok mok (entry_opt src) (entry_opt tgt) (entry_opt cls) None effect neg p
      | Some n \<Rightarrow>
          (case cls of
             Entry cd \<Rightarrow>
               (case find_perm cd n of None \<Rightarrow> Ret (1, p)
                | Some d \<Rightarrow> add_rule_auto cok mok (entry_opt src) (entry_opt tgt) (Some cd) (Some d) effect neg p)
           | _ \<Rightarrow> Ret (1, p)))"

subsection \<open>Extended permission rules\<close>

definition ioctl_driver :: "u16 \<Rightarrow> nat" where
  "ioctl_driver x = unat (drop_bit 8 x AND 0xFF)"

definition ioctl_func :: "u16 \<Rightarrow> nat" where
  "ioctl_func x = unat (x AND 0xFF)"

definition xperm_set :: "nat \<Rightarrow> u32 list \<Rightarrow> u32 list" where
  "xperm_set x ps = ps[x div 32 := ps ! (x div 32) OR push_bit (x mod 32) 1]"

definition xperm_clear :: "nat \<Rightarrow> u32 list \<Rightarrow> u32 list" where
  "xperm_clear x ps = ps[x div 32 := ps ! (x div 32) AND NOT (push_bit (x mod 32) 1)]"

definition xperm_test :: "nat \<Rightarrow> u32 list \<Rightarrow> bool" where
  "xperm_test x ps \<longleftrightarrow> 1 AND drop_bit (x mod 32) (ps ! (x div 32)) \<noteq> 0"

text \<open>The two loops over drivers or functions.\<close>

definition edit_xperms :: "u16 \<Rightarrow> u16 \<Rightarrow> bool \<Rightarrow> avtab_extended_perms \<Rightarrow> avtab_extended_perms" where
  "edit_xperms low high neg xp =
     (let is = (if xp_specified xp = AVTAB_XPERMS_IOCTLDRIVER then [ioctl_driver low..<Suc (ioctl_driver high)]
                else [ioctl_func low..<Suc (ioctl_func high)])
      in xp\<lparr>xp_perms := fold (if neg then xperm_clear else xperm_set) is (xp_perms xp)\<rparr>)"

definition new_xperms :: "u16 \<Rightarrow> u16 \<Rightarrow> avtab_extended_perms" where
  "new_xperms low high =
     (if ioctl_driver low \<noteq> ioctl_driver high
      then zero_xperms\<lparr>xp_specified := AVTAB_XPERMS_IOCTLDRIVER, xp_driver := 0\<rparr>
      else zero_xperms\<lparr>xp_specified := AVTAB_XPERMS_IOCTLFUNCTION, xp_driver := of_nat (ioctl_driver low)\<rparr>)"

definition add_xperm_rule_one ::
  "bool \<Rightarrow> bool \<Rightarrow> policydb \<Rightarrow> u32 \<Rightarrow> u32 \<Rightarrow> u32 \<Rightarrow> u16 \<Rightarrow> u16 \<Rightarrow> u16 \<Rightarrow> bool \<Rightarrow> (int \<times> policydb) outcome" where
  "add_xperm_rule_one cok mok p s t c low high effect neg =
     (let key = rule_key s t c effect in
      case avtab_search (Some (te_avtab p)) key of
        None \<Rightarrow>
          if \<not> cok then Exit 1
          else
            let av = zero_datum\<lparr>av_xperms := Some (edit_xperms low high neg (new_xperms low high))\<rparr> in
            (case avtab_insert mok (Some (te_avtab p)) key av of (rc, te) \<Rightarrow>
               if rc \<noteq> 0 then Ret (1, p) else Ret (0, p\<lparr>te_avtab := the te\<rparr>))
      | Some av \<Rightarrow>
          (case av_xperms av of None \<Rightarrow> UB NullDeref
           | Some xp \<Rightarrow>
               Ret (0, p\<lparr>te_avtab := avtab_assign (te_avtab p) key
                          (\<lambda>d. d\<lparr>av_xperms := map_option (edit_xperms low high neg) (av_xperms d)\<rparr>)\<rparr>)))"

definition add_xperm_rule_cls ::
  "bool \<Rightarrow> bool \<Rightarrow> type_datum \<Rightarrow> type_datum \<Rightarrow> class_datum option \<Rightarrow> u16 \<Rightarrow> u16 \<Rightarrow> u16 \<Rightarrow> bool \<Rightarrow>
     policydb \<Rightarrow> (int \<times> policydb) outcome" where
  "add_xperm_rule_cls cok mok src tgt cls low high effect neg p =
     (case cls of
        None \<Rightarrow> each_entry (table (p_classes p))
                  (\<lambda>cls p. add_xperm_rule_one cok mok p (t_value src) (t_value tgt) (cl_value cls) low high effect neg) p
      | Some cls \<Rightarrow> add_xperm_rule_one cok mok p (t_value src) (t_value tgt) (cl_value cls) low high effect neg)"

definition add_xperm_rule_tgt ::
  "bool \<Rightarrow> bool \<Rightarrow> type_datum \<Rightarrow> type_datum option \<Rightarrow> class_datum option \<Rightarrow> u16 \<Rightarrow> u16 \<Rightarrow> u16 \<Rightarrow> bool \<Rightarrow>
     policydb \<Rightarrow> (int \<times> policydb) outcome" where
  "add_xperm_rule_tgt cok mok src tgt cls low high effect neg p =
     (case tgt of
        None \<Rightarrow> each_entry (table (p_types p)) (\<lambda>tgt. add_xperm_rule_cls cok mok src tgt cls low high effect neg) p
      | Some tgt \<Rightarrow> add_xperm_rule_cls cok mok src tgt cls low high effect neg p)"

definition add_xperm_rule_auto ::
  "bool \<Rightarrow> bool \<Rightarrow> type_datum option \<Rightarrow> type_datum option \<Rightarrow> class_datum option \<Rightarrow> u16 \<Rightarrow> u16 \<Rightarrow> u16 \<Rightarrow> bool \<Rightarrow>
     policydb \<Rightarrow> (int \<times> policydb) outcome" where
  "add_xperm_rule_auto cok mok src tgt cls low high effect neg p =
     (case src of
        None \<Rightarrow> each_entry (table (p_types p)) (\<lambda>src. add_xperm_rule_tgt cok mok src tgt cls low high effect neg) p
      | Some src \<Rightarrow> add_xperm_rule_tgt cok mok src tgt cls low high effect neg p)"

text \<open>
  \<^verbatim>\<open>%hx\<close> of \<open>sscanf\<close>: white space, a sign, an optional \<^verbatim>\<open>0x\<close>, hexadecimal digits; the value
  saturates at 64 bits and is stored in 16.
\<close>

definition hex_val :: "char \<Rightarrow> nat option" where
  "hex_val c =
     (let n = of_char c :: nat in
      if 48 \<le> n \<and> n \<le> 57 then Some (n - 48)
      else if 97 \<le> n \<and> n \<le> 102 then Some (n - 87)
      else if 65 \<le> n \<and> n \<le> 70 then Some (n - 55) else None)"

definition is_hex :: "char \<Rightarrow> bool" where
  "is_hex c \<longleftrightarrow> hex_val c \<noteq> None"

definition hex_num :: "string \<Rightarrow> nat" where
  "hex_num ds = foldl (\<lambda>n c. 16 * n + the (hex_val c)) 0 ds"

definition scan_hx :: "string \<Rightarrow> (u16 \<times> string) option" where
  "scan_hx str =
     (let s = dropWhile isspace str;
          neg = (case s of c # _ \<Rightarrow> c = CHR ''-'' | [] \<Rightarrow> False);
          s = (case s of c # r \<Rightarrow> if c = CHR ''-'' \<or> c = CHR ''+'' then r else s | [] \<Rightarrow> s);
          s = (case s of z # x # d # r \<Rightarrow> if z = CHR ''0'' \<and> (x = CHR ''x'' \<or> x = CHR ''X'') \<and> is_hex d then d # r else s
               | _ \<Rightarrow> s);
          ds = takeWhile is_hex s;
          v = min (hex_num ds) (2 ^ 64 - 1)
      in if ds = [] then None
         else Some (if neg then - of_nat v else of_nat v, drop (length ds) s))"

definition parse_range :: "string \<Rightarrow> u16 option \<times> u16 option" where
  "parse_range rng =
     (if CHR ''-'' \<in> set rng then
        (case scan_hx rng of None \<Rightarrow> (None, None)
         | Some (low, rest) \<Rightarrow>
             (Some low, case rest of c # r \<Rightarrow> if c = CHR ''-'' then map_option fst (scan_hx r) else None | [] \<Rightarrow> None))
      else
        let low = map_option fst (scan_hx rng) in (low, low))"

definition add_xperm_rule ::
  "bool \<Rightarrow> bool \<Rightarrow> policydb \<Rightarrow> string option \<Rightarrow> string option \<Rightarrow> string option \<Rightarrow> string option \<Rightarrow> u16 \<Rightarrow> bool \<Rightarrow>
     (int \<times> policydb) outcome" where
  "add_xperm_rule cok mok p s t c rng effect neg =
     (let src = resolve (table (p_types p)) s;
          tgt = resolve (table (p_types p)) t;
          cls = resolve (table (p_classes p)) c in
      if is_Missing src then Ret (1, p)
      else if is_Missing tgt then Ret (1, p)
      else if is_Missing cls then Ret (1, p)
      else case (case rng of Some r \<Rightarrow> parse_range r | None \<Rightarrow> (Some 0, Some 0xFFFF)) of
        (Some low, Some high) \<Rightarrow>
          add_xperm_rule_auto cok mok (entry_opt src) (entry_opt tgt) (entry_opt cls) low high effect neg p
      | _ \<Rightarrow> UB Uninitialised)"

subsection \<open>Domains, attributes and transitions\<close>

definition realloc_maps :: "ebitmap list \<Rightarrow> nat \<Rightarrow> ebitmap list" where
  "realloc_maps xs n = take n xs @ replicate (n - length xs) ebitmap_init"

text \<open>The loop of \<open>create_domain\<close> that adds the new type to every role.\<close>

fun add_to_roles :: "bool \<Rightarrow> u32 \<Rightarrow> u32 list \<Rightarrow> policydb \<Rightarrow> policydb outcome" where
  "add_to_roles mok value [] p = Ret p"
| "add_to_roles mok value (i # is) p =
     obind (array_at (role_val_to_struct p) i) (\<lambda>ko.
       case (case ko of None \<Rightarrow> None | Some k \<Rightarrow> map_option (Pair k) (hashtab_search (table (p_roles p)) k)) of
         None \<Rightarrow> UB NullDeref
       | Some (k, r) \<Rightarrow>
           let ts = r_types r;
               ts = ts\<lparr>ts_negset := snd (ebitmap_set_bit mok (ts_negset ts) (value - 1) False)\<rparr>;
               ts = ts\<lparr>ts_types := snd (ebitmap_set_bit mok (ts_types ts) (value - 1) True)\<rparr>
           in obind (type_set_expand mok ts p False) (\<lambda>(rc, c).
                add_to_roles mok value is
                  (p\<lparr>p_roles := (p_roles p)\<lparr>table :=
                       hashtab_assign (table (p_roles p)) k (\<lambda>r. r\<lparr>r_types := ts, r_cache := c\<rparr>)\<rparr>\<rparr>)))"

text \<open>
  \<open>create_domain\<close>, in three parts: the declaration of the type and its slots in the attribute
  maps (the value given to the type and the database, \<open>None\<close> where the function returns 1), the
  indexing of the database, and the roles and the attribute.
\<close>

definition declare_domain :: "bool \<Rightarrow> policydb \<Rightarrow> string \<Rightarrow> (u32 option \<times> policydb) outcome" where
  "declare_domain mok p d =
     (case symtab_insert mok False False (\<lambda>_. False) (p_types p) (scope_types p) d
             (type_datum_init\<lparr>t_primary := 1, t_flavor := TYPE_TYPE\<rparr>) SCOPE_DECL 1 of
        (_, types, scopes, v) \<Rightarrow>
          let value = (case v of Some x \<Rightarrow> x | None \<Rightarrow> 0);
              types = types\<lparr>table := hashtab_assign (table types) d (\<lambda>t. t\<lparr>t_value := value\<rparr>)\<rparr>
          in case ebitmap_set_bit mok (declared_types p) (value - 1) True of (rc, decl) \<Rightarrow>
             let p = p\<lparr>p_types := types, scope_types := scopes, declared_types := decl\<rparr> in
             if rc \<noteq> 0 then Ret (None, p)
             else if \<not> unat (value - 1) < unat (nprim types) then UB OutOfBounds
             else
               let tam = realloc_maps (type_attr_map p) (unat (nprim types));
                   atm = realloc_maps (attr_type_map p) (unat (nprim types));
                   i = unat (value - 1);
                   p = p\<lparr>type_attr_map := tam[i := snd (ebitmap_set_bit mok ebitmap_init (value - 1) True)],
                         attr_type_map := atm[i := ebitmap_init]\<rparr>
               in Ret (if lookup_type p d = None then None else Some value, p))"

definition index_policy :: "bool \<Rightarrow> policydb \<Rightarrow> (int \<times> policydb) outcome" where
  "index_policy mok p =
     (case policydb_index_decls mok p of (rc, p) \<Rightarrow>
      if rc \<noteq> 0 then Ret (1, p)
      else case policydb_index_classes mok p of (rc, p) \<Rightarrow>
      if rc \<noteq> 0 then Ret (1, p)
      else obind (policydb_index_others mok p) (\<lambda>(rc, p). Ret (if rc \<noteq> 0 then 1 else 0, p)))"

definition create_domain :: "bool \<Rightarrow> bool \<Rightarrow> policydb \<Rightarrow> string \<Rightarrow> (int \<times> policydb) outcome" where
  "create_domain cok mok p d =
     (case lookup_type p d of Some _ \<Rightarrow> Ret (0, p)
      | None \<Rightarrow>
          if \<not> cok then UB NullDeref
          else obind (declare_domain mok p d) (\<lambda>(v, p).
            case v of None \<Rightarrow> Ret (1, p)
            | Some value \<Rightarrow>
                obind (index_policy mok p) (\<lambda>(rc, p).
                if rc \<noteq> 0 then Ret (1, p)
                else obind (add_to_roles mok value (bits_below (nprim (p_roles p))) p) (\<lambda>p.
                     set_attr mok p ''domain'' value))))"

fun permissive_all :: "bool \<Rightarrow> bool \<Rightarrow> type_datum list \<Rightarrow> policydb \<Rightarrow> int \<times> policydb" where
  "permissive_all mok state [] p = (0, p)"
| "permissive_all mok state (ty # ts) p =
     (case ebitmap_set_bit mok (permissive_map p) (t_value ty) state of (rc, e) \<Rightarrow>
        let p = p\<lparr>permissive_map := e\<rparr> in
        if rc \<noteq> 0 then (1, p) else permissive_all mok state ts p)"

definition set_domain_state :: "bool \<Rightarrow> policydb \<Rightarrow> string option \<Rightarrow> bool \<Rightarrow> (int \<times> policydb) outcome" where
  "set_domain_state mok p s state =
     (case s of
        None \<Rightarrow> (case table (p_types p) of None \<Rightarrow> UB NullDeref
                 | Some h \<Rightarrow> Ret (permissive_all mok state (map snd (hashtab_nodes h)) p))
      | Some n \<Rightarrow>
          (case lookup_type p n of None \<Rightarrow> Ret (1, p)
           | Some ty \<Rightarrow>
               (case ebitmap_set_bit mok (permissive_map p) (t_value ty) state of (rc, e) \<Rightarrow>
                  Ret (if rc \<noteq> 0 then 1 else 0, p\<lparr>permissive_map := e\<rparr>))))"

definition add_transition ::
  "bool \<Rightarrow> bool \<Rightarrow> policydb \<Rightarrow> string \<Rightarrow> string \<Rightarrow> string \<Rightarrow> string \<Rightarrow> (int \<times> policydb) outcome" where
  "add_transition cok mok p s t c d =
     (case (lookup_type p s, lookup_type p t, lookup_class p c, lookup_type p d) of
        (Some src, Some tgt, Some cls, Some def) \<Rightarrow>
          (let key = rule_key (t_value src) (t_value tgt) (cl_value cls) AVTAB_TRANSITION in
           case avtab_search (Some (te_avtab p)) key of
             None \<Rightarrow>
               if \<not> cok then Exit 1
               else (case avtab_insert mok (Some (te_avtab p)) key (zero_datum\<lparr>av_data := t_value def\<rparr>) of (rc, te) \<Rightarrow>
                       if rc \<noteq> 0 then Ret (1, p) else Ret (0, p\<lparr>te_avtab := the te\<rparr>))
           | Some _ \<Rightarrow> Ret (0, p\<lparr>te_avtab := avtab_assign (te_avtab p) key (\<lambda>av. av\<lparr>av_data := t_value def\<rparr>)\<rparr>))
      | _ \<Rightarrow> Ret (1, p))"

subsection \<open>File name transitions\<close>

definition partial_name_hash :: "u32 \<Rightarrow> u32 \<Rightarrow> u32" where
  "partial_name_hash c prevhash = (prevhash + push_bit 4 c + drop_bit 4 c) * 11"

definition filenametr_hash :: "u32 \<Rightarrow> filename_trans \<Rightarrow> u32" where
  "filenametr_hash sz ft =
     foldl (\<lambda>h c. partial_name_hash (of_char c) h) (ft_stype ft XOR ft_ttype ft XOR ft_tclass ft) (ft_name ft) AND (sz - 1)"

definition filenametr_cmp :: "filename_trans \<Rightarrow> filename_trans \<Rightarrow> int" where
  "filenametr_cmp a b =
     (let v = sint (ft_stype a - ft_stype b) in if v \<noteq> 0 then v
      else let v = sint (ft_ttype a - ft_ttype b) in if v \<noteq> 0 then v
      else let v = sint (ft_tclass a - ft_tclass b) in if v \<noteq> 0 then v
      else strcmp (ft_name a) (ft_name b))"

text \<open>
  \<open>hashtab_insert\<close> on a chain of the file name transition table. The comparison with a key
  that points into a dead stack frame is undefined. \<open>None\<close> is \<open>SEPOL_EEXIST\<close>; the new node's
  key is the address of the caller's local variable.
\<close>

fun ft_chain_insert :: "filename_trans \<Rightarrow> u32 \<Rightarrow> (ft_key \<times> u32) list \<Rightarrow> (ft_key \<times> u32) list option outcome" where
  "ft_chain_insert key otype [] = Ret (Some [(StackKey, otype)])"
| "ft_chain_insert key otype ((StackKey, d) # cur) = UB UseAfterFree"
| "ft_chain_insert key otype ((HeapKey k, d) # cur) =
     (if filenametr_cmp key k > 0
      then obind (ft_chain_insert key otype cur) (\<lambda>r. Ret (map_option ((#) (HeapKey k, d)) r))
      else if filenametr_cmp key k = 0 then Ret None
      else Ret (Some ((StackKey, otype) # (HeapKey k, d) # cur)))"

text \<open>The bytes of a \<open>filename_trans_t\<close> in memory, the last four being its \<open>name\<close> pointer.\<close>

definition trans_key_bytes :: "filename_trans \<Rightarrow> u32 \<Rightarrow> string" where
  "trans_key_bytes k name_ptr =
     map (\<lambda>b. char_of (unat b)) (le_bytes 4 (ft_stype k) @ le_bytes 4 (ft_ttype k) @ le_bytes 4 (ft_tclass k) @ le_bytes 4 name_ptr)"

text \<open>
  \<open>add_file_transition\<close> looks its key up in the table of types, whose keys are strings: the
  key's bytes up to the first NUL are the name searched for. A type found there is taken for
  the transition's datum and its first word overwritten. The result of \<open>hashtab_insert\<close> is
  ignored.
\<close>

definition add_file_transition ::
  "bool \<Rightarrow> bool \<Rightarrow> policydb \<Rightarrow> string \<Rightarrow> string \<Rightarrow> string \<Rightarrow> string \<Rightarrow> string \<Rightarrow> u32 \<Rightarrow> (int \<times> policydb) outcome" where
  "add_file_transition cok mok p s t c d filename name_ptr =
     (case (lookup_type p s, lookup_type p t, lookup_class p c, lookup_type p d) of
        (Some src, Some tgt, Some cls, Some def) \<Rightarrow>
          (let key = \<lparr>ft_stype = t_value src, ft_ttype = t_value tgt, ft_tclass = cl_value cls, ft_name = filename\<rparr>;
               name = cstr_of (trans_key_bytes key name_ptr) in
           case lookup_type p name of
             Some _ \<Rightarrow>
               Ret (0, p\<lparr>p_types := (p_types p)\<lparr>table :=
                          hashtab_assign (table (p_types p)) name (\<lambda>ty. ty\<lparr>t_value := t_value def\<rparr>)\<rparr>\<rparr>)
           | None \<Rightarrow>
               if \<not> cok then Exit 1
               else
                 let bs = p_filename_trans p;
                     hv = unat (filenametr_hash (of_nat (length bs)) key) in
                 obind (ft_chain_insert key (t_value def) (bs ! hv)) (\<lambda>r.
                   Ret (0, case r of Some ch \<Rightarrow> if mok then p\<lparr>p_filename_trans := bs[hv := ch]\<rparr> else p
                           | None \<Rightarrow> p)))
      | _ \<Rightarrow> Ret (1, p))"

subsection \<open>Type attributes\<close>

definition constrain_expr :: "bool \<Rightarrow> u32 \<Rightarrow> u32 \<Rightarrow> constraint_expr \<Rightarrow> constraint_expr outcome" where
  "constrain_expr mok type_id value e =
     (if ce_expr_type e = CEXPR_NAMES then
        (case ce_type_names e of None \<Rightarrow> UB NullDeref
         | Some ts \<Rightarrow>
             Ret (if ebitmap_get_bit (ts_types ts) (type_id - 1)
                  then e\<lparr>ce_names := snd (ebitmap_set_bit mok (ce_names e) (value - 1) True)\<rparr> else e))
      else Ret e)"

fun omap :: "('a \<Rightarrow> 'b outcome) \<Rightarrow> 'a list \<Rightarrow> 'b list outcome" where
  "omap f [] = Ret []"
| "omap f (x # xs) = obind (f x) (\<lambda>y. obind (omap f xs) (\<lambda>ys. Ret (y # ys)))"

definition constrain_class :: "bool \<Rightarrow> u32 \<Rightarrow> u32 \<Rightarrow> class_datum \<Rightarrow> class_datum outcome" where
  "constrain_class mok type_id value cl =
     obind (omap (\<lambda>n. obind (omap (constrain_expr mok type_id value) (cn_expr n)) (\<lambda>es. Ret (n\<lparr>cn_expr := es\<rparr>)))
              (cl_constraints cl))
       (\<lambda>ns. Ret (cl\<lparr>cl_constraints := ns\<rparr>))"

fun constrain_classes :: "bool \<Rightarrow> u32 \<Rightarrow> u32 \<Rightarrow> u32 list \<Rightarrow> policydb \<Rightarrow> policydb outcome" where
  "constrain_classes mok type_id value [] p = Ret p"
| "constrain_classes mok type_id value (i # is) p =
     obind (array_at (class_val_to_struct p) i) (\<lambda>ko.
       case (case ko of None \<Rightarrow> None | Some k \<Rightarrow> map_option (Pair k) (lookup_class p k)) of
         None \<Rightarrow> UB NullDeref
       | Some (k, cl) \<Rightarrow>
           obind (constrain_class mok type_id value cl) (\<lambda>cl'.
             constrain_classes mok type_id value is
               (p\<lparr>p_classes := (p_classes p)\<lparr>table := hashtab_assign (table (p_classes p)) k (\<lambda>_. cl')\<rparr>\<rparr>)))"

definition add_typeattribute :: "bool \<Rightarrow> policydb \<Rightarrow> string \<Rightarrow> string \<Rightarrow> (int \<times> policydb) outcome" where
  "add_typeattribute mok p domainS attr =
     (case lookup_type p domainS of None \<Rightarrow> Ret (1, p)
      | Some domain \<Rightarrow>
          obind (set_attr mok p attr (t_value domain)) (\<lambda>(_, p).
          obind (constrain_classes mok (get_attr_id p attr) (t_value domain) (bits_below (nprim (p_classes p))) p) (\<lambda>p.
          Ret (0, p))))"

end
