(* ===== verification/SepolicyRules.thy ===== *)
theory SepolicyRules
  imports Sepolicy
begin

text \<open>
  What the rule edits of the policy editor do to the access vector table: every rule named by
  the arguments, a missing argument standing for all entries of its table, has its datum
  edited (a blank one if the policy had no such rule), and no other rule changes.
\<close>

section \<open>The abstract effect of an edit\<close>

definition grant :: "rule_id set \<Rightarrow> (avtab_datum \<Rightarrow> avtab_datum) \<Rightarrow> (rule_id \<rightharpoonup> avtab_datum) \<Rightarrow> rule_id \<rightharpoonup> avtab_datum" where
  "grant R g m r = (if r \<in> R then Some (g (case m r of None \<Rightarrow> zero_datum | Some d \<Rightarrow> d)) else m r)"

lemma grant_empty [simp]: "grant {} g m = m"
  by (simp add: grant_def fun_eq_iff)

lemma grant_grant:
  assumes "\<And>d. g (g d) = g d"
  shows "grant R2 g (grant R1 g m) = grant (R1 \<union> R2) g m"
  using assms by (auto simp: grant_def fun_eq_iff split: option.splits)

lemma grant_single: "grant {r} g m = m(r \<mapsto> g (case m r of None \<Rightarrow> zero_datum | Some d \<Rightarrow> d))"
  by (auto simp: grant_def fun_eq_iff)

lemma edit_av_idem: "edit_av perm neg (edit_av perm neg d) = edit_av perm neg d"
  by (auto simp: edit_av_def or.assoc and.assoc)

text \<open>
  A step on the database that edits a set of rules and leaves everything else alone, for the
  databases that have the given symbol tables.
\<close>

definition rule_step ::
  "type_datum symtab \<Rightarrow> class_datum symtab \<Rightarrow> (policydb \<Rightarrow> (int \<times> policydb) outcome) \<Rightarrow> rule_id set \<Rightarrow>
     (avtab_datum \<Rightarrow> avtab_datum) \<Rightarrow> bool" where
  "rule_step T C F R g \<longleftrightarrow>
     (\<forall>p. avtab_wf (te_avtab p) \<and> p_types p = T \<and> p_classes p = C \<longrightarrow>
        (\<exists>te. F p = Ret (0, p\<lparr>te_avtab := te\<rparr>) \<and> avtab_wf te \<and> avtab_abs te = grant R g (avtab_abs (te_avtab p))))"

lemma rule_stepD:
  assumes "rule_step T C F R g" and "avtab_wf (te_avtab p)" and "p_types p = T" and "p_classes p = C"
  obtains te where "F p = Ret (0, p\<lparr>te_avtab := te\<rparr>)" and "avtab_wf te"
    and "avtab_abs te = grant R g (avtab_abs (te_avtab p))"
  using assms unfolding rule_step_def by blast

lemma rule_step_for_each:
  assumes "\<forall>x \<in> set xs. rule_step T C (f x) (R x) g" and "\<And>d. g (g d) = g d"
  shows "rule_step T C (for_each_or f xs 0) (\<Union>x \<in> set xs. R x) g"
  using assms(1)
proof (induction xs)
  case Nil
  show ?case unfolding rule_step_def
  proof (intro allI impI)
    fix p :: policydb
    assume "avtab_wf (te_avtab p) \<and> p_types p = T \<and> p_classes p = C"
    then show "\<exists>te. for_each_or f [] 0 p = Ret (0, p\<lparr>te_avtab := te\<rparr>) \<and> avtab_wf te \<and>
        avtab_abs te = grant (\<Union>x \<in> set []. R x) g (avtab_abs (te_avtab p))"
      by (intro exI[of _ "te_avtab p"]) simp
  qed
next
  case (Cons x xs)
  show ?case unfolding rule_step_def
  proof (intro allI impI)
    fix p :: policydb
    assume p: "avtab_wf (te_avtab p) \<and> p_types p = T \<and> p_classes p = C"
    with Cons.prems obtain te where te: "f x p = Ret (0, p\<lparr>te_avtab := te\<rparr>)" "avtab_wf te"
      "avtab_abs te = grant (R x) g (avtab_abs (te_avtab p))" by (auto elim: rule_stepD)
    let ?p = "p\<lparr>te_avtab := te\<rparr>"
    have "rule_step T C (for_each_or f xs 0) (\<Union>x \<in> set xs. R x) g" using Cons by simp
    then obtain te' where te': "for_each_or f xs 0 ?p = Ret (0, ?p\<lparr>te_avtab := te'\<rparr>)" "avtab_wf te'"
      "avtab_abs te' = grant (\<Union>x \<in> set xs. R x) g (avtab_abs te)"
      using p te(2) by (elim rule_stepD[where p = ?p]) auto
    then show "\<exists>te. for_each_or f (x # xs) 0 p = Ret (0, p\<lparr>te_avtab := te\<rparr>) \<and> avtab_wf te \<and>
        avtab_abs te = grant (\<Union>x \<in> set (x # xs). R x) g (avtab_abs (te_avtab p))"
      using te grant_grant[OF assms(2)] by (intro exI[of _ te']) simp
  qed
qed

text \<open>The entries an argument stands for.\<close>

definition entries :: "(string, 'd) hashtab \<Rightarrow> 'd option \<Rightarrow> 'd set" where
  "entries h x = (case x of None \<Rightarrow> snd ` set (hashtab_nodes h) | Some d \<Rightarrow> {d})"

lemma rule_step_each:
  assumes "\<And>x. x \<in> snd ` set (hashtab_nodes h) \<Longrightarrow> rule_step T C (f x) (R x) g" and "\<And>d. g (g d) = g d"
  shows "rule_step T C (each_entry (Some h) f) (\<Union>x \<in> entries h None. R x) g"
  using rule_step_for_each[of "map snd (hashtab_nodes h)" T C f R g] assms
  by (auto simp: each_entry_def[abs_def] entries_def)

lemma rule_step_cong:
  assumes "\<And>p. p_types p = T \<Longrightarrow> p_classes p = C \<Longrightarrow> F p = F' p" and "rule_step T C F' R g"
  shows "rule_step T C F R g"
  using assms unfolding rule_step_def by metis

section \<open>Access vector rules\<close>

definition rule_ids :: "type_datum set \<Rightarrow> type_datum set \<Rightarrow> class_datum set \<Rightarrow> u16 \<Rightarrow> rule_id set" where
  "rule_ids S T C effect =
     (\<Union>s \<in> S. \<Union>t \<in> T. \<Union>c \<in> C. {(ucast (t_value s), ucast (t_value t), ucast (cl_value c), effect)})"

definition av_effects :: "u16 list" where
  "av_effects = [AVTAB_ALLOWED, AVTAB_AUDITALLOW, AVTAB_AUDITDENY]"

abbreviation set_av :: "int \<Rightarrow> bool \<Rightarrow> avtab_datum \<Rightarrow> avtab_datum" where
  "set_av perm neg \<equiv> (\<lambda>d. d\<lparr>av_data := edit_av perm neg (av_data d)\<rparr>)"

lemma rule_key_id: "effect \<in> set spec_order \<Longrightarrow> plain_key (rule_key s t c effect)"
  "effect \<in> set spec_order \<Longrightarrow> av_id (rule_key s t c effect) = (ucast s, ucast t, ucast c, effect)"
  by (simp_all add: rule_key_def plain_key_def av_id_def) (auto simp: spec_order_def av_kind_def)

lemma te_upsert:
  assumes "avtab_wf te" and "effect \<in> set spec_order" and "new_datum (rule_key s t c effect) (f z) = f z"
  obtains te' where "avtab_wf te'"
    and "avtab_abs te' = (avtab_abs te)((ucast s, ucast t, ucast c, effect) \<mapsto>
          f (case avtab_abs te (ucast s, ucast t, ucast c, effect) of None \<Rightarrow> z | Some d \<Rightarrow> d))"
    and "avtab_search (Some te) (rule_key s t c effect) = avtab_abs te (ucast s, ucast t, ucast c, effect)"
    and "avtab_abs te (ucast s, ucast t, ucast c, effect) = None \<Longrightarrow>
          avtab_insert True (Some te) (rule_key s t c effect) (f z) = (0, Some te')"
    and "avtab_abs te (ucast s, ucast t, ucast c, effect) \<noteq> None \<Longrightarrow>
          avtab_assign te (rule_key s t c effect) f = te'"
proof (cases "avtab_abs te (ucast s, ucast t, ucast c, effect)")
  case None
  note key = rule_key_id[OF assms(2), of s t c]
  from None key obtain te' where "avtab_insert True (Some te) (rule_key s t c effect) (f z) = (0, Some te')"
    "avtab_wf te'" "avtab_abs te' = (avtab_abs te)(av_id (rule_key s t c effect) \<mapsto> f z)"
    using avtab_insert_correct[OF assms(1) key(1), of "f z"] assms(3) by auto
  then show ?thesis
    using None key avtab_search_correct[OF assms(1) key(1)] by (intro that[of te']) auto
next
  case (Some d)
  note key = rule_key_id[OF assms(2), of s t c]
  show ?thesis
    using avtab_assign_correct[OF assms(1) key(1), of f] avtab_search_correct[OF assms(1) key(1)] key Some
    by (intro that[of "avtab_assign te (rule_key s t c effect) f"]) auto
qed

lemma add_rule_one_step:
  assumes "effect \<in> set av_effects" and "perm \<noteq> 0" and "perm \<le> 32"
  shows "rule_step T C (\<lambda>p. add_rule_one True True p s t c perm effect neg)
    {(ucast s, ucast t, ucast c, effect)} (set_av perm neg)"
  unfolding rule_step_def
proof (intro allI impI)
  fix p :: policydb
  assume "avtab_wf (te_avtab p) \<and> p_types p = T \<and> p_classes p = C"
  then have wf: "avtab_wf (te_avtab p)" by simp
  have eff: "effect \<in> set spec_order" "new_datum (rule_key s t c effect) d = d" for d
    using assms(1) by (auto simp: av_effects_def spec_order_def new_datum_def rule_key_def)
  let ?r = "(ucast s, ucast t, ucast c, effect)"
  show "\<exists>te. add_rule_one True True p s t c perm effect neg = Ret (0, p\<lparr>te_avtab := te\<rparr>) \<and> avtab_wf te \<and>
      avtab_abs te = grant {?r} (set_av perm neg) (avtab_abs (te_avtab p))"
  proof (rule te_upsert[of "te_avtab p" effect s t c "set_av perm neg" zero_datum])
    show "new_datum (rule_key s t c effect) (set_av perm neg zero_datum) = set_av perm neg zero_datum"
      by (rule eff(2))
  qed (use wf eff(1) assms in \<open>auto simp: add_rule_one_def grant_single Let_def split: option.splits\<close>)
qed

lemma set_av_idem: "set_av perm neg (set_av perm neg d) = set_av perm neg d"
  by (simp add: edit_av_idem)

definition perm_arg :: "perm_datum option \<Rightarrow> int" where
  "perm_arg perm = (case perm of Some d \<Rightarrow> sint (pm_value d) | None \<Rightarrow> -1)"

lemma add_rule_auto_step:
  assumes tabs: "table T = Some ht" "table C = Some hc"
    and eff: "effect \<in> set av_effects" and perm: "perm_arg perm \<noteq> 0" "perm_arg perm \<le> 32" "cls = None \<longrightarrow> perm = None"
  shows "rule_step T C (add_rule_auto True True src tgt cls perm effect neg)
    (rule_ids (entries ht src) (entries ht tgt) (entries hc cls) effect) (set_av (perm_arg perm) neg)"
proof -
  note one = add_rule_one_step[OF eff, where T = T and C = C]
  have c: "rule_step T C (add_rule_cls True True s t cls perm effect neg)
      (rule_ids {s} {t} (entries hc cls) effect) (set_av (perm_arg perm) neg)" for s t
  proof (cases cls)
    case None
    let ?f = "\<lambda>c p. add_rule_one True True p (t_value s) (t_value t) (cl_value c) (-1) effect neg"
    have "perm_arg perm = -1" using None perm(3) by (simp add: perm_arg_def)
    then have "rule_step T C (each_entry (Some hc) ?f) (rule_ids {s} {t} (entries hc cls) effect) (set_av (perm_arg perm) neg)"
      unfolding rule_ids_def None
      using rule_step_each[where f = ?f and h = hc, OF one[where perm = "-1"] set_av_idem] by simp
    then show ?thesis by (rule rule_step_cong[rotated]) (simp add: add_rule_cls_def tabs None)
  next
    case (Some d)
    have "rule_step T C (\<lambda>p. add_rule_one True True p (t_value s) (t_value t) (cl_value d) (perm_arg perm) effect neg)
        (rule_ids {s} {t} (entries hc cls) effect) (set_av (perm_arg perm) neg)"
      using one[OF perm(1,2)] Some by (simp add: rule_ids_def entries_def)
    then show ?thesis by (rule rule_step_cong[rotated]) (simp add: add_rule_cls_def perm_arg_def Some)
  qed
  have t: "rule_step T C (add_rule_tgt True True s tgt cls perm effect neg)
      (rule_ids {s} (entries ht tgt) (entries hc cls) effect) (set_av (perm_arg perm) neg)" for s
  proof (cases tgt)
    case None
    let ?f = "\<lambda>t. add_rule_cls True True s t cls perm effect neg"
    have "rule_step T C (each_entry (Some ht) ?f) (\<Union>t \<in> entries ht None. rule_ids {s} {t} (entries hc cls) effect) (set_av (perm_arg perm) neg)"
      by (rule rule_step_each[OF c set_av_idem])
    then have "rule_step T C (each_entry (Some ht) ?f) (rule_ids {s} (entries ht tgt) (entries hc cls) effect) (set_av (perm_arg perm) neg)"
      by (simp add: rule_ids_def None)
    then show ?thesis by (rule rule_step_cong[rotated]) (simp add: add_rule_tgt_def tabs None)
  qed (use c in \<open>simp add: add_rule_tgt_def[abs_def] entries_def\<close>)
  show ?thesis
  proof (cases src)
    case None
    let ?f = "\<lambda>s. add_rule_tgt True True s tgt cls perm effect neg"
    have "rule_step T C (each_entry (Some ht) ?f) (\<Union>s \<in> entries ht None. rule_ids {s} (entries ht tgt) (entries hc cls) effect) (set_av (perm_arg perm) neg)"
      by (rule rule_step_each[OF t set_av_idem])
    then have "rule_step T C (each_entry (Some ht) ?f) (rule_ids (entries ht src) (entries ht tgt) (entries hc cls) effect) (set_av (perm_arg perm) neg)"
      by (simp add: rule_ids_def None)
    then show ?thesis by (rule rule_step_cong[rotated]) (simp add: add_rule_auto_def tabs None)
  qed (use t in \<open>simp add: add_rule_auto_def[abs_def] entries_def\<close>)
qed

text \<open>The arguments of \<open>add_rule\<close> name entries of the policy.\<close>

definition names_ok :: "policydb \<Rightarrow> string option \<Rightarrow> string option \<Rightarrow> string option \<Rightarrow> bool" where
  "names_ok p s t c \<longleftrightarrow> \<not> is_Missing (resolve (table (p_types p)) s) \<and>
     \<not> is_Missing (resolve (table (p_types p)) t) \<and> \<not> is_Missing (resolve (table (p_classes p)) c)"

definition perm_value :: "policydb \<Rightarrow> string option \<Rightarrow> string option \<Rightarrow> int option" where
  "perm_value p c perm =
     (case perm of None \<Rightarrow> Some (-1)
      | Some n \<Rightarrow> (case entry_opt (resolve (table (p_classes p)) c) of None \<Rightarrow> None
                  | Some cd \<Rightarrow> map_option (\<lambda>d. sint (pm_value d)) (find_perm cd n)))"

definition named_rules :: "policydb \<Rightarrow> string option \<Rightarrow> string option \<Rightarrow> string option \<Rightarrow> u16 \<Rightarrow> rule_id set" where
  "named_rules p s t c effect =
     (let ht = the (table (p_types p)); hc = the (table (p_classes p)) in
      rule_ids (entries ht (entry_opt (resolve (Some ht) s))) (entries ht (entry_opt (resolve (Some ht) t)))
        (entries hc (entry_opt (resolve (Some hc) c))) effect)"

lemma add_rule_correct:
  assumes wf: "avtab_wf (te_avtab p)" and tabs: "table (p_types p) \<noteq> None" "table (p_classes p) \<noteq> None"
    and names: "names_ok p s t c" and eff: "effect \<in> set av_effects"
    and perm: "perm_value p c perm = Some v" "v \<noteq> 0" "v \<le> 32"
  obtains te where "add_rule True True p s t c perm effect neg = Ret (0, p\<lparr>te_avtab := te\<rparr>)"
    and "avtab_wf te" and "avtab_abs te = grant (named_rules p s t c effect) (set_av v neg) (avtab_abs (te_avtab p))"
proof -
  obtain ht hc where h: "table (p_types p) = Some ht" "table (p_classes p) = Some hc" using tabs by auto
  let ?src = "entry_opt (resolve (Some ht) s)" and ?tgt = "entry_opt (resolve (Some ht) t)"
    and ?cls = "entry_opt (resolve (Some hc) c)"
  obtain pd where pd: "add_rule True True p s t c perm effect neg =
      add_rule_auto True True ?src ?tgt ?cls pd effect neg p" "perm_arg pd = v" "?cls = None \<longrightarrow> pd = None"
  proof (cases perm)
    case None
    with names perm(1) h show ?thesis
      by (intro that[of None]) (auto simp: add_rule_def names_ok_def perm_value_def perm_arg_def Let_def)
  next
    case (Some n)
    with perm(1) h obtain cd d where cd: "?cls = Some cd" "find_perm cd n = Some d" "v = sint (pm_value d)"
      by (auto simp: perm_value_def split: option.splits)
    then have "resolve (Some hc) c = Entry cd" by (auto simp: entry_opt_def split: resolved.splits)
    with names Some h cd show ?thesis
      by (intro that[of "Some d"]) (auto simp: add_rule_def names_ok_def perm_arg_def Let_def entry_opt_def)
  qed
  have "rule_step (p_types p) (p_classes p) (add_rule_auto True True ?src ?tgt ?cls pd effect neg)
      (rule_ids (entries ht ?src) (entries ht ?tgt) (entries hc ?cls) effect) (set_av (perm_arg pd) neg)"
    using perm pd by (intro add_rule_auto_step h eff) simp_all
  then show ?thesis
    by (rule rule_stepD[OF _ wf refl refl]) (use that pd h in \<open>auto simp: named_rules_def Let_def\<close>)
qed

lemma add_rule_unknown:
  assumes "\<not> names_ok p s t c \<or> perm_value p c perm = None"
  shows "add_rule cok mok p s t c perm effect neg = Ret (1, p)"
  using assms
  by (auto simp: add_rule_def names_ok_def perm_value_def Let_def entry_opt_def split: option.splits resolved.splits)

text \<open>What an edit does to the single permission bits.\<close>

lemma bit_edit_av:
  assumes "1 \<le> v" and "v \<le> 32" and "i < 32"
  shows "bit (edit_av v neg d) i \<longleftrightarrow> (if int i = v - 1 then \<not> neg else bit d i)"
  using assms by (auto simp: edit_av_def bit_simps)

lemma edit_av_all: "v < 0 \<Longrightarrow> i < 32 \<Longrightarrow> bit (edit_av v neg d) i \<longleftrightarrow> \<not> neg"
  by (auto simp: edit_av_def bit_simps)

section \<open>Type transitions\<close>

lemma add_transition_correct:
  assumes wf: "avtab_wf (te_avtab p)" and names: "lookup_type p s = Some src" "lookup_type p t = Some tgt"
    "lookup_class p c = Some cls" "lookup_type p d = Some def"
  defines "r \<equiv> (ucast (t_value src), ucast (t_value tgt), ucast (cl_value cls), AVTAB_TRANSITION)"
  obtains te where "add_transition True True p s t c d = Ret (0, p\<lparr>te_avtab := te\<rparr>)" and "avtab_wf te"
    and "map_option av_data (avtab_abs te r) = Some (t_value def)"
    and "\<forall>r'. r' \<noteq> r \<longrightarrow> avtab_abs te r' = avtab_abs (te_avtab p) r'"
proof (rule te_upsert[of "te_avtab p" AVTAB_TRANSITION "t_value src" "t_value tgt" "cl_value cls" "\<lambda>av. av\<lparr>av_data := t_value def\<rparr>" zero_datum])
  fix te
  let ?k = "rule_key (t_value src) (t_value tgt) (cl_value cls) AVTAB_TRANSITION"
  assume te: "avtab_wf te"
    "avtab_abs te = (avtab_abs (te_avtab p))((ucast (t_value src), ucast (t_value tgt), ucast (cl_value cls), AVTAB_TRANSITION) \<mapsto>
       (case avtab_abs (te_avtab p) (ucast (t_value src), ucast (t_value tgt), ucast (cl_value cls), AVTAB_TRANSITION) of
          None \<Rightarrow> zero_datum | Some d \<Rightarrow> d)\<lparr>av_data := t_value def\<rparr>)"
    "avtab_search (Some (te_avtab p)) ?k = avtab_abs (te_avtab p) (ucast (t_value src), ucast (t_value tgt), ucast (cl_value cls), AVTAB_TRANSITION)"
    "avtab_abs (te_avtab p) (ucast (t_value src), ucast (t_value tgt), ucast (cl_value cls), AVTAB_TRANSITION) = None \<Longrightarrow>
       avtab_insert True (Some (te_avtab p)) ?k (zero_datum\<lparr>av_data := t_value def\<rparr>) = (0, Some te)"
    "avtab_abs (te_avtab p) (ucast (t_value src), ucast (t_value tgt), ucast (cl_value cls), AVTAB_TRANSITION) \<noteq> None \<Longrightarrow>
       avtab_assign (te_avtab p) ?k (\<lambda>av. av\<lparr>av_data := t_value def\<rparr>) = te"
  have "add_transition True True p s t c d = Ret (0, p\<lparr>te_avtab := te\<rparr>)"
    using te(3-5) by (auto simp: add_transition_def names Let_def split: option.splits)
  then show ?thesis using te(1,2) by (intro that) (auto simp: r_def)
qed (use wf in \<open>auto simp: spec_order_def new_datum_def rule_key_def\<close>)

section \<open>Extended permissions\<close>

lemma xperm_test_bit: "xperm_test x ps \<longleftrightarrow> bit (ps ! (x div 32)) (x mod 32)"
  by (cases "even (drop_bit (x mod 32) (ps ! (x div 32)))")
     (simp_all add: xperm_test_def bit_iff_odd_drop_bit one_and_eq even_iff_mod_2_eq_zero odd_iff_mod_2_eq_one)

definition xperm_edit :: "bool \<Rightarrow> nat \<Rightarrow> u32 list \<Rightarrow> u32 list" where
  "xperm_edit neg = (if neg then xperm_clear else xperm_set)"

lemma xperm_edit_test:
  assumes "x < 256" and "y < 256" and "length ps = 8"
  shows "xperm_test x (xperm_edit neg y ps) \<longleftrightarrow> (if x = y then \<not> neg else xperm_test x ps)"
    and "length (xperm_edit neg y ps) = 8"
proof -
  have y: "y div 32 < length ps" "y mod 32 < 32" using assms by auto
  have "x = y \<longleftrightarrow> x div 32 = y div 32 \<and> x mod 32 = y mod 32" by (metis div_mod_decomp)
  then show "xperm_test x (xperm_edit neg y ps) \<longleftrightarrow> (if x = y then \<not> neg else xperm_test x ps)"
    using y by (auto simp: xperm_edit_def xperm_set_def xperm_clear_def xperm_test_bit nth_list_update bit_simps)
  show "length (xperm_edit neg y ps) = 8" using assms(3) by (simp add: xperm_edit_def xperm_set_def xperm_clear_def)
qed

lemma xperm_fold_test:
  assumes "x < 256" and "\<forall>y \<in> set ys. y < 256" and "length ps = 8"
  shows "xperm_test x (fold (xperm_edit neg) ys ps) \<longleftrightarrow> (if x \<in> set ys then \<not> neg else xperm_test x ps)"
  using assms(2,3)
proof (induction ys arbitrary: ps)
  case (Cons y ys)
  then have y: "y < 256" by simp
  show ?case
    using Cons xperm_edit_test[OF assms(1) y Cons.prems(2), of neg] by (cases "x = y") auto
qed simp

lemma ioctl_bounds: "ioctl_driver v < 256" "ioctl_func v < 256"
proof -
  have "unat (w AND 0xFF :: u16) < 256" for w
    using word_and_le1[of w "0xFF"] by (simp add: word_le_nat_alt)
  then show "ioctl_driver v < 256" "ioctl_func v < 256" by (simp_all add: ioctl_driver_def ioctl_func_def)
qed

text \<open>The numbers an edit of a range touches.\<close>

definition xperm_range :: "u8 \<Rightarrow> u16 \<Rightarrow> u16 \<Rightarrow> nat set" where
  "xperm_range kind low high =
     (if kind = AVTAB_XPERMS_IOCTLDRIVER then {ioctl_driver low..ioctl_driver high} else {ioctl_func low..ioctl_func high})"

lemma edit_xperms_correct:
  assumes "length (xp_perms xp) = 8" and "x < 256"
  shows "xperm_test x (xp_perms (edit_xperms low high neg xp)) \<longleftrightarrow>
      (if x \<in> xperm_range (xp_specified xp) low high then \<not> neg else xperm_test x (xp_perms xp))"
    and "xp_specified (edit_xperms low high neg xp) = xp_specified xp"
    and "xp_driver (edit_xperms low high neg xp) = xp_driver xp"
proof -
  let ?is = "if xp_specified xp = AVTAB_XPERMS_IOCTLDRIVER then [ioctl_driver low..<Suc (ioctl_driver high)]
     else [ioctl_func low..<Suc (ioctl_func high)]"
  have e: "edit_xperms low high neg xp = xp\<lparr>xp_perms := fold (xperm_edit neg) ?is (xp_perms xp)\<rparr>"
    by (simp add: edit_xperms_def xperm_edit_def)
  have "\<forall>y \<in> set ?is. y < 256" using ioctl_bounds[of high] by auto
  moreover have "set ?is = xperm_range (xp_specified xp) low high" by (auto simp: xperm_range_def)
  ultimately show "xperm_test x (xp_perms (edit_xperms low high neg xp)) \<longleftrightarrow>
      (if x \<in> xperm_range (xp_specified xp) low high then \<not> neg else xperm_test x (xp_perms xp))"
    using xperm_fold_test[OF assms(2) _ assms(1), of ?is neg] by (simp add: e)
  show "xp_specified (edit_xperms low high neg xp) = xp_specified xp"
    "xp_driver (edit_xperms low high neg xp) = xp_driver xp" by (simp_all add: e)
qed

lemma add_xperm_rule_one_correct:
  fixes s t c :: u32 and low high :: u16
  assumes wf: "avtab_wf (te_avtab p)" and eff: "effect \<in> {AVTAB_XPERMS_ALLOWED, AVTAB_XPERMS_AUDITALLOW, AVTAB_XPERMS_DONTAUDIT}"
  defines "r \<equiv> (ucast s, ucast t, ucast c, effect)"
  assumes old: "avtab_abs (te_avtab p) r = None \<or> (\<exists>d x. avtab_abs (te_avtab p) r = Some d \<and> av_xperms d = Some x)"
  defines "xp \<equiv> (case avtab_abs (te_avtab p) r of None \<Rightarrow> new_xperms low high | Some d \<Rightarrow> the (av_xperms d))"
  obtains te where "add_xperm_rule_one True True p s t c low high effect neg = Ret (0, p\<lparr>te_avtab := te\<rparr>)"
    and "avtab_wf te" and "map_option av_xperms (avtab_abs te r) = Some (Some (edit_xperms low high neg xp))"
    and "\<forall>r'. r' \<noteq> r \<longrightarrow> avtab_abs te r' = avtab_abs (te_avtab p) r'"
proof -
  let ?f = "\<lambda>d. d\<lparr>av_xperms := map_option (edit_xperms low high neg) (av_xperms d)\<rparr>"
  let ?z = "zero_datum\<lparr>av_xperms := Some (new_xperms low high)\<rparr>"
  have spec: "effect \<in> set spec_order" "new_datum (rule_key s t c effect) (?f ?z) = ?f ?z"
    using eff by (auto simp: spec_order_def new_datum_def rule_key_def zero_datum_def)
  obtain te where te: "avtab_wf te" "avtab_abs te = (avtab_abs (te_avtab p))(r \<mapsto> ?f (case avtab_abs (te_avtab p) r of None \<Rightarrow> ?z | Some d \<Rightarrow> d))"
    "avtab_search (Some (te_avtab p)) (rule_key s t c effect) = avtab_abs (te_avtab p) r"
    "avtab_abs (te_avtab p) r = None \<Longrightarrow> avtab_insert True (Some (te_avtab p)) (rule_key s t c effect) (?f ?z) = (0, Some te)"
    "avtab_abs (te_avtab p) r \<noteq> None \<Longrightarrow> avtab_assign (te_avtab p) (rule_key s t c effect) ?f = te"
    using te_upsert[where f = ?f and z = ?z, OF wf spec] unfolding r_def by blast
  show ?thesis
  proof (rule that[of te])
    show "add_xperm_rule_one True True p s t c low high effect neg = Ret (0, p\<lparr>te_avtab := te\<rparr>)"
      using te(3-5) old by (auto simp: add_xperm_rule_one_def Let_def zero_datum_def split: option.splits)
    show "map_option av_xperms (avtab_abs te r) = Some (Some (edit_xperms low high neg xp))"
      using te(2) old by (auto simp: xp_def zero_datum_def)
  qed (use te in simp_all)
qed

end
