(* ===== verification/SepolicyTypes.thy ===== *)
theory SepolicyTypes
  imports SepolicyRules
begin

text \<open>
  What the policy editor does to types: attributes (\<open>set_attr\<close>, \<open>get_attr\<close>,
  \<open>add_typeattribute\<close>), permissive domains (\<open>set_domain_state\<close>) and new domains
  (\<open>create_domain\<close>).
\<close>

section \<open>Attributes\<close>

text \<open>The two maps are mutually inverse relations on type values, stored as bitmaps.\<close>

definition attr_maps_ok :: "policydb \<Rightarrow> bool" where
  "attr_maps_ok p \<longleftrightarrow> length (type_attr_map p) = unat (nprim (p_types p)) \<and>
     length (attr_type_map p) = unat (nprim (p_types p)) \<and> unat (nprim (p_types p)) < 4294967232 \<and>
     (\<forall>e \<in> set (type_attr_map p). ebitmap_wf e) \<and> (\<forall>e \<in> set (attr_type_map p). ebitmap_wf e)"

definition has_attr :: "policydb \<Rightarrow> u32 \<Rightarrow> u32 \<Rightarrow> bool" where
  "has_attr p ty attr \<longleftrightarrow> ebitmap_get_bit (type_attr_map p ! unat (ty - 1)) (attr - 1)"

definition attr_has :: "policydb \<Rightarrow> u32 \<Rightarrow> u32 \<Rightarrow> bool" where
  "attr_has p attr ty \<longleftrightarrow> ebitmap_get_bit (attr_type_map p ! unat (attr - 1)) (ty - 1)"

definition in_range :: "policydb \<Rightarrow> u32 \<Rightarrow> bool" where
  "in_range p v \<longleftrightarrow> unat (v - 1) < unat (nprim (p_types p))"

lemma set_attr_correct:
  assumes ok: "attr_maps_ok p" and attr: "lookup_type p name = Some a" "t_flavor a = TYPE_ATTRIB"
    and rng: "in_range p v" "in_range p (t_value a)"
  obtains p' where "set_attr True p name v = Ret (0, p')" and "attr_maps_ok p'"
    and "p' = p\<lparr>type_attr_map := type_attr_map p', attr_type_map := attr_type_map p'\<rparr>"
    and "\<And>x y. in_range p x \<Longrightarrow> has_attr p' x y \<longleftrightarrow> (x = v \<and> y = t_value a) \<or> has_attr p x y"
    and "\<And>x y. in_range p x \<Longrightarrow> attr_has p' x y \<longleftrightarrow> (x = t_value a \<and> y = v) \<or> attr_has p x y"
proof -
  let ?i = "unat (v - 1)" and ?j = "unat (t_value a - 1)"
  have len: "?i < length (type_attr_map p)" "?j < length (attr_type_map p)"
    and lim: "unat (t_value a - 1) < 4294967232" "unat (v - 1) < 4294967232"
    using ok rng by (auto simp: attr_maps_ok_def in_range_def)
  have wf: "ebitmap_wf (type_attr_map p ! ?i)" "ebitmap_wf (attr_type_map p ! ?j)"
    using ok len by (auto simp: attr_maps_ok_def)
  obtain e1 where e1: "ebitmap_set_bit True (type_attr_map p ! ?i) (t_value a - 1) True = (0, e1)" "ebitmap_wf e1"
    "\<And>c. ebitmap_get_bit e1 c \<longleftrightarrow> c = t_value a - 1 \<or> ebitmap_get_bit (type_attr_map p ! ?i) c"
    using eb.put_ok[OF wf(1) lim(1), of True] eb.put_result[OF wf(1)] by (metis (full_types))
  obtain e2 where e2: "ebitmap_set_bit True (attr_type_map p ! ?j) (v - 1) True = (0, e2)" "ebitmap_wf e2"
    "\<And>c. ebitmap_get_bit e2 c \<longleftrightarrow> c = v - 1 \<or> ebitmap_get_bit (attr_type_map p ! ?j) c"
    using eb.put_ok[OF wf(2) lim(2), of True] eb.put_result[OF wf(2)] by (metis (full_types))
  let ?p' = "p\<lparr>type_attr_map := (type_attr_map p)[?i := e1], attr_type_map := (attr_type_map p)[?j := e2]\<rparr>"
  have inj: "unat (x - 1) = unat (y - 1) \<longleftrightarrow> x = y" for x y :: u32 by (simp add: word_unat_eq_iff[symmetric])
  show ?thesis
  proof (rule that[of ?p'])
    show "set_attr True p name v = Ret (0, ?p')"
      using attr len e1(1) e2(1) by (simp add: set_attr_def array_at_def Let_def)
    show "attr_maps_ok ?p'"
      using ok e1(2) e2(2) by (auto simp: attr_maps_ok_def dest!: set_update_subset_insert[THEN subsetD])
    show "has_attr ?p' x y \<longleftrightarrow> (x = v \<and> y = t_value a) \<or> has_attr p x y" if "in_range p x" for x y
      using len e1(3)[of "y - 1"] by (cases "x = v") (auto simp: has_attr_def inj)
    show "attr_has ?p' x y \<longleftrightarrow> (x = t_value a \<and> y = v) \<or> attr_has p x y" if "in_range p x" for x y
      using len e2(3)[of "y - 1"] by (cases "x = t_value a") (auto simp: attr_has_def inj)
  qed simp
qed

lemma set_attr_unknown:
  assumes "\<And>a. lookup_type p name = Some a \<Longrightarrow> t_flavor a \<noteq> TYPE_ATTRIB"
  shows "set_attr mok p name v = Ret (1, p)"
  using assms by (auto simp: set_attr_def split: option.splits)

lemma get_attr_correct:
  assumes "attr_maps_ok p" and "lookup_type p name = Some a" "t_flavor a = TYPE_ATTRIB" "in_range p (t_value a)"
  shows "get_attr p name v = Ret (if attr_has p (t_value a) v then 1 else 0)"
  using assms by (simp add: get_attr_def array_at_def attr_has_def attr_maps_ok_def in_range_def)

section \<open>Permissive domains\<close>

lemma permissive_all_correct:
  assumes "ebitmap_wf (permissive_map p)" and "\<forall>ty \<in> set ts. unat (t_value ty) < 4294967232"
  obtains e where "permissive_all True state ts p = (0, p\<lparr>permissive_map := e\<rparr>)" and "ebitmap_wf e"
    and "\<And>b. ebitmap_get_bit e b \<longleftrightarrow> (if b \<in> t_value ` set ts then state else ebitmap_get_bit (permissive_map p) b)"
  using assms
proof (induction ts arbitrary: p thesis)
  case (Cons ty ts)
  obtain e1 where e1: "ebitmap_set_bit True (permissive_map p) (t_value ty) state = (0, e1)" "ebitmap_wf e1"
    using eb.put_ok[of "permissive_map p" "t_value ty" state] Cons.prems by auto
  have g: "ebitmap_get_bit e1 b \<longleftrightarrow> (if b = t_value ty then state else ebitmap_get_bit (permissive_map p) b)" for b
    using eb.put_result[OF Cons.prems(2) e1(1)] by simp
  show ?case
  proof (rule Cons.IH[of "p\<lparr>permissive_map := e1\<rparr>"])
    fix e
    assume e: "permissive_all True state ts (p\<lparr>permissive_map := e1\<rparr>) = (0, p\<lparr>permissive_map := e1\<rparr>\<lparr>permissive_map := e\<rparr>)"
      "ebitmap_wf e"
      "\<And>b. ebitmap_get_bit e b \<longleftrightarrow> (if b \<in> t_value ` set ts then state else ebitmap_get_bit (permissive_map (p\<lparr>permissive_map := e1\<rparr>)) b)"
    show thesis
      using e e1(1) g by (intro Cons.prems(1)[of e]) (auto simp: Let_def)
  qed (use e1(2) Cons.prems in auto)
next
  case Nil
  show ?case by (rule Nil(1)[of "permissive_map p"]) (use Nil in simp_all)
qed

lemma set_domain_state_correct:
  assumes wf: "ebitmap_wf (permissive_map p)" and tab: "table (p_types p) = Some ht"
    and vals: "\<forall>ty \<in> snd ` set (hashtab_nodes ht). unat (t_value ty) < 4294967232"
    and s: "\<not> is_Missing (resolve (Some ht) s)" "hashtab_on symcmp ht"
  defines "S \<equiv> t_value ` entries ht (entry_opt (resolve (Some ht) s))"
  obtains e where "set_domain_state True p s state = Ret (0, p\<lparr>permissive_map := e\<rparr>)" and "ebitmap_wf e"
    and "\<And>b. ebitmap_get_bit e b \<longleftrightarrow> (if b \<in> S then state else ebitmap_get_bit (permissive_map p) b)"
proof (cases s)
  case None
  show ?thesis
    by (rule permissive_all_correct[OF wf, of "map snd (hashtab_nodes ht)" state])
       (use None tab vals that in \<open>auto simp: set_domain_state_def S_def entries_def resolve_def entry_opt_def image_image\<close>)
next
  case (Some n)
  with s obtain ty where ty: "hashtab_search (Some ht) n = Some ty"
    by (auto simp: resolve_def split: option.splits)
  then have "hashtab_abs ht n = Some ty" using sym.search_correct[OF s(2)] by simp
  then have "ty \<in> snd ` set (hashtab_nodes ht)" by (force simp: hashtab_abs_def dest: map_of_SomeD)
  with vals have lim: "unat (t_value ty) < 4294967232" by blast
  obtain e where e: "ebitmap_set_bit True (permissive_map p) (t_value ty) state = (0, e)" "ebitmap_wf e"
    using eb.put_ok[OF wf lim, of state] by auto
  have "ebitmap_get_bit e b \<longleftrightarrow> (if b = t_value ty then state else ebitmap_get_bit (permissive_map p) b)" for b
    using eb.put_result[OF wf e(1)] by simp
  then show ?thesis
    using e Some ty tab that by (auto simp: set_domain_state_def lookup_type_def S_def entries_def resolve_def entry_opt_def)
qed

section \<open>New domains\<close>

text \<open>Indexing and the role loop leave the types and the attribute maps alone.\<close>

definition same_types_part :: "policydb \<Rightarrow> policydb \<Rightarrow> bool" where
  "same_types_part p q \<longleftrightarrow> p_types q = p_types p \<and> type_attr_map q = type_attr_map p \<and>
     attr_type_map q = attr_type_map p \<and> te_avtab q = te_avtab p"

lemma same_types_refl [simp]: "same_types_part p p"
  and same_types_trans: "same_types_part p q \<Longrightarrow> same_types_part q r \<Longrightarrow> same_types_part p r"
  by (auto simp: same_types_part_def)

lemma role_caches_same: "role_caches mok rs p = Ret (rc, q) \<Longrightarrow> same_types_part p q"
proof (induction mok rs p rule: role_caches.induct)
  case (2 mok k r rs p)
  then show ?case by (auto simp: Let_def split: if_splits) (auto simp: same_types_part_def)+
qed simp

lemma index_policy_same: "index_policy mok p = Ret (rc, q) \<Longrightarrow> same_types_part p q"
  by (auto simp: index_policy_def policydb_index_decls_def policydb_index_classes_def policydb_index_others_def Let_def
      split: if_splits prod.splits dest!: role_caches_same) (auto simp: same_types_part_def)

lemma add_to_roles_same: "add_to_roles mok v is p = Ret q \<Longrightarrow> same_types_part p q"
proof (induction "is" arbitrary: p)
  case (Cons i "is")
  have upd: "same_types_part p (p\<lparr>p_roles := x\<rparr>)" for x by (simp add: same_types_part_def)
  from Cons.prems obtain x where "add_to_roles mok v is (p\<lparr>p_roles := x\<rparr>) = Ret q"
    by (auto simp: Let_def split: option.splits)
  from same_types_trans[OF upd Cons.IH[OF this]] show ?case .
qed simp

lemma symtab_insert_new:
  assumes on: "table st = Some h" "hashtab_on symcmp h" and new: "hashtab_abs h key = None"
    and res: "symtab_insert True multi rls ra st sc key datum scope i = (rc, st', sc', v)"
  obtains h' where "table st' = Some h'" and "hashtab_on symcmp h'" and "hashtab_abs h' = (hashtab_abs h)(key \<mapsto> datum)"
    and "nprim st' = nprim st + 1" and "v = Some (nprim st + 1)"
proof -
  obtain h' where h': "hashtab_insert True (Some h) key datum = (0, Some h')" "hashtab_on symcmp h'"
    "hashtab_abs h' = (hashtab_abs h)(key \<mapsto> datum)"
    using sym.insert_correct[OF on(2), of key datum] new by auto
  with res on have "st' = st\<lparr>table := Some h', nprim := nprim st + 1\<rparr>" "v = Some (nprim st + 1)"
    by (auto simp: symtab_insert_def Let_def split: option.splits prod.splits if_splits)
  with h' that show ?thesis by simp
qed

lemma realloc_maps_grow:
  "length xs = n \<Longrightarrow> realloc_maps xs (Suc n) = xs @ [ebitmap_init]"
  by (simp add: realloc_maps_def)

text \<open>The declaration of a new domain: the next free value, a type of its own, its own attribute.\<close>

lemma declare_domain_correct:
  assumes on: "table (p_types p) = Some ht" "hashtab_on symcmp ht" and new: "lookup_type p d = None"
    and ok: "attr_maps_ok p" "unat (nprim (p_types p)) < 4294967231" "ebitmap_wf (declared_types p)"
  defines "v \<equiv> nprim (p_types p) + 1"
  obtains q ht' where "declare_domain True p d = Ret (Some v, q)" and "table (p_types q) = Some ht'" and "hashtab_on symcmp ht'"
    and "hashtab_abs ht' = (hashtab_abs ht)(d \<mapsto> type_datum_init\<lparr>t_primary := 1, t_flavor := TYPE_TYPE, t_value := v\<rparr>)"
    and "nprim (p_types q) = v" and "attr_maps_ok q"
    and "\<And>x y. in_range p x \<Longrightarrow> has_attr q x y = has_attr p x y" and "\<And>y. has_attr q v y \<longleftrightarrow> y = v"
    and "te_avtab q = te_avtab p"
proof -
  let ?n = "unat (nprim (p_types p))"
  let ?d0 = "type_datum_init\<lparr>t_primary := 1, t_flavor := TYPE_TYPE\<rparr>"
  have absent: "hashtab_abs ht d = None" using new on sym.search_correct[OF on(2)] by (simp add: lookup_type_def)
  obtain rc st sc w where ins: "symtab_insert True False False (\<lambda>_. False) (p_types p) (scope_types p) d ?d0 SCOPE_DECL 1 = (rc, st, sc, w)"
    by (metis prod_cases4)
  obtain h1 where h1: "table st = Some h1" "hashtab_on symcmp h1" "hashtab_abs h1 = (hashtab_abs ht)(d \<mapsto> ?d0)"
    "nprim st = v" "w = Some v"
    using symtab_insert_new[OF on absent ins] unfolding v_def by blast
  obtain h2 where h2: "hashtab_assign (Some h1) d (\<lambda>t. t\<lparr>t_value := v\<rparr>) = Some h2" "hashtab_on symcmp h2"
    "hashtab_abs h2 = (hashtab_abs h1)(d := map_option (\<lambda>t. t\<lparr>t_value := v\<rparr>) (hashtab_abs h1 d))"
    using sym.assign_correct[OF h1(2)] by blast
  have v: "unat v = Suc ?n" "unat (v - 1) = ?n" using ok(2) by (simp_all add: v_def unat_word_ariths)
  obtain decl where decl: "ebitmap_set_bit True (declared_types p) (v - 1) True = (0, decl)"
    using eb.put_ok[OF ok(3), of "v - 1" True] v ok(2) by auto
  obtain e where e: "ebitmap_set_bit True ebitmap_init (v - 1) True = (0, e)" "ebitmap_wf e" "ebitmap_set e = {?n}"
    using eb.put_ok[OF init_wf, of "v - 1" True] v ok(2) by auto
  let ?tam = "type_attr_map p @ [e]" and ?atm = "attr_type_map p @ [ebitmap_init]"
  let ?q = "p\<lparr>p_types := st\<lparr>table := Some h2\<rparr>, scope_types := sc, declared_types := decl, type_attr_map := ?tam, attr_type_map := ?atm\<rparr>"
  have len: "length (type_attr_map p) = ?n" "length (attr_type_map p) = ?n" using ok(1) by (simp_all add: attr_maps_ok_def)
  have found: "lookup_type ?q d \<noteq> None"
    using h2 h1(3) sym.search_correct[OF h2(2)] by (simp add: lookup_type_def)
  have "declare_domain True p d = Ret (Some v, ?q)"
    using ins h1 h2(1) decl e(1) v len found
    by (simp add: declare_domain_def Let_def realloc_maps_grow list_update_append)
  moreover have "has_attr ?q v y \<longleftrightarrow> y = v" for y
  proof -
    have "has_attr ?q v y \<longleftrightarrow> ebitmap_get_bit e (y - 1)" using len v by (simp add: has_attr_def nth_append)
    also have "\<dots> \<longleftrightarrow> y - 1 = v - 1" using get_bit_iff[OF e(2)] e(3) v by (simp add: word_unat_eq_iff)
    finally show ?thesis by simp
  qed
  moreover have "has_attr ?q x y = has_attr p x y" if "in_range p x" for x y
    using that len by (simp add: has_attr_def in_range_def nth_append)
  moreover have "attr_maps_ok ?q" using ok(1,2) e(2) h1(4) v by (auto simp: attr_maps_ok_def)
  moreover have "hashtab_abs h2 = (hashtab_abs ht)(d \<mapsto> type_datum_init\<lparr>t_primary := 1, t_flavor := TYPE_TYPE, t_value := v\<rparr>)"
    using h2(3) h1(3) by simp
  ultimately show ?thesis using h1(4) h2(2) by (intro that[of ?q h2]) simp_all
qed

text \<open>What a database looks like whenever \<open>create_domain\<close> reports success for a new name.\<close>

lemma create_domain_success:
  assumes on: "table (p_types p) = Some ht" "hashtab_on symcmp ht" and new: "lookup_type p d = None"
    and ok: "attr_maps_ok p" "unat (nprim (p_types p)) < 4294967231" "ebitmap_wf (declared_types p)"
    and dom: "lookup_type p ''domain'' = Some a" "in_range p (t_value a)"
    and res: "create_domain True True p d = Ret (0, q)"
  defines "v \<equiv> nprim (p_types p) + 1"
  shows "lookup_type q d = Some (type_datum_init\<lparr>t_primary := 1, t_flavor := TYPE_TYPE, t_value := v\<rparr>)"
    and "\<And>n. n \<noteq> d \<Longrightarrow> lookup_type q n = lookup_type p n"
    and "nprim (p_types q) = v" and "attr_maps_ok q" and "te_avtab q = te_avtab p"
    and "\<And>y. has_attr q v y \<longleftrightarrow> y = v \<or> y = t_value a"
    and "\<And>x y. in_range p x \<Longrightarrow> has_attr q x y = has_attr p x y"
proof -
  obtain q1 ht1 where q1: "declare_domain True p d = Ret (Some v, q1)" "table (p_types q1) = Some ht1" "hashtab_on symcmp ht1"
    "hashtab_abs ht1 = (hashtab_abs ht)(d \<mapsto> type_datum_init\<lparr>t_primary := 1, t_flavor := TYPE_TYPE, t_value := v\<rparr>)"
    "nprim (p_types q1) = v" "attr_maps_ok q1" "\<And>x y. in_range p x \<Longrightarrow> has_attr q1 x y = has_attr p x y"
    "\<And>y. has_attr q1 v y \<longleftrightarrow> y = v" "te_avtab q1 = te_avtab p"
    using declare_domain_correct[OF on new ok] unfolding v_def by blast
  from res new q1(1) obtain q2 where q2: "same_types_part q1 q2" "set_attr True q2 ''domain'' v = Ret (0, q)"
    by (auto simp: create_domain_def split: if_splits dest!: index_policy_same add_to_roles_same intro: same_types_trans)
  have look: "lookup_type q2 n = (if n = d then Some (type_datum_init\<lparr>t_primary := 1, t_flavor := TYPE_TYPE, t_value := v\<rparr>) else lookup_type p n)" for n
    using q2(1) q1(2,4) sym.search_correct[OF q1(3)] sym.search_correct[OF on(2)] on(1)
    by (simp add: lookup_type_def same_types_part_def)
  have v: "unat v = Suc (unat (nprim (p_types p)))" using ok(2) by (simp add: v_def unat_word_ariths)
  have "d \<noteq> ''domain''" using new dom(1) by auto
  with look dom have a: "lookup_type q2 ''domain'' = Some a" by simp
  have fl: "t_flavor a = TYPE_ATTRIB" using q2(2) a by (auto simp: set_attr_def split: if_splits)
  have ok2: "attr_maps_ok q2" using q1(6) q2(1) by (simp add: attr_maps_ok_def same_types_part_def)
  have r: "in_range q2 x" if "in_range p x \<or> x = v" for x
    using that v q1(5) q2(1) by (auto simp: in_range_def same_types_part_def v_def)
  obtain q' where q': "set_attr True q2 ''domain'' v = Ret (0, q')" "attr_maps_ok q'"
    "q' = q2\<lparr>type_attr_map := type_attr_map q', attr_type_map := attr_type_map q'\<rparr>"
    "\<And>x y. in_range q2 x \<Longrightarrow> has_attr q' x y \<longleftrightarrow> (x = v \<and> y = t_value a) \<or> has_attr q2 x y"
    by (rule set_attr_correct[OF ok2 a fl r[of v] r[of "t_value a"]]) (use dom(2) that in simp_all)
  with q2(2) have "q' = q" by simp
  then have q: "q = q2\<lparr>type_attr_map := type_attr_map q, attr_type_map := attr_type_map q\<rparr>" "attr_maps_ok q"
    "\<And>x y. in_range q2 x \<Longrightarrow> has_attr q x y \<longleftrightarrow> (x = v \<and> y = t_value a) \<or> has_attr q2 x y"
    using q' by auto
  have "p_types q = p_types q2" "te_avtab q = te_avtab q2" by (subst q(1), simp)+
  then show "lookup_type q d = Some (type_datum_init\<lparr>t_primary := 1, t_flavor := TYPE_TYPE, t_value := v\<rparr>)"
    "\<And>n. n \<noteq> d \<Longrightarrow> lookup_type q n = lookup_type p n" "nprim (p_types q) = v" "te_avtab q = te_avtab p"
    using look q1(5,9) q2(1) by (auto simp: lookup_type_def same_types_part_def)
  show "attr_maps_ok q" by (rule q(2))
  have same: "has_attr q2 = has_attr q1" using q2(1) by (auto simp: has_attr_def fun_eq_iff same_types_part_def)
  show "has_attr q v y \<longleftrightarrow> y = v \<or> y = t_value a" for y using q(3)[OF r] q1(8) same by auto
  show "has_attr q x y = has_attr p x y" if "in_range p x" for x y
  proof -
    have "x \<noteq> v" using that v by (auto simp: in_range_def v_def)
    with q(3)[OF r] q1(7) same that show ?thesis by auto
  qed
qed

end
