(* ===== verification/Services.thy ===== *)
theory Services
  imports SepolicyRules
begin

text \<open>
  The type-enforcement part of the access decision (\<open>context_struct_compute_av\<close> of
  \<^verbatim>\<open>libsepol/src/services.c\<close> up to its constraint loop, and \<open>cond_compute_av\<close> of
  \<^verbatim>\<open>conditional.c\<close>): the access vectors are collected over all pairs of attributes of the
  source and the target type. It gives the policy editor's rules their meaning.
\<close>

section \<open>Definitions\<close>

record av_decision =
  allowed :: u32
  decided :: u32
  auditallow :: u32
  auditdeny :: u32

text \<open>\<^verbatim>\<open>for (node = ...; node != NULL; node = avtab_search_node_next(node, specified))\<close>.\<close>

lemma chain_find_length: "length (chain_find key sp ch) \<le> length ch"
  by (induction ch) auto

function visit_nodes :: "avtab_node list \<Rightarrow> u16 \<Rightarrow> avtab_node list" where
  "visit_nodes node sp =
     (case node of [] \<Rightarrow> [] | x # nxt \<Rightarrow> x # visit_nodes (avtab_search_node_next node sp) sp)"
  by auto
termination
  by (relation "measure (\<lambda>(node, _). length node)")
     (auto simp: avtab_search_node_next_def split_beta intro: le_less_trans[OF chain_find_length])

declare visit_nodes.simps [simp del]

definition te_node :: "av_decision \<Rightarrow> avtab_node \<Rightarrow> av_decision" where
  "te_node avd node =
     (let sp = specified (fst node); d = av_data (snd node) in
      if sp = AVTAB_ALLOWED then avd\<lparr>allowed := allowed avd OR d\<rparr>
      else if sp = AVTAB_AUDITALLOW then avd\<lparr>auditallow := auditallow avd OR d\<rparr>
      else if sp = AVTAB_AUDITDENY then avd\<lparr>auditdeny := auditdeny avd AND d\<rparr>
      else avd)"

definition cond_av_node :: "av_decision \<Rightarrow> avtab_node \<Rightarrow> av_decision" where
  "cond_av_node avd node =
     (let sp = specified (fst node); d = av_data (snd node);
          on = (\<lambda>k. sp AND (k OR AVTAB_ENABLED) = k OR AVTAB_ENABLED);
          avd = (if on AVTAB_ALLOWED then avd\<lparr>allowed := allowed avd OR d\<rparr> else avd);
          avd = (if on AVTAB_AUDITDENY then avd\<lparr>auditdeny := auditdeny avd AND d\<rparr> else avd)
      in if on AVTAB_AUDITALLOW then avd\<lparr>auditallow := auditallow avd OR d\<rparr> else avd)"

definition cond_compute_av :: "avtab option \<Rightarrow> avtab_key \<Rightarrow> av_decision \<Rightarrow> av_decision" where
  "cond_compute_av ctab key avd =
     foldl cond_av_node avd (visit_nodes (avtab_search_node ctab key) (specified key))"

definition compute_pair :: "policydb \<Rightarrow> u32 \<Rightarrow> u32 \<Rightarrow> av_decision \<Rightarrow> u32 \<Rightarrow> av_decision" where
  "compute_pair p tclass i avd j =
     (let key = rule_key (i + 1) (j + 1) tclass AVTAB_AV in
      cond_compute_av (Some (te_cond_avtab p)) key
        (foldl te_node avd (visit_nodes (avtab_search_node (Some (te_avtab p)) key) (specified key))))"

definition initial_decision :: av_decision where
  "initial_decision = \<lparr>allowed = 0, decided = 0xffffffff, auditallow = 0, auditdeny = 0xffffffff\<rparr>"

text \<open>The decision before constraints; \<open>None\<close> is \<open>-EINVAL\<close>.\<close>

definition compute_te_av :: "policydb \<Rightarrow> u32 \<Rightarrow> u32 \<Rightarrow> u32 \<Rightarrow> av_decision option outcome" where
  "compute_te_av p stype ttype tclass =
     (if tclass = 0 \<or> tclass > nprim (p_classes p) then Ret None
      else obind (array_at (type_attr_map p) (stype - 1)) (\<lambda>sattr.
           obind (array_at (type_attr_map p) (ttype - 1)) (\<lambda>tattr.
           Ret (Some (foldl (\<lambda>avd i. foldl (compute_pair p tclass i) avd (ebitmap_for_each_bit tattr))
                        initial_decision (ebitmap_for_each_bit sattr))))))"

section \<open>Lemmas\<close>

lemma visit_nodes_simps [simp]:
  "visit_nodes [] sp = []"
  "visit_nodes (x # nxt) sp = x # visit_nodes (chain_find (fst x) (mask_enabled sp) nxt) sp"
  by (subst visit_nodes.simps, simp add: avtab_search_node_next_def split_beta)+

lemma same_types_match: "same_types a b \<Longrightarrow> key_match a sp = key_match b sp"
  by (auto simp: key_match_def same_types_def fun_eq_iff)

lemma chain_find_cong: "same_types a b \<Longrightarrow> chain_find a sp ch = chain_find b sp ch"
  by (induction ch) (auto simp: same_types_match key_before_cong)

lemma visit_nodes_filter:
  assumes "av_chain_ok ch"
  shows "visit_nodes (chain_find key (mask_enabled sp) ch) sp = filter (\<lambda>x. key_match key (mask_enabled sp) (fst x)) ch"
  using assms
proof (induction ch)
  case (Cons x ch)
  show ?case
  proof (cases "key_match key (mask_enabled sp) (fst x)")
    case True
    then have "chain_find (fst x) (mask_enabled sp) ch = chain_find key (mask_enabled sp) ch"
      by (intro chain_find_cong) (auto simp: key_match_def same_types_def)
    with True Cons show ?thesis by simp
  next
    case False
    show ?thesis
    proof (cases "key_before key (fst x)")
      case True
      have "\<not> key_match key (mask_enabled sp) (fst y)" if "y \<in> set ch" for y
        using that Cons.prems True key_before_cong(1)[of key "fst y" "fst x"] by (auto simp: key_match_def)
      with False True show ?thesis by (simp add: filter_empty_conv)
    qed (use False Cons in simp)
  qed
qed simp

text \<open>Every step only adds allowed permissions.\<close>

definition more_allowed :: "av_decision \<Rightarrow> av_decision \<Rightarrow> bool" where
  "more_allowed a b \<longleftrightarrow> (\<forall>n. bit (allowed a) n \<longrightarrow> bit (allowed b) n)"

lemma more_refl [simp]: "more_allowed a a" and more_trans: "more_allowed a b \<Longrightarrow> more_allowed b c \<Longrightarrow> more_allowed a c"
  by (auto simp: more_allowed_def)

lemma more_foldl: "(\<And>a x. more_allowed a (f a x)) \<Longrightarrow> more_allowed a (foldl f a xs)"
  by (induction xs arbitrary: a) (auto intro: more_trans)

lemma more_steps: "more_allowed a (te_node a x)" "more_allowed a (cond_av_node a x)"
  by (auto simp: more_allowed_def te_node_def cond_av_node_def Let_def bit_simps)

lemma more_pair: "more_allowed a (compute_pair p c i a j)"
  unfolding compute_pair_def cond_compute_av_def Let_def
  by (blast intro: more_trans more_foldl more_steps)

lemma foldl_reaches:
  assumes "x \<in> set xs" and "\<And>a. P (f a x)" and "\<And>a y. P a \<Longrightarrow> P (f a y)"
  shows "P (foldl f a xs)"
  using assms(1)
proof (induction xs rule: rev_induct)
  case (snoc y ys)
  then show ?case using assms(2,3) by auto
qed simp

lemma more_bit: "more_allowed a b \<Longrightarrow> bit (allowed a) n \<Longrightarrow> bit (allowed b) n"
  by (simp add: more_allowed_def)

lemma te_node_allows:
  "specified (fst x) = AVTAB_ALLOWED \<Longrightarrow> bit (av_data (snd x)) n \<Longrightarrow> bit (allowed (te_node a x)) n"
  by (simp add: te_node_def bit_simps)

text \<open>A rule of the table is among the nodes visited for its types.\<close>

lemma rule_visited:
  assumes wf: "avtab_wf te" and r: "avtab_abs te (ucast s, ucast t, ucast c, AVTAB_ALLOWED) = Some d"
  obtains k where "specified k = AVTAB_ALLOWED"
    and "(k, d) \<in> set (visit_nodes (avtab_search_node (Some te) (rule_key s t c AVTAB_AV)) AVTAB_AV)"
proof -
  let ?k1 = "rule_key s t c AVTAB_ALLOWED" and ?k7 = "rule_key s t c AVTAB_AV"
  have id: "av_id ?k1 = (ucast s, ucast t, ucast c, AVTAB_ALLOWED)"
    by (rule rule_key_id) (simp add: spec_order_def)
  have hash: "avtab_hash ?k7 m = avtab_hash ?k1 m" for m by (simp add: avtab_hash_def rule_key_def)
  show ?thesis
  proof (rule wf_bucket[OF wf, where key = ?k1])
    fix bs :: "avtab_node list list"
    let ?ch = "bs ! unat (avtab_hash ?k1 (av_mask te))"
    assume bs: "av_htable te = Some bs" and ok: "av_chain_ok ?ch"
      and look: "avtab_abs te (av_id ?k1) = map_of (av_assoc ?ch) (av_id ?k1)"
    from look r id have "(av_id ?k1, d) \<in> set (av_assoc ?ch)" by (metis map_of_SomeD)
    then obtain k where k: "(k, d) \<in> set ?ch" "av_id k = av_id ?k1" by (auto simp: av_assoc_def)
    with ok have "plain_key k" by (auto simp: av_chain_ok_def)
    then have sp: "specified k = AVTAB_ALLOWED" using k(2) id by (simp add: av_id_def)
    have "key_match ?k7 (mask_enabled AVTAB_AV) k"
      using k(2) sp by (simp add: key_match_def same_types_def av_id_def rule_key_def mask_enabled_def)
    then have "(k, d) \<in> set (visit_nodes (chain_find ?k7 (mask_enabled AVTAB_AV) ?ch) AVTAB_AV)"
      using visit_nodes_filter[OF ok, of ?k7 AVTAB_AV] k(1) by simp
    moreover have "avtab_search_node (Some te) ?k7 = chain_find ?k7 (mask_enabled AVTAB_AV) ?ch"
      by (simp add: avtab_search_node_def bs hash) (simp add: rule_key_def)
    ultimately show ?thesis using sp that by metis
  qed
qed

lemma allow_rule_decides:
  assumes wf: "avtab_wf (te_avtab p)" and maps: "\<forall>e \<in> set (type_attr_map p). ebitmap_wf e"
    and cls: "tclass \<noteq> 0" "tclass \<le> nprim (p_classes p)"
    and st: "unat (stype - 1) < length (type_attr_map p)" "unat (ttype - 1) < length (type_attr_map p)"
    and s: "ebitmap_get_bit (type_attr_map p ! unat (stype - 1)) (s - 1)"
    and t: "ebitmap_get_bit (type_attr_map p ! unat (ttype - 1)) (t - 1)"
    and r: "avtab_abs (te_avtab p) (ucast s, ucast t, ucast tclass, AVTAB_ALLOWED) = Some d" "bit (av_data d) n"
  obtains avd where "compute_te_av p stype ttype tclass = Ret (Some avd)" and "bit (allowed avd) n"
proof -
  let ?sa = "type_attr_map p ! unat (stype - 1)" and ?ta = "type_attr_map p ! unat (ttype - 1)"
  have "ebitmap_wf ?sa" "ebitmap_wf ?ta" using maps st by auto
  then have mem: "s - 1 \<in> set (ebitmap_for_each_bit ?sa)" "t - 1 \<in> set (ebitmap_for_each_bit ?ta)"
    using s t for_each_bit_set[of ?sa] for_each_bit_set[of ?ta] get_bit_iff
    by (metis (no_types, opaque_lifting) imageE word_unat_eq_iff)+
  let ?k = "rule_key s t tclass AVTAB_AV"
  obtain k where k: "specified k = AVTAB_ALLOWED"
    "(k, d) \<in> set (visit_nodes (avtab_search_node (Some (te_avtab p)) ?k) AVTAB_AV)"
    using rule_visited[OF wf r(1)] .
  have node: "bit (allowed (te_node a (k, d))) n" for a using k(1) r(2) by (intro te_node_allows) auto
  have "bit (allowed (foldl te_node a (visit_nodes (avtab_search_node (Some (te_avtab p)) ?k) AVTAB_AV))) n" for a
    using k(2) node more_bit[OF more_steps(1)] by (rule foldl_reaches[where P = "\<lambda>a. bit (allowed a) n"])
  then have pair: "bit (allowed (compute_pair p tclass (s - 1) a (t - 1))) n" for a
    unfolding compute_pair_def cond_compute_av_def Let_def
    using more_bit[OF more_foldl[where f = cond_av_node, OF more_steps(2)]] by (simp add: rule_key_def)
  let ?inner = "\<lambda>avd i. foldl (compute_pair p tclass i) avd (ebitmap_for_each_bit ?ta)"
  have inner: "bit (allowed (?inner a (s - 1))) n" for a
    using mem(2) pair more_bit[OF more_pair] by (rule foldl_reaches[where P = "\<lambda>a. bit (allowed a) n"])
  have "bit (allowed (foldl ?inner initial_decision (ebitmap_for_each_bit ?sa))) n"
    using mem(1) inner more_bit[OF more_foldl[where f = "compute_pair p tclass i" for i, OF more_pair]]
    by (rule foldl_reaches[where P = "\<lambda>a. bit (allowed a) n"])
  moreover have "compute_te_av p stype ttype tclass =
      Ret (Some (foldl ?inner initial_decision (ebitmap_for_each_bit ?sa)))"
    using cls st by (auto simp: compute_te_av_def array_at_def)
  ultimately show ?thesis using that by blast
qed

end
