(* ===== verification/MagiskRules.thy ===== *)
theory MagiskRules
  imports SepolicyTypes Services
begin

text \<open>
  The public interface of the policy editor (\<^verbatim>\<open>src/jni/magiskpolicy/api.c\<close>) and the built-in
  rule scripts (\<^verbatim>\<open>rules.c\<close>). A script is a sequence of calls of the interface whose return
  codes are ignored; a call is a value of \<open>rule_call\<close>, and \<open>run_calls\<close> performs a sequence.
  As in \<^verbatim>\<open>magiskpolicy.h\<close>, \<open>SEPOL_ALL\<close> (\<open>ALL\<close> there) is the NULL argument.
\<close>

section \<open>Definitions\<close>

abbreviation (input) SEPOL_ALL :: "string option" where "SEPOL_ALL \<equiv> None"

subsection \<open>The interface\<close>

definition sepol_allow where "sepol_allow cok mok p s t c perm = add_rule cok mok p s t c perm AVTAB_ALLOWED False"
definition sepol_deny where "sepol_deny cok mok p s t c perm = add_rule cok mok p s t c perm AVTAB_ALLOWED True"
definition sepol_auditallow where "sepol_auditallow cok mok p s t c perm = add_rule cok mok p s t c perm AVTAB_AUDITALLOW False"
definition sepol_auditdeny where "sepol_auditdeny cok mok p s t c perm = add_rule cok mok p s t c perm AVTAB_AUDITDENY False"

text \<open>\<open>name_ptr\<close> is the address of the file name argument.\<close>

definition sepol_typetrans ::
  "bool \<Rightarrow> bool \<Rightarrow> policydb \<Rightarrow> string \<Rightarrow> string \<Rightarrow> string \<Rightarrow> string \<Rightarrow> string option \<Rightarrow> u32 \<Rightarrow> (int \<times> policydb) outcome" where
  "sepol_typetrans cok mok p s t c d obj name_ptr =
     (case obj of None \<Rightarrow> add_transition cok mok p s t c d
      | Some fname \<Rightarrow> add_file_transition cok mok p s t c d fname name_ptr)"

definition sepol_allowxperm where
  "sepol_allowxperm cok mok p s t c rng = add_xperm_rule cok mok p s t c rng AVTAB_XPERMS_ALLOWED False"
definition sepol_auditallowxperm where
  "sepol_auditallowxperm cok mok p s t c rng = add_xperm_rule cok mok p s t c rng AVTAB_XPERMS_AUDITALLOW False"
definition sepol_dontauditxperm where
  "sepol_dontauditxperm cok mok p s t c rng = add_xperm_rule cok mok p s t c rng AVTAB_XPERMS_DONTAUDIT False"

definition sepol_permissive where "sepol_permissive mok p s = set_domain_state mok p s True"
definition sepol_enforce where "sepol_enforce mok p s = set_domain_state mok p s False"
definition sepol_create where "sepol_create cok mok p s = create_domain cok mok p s"
definition sepol_attradd where "sepol_attradd mok p s a = add_typeattribute mok p s a"

definition sepol_exists :: "policydb \<Rightarrow> string \<Rightarrow> bool" where
  "sepol_exists p source \<longleftrightarrow> lookup_type p source \<noteq> None"

subsection \<open>Scripts\<close>

datatype rule_call =
    Allow "string option" "string option" "string option" "string option"
  | Deny "string option" "string option" "string option" "string option"
  | Allowxperm "string option" "string option" "string option" "string option"
  | Permissive "string option"
  | Create string
  | Attradd string string

fun run_call :: "bool \<Rightarrow> bool \<Rightarrow> rule_call \<Rightarrow> policydb \<Rightarrow> (int \<times> policydb) outcome" where
  "run_call cok mok (Allow s t c perm) p = sepol_allow cok mok p s t c perm"
| "run_call cok mok (Deny s t c perm) p = sepol_deny cok mok p s t c perm"
| "run_call cok mok (Allowxperm s t c rng) p = sepol_allowxperm cok mok p s t c rng"
| "run_call cok mok (Permissive s) p = sepol_permissive mok p s"
| "run_call cok mok (Create s) p = sepol_create cok mok p s"
| "run_call cok mok (Attradd s a) p = sepol_attradd mok p s a"

fun run_calls :: "bool \<Rightarrow> bool \<Rightarrow> rule_call list \<Rightarrow> policydb \<Rightarrow> policydb outcome" where
  "run_calls cok mok [] p = Ret p"
| "run_calls cok mok (x # xs) p = obind (run_call cok mok x p) (\<lambda>(_, p). run_calls cok mok xs p)"

text \<open>\<^verbatim>\<open>if (sepol_exists(name)) ...\<close>.\<close>

definition if_exists :: "string \<Rightarrow> (policydb \<Rightarrow> policydb outcome) \<Rightarrow> policydb \<Rightarrow> policydb outcome" where
  "if_exists name f p = (if sepol_exists p name then f p else Ret p)"

primrec in_sequence :: "(policydb \<Rightarrow> policydb outcome) list \<Rightarrow> policydb \<Rightarrow> policydb outcome" where
  "in_sequence [] p = Ret p"
| "in_sequence (f # fs) p = obind (f p) (in_sequence fs)"

definition samsung_rules :: "rule_call list" where
  "samsung_rules =
     [Deny (Some ''init'') (Some ''kernel'') (Some ''security'') (Some ''load_policy''),
      Deny (Some ''policyloader_app'') (Some ''security_spota_file'') (Some ''dir'') (Some ''read''),
      Deny (Some ''policyloader_app'') (Some ''security_spota_file'') (Some ''dir'') (Some ''write''),
      Deny (Some ''policyloader_app'') (Some ''security_spota_file'') (Some ''file'') (Some ''read''),
      Deny (Some ''policyloader_app'') (Some ''security_spota_file'') (Some ''file'') (Some ''write''),
      Deny (Some ''system_server'') (Some ''security_spota_file'') (Some ''dir'') (Some ''read''),
      Deny (Some ''system_server'') (Some ''security_spota_file'') (Some ''dir'') (Some ''write''),
      Deny (Some ''system_server'') (Some ''security_spota_file'') (Some ''file'') (Some ''read''),
      Deny (Some ''system_server'') (Some ''security_spota_file'') (Some ''file'') (Some ''write''),
      Deny (Some ''system_app'') (Some ''security_spota_file'') (Some ''dir'') (Some ''read''),
      Deny (Some ''system_app'') (Some ''security_spota_file'') (Some ''dir'') (Some ''write''),
      Deny (Some ''system_app'') (Some ''security_spota_file'') (Some ''file'') (Some ''read''),
      Deny (Some ''system_app'') (Some ''security_spota_file'') (Some ''file'') (Some ''write''),
      Deny (Some ''installd'') (Some ''security_spota_file'') (Some ''dir'') (Some ''read''),
      Deny (Some ''installd'') (Some ''security_spota_file'') (Some ''dir'') (Some ''write''),
      Deny (Some ''installd'') (Some ''security_spota_file'') (Some ''file'') (Some ''read''),
      Deny (Some ''installd'') (Some ''security_spota_file'') (Some ''file'') (Some ''write''),
      Deny (Some ''init'') (Some ''security_spota_file'') (Some ''dir'') (Some ''read''),
      Deny (Some ''init'') (Some ''security_spota_file'') (Some ''dir'') (Some ''write''),
      Deny (Some ''init'') (Some ''security_spota_file'') (Some ''file'') (Some ''read''),
      Deny (Some ''init'') (Some ''security_spota_file'') (Some ''file'') (Some ''write''),
      Deny (Some ''ueventd'') (Some ''security_spota_file'') (Some ''dir'') (Some ''read''),
      Deny (Some ''ueventd'') (Some ''security_spota_file'') (Some ''dir'') (Some ''write''),
      Deny (Some ''ueventd'') (Some ''security_spota_file'') (Some ''file'') (Some ''read''),
      Deny (Some ''ueventd'') (Some ''security_spota_file'') (Some ''file'') (Some ''write''),
      Deny (Some ''runas'') (Some ''security_spota_file'') (Some ''dir'') (Some ''read''),
      Deny (Some ''runas'') (Some ''security_spota_file'') (Some ''dir'') (Some ''write''),
      Deny (Some ''runas'') (Some ''security_spota_file'') (Some ''file'') (Some ''read''),
      Deny (Some ''runas'') (Some ''security_spota_file'') (Some ''file'') (Some ''write''),
      Deny (Some ''drsd'') (Some ''security_spota_file'') (Some ''dir'') (Some ''read''),
      Deny (Some ''drsd'') (Some ''security_spota_file'') (Some ''dir'') (Some ''write''),
      Deny (Some ''drsd'') (Some ''security_spota_file'') (Some ''file'') (Some ''read''),
      Deny (Some ''drsd'') (Some ''security_spota_file'') (Some ''file'') (Some ''write''),
      Deny (Some ''debuggerd'') (Some ''security_spota_file'') (Some ''dir'') (Some ''read''),
      Deny (Some ''debuggerd'') (Some ''security_spota_file'') (Some ''dir'') (Some ''write''),
      Deny (Some ''debuggerd'') (Some ''security_spota_file'') (Some ''file'') (Some ''read''),
      Deny (Some ''debuggerd'') (Some ''security_spota_file'') (Some ''file'') (Some ''write''),
      Deny (Some ''vold'') (Some ''security_spota_file'') (Some ''dir'') (Some ''read''),
      Deny (Some ''vold'') (Some ''security_spota_file'') (Some ''dir'') (Some ''write''),
      Deny (Some ''vold'') (Some ''security_spota_file'') (Some ''file'') (Some ''read''),
      Deny (Some ''vold'') (Some ''security_spota_file'') (Some ''file'') (Some ''write''),
      Deny (Some ''zygote'') (Some ''security_spota_file'') (Some ''dir'') (Some ''read''),
      Deny (Some ''zygote'') (Some ''security_spota_file'') (Some ''dir'') (Some ''write''),
      Deny (Some ''zygote'') (Some ''security_spota_file'') (Some ''file'') (Some ''read''),
      Deny (Some ''zygote'') (Some ''security_spota_file'') (Some ''file'') (Some ''write''),
      Deny (Some ''auditd'') (Some ''security_spota_file'') (Some ''dir'') (Some ''read''),
      Deny (Some ''auditd'') (Some ''security_spota_file'') (Some ''dir'') (Some ''write''),
      Deny (Some ''auditd'') (Some ''security_spota_file'') (Some ''file'') (Some ''read''),
      Deny (Some ''auditd'') (Some ''security_spota_file'') (Some ''file'') (Some ''write''),
      Deny (Some ''servicemanager'') (Some ''security_spota_file'') (Some ''dir'') (Some ''read''),
      Deny (Some ''servicemanager'') (Some ''security_spota_file'') (Some ''dir'') (Some ''write''),
      Deny (Some ''servicemanager'') (Some ''security_spota_file'') (Some ''file'') (Some ''read''),
      Deny (Some ''servicemanager'') (Some ''security_spota_file'') (Some ''file'') (Some ''write''),
      Deny (Some ''itsonbs'') (Some ''security_spota_file'') (Some ''dir'') (Some ''read''),
      Deny (Some ''itsonbs'') (Some ''security_spota_file'') (Some ''dir'') (Some ''write''),
      Deny (Some ''itsonbs'') (Some ''security_spota_file'') (Some ''file'') (Some ''read''),
      Deny (Some ''itsonbs'') (Some ''security_spota_file'') (Some ''file'') (Some ''write''),
      Deny (Some ''commonplatformappdomain'') (Some ''security_spota_file'') (Some ''dir'') (Some ''read''),
      Deny (Some ''commonplatformappdomain'') (Some ''security_spota_file'') (Some ''dir'') (Some ''write''),
      Deny (Some ''commonplatformappdomain'') (Some ''security_spota_file'') (Some ''file'') (Some ''read''),
      Deny (Some ''commonplatformappdomain'') (Some ''security_spota_file'') (Some ''file'') (Some ''write'')]"

definition samsung :: "bool \<Rightarrow> bool \<Rightarrow> policydb \<Rightarrow> policydb outcome" where
  "samsung cok mok = run_calls cok mok samsung_rules"

definition su_client_rules :: "string \<Rightarrow> rule_call list" where
  "su_client_rules target =
     [Allow (Some target) (Some ''rootfs'') (Some ''file'') SEPOL_ALL,
      Allow (Some target) (Some ''rootfs'') (Some ''lnk_file'') SEPOL_ALL,
      Allow (Some target) (Some ''su'') (Some ''unix_stream_socket'') (Some ''connectto''),
      Allow (Some target) (Some ''su'') (Some ''unix_stream_socket'') (Some ''getopt''),
      Allow (Some target) (Some ''su_device'') (Some ''dir'') (Some ''search''),
      Allow (Some target) (Some ''su_device'') (Some ''dir'') (Some ''read''),
      Allow (Some target) (Some ''su_device'') (Some ''sock_file'') (Some ''read''),
      Allow (Some target) (Some ''su_device'') (Some ''sock_file'') (Some ''write''),
      Allow (Some target) (Some ''devpts'') (Some ''chr_file'') (Some ''ioctl''),
      Allow (Some ''su'') (Some target) (Some ''fd'') (Some ''use''),
      Allow (Some ''su'') (Some target) (Some ''fifo_file'') SEPOL_ALL]"

definition allowSuClient :: "bool \<Rightarrow> bool \<Rightarrow> string \<Rightarrow> policydb \<Rightarrow> policydb outcome" where
  "allowSuClient cok mok target = run_calls cok mok (su_client_rules target)"

definition su_rights_rules :: "rule_call list" where
  "su_rights_rules =
     [Allow (Some ''servicemanager'') (Some ''su'') (Some ''dir'') (Some ''search''),
      Allow (Some ''servicemanager'') (Some ''su'') (Some ''dir'') (Some ''read''),
      Allow (Some ''servicemanager'') (Some ''su'') (Some ''file'') (Some ''open''),
      Allow (Some ''servicemanager'') (Some ''su'') (Some ''file'') (Some ''read''),
      Allow (Some ''servicemanager'') (Some ''su'') (Some ''process'') (Some ''getattr''),
      Allow (Some ''servicemanager'') (Some ''su'') (Some ''binder'') (Some ''transfer''),
      Allow (Some ''system_server'') (Some ''su'') (Some ''binder'') (Some ''call''),
      Allow (Some ''system_server'') (Some ''su'') (Some ''fd'') (Some ''use''),
      Allow (Some ''su'') (Some ''servicemanager'') (Some ''dir'') (Some ''search''),
      Allow (Some ''su'') (Some ''servicemanager'') (Some ''dir'') (Some ''read''),
      Allow (Some ''su'') (Some ''servicemanager'') (Some ''file'') (Some ''open''),
      Allow (Some ''su'') (Some ''servicemanager'') (Some ''file'') (Some ''read''),
      Allow (Some ''su'') (Some ''servicemanager'') (Some ''process'') (Some ''getattr''),
      Allow (Some ''su'') (Some ''servicemanager'') (Some ''binder'') (Some ''transfer''),
      Allow (Some ''su'') (Some ''servicemanager'') (Some ''binder'') (Some ''call''),
      Allow (Some ''su'') (Some ''system_server'') (Some ''binder'') (Some ''transfer''),
      Allow (Some ''su'') (Some ''system_server'') (Some ''binder'') (Some ''call'')]"

definition suRights :: "bool \<Rightarrow> bool \<Rightarrow> policydb \<Rightarrow> policydb outcome" where
  "suRights cok mok = run_calls cok mok su_rights_rules"

definition otherToSU :: "bool \<Rightarrow> bool \<Rightarrow> policydb \<Rightarrow> policydb outcome" where
  "otherToSU cok mok = in_sequence
     [run_calls cok mok
     [Allow (Some ''logd'') (Some ''su'') (Some ''dir'') (Some ''search''),
      Allow (Some ''logd'') (Some ''su'') (Some ''file'') (Some ''read''),
      Allow (Some ''logd'') (Some ''su'') (Some ''file'') (Some ''open''),
      Allow (Some ''logd'') (Some ''su'') (Some ''file'') (Some ''getattr''),
      Allow (Some ''system_server'') (Some ''su'') (Some ''binder'') (Some ''call''),
      Allow (Some ''system_server'') (Some ''su'') (Some ''binder'') (Some ''transfer''),
      Allow (Some ''untrusted_app'') (Some ''su'') (Some ''unix_stream_socket'') (Some ''ioctl''),
      Allow (Some ''untrusted_app'') (Some ''su'') (Some ''unix_stream_socket'') (Some ''read''),
      Allow (Some ''untrusted_app'') (Some ''su'') (Some ''unix_stream_socket'') (Some ''getattr''),
      Allow (Some ''untrusted_app'') (Some ''su'') (Some ''unix_stream_socket'') (Some ''write''),
      Allow (Some ''untrusted_app'') (Some ''su'') (Some ''unix_stream_socket'') (Some ''setattr''),
      Allow (Some ''untrusted_app'') (Some ''su'') (Some ''unix_stream_socket'') (Some ''lock''),
      Allow (Some ''untrusted_app'') (Some ''su'') (Some ''unix_stream_socket'') (Some ''append''),
      Allow (Some ''untrusted_app'') (Some ''su'') (Some ''unix_stream_socket'') (Some ''bind''),
      Allow (Some ''untrusted_app'') (Some ''su'') (Some ''unix_stream_socket'') (Some ''connect''),
      Allow (Some ''untrusted_app'') (Some ''su'') (Some ''unix_stream_socket'') (Some ''getopt''),
      Allow (Some ''untrusted_app'') (Some ''su'') (Some ''unix_stream_socket'') (Some ''setopt''),
      Allow (Some ''untrusted_app'') (Some ''su'') (Some ''unix_stream_socket'') (Some ''shutdown''),
      Allow (Some ''untrusted_app'') (Some ''su'') (Some ''unix_stream_socket'') (Some ''connectto''),
      Allow SEPOL_ALL (Some ''su'') (Some ''process'') (Some ''sigchld''),
      Attradd ''su'' ''netdomain'',
      Attradd ''su'' ''bluetoothdomain'',
      Allow (Some ''surfaceflinger'') (Some ''app_data_file'') (Some ''dir'') SEPOL_ALL,
      Allow (Some ''surfaceflinger'') (Some ''app_data_file'') (Some ''file'') SEPOL_ALL,
      Allow (Some ''surfaceflinger'') (Some ''app_data_file'') (Some ''lnk_file'') SEPOL_ALL,
      Attradd ''surfaceflinger'' ''mlstrustedsubject''],
      if_exists ''audioserver'' (run_calls cok mok
     [Allow (Some ''audioserver'') (Some ''audioserver'') (Some ''process'') (Some ''execmem'')]),
      run_calls cok mok
     [Allow (Some ''surfaceflinger'') (Some ''su'') (Some ''process'') (Some ''ptrace''),
      Allow (Some ''surfaceflinger'') (Some ''su'') (Some ''binder'') (Some ''transfer''),
      Allow (Some ''surfaceflinger'') (Some ''su'') (Some ''binder'') (Some ''call''),
      Allow (Some ''surfaceflinger'') (Some ''su'') (Some ''fd'') (Some ''use''),
      Allow (Some ''debuggerd'') (Some ''su'') (Some ''process'') (Some ''ptrace'')]]"

definition sepol_min_rules :: "bool \<Rightarrow> bool \<Rightarrow> policydb \<Rightarrow> policydb outcome" where
  "sepol_min_rules cok mok = in_sequence
     [(\<lambda>p. if \<not> sepol_exists p ''su'' then run_calls cok mok [Create ''su''] p else Ret p),
      (\<lambda>p. if \<not> sepol_exists p ''su_device'' then run_calls cok mok [Create ''su_device''] p else Ret p),
      run_calls cok mok
     [Permissive (Some ''su''),
      Permissive (Some ''init''),
      Attradd ''su'' ''mlstrustedsubject'',
      Attradd ''su_device'' ''mlstrustedobject'',
      Allow (Some ''kernel'') (Some ''su'') (Some ''fd'') (Some ''use''),
      Allow (Some ''init'') (Some ''su'') (Some ''process'') SEPOL_ALL,
      Allow (Some ''init'') (Some ''system_file'') (Some ''dir'') SEPOL_ALL,
      Allow (Some ''init'') (Some ''system_file'') (Some ''lnk_file'') SEPOL_ALL,
      Allow (Some ''init'') (Some ''system_file'') (Some ''file'') SEPOL_ALL],
      if_exists ''knox_system_app'' (samsung cok mok),
      run_calls cok mok
     [Allow (Some ''su'') (Some ''property_socket'') (Some ''sock_file'') (Some ''write''),
      Allow (Some ''su'') (Some ''properties_device'') (Some ''file'') (Some ''write'')],
      if_exists ''default_prop'' (run_calls cok mok
     [Allow (Some ''su'') (Some ''default_prop'') (Some ''property_service'') (Some ''set''),
      Allow (Some ''su'') (Some ''default_prop'') (Some ''file'') (Some ''write'')]),
      if_exists ''properties_serial'' (run_calls cok mok
     [Allow (Some ''su'') (Some ''properties_serial'') (Some ''file'') (Some ''write'')]),
      run_calls cok mok
     [Allow (Some ''su'') (Some ''init'') (Some ''unix_stream_socket'') (Some ''connectto''),
      Allow (Some ''su'') (Some ''rootfs'') (Some ''file'') (Some ''entrypoint''),
      Allow (Some ''su'') (Some ''rootfs'') (Some ''file'') (Some ''getattr''),
      Allow (Some ''su'') (Some ''rootfs'') (Some ''file'') (Some ''read''),
      Allow (Some ''su'') (Some ''rootfs'') (Some ''filesystem'') (Some ''remount''),
      Allow (Some ''su'') (Some ''devpts'') (Some ''chr_file'') SEPOL_ALL,
      Allow (Some ''su'') (Some ''untrusted_app_devpts'') (Some ''chr_file'') SEPOL_ALL,
      Allow (Some ''su'') (Some ''su_device'') (Some ''dir'') SEPOL_ALL,
      Allow (Some ''su'') (Some ''su_device'') (Some ''sock_file'') SEPOL_ALL,
      Allow (Some ''su'') (Some ''zygote_exec'') (Some ''file'') SEPOL_ALL,
      Allow (Some ''su'') (Some ''zygote_exec'') (Some ''lnk_file'') SEPOL_ALL,
      Allow (Some ''su'') (Some ''app_data_file'') (Some ''dir'') SEPOL_ALL,
      Allow (Some ''su'') (Some ''app_data_file'') (Some ''file'') SEPOL_ALL,
      Allow (Some ''su'') (Some ''shell_exec'') (Some ''file'') SEPOL_ALL,
      Allow (Some ''su'') (Some ''su'') (Some ''unix_dgram_socket'') SEPOL_ALL,
      Allow (Some ''su'') (Some ''su'') (Some ''unix_stream_socket'') SEPOL_ALL,
      Allow (Some ''su'') (Some ''su'') (Some ''process'') SEPOL_ALL,
      Allow (Some ''su'') (Some ''su'') (Some ''capability'') SEPOL_ALL,
      Allow (Some ''su'') (Some ''su'') (Some ''file'') SEPOL_ALL,
      Allow (Some ''su'') (Some ''su'') (Some ''fifo_file'') SEPOL_ALL,
      Allow (Some ''su'') (Some ''su'') (Some ''lnk_file'') SEPOL_ALL,
      Allow (Some ''su'') (Some ''su'') (Some ''dir'') SEPOL_ALL],
      if_exists ''toolbox_exec'' (run_calls cok mok
     [Allow (Some ''su'') (Some ''toolbox_exec'') (Some ''file'') SEPOL_ALL]),
      if_exists ''logdr_socket'' (run_calls cok mok
     [Allow (Some ''su'') (Some ''logdr_socket'') (Some ''sock_file'') (Some ''write'')]),
      if_exists ''logd'' (run_calls cok mok
     [Allow (Some ''su'') (Some ''logd'') (Some ''unix_stream_socket'') (Some ''connectto'')]),
      run_calls cok mok
     [Allow (Some ''su_device'') (Some ''tmpfs'') (Some ''filesystem'') (Some ''associate''),
      Allow (Some ''su'') (Some ''kernel'') (Some ''security'') (Some ''read_policy''),
      Allow (Some ''su'') (Some ''kernel'') (Some ''security'') (Some ''load_policy''),
      Allow (Some ''su'') (Some ''selinuxfs'') (Some ''file'') (Some ''read''),
      Allow (Some ''su'') (Some ''selinuxfs'') (Some ''file'') (Some ''open''),
      Allow (Some ''su'') (Some ''selinuxfs'') (Some ''file'') (Some ''write''),
      Allow (Some ''su'') (Some ''kernel'') (Some ''process'') (Some ''setsched''),
      Allow (Some ''su'') (Some ''labeledfs'') (Some ''filesystem'') (Some ''mount''),
      Allow (Some ''su'') (Some ''labeledfs'') (Some ''filesystem'') (Some ''unmount''),
      Allow (Some ''kernel'') (Some ''system_data_file'') (Some ''file'') (Some ''read''),
      Allow (Some ''rootfs'') (Some ''tmpfs'') (Some ''filesystem'') (Some ''associate''),
      Allow (Some ''untrusted_app'') (Some ''untrusted_app'') (Some ''capability'') (Some ''setgid''),
      Allow (Some ''system_server'') (Some ''dex2oat_exec'') (Some ''file'') SEPOL_ALL],
      (\<lambda>p. if policyvers p \<ge> POLICYDB_VERSION_XPERMS_IOCTL then run_calls cok mok
     [Allowxperm (Some ''domain'') (Some ''devpts'') (Some ''chr_file'') (Some ''0x5400-0x54FF'')] p else Ret p)]"

definition sepol_med_rules :: "bool \<Rightarrow> bool \<Rightarrow> policydb \<Rightarrow> policydb outcome" where
  "sepol_med_rules cok mok = in_sequence
     [sepol_min_rules cok mok,
      run_calls cok mok
     [Allow (Some ''su'') SEPOL_ALL (Some ''file'') SEPOL_ALL,
      Allow (Some ''su'') SEPOL_ALL (Some ''dir'') SEPOL_ALL,
      Allow (Some ''su'') SEPOL_ALL (Some ''lnk_file'') SEPOL_ALL,
      Allow (Some ''su'') SEPOL_ALL (Some ''blk_file'') SEPOL_ALL],
      allowSuClient cok mok ''shell'', allowSuClient cok mok ''untrusted_app'',
      allowSuClient cok mok ''system_app'', allowSuClient cok mok ''platform_app'',
      if_exists ''priv_app'' (allowSuClient cok mok ''priv_app''),
      if_exists ''ssd_tool'' (allowSuClient cok mok ''ssd_tool''),
      if_exists ''untrusted_app_25'' (allowSuClient cok mok ''untrusted_app_25''),
      suRights cok mok, otherToSU cok mok]"

definition sepol_full_rules :: "bool \<Rightarrow> bool \<Rightarrow> policydb \<Rightarrow> policydb outcome" where
  "sepol_full_rules cok mok = run_calls cok mok [Allow (Some ''su'') SEPOL_ALL SEPOL_ALL SEPOL_ALL]"

section \<open>Rule scripts only edit the rule table\<close>

text \<open>Permission values are bit numbers counted from 1 in every class and common.\<close>

definition perms_ok :: "policydb \<Rightarrow> bool" where
  "perms_ok p \<longleftrightarrow> (\<forall>c perm v. perm_value p c perm = Some v \<longrightarrow> v \<noteq> 0 \<and> v \<le> 32)"

definition policy_ready :: "policydb \<Rightarrow> bool" where
  "policy_ready p \<longleftrightarrow> avtab_wf (te_avtab p) \<and> table (p_types p) \<noteq> None \<and> table (p_classes p) \<noteq> None \<and> perms_ok p"

definition te_permits :: "policydb \<Rightarrow> rule_id \<Rightarrow> nat \<Rightarrow> bool" where
  "te_permits p r n \<longleftrightarrow> (case avtab_abs (te_avtab p) r of None \<Rightarrow> False | Some d \<Rightarrow> bit (av_data d) n)"

lemma perm_value_te [simp]: "perm_value (p\<lparr>te_avtab := te\<rparr>) = perm_value p"
  by (simp add: perm_value_def fun_eq_iff cong: option.case_cong)

lemma policy_ready_te: "policy_ready p \<Longrightarrow> avtab_wf te \<Longrightarrow> policy_ready (p\<lparr>te_avtab := te\<rparr>)"
  by (simp add: policy_ready_def perms_ok_def)

lemma add_rule_total:
  assumes "policy_ready p" and "effect \<in> set av_effects"
  obtains rc te where "add_rule True True p s t c perm effect neg = Ret (rc, p\<lparr>te_avtab := te\<rparr>)" and "avtab_wf te"
    and "avtab_abs te = avtab_abs (te_avtab p) \<or>
      (\<exists>v. perm_value p c perm = Some v \<and> avtab_abs te = grant (named_rules p s t c effect) (set_av v neg) (avtab_abs (te_avtab p)))"
proof (cases "names_ok p s t c \<and> perm_value p c perm \<noteq> None")
  case True
  then obtain v where v: "perm_value p c perm = Some v" by blast
  with assms(1) have b: "v \<noteq> 0" "v \<le> 32" unfolding policy_ready_def perms_ok_def by blast+
  from assms(1) have "avtab_wf (te_avtab p)" "table (p_types p) \<noteq> None" "table (p_classes p) \<noteq> None"
    by (simp_all add: policy_ready_def)
  from add_rule_correct[OF this _ assms(2) v b, of s t neg] True that v show ?thesis by blast
next
  case False
  with add_rule_unknown[of p s t c perm True True effect neg] assms(1) show ?thesis
    by (intro that[of 1 "te_avtab p"]) (auto simp: policy_ready_def)
qed

lemma edit_av_mono: "v \<noteq> 0 \<Longrightarrow> bit d n \<Longrightarrow> bit (edit_av v False d) n"
  by (auto simp: edit_av_def bit_simps dest: bit_imp_le_length)

lemma allow_call:
  assumes "policy_ready p"
  obtains rc te where "run_call True True (Allow s t c perm) p = Ret (rc, p\<lparr>te_avtab := te\<rparr>)"
    and "policy_ready (p\<lparr>te_avtab := te\<rparr>)" and "\<And>r n. te_permits p r n \<Longrightarrow> te_permits (p\<lparr>te_avtab := te\<rparr>) r n"
proof -
  have eff: "AVTAB_ALLOWED \<in> set av_effects" by (simp add: av_effects_def)
  obtain rc te where te: "add_rule True True p s t c perm AVTAB_ALLOWED False = Ret (rc, p\<lparr>te_avtab := te\<rparr>)" "avtab_wf te"
    "avtab_abs te = avtab_abs (te_avtab p) \<or>
      (\<exists>v. perm_value p c perm = Some v \<and> avtab_abs te = grant (named_rules p s t c AVTAB_ALLOWED) (set_av v False) (avtab_abs (te_avtab p)))"
    using add_rule_total[OF assms eff] by blast
  show ?thesis
  proof (rule that[of rc te])
    show "te_permits (p\<lparr>te_avtab := te\<rparr>) r n" if "te_permits p r n" for r n
    proof -
      have "v \<noteq> 0" if "perm_value p c perm = Some v" for v
        using assms that unfolding policy_ready_def perms_ok_def by blast
      with te(3) that show ?thesis
        by (auto simp: te_permits_def grant_def edit_av_mono split: option.splits if_splits)
    qed
  qed (use te assms policy_ready_te in \<open>auto simp: sepol_allow_def\<close>)
qed

definition is_allow :: "rule_call \<Rightarrow> bool" where
  "is_allow x = (case x of Allow _ _ _ _ \<Rightarrow> True | _ \<Rightarrow> False)"

lemma allow_script:
  assumes "policy_ready p" and "list_all is_allow xs"
  obtains te where "run_calls True True xs p = Ret (p\<lparr>te_avtab := te\<rparr>)" and "policy_ready (p\<lparr>te_avtab := te\<rparr>)"
    and "\<And>r n. te_permits p r n \<Longrightarrow> te_permits (p\<lparr>te_avtab := te\<rparr>) r n"
  using assms
proof (induction xs arbitrary: p thesis)
  case Nil
  show ?case by (rule Nil(1)[of "te_avtab p"]) (use Nil(2) in simp_all)
next
  case (Cons x xs)
  then obtain s t c perm where x: "x = Allow s t c perm" by (auto simp: is_allow_def split: rule_call.splits)
  obtain rc te where te: "run_call True True x p = Ret (rc, p\<lparr>te_avtab := te\<rparr>)" "policy_ready (p\<lparr>te_avtab := te\<rparr>)"
    "\<And>r n. te_permits p r n \<Longrightarrow> te_permits (p\<lparr>te_avtab := te\<rparr>) r n"
    using allow_call[OF Cons.prems(2)] unfolding x by blast
  show ?case
  proof (rule Cons.IH[OF _ te(2)])
    fix te'
    assume "run_calls True True xs (p\<lparr>te_avtab := te\<rparr>) = Ret (p\<lparr>te_avtab := te\<rparr>\<lparr>te_avtab := te'\<rparr>)"
      "policy_ready (p\<lparr>te_avtab := te\<rparr>\<lparr>te_avtab := te'\<rparr>)"
      "\<And>r n. te_permits (p\<lparr>te_avtab := te\<rparr>) r n \<Longrightarrow> te_permits (p\<lparr>te_avtab := te\<rparr>\<lparr>te_avtab := te'\<rparr>) r n"
    then show thesis using te by (intro Cons.prems(1)[of te']) simp_all
  qed (use Cons.prems in simp)
qed

section \<open>The full rules\<close>

lemma full_rules_correct:
  assumes "policy_ready p" and su: "lookup_type p ''su'' = Some su"
  obtains te where "sepol_full_rules True True p = Ret (p\<lparr>te_avtab := te\<rparr>)" and "avtab_wf te"
    and "avtab_abs te = grant (named_rules p (Some ''su'') None None AVTAB_ALLOWED) (set_av (-1) False) (avtab_abs (te_avtab p))"
proof -
  have names: "names_ok p (Some ''su'') None None" using su by (simp add: names_ok_def resolve_def lookup_type_def)
  from assms(1) have "avtab_wf (te_avtab p)" "table (p_types p) \<noteq> None" "table (p_classes p) \<noteq> None"
    by (simp_all add: policy_ready_def)
  from add_rule_correct[OF this names, of AVTAB_ALLOWED None "-1" False] that show ?thesis
    by (force simp: av_effects_def perm_value_def sepol_full_rules_def sepol_allow_def)
qed

text \<open>After the full rules, \<open>su\<close> has every permission on every type and class.\<close>

lemma full_rules_decision:
  assumes ready: "policy_ready p" and su: "lookup_type p ''su'' = Some su"
    and maps: "\<forall>e \<in> set (type_attr_map p). ebitmap_wf e"
    and tgt: "table (p_types p) = Some ht" "t \<in> snd ` set (hashtab_nodes ht)"
    and cls: "table (p_classes p) = Some hc" "c \<in> snd ` set (hashtab_nodes hc)" "cl_value c \<noteq> 0" "cl_value c \<le> nprim (p_classes p)"
    and st: "unat (stype - 1) < length (type_attr_map p)" "unat (ttype - 1) < length (type_attr_map p)"
    and s: "ebitmap_get_bit (type_attr_map p ! unat (stype - 1)) (t_value su - 1)"
    and t: "ebitmap_get_bit (type_attr_map p ! unat (ttype - 1)) (t_value t - 1)"
    and res: "sepol_full_rules True True p = Ret p'"
  obtains avd where "compute_te_av p' stype ttype (cl_value c) = Ret (Some avd)" and "allowed avd = NOT 0"
proof -
  obtain te where te: "p' = p\<lparr>te_avtab := te\<rparr>" "avtab_wf te"
    "avtab_abs te = grant (named_rules p (Some ''su'') None None AVTAB_ALLOWED) (set_av (-1) False) (avtab_abs (te_avtab p))"
    using full_rules_correct[OF ready su] res by auto
  let ?r = "(ucast (t_value su), ucast (t_value t), ucast (cl_value c), AVTAB_ALLOWED)"
  have "?r \<in> named_rules p (Some ''su'') None None AVTAB_ALLOWED"
    using su tgt cls by (auto simp: named_rules_def rule_ids_def entries_def resolve_def entry_opt_def lookup_type_def Let_def)
  then obtain d where d: "avtab_abs te ?r = Some d" "av_data d = NOT 0"
    by (simp add: te(3) grant_def edit_av_def)
  have p': "avtab_wf (te_avtab p')" "type_attr_map p' = type_attr_map p" "p_classes p' = p_classes p" using te by simp_all
  have bits: "bit (av_data d) n" if "n < 32" for n using that d(2) by (simp add: bit_simps)
  obtain avd where avd: "compute_te_av p' stype ttype (cl_value c) = Ret (Some avd)"
    using allow_rule_decides[of p' "cl_value c" stype ttype "t_value su" "t_value t" d 0] p' maps cls st s t d(1) te(1) bits[of 0] by auto
  have "bit (allowed avd) n" if "n < 32" for n
    using allow_rule_decides[of p' "cl_value c" stype ttype "t_value su" "t_value t" d n] p' maps cls st s t d(1) te(1) bits[OF that] avd by auto
  then have "allowed avd = NOT 0" by (intro bit_word_eqI) (simp add: bit_simps)
  with avd that show ?thesis by blast
qed

end
