(* ===== verification/Vector.thy ===== *)
theory Vector
  imports Prelude
begin

text \<open>
  The growable pointer vector of \<^verbatim>\<open>src/jni/utils/vector.c\<close> and
  \<^verbatim>\<open>src/jni/include/vector.h\<close>. The allocated block behind \<open>data\<close> is modelled cell by
  cell: \<open>None\<close> is an indeterminate cell of a fresh allocation, and the length of the list
  is the number of cells allocated, so that an access beyond it is a modelled error. The
  \<open>data\<close> field itself may be an indeterminate pointer, \<open>NULL\<close>, or a live block.
\<close>

section \<open>Definitions\<close>

datatype 'a block = Indeterminate | Null | Block "'a option list"

record 'a vector =
  vsize :: u32
  vcap :: u32
  vdata :: "'a block"

definition vec_init :: "'a vector option \<Rightarrow> 'a vector option" where
  "vec_init vo =
     (case vo of None \<Rightarrow> None | Some v \<Rightarrow> Some (v\<lparr>vsize := 0, vcap := 1, vdata := Block [None]\<rparr>))"

text \<open>\<open>realloc\<close> keeps the old cells and adds indeterminate ones; \<open>realloc(NULL, n)\<close> allocates.\<close>

definition realloc_cells :: "'a block \<Rightarrow> nat \<Rightarrow> 'a block outcome" where
  "realloc_cells d n =
     (case d of Indeterminate \<Rightarrow> UB Uninitialised
      | Null \<Rightarrow> Ret (Block (replicate n None))
      | Block cells \<Rightarrow> Ret (Block (take n cells @ replicate (n - length cells) None)))"

definition load_cell :: "'a block \<Rightarrow> nat \<Rightarrow> 'a option outcome" where
  "load_cell d i =
     (case d of Indeterminate \<Rightarrow> UB Uninitialised
      | Null \<Rightarrow> UB NullDeref
      | Block cells \<Rightarrow> if i < length cells then Ret (cells ! i) else UB OutOfBounds)"

definition store_cell :: "'a block \<Rightarrow> nat \<Rightarrow> 'a \<Rightarrow> 'a block outcome" where
  "store_cell d i p =
     (case d of Indeterminate \<Rightarrow> UB Uninitialised
      | Null \<Rightarrow> UB NullDeref
      | Block cells \<Rightarrow> if i < length cells then Ret (Block (cells[i := Some p])) else UB OutOfBounds)"

definition copy_cells :: "'a block \<Rightarrow> 'a block \<Rightarrow> nat \<Rightarrow> 'a block outcome" where
  "copy_cells dst src n =
     (case dst of Indeterminate \<Rightarrow> UB Uninitialised
      | Null \<Rightarrow> UB NullDeref
      | Block ds \<Rightarrow>
         (case src of Indeterminate \<Rightarrow> UB Uninitialised
          | Null \<Rightarrow> UB NullDeref
          | Block ss \<Rightarrow> if n \<le> length ds \<and> n \<le> length ss then Ret (Block (take n ss @ drop n ds))
                        else UB OutOfBounds))"

text \<open>A vector argument may be \<open>NULL\<close>: then the call has no effect.\<close>

definition vec_grow :: "'a vector \<Rightarrow> 'a vector outcome" where
  "vec_grow v =
     (if vsize v = vcap v
      then let c = vcap v * 2
           in obind (realloc_cells (vdata v) (unat c)) (\<lambda>d. Ret (v\<lparr>vcap := c, vdata := d\<rparr>))
      else Ret v)"

definition vec_push_back :: "'a vector option \<Rightarrow> 'a \<Rightarrow> 'a vector option outcome" where
  "vec_push_back vo p =
     (case vo of None \<Rightarrow> Ret None
      | Some v \<Rightarrow>
          obind (vec_grow v) (\<lambda>v'.
          obind (store_cell (vdata v') (unat (vsize v')) p) (\<lambda>d.
            Ret (Some (v'\<lparr>vdata := d, vsize := vsize v' + 1\<rparr>)))))"

definition vec_pop_back :: "'a vector \<Rightarrow> ('a option \<times> 'a vector) outcome" where
  "vec_pop_back v =
     obind (load_cell (vdata v) (unat (vsize v - 1)))
       (\<lambda>ret. Ret (ret, v\<lparr>vsize := vsize v - 1\<rparr>))"

text \<open>
  \<open>vec_sort\<close> hands the first \<open>size\<close> cells to \<open>qsort\<close>; the C library promises a permutation
  that is ascending under the comparison, which is the parameter here.
\<close>

definition vec_sort :: "('a option list \<Rightarrow> 'a option list) \<Rightarrow> 'a vector option \<Rightarrow> 'a vector option" where
  "vec_sort qsort vo =
     (case vo of None \<Rightarrow> None
      | Some v \<Rightarrow> Some (v\<lparr>vdata :=
          (case vdata v of
             Block cells \<Rightarrow> Block (qsort (take (unat (vsize v)) cells) @ drop (unat (vsize v)) cells)
           | d \<Rightarrow> d)\<rparr>))"

definition vec_destroy :: "'a vector option \<Rightarrow> 'a vector option" where
  "vec_destroy vo =
     (case vo of None \<Rightarrow> None | Some v \<Rightarrow> Some (v\<lparr>vsize := 0, vcap := 0, vdata := Null\<rparr>))"

text \<open>
  \<open>vec_for_each(v, e)\<close> assigns \<open>e = data[0]\<close> before the loop and \<open>e = data[_]\<close> after every
  iteration, the last one included; the elements visited are returned in order.
\<close>

fun vec_for_each_from :: "'a block \<Rightarrow> nat \<Rightarrow> nat \<Rightarrow> 'a option \<Rightarrow> 'a option list outcome" where
  "vec_for_each_from d i 0 e = Ret []"
| "vec_for_each_from d i (Suc n) e =
     obind (load_cell d (Suc i)) (\<lambda>e'.
     obind (vec_for_each_from d (Suc i) n e') (\<lambda>es. Ret (e # es)))"

definition vec_for_each :: "'a vector option \<Rightarrow> 'a option list outcome" where
  "vec_for_each vo =
     (case vo of None \<Rightarrow> Ret []
      | Some v \<Rightarrow> obind (load_cell (vdata v) 0) (\<lambda>e.
                    vec_for_each_from (vdata v) 0 (unat (vsize v)) e))"

text \<open>\<open>vec_deep_destroy\<close>: the list is the elements passed to \<open>free\<close>, in order.\<close>

definition vec_deep_destroy :: "'a vector option \<Rightarrow> ('a option list \<times> 'a vector option) outcome" where
  "vec_deep_destroy vo =
     (case vo of None \<Rightarrow> Ret ([], None)
      | Some v \<Rightarrow> obind (vec_for_each (Some v)) (\<lambda>freed. Ret (freed, vec_destroy (Some v))))"

text \<open>
  \<open>vec_dup\<close> as it is written: the fresh block is assigned to the argument's \<open>data\<close> field,
  the copy's own \<open>data\<close> field is never set. The value is the pair of the copy and of the
  argument after the call.
\<close>

definition vec_dup :: "'a vector \<Rightarrow> ('a vector \<times> 'a vector) outcome" where
  "vec_dup v =
     (let ret = \<lparr>vsize = vsize v, vcap = vcap v, vdata = Indeterminate\<rparr>;
          v' = v\<lparr>vdata := Block (replicate (unat (vcap ret)) None)\<rparr>
      in obind (copy_cells (vdata ret) (vdata v') (unat (vcap ret))) (\<lambda>d.
           Ret (ret\<lparr>vdata := d\<rparr>, v')))"

text \<open>The list a vector stands for, and the well-formedness of a live vector.\<close>

definition vec_cells :: "'a vector \<Rightarrow> 'a option list" where
  "vec_cells v = (case vdata v of Block cells \<Rightarrow> cells | _ \<Rightarrow> [])"

definition vec_list :: "'a vector \<Rightarrow> 'a option list" where
  "vec_list v = take (unat (vsize v)) (vec_cells v)"

definition vec_wf :: "'a vector \<Rightarrow> bool" where
  "vec_wf v \<longleftrightarrow> vdata v = Block (vec_cells v) \<and> length (vec_cells v) = unat (vcap v) \<and>
     vsize v \<le> vcap v \<and> 0 < vcap v \<and> None \<notin> set (vec_list v)"

text \<open>A push is within capacity when doubling the capacity does not wrap around \<open>size_t\<close>.\<close>

definition vec_room :: "'a vector \<Rightarrow> bool" where
  "vec_room v \<longleftrightarrow> vsize v < vcap v \<or> unat (vcap v) < 2 ^ 31"

section \<open>Lemmas\<close>

lemma vec_wf_init: "vec_wf (the (vec_init (Some v)))" and vec_list_init: "vec_list (the (vec_init (Some v))) = []"
  by (simp_all add: vec_init_def vec_wf_def vec_list_def vec_cells_def)

lemma unat_double:
  "unat (c :: u32) < 2 ^ 31 \<Longrightarrow> unat (c * 2) = unat c * 2"
  by (simp add: unat_word_ariths)

lemma vec_grow_room:
  assumes "vec_wf v" and "vec_room v"
  obtains v' where "vec_grow v = Ret v'" and "vdata v' = Block (vec_cells v')"
    and "vsize v' = vsize v" and "unat (vsize v) < unat (vcap v')"
    and "length (vec_cells v') = unat (vcap v')" and "0 < vcap v'"
    and "take (unat (vsize v)) (vec_cells v') = vec_list v"
proof (cases "vsize v = vcap v")
  case True
  with assms have c: "unat (vcap v * 2) = unat (vcap v) * 2"
    by (simp add: vec_room_def unat_double)
  from assms have "0 < unat (vcap v)" by (simp add: vec_wf_def word_less_nat_alt)
  with c show ?thesis
    using assms True
    by (intro that[of "v\<lparr>vcap := vcap v * 2,
            vdata := Block (vec_cells v @ replicate (unat (vcap v)) None)\<rparr>"])
       (auto simp: vec_grow_def vec_wf_def vec_cells_def vec_list_def realloc_cells_def Let_def
          word_less_nat_alt split: block.splits)
next
  case False
  with assms have "vsize v < vcap v" by (auto simp: vec_wf_def word_le_less_eq)
  with assms False show ?thesis
    by (intro that[of v]) (auto simp: vec_grow_def vec_wf_def vec_list_def word_less_nat_alt)
qed

lemma vec_push_back_room:
  assumes "vec_wf v" and "vec_room v"
  obtains v' where "vec_push_back (Some v) p = Ret (Some v')" and "vec_wf v'"
    and "vec_list v' = vec_list v @ [Some p]" and "vsize v' = vsize v + 1"
proof -
  obtain w where w: "vec_grow v = Ret w" "vdata w = Block (vec_cells w)" "vsize w = vsize v"
      "unat (vsize v) < unat (vcap w)" "length (vec_cells w) = unat (vcap w)" "0 < vcap w"
      "take (unat (vsize v)) (vec_cells w) = vec_list v"
    using vec_grow_room[OF assms] by blast
  let ?cells = "(vec_cells w)[unat (vsize v) := Some p]"
  let ?v' = "w\<lparr>vdata := Block ?cells, vsize := vsize v + 1\<rparr>"
  have size: "unat (vsize v + 1) = Suc (unat (vsize v))"
    using w(4) unat_lt32[of "vcap w"] by (intro unat_Suc32) linarith
  have list: "vec_list ?v' = vec_list v @ [Some p]"
    using w size by (simp add: vec_list_def vec_cells_def take_Suc_conv_app_nth)
  show ?thesis
  proof (rule that[of ?v'])
    show "vec_push_back (Some v) p = Ret (Some ?v')"
      using w by (simp add: vec_push_back_def store_cell_def)
    show "vec_wf ?v'"
      using w size list assms by (auto simp: vec_wf_def vec_cells_def word_le_nat_alt)
  qed (use list in simp_all)
qed

lemma vec_pop_back_last:
  assumes "vec_wf v" and "vsize v \<noteq> 0"
  shows "vec_pop_back v = Ret (last (vec_list v), v\<lparr>vsize := vsize v - 1\<rparr>)"
    and "vec_list (v\<lparr>vsize := vsize v - 1\<rparr>) = butlast (vec_list v)"
    and "vec_wf (v\<lparr>vsize := vsize v - 1\<rparr>)"
proof -
  from assms(2) have pos: "0 < unat (vsize v)" by (simp add: unat_gt_0)
  then have pred: "unat (vsize v - 1) = unat (vsize v) - 1"
    by (simp add: unat_minus_one assms(2))
  from assms have le: "unat (vsize v) \<le> length (vec_cells v)"
    by (simp add: vec_wf_def word_le_nat_alt)
  have last: "last (vec_list v) = vec_cells v ! (unat (vsize v) - 1)"
    using pos le by (subst last_conv_nth) (auto simp: vec_list_def min_absorb2)
  show pop: "vec_pop_back v = Ret (last (vec_list v), v\<lparr>vsize := vsize v - 1\<rparr>)"
    using assms pos le pred last by (simp add: vec_pop_back_def load_cell_def vec_wf_def)
  show list: "vec_list (v\<lparr>vsize := vsize v - 1\<rparr>) = butlast (vec_list v)"
    using le pred by (simp add: vec_list_def vec_cells_def butlast_take)
  show "vec_wf (v\<lparr>vsize := vsize v - 1\<rparr>)"
    using assms pos pred list
    by (auto simp: vec_wf_def vec_cells_def word_le_nat_alt dest: in_set_butlastD)
qed

lemma vec_for_each_from_ok:
  "i + n < length cells \<Longrightarrow> e = cells ! i \<Longrightarrow>
     vec_for_each_from (Block cells) i n e = Ret (take n (drop i cells))"
proof (induction n arbitrary: i e)
  case (Suc n)
  then have "vec_for_each_from (Block cells) (Suc i) n (cells ! Suc i) = Ret (take n (drop (Suc i) cells))"
    by simp
  moreover have "drop i cells = cells ! i # drop (Suc i) cells"
    using Suc.prems by (simp add: Cons_nth_drop_Suc)
  ultimately show ?case using Suc.prems by (simp add: load_cell_def)
qed simp

lemma vec_for_each_from_oob:
  "i < length cells \<Longrightarrow> i + n = length cells \<Longrightarrow> 0 < n \<Longrightarrow>
     vec_for_each_from (Block cells) i n e = UB OutOfBounds"
proof (induction n arbitrary: i e)
  case (Suc n)
  then show ?case by (cases n) (auto simp: load_cell_def)
qed simp

text \<open>The copy goes through a pointer that was never set.\<close>

lemma vec_dup_uninitialised: "vec_dup v = UB Uninitialised"
  by (simp add: vec_dup_def copy_cells_def)

text \<open>
  The interface a client of the vector relies on: a finite sequence that can be extended at
  its end and traversed.
\<close>

locale push_sequence =
  fixes empty :: "'v"
    and push :: "'v \<Rightarrow> 'a \<Rightarrow> 'v outcome"
    and elems :: "'v \<Rightarrow> 'a list"
    and wf :: "'v \<Rightarrow> bool"
    and room :: "nat \<Rightarrow> bool"
  assumes wf_empty: "wf empty"
    and elems_empty: "elems empty = []"
    and push_ok: "wf v \<Longrightarrow> room (length (elems v)) \<Longrightarrow>
        \<exists>v'. push v x = Ret v' \<and> wf v' \<and> elems v' = elems v @ [x]"
    and room_mono: "m \<le> n \<Longrightarrow> room n \<Longrightarrow> room m"
begin

primrec push_all :: "'v \<Rightarrow> 'a list \<Rightarrow> 'v outcome" where
  "push_all v [] = Ret v"
| "push_all v (x # xs) = obind (push v x) (\<lambda>v'. push_all v' xs)"

lemma push_all_elems:
  "wf v \<Longrightarrow> room (length (elems v) + length xs) \<Longrightarrow>
     \<exists>v'. push_all v xs = Ret v' \<and> wf v' \<and> elems v' = elems v @ xs"
proof (induction xs arbitrary: v)
  case (Cons x xs)
  then have "room (length (elems v))"
    using room_mono[of "length (elems v)" "length (elems v) + length (x # xs)"] by simp
  with Cons.prems obtain v' where v': "push v x = Ret v'" "wf v'" "elems v' = elems v @ [x]"
    using push_ok by blast
  with Cons.prems obtain v'' where "push_all v' xs = Ret v''" "wf v''" "elems v'' = elems v' @ xs"
    using Cons.IH[of v'] by auto
  with v' show ?case by simp
qed simp

end

definition vec_push :: "'a vector \<Rightarrow> 'a \<Rightarrow> 'a vector outcome" where
  "vec_push v p = obind (vec_push_back (Some v) p)
     (\<lambda>vo. case vo of Some v' \<Rightarrow> Ret v' | None \<Rightarrow> UB NullDeref)"

definition vec_fresh :: "'a vector" where
  "vec_fresh = the (vec_init (Some \<lparr>vsize = 0, vcap = 0, vdata = Indeterminate\<rparr>))"

interpretation vec: push_sequence vec_fresh vec_push "\<lambda>v. map the (vec_list v)" vec_wf "\<lambda>n. n < 2 ^ 31"
proof
  fix v :: "'a vector" and x
  assume wf: "vec_wf v" and "length (map the (vec_list v)) < 2 ^ 31"
  then have "vec_room v"
    by (auto simp: vec_wf_def vec_list_def vec_room_def word_le_nat_alt word_less_nat_alt min_def
        split: if_splits)
  then show "\<exists>v'. vec_push v x = Ret v' \<and> vec_wf v' \<and>
      map the (vec_list v') = map the (vec_list v) @ [x]"
    using vec_push_back_room[OF wf, of x] by (metis (no_types, lifting) list.map map_append
        obind.simps(1) option.case(2) option.sel vec_push_def)
qed (auto simp: vec_fresh_def vec_wf_init vec_list_init)

lemma vec_for_each_reads_past_end:
  assumes "vec_wf v"
  shows "vec_for_each (Some v) = (if vsize v = 0 then Ret [] else if vsize v < vcap v then Ret (vec_list v) else UB OutOfBounds)"
proof -
  obtain cells where c: "vdata v = Block cells" "vec_cells v = cells" "length cells = unat (vcap v)" "0 < unat (vcap v)"
      "unat (vsize v) \<le> unat (vcap v)"
    using assms by (auto simp: vec_wf_def word_le_nat_alt word_less_nat_alt)
  have load: "load_cell (vdata v) 0 = Ret (cells ! 0)" using c by (simp add: load_cell_def)
  consider "unat (vsize v) = 0" | "0 < unat (vsize v)" "unat (vsize v) < unat (vcap v)"
    | "0 < unat (vsize v)" "unat (vsize v) = unat (vcap v)"
    using c(5) by linarith
  then show ?thesis
  proof cases
    case 2
    then show ?thesis using c load vec_for_each_from_ok[of 0 "unat (vsize v)" cells "cells ! 0"]
      by (simp add: vec_for_each_def vec_list_def word_less_nat_alt)
  next
    case 3
    then have "vsize v = vcap v" by (simp add: unsigned_word_eqI)
    moreover have "vcap v \<noteq> 0" using c(4) by (metis unat_0 less_irrefl)
    ultimately have "vsize v = vcap v" "vcap v \<noteq> 0" by simp_all
    with 3 show ?thesis using c load vec_for_each_from_oob[of 0 cells "unat (vsize v)" "cells ! 0"]
      by (simp add: vec_for_each_def word_less_nat_alt) 
  next
    case 1
    then have "vsize v = 0" by (simp add: unat_eq_zero)
    then show ?thesis by (simp add: vec_for_each_def load)
  qed
qed

end
