(* ===== verification/Statements.thy ===== *)
theory Statements
  imports MagiskRules Vector
begin

text \<open>
  The command line of the policy patcher (\<^verbatim>\<open>src/jni/magiskpolicy/magiskpolicy.c\<close>): the
  tokenizer \<open>strtok_r\<close>, the five statement patterns, the dispatch of a statement and the main
  function. Error messages on stderr are not represented. The vectors the patterns collect
  their operands in are lists here; theory \<open>Vector\<close> shows that pushing onto a vector appends.
\<close>

section \<open>Definitions\<close>

subsection \<open>Tokens\<close>

text \<open>One call of \<open>strtok_r\<close>: the token and what is left of the string.\<close>

definition strtok_r :: "char list \<Rightarrow> string \<Rightarrow> (string \<times> string) option" where
  "strtok_r delim s =
     (let s' = dropWhile (\<lambda>c. c \<in> set delim) s in
      if s' = [] then None
      else Some (takeWhile (\<lambda>c. c \<notin> set delim) s', drop 1 (dropWhile (\<lambda>c. c \<notin> set delim) s')))"

lemma strtok_r_shorter: "strtok_r delim s = Some (tok, rest) \<Longrightarrow> length rest < length s"
proof -
  assume a: "strtok_r delim s = Some (tok, rest)"
  let ?s' = "dropWhile (\<lambda>c. c \<in> set delim) s"
  from a have "?s' \<noteq> []" and rest: "rest = drop 1 (dropWhile (\<lambda>c. c \<notin> set delim) ?s')"
    by (auto simp: strtok_r_def Let_def split: if_splits)
  then obtain c cs where s': "?s' = c # cs" by (cases ?s') auto
  moreover have "c \<notin> set delim" using s' by (auto simp: dropWhile_eq_Cons_conv)
  ultimately have "length rest \<le> length cs"
    using length_dropWhile_le[of "\<lambda>c. c \<notin> set delim" cs] rest by simp
  moreover have "length ?s' \<le> length s" by (rule length_dropWhile_le)
  ultimately show ?thesis using s' by simp
qed

text \<open>The tokens a loop over \<open>strtok_r\<close> sees.\<close>

function tokens :: "char list \<Rightarrow> string \<Rightarrow> string list" where
  "tokens delim s = (case strtok_r delim s of None \<Rightarrow> [] | Some (tok, rest) \<Rightarrow> tok # tokens delim rest)"
  by auto
termination
  by (relation "measure (\<lambda>(_, s). length s)") (auto dest: strtok_r_shorter)

declare tokens.simps [simp del]

subsection \<open>Collecting operands\<close>

text \<open>
  The loop that patterns 1, 2 and 5 share. \<open>shut\<close> are the states in which brackets are
  refused, \<open>slots\<close> the operands collected so far, one list per state. \<open>None\<close> is \<open>return 1\<close>.
\<close>

definition starts_with :: "char \<Rightarrow> string \<Rightarrow> bool" where
  "starts_with c tok = (case tok of [] \<Rightarrow> False | x # _ \<Rightarrow> x = c)"

definition operand :: "string \<Rightarrow> string option" where
  "operand tok = (if starts_with (CHR ''*'') tok then SEPOL_ALL else Some tok)"

function collect ::
  "nat list \<Rightarrow> string list \<Rightarrow> nat \<Rightarrow> bool \<Rightarrow> string option list list \<Rightarrow> (nat \<times> string option list list) option" where
  "collect shut [] state inb slots = Some (state, slots)"
| "collect shut (tok # rest) state inb slots =
     (if starts_with (CHR ''{'') tok then
        if inb \<or> state \<in> set shut then None
        else if length tok > 1 then collect shut (tl tok # rest) state True slots
        else collect shut rest state True slots
      else if tok \<noteq> [] \<and> last tok = CHR ''}'' then
        if \<not> inb \<or> state \<in> set shut then None
        else if length tok > 1 then collect shut (butlast tok # rest) state False slots
        else collect shut rest (state + 1) False slots
      else if state \<ge> length slots then None
      else collect shut rest (if inb then state else state + 1) inb
             (slots[state := slots ! state @ [operand tok]]))"
  by pat_completeness auto
termination
  by (relation "measure (\<lambda>(_, toks, _). sum_list (map length toks) + length toks)")
     (auto simp: starts_with_def split: list.splits)

text \<open>Operands of the patterns; \<open>None\<close> is a syntax error.\<close>

definition operands_1 :: "string \<Rightarrow> (string option list \<times> string option list \<times> string option \<times> string option list) option" where
  "operands_1 stmt =
     (case collect [2] (tokens '' '' stmt) 0 False (replicate 4 []) of
        Some (state, slots) \<Rightarrow>
          if state \<noteq> 4 then None else Some (slots ! 0, slots ! 1, last (slots ! 2), slots ! 3)
      | None \<Rightarrow> None)"

definition operands_2 :: "string \<Rightarrow> (string option list \<times> string option list) option" where
  "operands_2 stmt =
     (case collect [] (tokens '' '' stmt) 0 False (replicate 2 []) of
        Some (state, slots) \<Rightarrow> if state \<noteq> 2 then None else Some (slots ! 0, slots ! 1)
      | None \<Rightarrow> None)"

definition operands_3 :: "string \<Rightarrow> string option list" where
  "operands_3 stmt = map operand (tokens '' {}'' stmt)"

definition operands_4 :: "string \<Rightarrow> (string \<times> string \<times> string \<times> string \<times> string option) option" where
  "operands_4 stmt =
     (case tokens '' '' stmt of
        [s, t, c, d] \<Rightarrow> Some (s, t, c, d, None)
      | [s, t, c, d, f] \<Rightarrow> Some (s, t, c, d, Some f)
      | _ \<Rightarrow> None)"

definition operands_5 ::
  "string \<Rightarrow> (string option list \<times> string option list \<times> string option list \<times> string option) option" where
  "operands_5 stmt =
     (case collect [3, 4] (tokens '' '' stmt) 0 False (replicate 5 []) of
        Some (state, slots) \<Rightarrow>
          if state \<noteq> 5 then None else Some (slots ! 0, slots ! 1, slots ! 2, last (slots ! 4))
      | None \<Rightarrow> None)"

subsection \<open>Performing a statement\<close>

text \<open>The nested loops over the operands. The result of an action is only reported on stderr.\<close>

fun perform :: "('x \<Rightarrow> policydb \<Rightarrow> (int \<times> policydb) outcome) \<Rightarrow> 'x list \<Rightarrow> policydb \<Rightarrow> policydb outcome" where
  "perform f [] p = Ret p"
| "perform f (x # xs) p = obind (f x p) (\<lambda>(_, p). perform f xs p)"

definition triples :: "'a list \<Rightarrow> 'b list \<Rightarrow> 'c list \<Rightarrow> ('a \<times> 'b \<times> 'c) list" where
  "triples xs ys zs = concat (map (\<lambda>x. concat (map (\<lambda>y. map (\<lambda>z. (x, y, z)) zs) ys)) xs)"

definition parse_pattern_1 :: "bool \<Rightarrow> bool \<Rightarrow> nat \<Rightarrow> string \<Rightarrow> policydb \<Rightarrow> (int \<times> policydb) outcome" where
  "parse_pattern_1 cok mok action stmt p =
     (case operands_1 stmt of None \<Rightarrow> Ret (1, p)
      | Some (ss, ts, c, ps) \<Rightarrow>
          let xs = triples ss ts ps;
              f = (if action = 0 then Some (sepol_allow cok mok) else if action = 1 then Some (sepol_deny cok mok)
                   else if action = 2 then Some (sepol_auditallow cok mok)
                   else if action = 3 then Some (sepol_auditdeny cok mok) else None)
          in case f of
               None \<Rightarrow> Ret (if xs = [] then 0 else 1, p)
             | Some f \<Rightarrow> obind (perform (\<lambda>(s, t, perm) p. f p s t c perm) xs p) (\<lambda>p. Ret (0, p)))"

text \<open>A name argument that is NULL is dereferenced by the hash function.\<close>

definition attradd_arg :: "bool \<Rightarrow> string option \<times> string option \<Rightarrow> policydb \<Rightarrow> (int \<times> policydb) outcome" where
  "attradd_arg mok x p =
     (case x of
        (None, _) \<Rightarrow> UB NullDeref
      | (Some s, Some a) \<Rightarrow> sepol_attradd mok p s a
      | (Some s, None) \<Rightarrow> if lookup_type p s = None then Ret (1, p) else UB NullDeref)"

definition parse_pattern_2 :: "bool \<Rightarrow> nat \<Rightarrow> string \<Rightarrow> policydb \<Rightarrow> (int \<times> policydb) outcome" where
  "parse_pattern_2 mok action stmt p =
     (case operands_2 stmt of None \<Rightarrow> Ret (1, p)
      | Some (cs, attrs) \<Rightarrow>
          let xs = concat (map (\<lambda>c. map (Pair c) attrs) cs) in
          if action = 0 then obind (perform (attradd_arg mok) xs p) (\<lambda>p. Ret (0, p))
          else Ret (if xs = [] then 0 else 1, p))"

definition parse_pattern_3 :: "bool \<Rightarrow> bool \<Rightarrow> nat \<Rightarrow> string \<Rightarrow> policydb \<Rightarrow> (int \<times> policydb) outcome" where
  "parse_pattern_3 cok mok action stmt p =
     (let f = (\<lambda>x p. if action = 0 then (case x of None \<Rightarrow> UB NullDeref | Some s \<Rightarrow> sepol_create cok mok p s)
                     else if action = 1 then sepol_permissive mok p x
                     else if action = 2 then sepol_enforce mok p x else UB Uninitialised)
      in obind (perform f (operands_3 stmt) p) (\<lambda>p. Ret (0, p)))"

definition parse_pattern_4 :: "bool \<Rightarrow> bool \<Rightarrow> u32 \<Rightarrow> string \<Rightarrow> policydb \<Rightarrow> (int \<times> policydb) outcome" where
  "parse_pattern_4 cok mok ptr stmt p =
     (case operands_4 stmt of None \<Rightarrow> Ret (1, p)
      | Some (s, t, c, d, f) \<Rightarrow> obind (sepol_typetrans cok mok p s t c d f ptr) (\<lambda>(_, p). Ret (0, p)))"

definition parse_pattern_5 :: "bool \<Rightarrow> bool \<Rightarrow> nat \<Rightarrow> string \<Rightarrow> policydb \<Rightarrow> (int \<times> policydb) outcome" where
  "parse_pattern_5 cok mok action stmt p =
     (case operands_5 stmt of None \<Rightarrow> Ret (1, p)
      | Some (ss, ts, cs, rng) \<Rightarrow>
          let xs = triples ss ts cs;
              f = (if action = 0 then Some (sepol_allowxperm cok mok) else if action = 1 then Some (sepol_auditallowxperm cok mok)
                   else if action = 2 then Some (sepol_dontauditxperm cok mok) else None)
          in case f of
               None \<Rightarrow> Ret (if xs = [] then 0 else 1, p)
             | Some f \<Rightarrow> obind (perform (\<lambda>(s, t, c) p. f p s t c rng) xs p) (\<lambda>p. Ret (0, p)))"

subsection \<open>Dispatch\<close>

text \<open>
  A rule is split in place: \<open>strtok_r\<close> overwrites the blank after the first word with NUL, and
  the statement is what stands one position after as many characters as the word has, counted
  from the start of the rule. The buffer is the rule and its terminating NUL.
\<close>

definition split_rule :: "string \<Rightarrow> (string \<times> string) outcome" where
  "split_rule rule =
     (case strtok_r '' '' rule of None \<Rightarrow> UB NullDeref
      | Some (tok, _) \<Rightarrow>
          let lead = length rule - length (dropWhile (\<lambda>c. c = CHR '' '') rule);
              buf = (rule @ [NUL])[lead + length tok := NUL];
              off = length tok + 1
          in if off < length buf then Ret (tok, cstr_of (drop off buf)) else UB OutOfBounds)"

text \<open>One iteration of the loop over the rules: was there a syntax error, and the database.\<close>

definition apply_rule :: "bool \<Rightarrow> bool \<Rightarrow> u32 \<Rightarrow> string \<Rightarrow> policydb \<Rightarrow> (bool \<times> policydb) outcome" where
  "apply_rule cok mok ptr rule p =
     (case strtok_r '' '' rule of None \<Rightarrow> UB NullDeref
      | Some (tok, _) \<Rightarrow>
          let run = (\<lambda>f. obind (split_rule rule) (\<lambda>(_, stmt). obind (f stmt p) (\<lambda>(rc, p). Ret (rc \<noteq> 0, p)))) in
          if tok = ''allow'' then run (parse_pattern_1 cok mok 0)
          else if tok = ''deny'' then run (parse_pattern_1 cok mok 1)
          else if tok = ''auditallow'' then run (parse_pattern_1 cok mok 2)
          else if tok = ''auditdeny'' then run (parse_pattern_1 cok mok 3)
          else if tok = ''attradd'' then run (parse_pattern_2 mok 0)
          else if tok = ''create'' then run (parse_pattern_3 cok mok 0)
          else if tok = ''permissive'' then run (parse_pattern_3 cok mok 1)
          else if tok = ''enforce'' then run (parse_pattern_3 cok mok 2)
          else if tok = ''typetrans'' then run (parse_pattern_4 cok mok ptr)
          else if tok = ''allowxperm'' then run (parse_pattern_5 cok mok 0)
          else if tok = ''auditallowxperm'' then run (parse_pattern_5 cok mok 1)
          else if tok = ''dontauditxperm'' then run (parse_pattern_5 cok mok 2)
          else Ret (True, p))"

fun apply_rules :: "bool \<Rightarrow> bool \<Rightarrow> u32 \<Rightarrow> string list \<Rightarrow> bool \<Rightarrow> policydb \<Rightarrow> (bool \<times> policydb) outcome" where
  "apply_rules cok mok ptr [] err p = Ret (err, p)"
| "apply_rules cok mok ptr (r # rs) err p =
     obind (apply_rule cok mok ptr r p) (\<lambda>(e, p). apply_rules cok mok ptr rs (err \<or> e) p)"

record options =
  live :: bool
  minimal :: bool
  infile :: "string option"
  outfile :: "string option"
  rules :: "string list"

text \<open>The loop over the arguments; \<open>None\<close> is a call of \<open>usage\<close>, which exits with 1.\<close>

definition is_option :: "string \<Rightarrow> bool" where
  "is_option arg \<longleftrightarrow> take 2 arg = ''--''"

fun parse_args :: "string list \<Rightarrow> options \<Rightarrow> options option" where
  "parse_args [] o' = Some o'"
| "parse_args (a # as) o' =
     (if is_option a then
        if a = ''--live'' then parse_args as (o'\<lparr>live := True\<rparr>)
        else if a = ''--minimal'' then parse_args as (o'\<lparr>minimal := True\<rparr>)
        else if a = ''--load'' then (case as of [] \<Rightarrow> None | b # bs \<Rightarrow> parse_args bs (o'\<lparr>infile := Some b\<rparr>))
        else if a = ''--save'' then (case as of [] \<Rightarrow> None | b # bs \<Rightarrow> parse_args bs (o'\<lparr>outfile := Some b\<rparr>))
        else None
      else parse_args as (o'\<lparr>rules := rules o' @ [a]\<rparr>))"

text \<open>
  \<open>load_policydb\<close> and \<open>dump_policydb\<close> over the outcomes of the system calls they make. The
  reader and the writer of the binary policy are parameters: \<open>read_image\<close> is \<open>None\<close> where
  \<open>policydb_init\<close> or \<open>policydb_read\<close> fails, \<open>to_image\<close> where \<open>policydb_to_image\<close> leaves no data. The type
  of policies is theirs.
\<close>

record load_env =
  open_ok :: bool
  fstat_ok :: bool
  mmap_ok :: bool
  contents :: "u8 list"

definition load_policydb :: "(u8 list \<Rightarrow> 'p option) \<Rightarrow> (string \<Rightarrow> load_env) \<Rightarrow> string \<Rightarrow> int \<times> 'p option" where
  "load_policydb read_image env filename =
     (let e = env filename in
      if \<not> open_ok e then (1, None)
      else if \<not> fstat_ok e then (1, None)
      else if \<not> mmap_ok e then (1, None)
      else case read_image (contents e) of None \<Rightarrow> (1, None) | Some p \<Rightarrow> (0, Some p))"

text \<open>\<open>write\<close> stores a prefix, over the old contents (there is no \<open>O_TRUNC\<close>); \<open>None\<close> is an error.\<close>

definition dump_policydb ::
  "('p \<Rightarrow> u8 list option) \<Rightarrow> bool \<Rightarrow> (nat \<Rightarrow> nat option) \<Rightarrow> u8 list \<Rightarrow> 'p \<Rightarrow> int \<times> u8 list" where
  "dump_policydb to_image can_open write_len old p =
     (case to_image p of None \<Rightarrow> (1, old)
      | Some img \<Rightarrow>
          if \<not> can_open then (1, old)
          else (case write_len (length img) of None \<Rightarrow> (1, old)
                | Some n \<Rightarrow> (0, take n img @ drop (length (take n img)) old)))"

definition SELINUX_POLICY :: string where "SELINUX_POLICY = ''/sys/fs/selinux/policy''"
definition SELINUX_LOAD :: string where "SELINUX_LOAD = ''/sys/fs/selinux/load''"

text \<open>
  \<open>magiskpolicy_main\<close> on \<open>argv[1..]\<close>: the return value and, where a policy was dumped, to
  which file. \<open>dump\<close> is the return value of \<open>dump_policydb\<close>.
\<close>

definition magiskpolicy_main ::
  "bool \<Rightarrow> bool \<Rightarrow> u32 \<Rightarrow> (string \<Rightarrow> int \<times> policydb option) \<Rightarrow> (string \<Rightarrow> policydb \<Rightarrow> int) \<Rightarrow> string list \<Rightarrow>
     (int \<times> (string \<times> policydb) option) outcome" where
  "magiskpolicy_main cok mok ptr load dump args =
     (if args = [] then Exit 1
      else case parse_args args \<lparr>live = False, minimal = False, infile = None, outfile = None, rules = []\<rparr> of
        None \<Rightarrow> Exit 1
      | Some opts \<Rightarrow>
          (case load (case infile opts of None \<Rightarrow> SELINUX_POLICY | Some f \<Rightarrow> f) of
             (_, None) \<Rightarrow> Ret (1, None)
           | (rc, Some p) \<Rightarrow>
               if rc \<noteq> 0 then Ret (1, None)
               else
                 obind (if minimal opts then sepol_min_rules cok mok p else Ret p) (\<lambda>p.
                 obind (apply_rules cok mok ptr (rules opts) False p) (\<lambda>(_, p).
                   case (if live opts then Some SELINUX_LOAD else outfile opts) of
                     None \<Rightarrow> Ret (0, None)
                   | Some f \<Rightarrow> if dump f p \<noteq> 0 then Ret (1, None) else Ret (0, Some (f, p))))))"

section \<open>Printing and reading statements\<close>

definition word_ok :: "string \<Rightarrow> bool" where
  "word_ok w \<longleftrightarrow> w \<noteq> [] \<and> CHR '' '' \<notin> set w"

fun unwords :: "string list \<Rightarrow> string" where
  "unwords [] = []"
| "unwords [w] = w"
| "unwords (w # ws) = w @ CHR '' '' # unwords ws"

lemma strtok_word:
  assumes "word_ok w"
  shows "strtok_r '' '' w = Some (w, [])" and "strtok_r '' '' (w @ CHR '' '' # rest) = Some (w, rest)"
proof -
  have lead: "dropWhile (\<lambda>c. c = CHR '' '') (w @ r) = w @ r" for r
    using assms by (cases w) (auto simp: word_ok_def)
  have all: "\<forall>c \<in> set w. c \<noteq> CHR '' ''" and ne: "w \<noteq> []" using assms unfolding word_ok_def by blast+
  then have w: "takeWhile (\<lambda>c. c \<noteq> CHR '' '') w = w" "dropWhile (\<lambda>c. c \<noteq> CHR '' '') w = []"
    by (simp_all add: takeWhile_eq_all_conv dropWhile_eq_Nil_conv)
  show "strtok_r '' '' w = Some (w, [])"
    using lead[of "[]"] ne unfolding strtok_r_def by (simp add: w)
  show "strtok_r '' '' (w @ CHR '' '' # rest) = Some (w, rest)"
    using lead[of "CHR '' '' # rest"] all ne
    by (simp add: strtok_r_def takeWhile_append2[where P = "\<lambda>c. c \<noteq> CHR '' ''"] dropWhile_append2[where P = "\<lambda>c. c \<noteq> CHR '' ''"])
qed

lemma tokens_unwords: "list_all word_ok ws \<Longrightarrow> tokens '' '' (unwords ws) = ws"
proof (induction ws rule: unwords.induct)
  case 1
  show ?case by (simp add: tokens.simps strtok_r_def)
next
  case (2 w)
  have "tokens '' '' [] = []" by (simp add: tokens.simps strtok_r_def)
  with 2 show ?case by (subst tokens.simps) (simp add: strtok_word)
next
  case (3 w v vs)
  then show ?case by (subst tokens.simps) (simp add: strtok_word)
qed

text \<open>A name that can stand for itself: no blank, no bracket at its ends, no leading star.\<close>

definition name_ok :: "string \<Rightarrow> bool" where
  "name_ok w \<longleftrightarrow> word_ok w \<and> hd w \<noteq> CHR ''{'' \<and> hd w \<noteq> CHR ''*'' \<and> last w \<noteq> CHR ''}''"

lemma name_ok_simps:
  assumes "name_ok w"
  shows "\<not> starts_with (CHR ''{'') w" "\<not> (w \<noteq> [] \<and> last w = CHR ''}'')" "operand w = Some w" "word_ok w"
  using assms by (cases w; auto simp: name_ok_def word_ok_def starts_with_def operand_def)+

definition brackets :: "string list \<Rightarrow> string list" where
  "brackets ws = ''{'' # ws @ [''}'']"

lemma collect_in_bracket:
  assumes "list_all name_ok ws" and "state < length slots" and "state \<notin> set shut"
  shows "collect shut (ws @ ''}'' # rest) state True slots =
    collect shut rest (state + 1) False (slots[state := slots ! state @ map Some ws])"
  using assms
proof (induction ws arbitrary: slots)
  case Nil
  then show ?case by (simp add: starts_with_def)
next
  case (Cons w ws)
  then have "name_ok w" by simp
  then show ?case
    using Cons.prems Cons.IH[of "slots[state := slots ! state @ [Some w]]"] by (simp add: name_ok_simps)
qed

lemma collect_brackets:
  assumes "list_all name_ok ws" and "state < length slots" and "state \<notin> set shut"
  shows "collect shut (brackets ws @ rest) state False slots =
    collect shut rest (state + 1) False (slots[state := slots ! state @ map Some ws])"
  using collect_in_bracket[OF assms] assms(3) by (simp add: brackets_def starts_with_def)

lemma collect_name:
  assumes "name_ok w" and "state < length slots"
  shows "collect shut (w # rest) state False slots =
    collect shut rest (state + 1) False (slots[state := slots ! state @ [Some w]])"
  using assms by (simp add: name_ok_simps)

text \<open>The statement an access vector rule is written as.\<close>

definition print_1 :: "string list \<Rightarrow> string list \<Rightarrow> string \<Rightarrow> string list \<Rightarrow> string" where
  "print_1 ss ts c ps = unwords (brackets ss @ brackets ts @ [c] @ brackets ps)"

lemma brackets_words: "list_all name_ok ws \<Longrightarrow> list_all word_ok (brackets ws)"
  by (auto simp: brackets_def word_ok_def list_all_iff name_ok_def)

lemma operands_1_print:
  assumes "list_all name_ok ss" and "list_all name_ok ts" and "name_ok c" and "list_all name_ok ps"
  shows "operands_1 (print_1 ss ts c ps) = Some (map Some ss, map Some ts, Some c, map Some ps)"
proof -
  have "tokens '' '' (print_1 ss ts c ps) = brackets ss @ brackets ts @ c # brackets ps"
    unfolding print_1_def using assms by (subst tokens_unwords) (simp_all add: brackets_words name_ok_simps)
  moreover have "collect [2] (brackets ss @ brackets ts @ c # brackets ps) 0 False (replicate 4 []) =
      Some (4, [map Some ss, map Some ts, [Some c], map Some ps])"
    using collect_brackets[OF assms(4), of 3 _ "[2]" "[]"]
    by (simp add: collect_brackets collect_name assms numeral_eq_Suc del: collect.simps(2))
  ultimately show ?thesis by (simp add: operands_1_def)
qed

text \<open>The dispatch of a rule that starts with its action.\<close>

lemma split_rule_word:
  assumes "word_ok act" and "cstr rest"
  shows "split_rule (act @ CHR '' '' # rest) = Ret (act, rest)"
proof -
  have lead: "dropWhile (\<lambda>c. c = CHR '' '') (act @ CHR '' '' # rest) = act @ CHR '' '' # rest"
    using assms(1) by (cases act) (auto simp: word_ok_def)
  have "cstr_of (rest @ [NUL]) = rest"
    using assms(2) by (auto simp: cstr_of_def cstr_def takeWhile_append)
  then show ?thesis
    using lead by (simp add: split_rule_def strtok_word[OF assms(1)] Let_def list_update_append)
qed

section \<open>What an allow statement does\<close>

lemma names_te [simp]: "names_ok (p\<lparr>te_avtab := te\<rparr>) = names_ok p" "named_rules (p\<lparr>te_avtab := te\<rparr>) = named_rules p"
  by (simp_all add: names_ok_def[abs_def] named_rules_def[abs_def] Let_def)

lemma allow_grants:
  assumes ready: "policy_ready p" and names: "names_ok p s t c" and v: "perm_value p c perm = Some v" "0 < v"
  obtains te where "sepol_allow True True p s t c perm = Ret (0, p\<lparr>te_avtab := te\<rparr>)" and "policy_ready (p\<lparr>te_avtab := te\<rparr>)"
    and "\<And>r. r \<in> named_rules p s t c AVTAB_ALLOWED \<Longrightarrow> te_permits (p\<lparr>te_avtab := te\<rparr>) r (nat (v - 1))"
    and "\<And>r n. te_permits p r n \<Longrightarrow> te_permits (p\<lparr>te_avtab := te\<rparr>) r n"
proof -
  have b: "v \<noteq> 0" "v \<le> 32" using ready v(1) unfolding policy_ready_def perms_ok_def by blast+
  from ready have p: "avtab_wf (te_avtab p)" "table (p_types p) \<noteq> None" "table (p_classes p) \<noteq> None"
    by (simp_all add: policy_ready_def)
  obtain te where te: "add_rule True True p s t c perm AVTAB_ALLOWED False = Ret (0, p\<lparr>te_avtab := te\<rparr>)" "avtab_wf te"
    "avtab_abs te = grant (named_rules p s t c AVTAB_ALLOWED) (set_av v False) (avtab_abs (te_avtab p))"
    using add_rule_correct[OF p names _ v(1) b, of AVTAB_ALLOWED False] by (auto simp: av_effects_def)
  have n: "nat (v - 1) < 32" "int (nat (v - 1)) = v - 1" using v(2) b(2) by auto
  show ?thesis
  proof (rule that[of te])
    show "te_permits (p\<lparr>te_avtab := te\<rparr>) r (nat (v - 1))" if "r \<in> named_rules p s t c AVTAB_ALLOWED" for r
      using that n v(2) b(2) by (simp add: te_permits_def te(3) grant_def bit_edit_av)
    show "te_permits (p\<lparr>te_avtab := te\<rparr>) r n" if "te_permits p r n" for r n
      using that b(1) by (auto simp: te_permits_def te(3) grant_def edit_av_mono split: option.splits if_splits)
  qed (use te ready policy_ready_te in \<open>auto simp: sepol_allow_def\<close>)
qed

lemma perform_allow:
  assumes "policy_ready p" and "\<forall>(s, t, perm) \<in> set xs. names_ok p s t c \<and> (\<exists>v > 0. perm_value p c perm = Some v)"
  obtains te where "perform (\<lambda>(s, t, perm) p. sepol_allow True True p s t c perm) xs p = Ret (p\<lparr>te_avtab := te\<rparr>)"
    and "policy_ready (p\<lparr>te_avtab := te\<rparr>)" and "\<And>r n. te_permits p r n \<Longrightarrow> te_permits (p\<lparr>te_avtab := te\<rparr>) r n"
    and "\<And>s t perm v r. (s, t, perm) \<in> set xs \<Longrightarrow> perm_value p c perm = Some v \<Longrightarrow>
      r \<in> named_rules p s t c AVTAB_ALLOWED \<Longrightarrow> te_permits (p\<lparr>te_avtab := te\<rparr>) r (nat (v - 1))"
  using assms
proof (induction xs arbitrary: p thesis)
  case Nil
  show ?case by (rule Nil(1)[of "te_avtab p"]) (use Nil(2) in simp_all)
next
  case (Cons x xs)
  obtain s t perm where x: "x = (s, t, perm)" by (metis prod_cases3)
  with Cons.prems(3) obtain v where v: "names_ok p s t c" "perm_value p c perm = Some v" "0 < v" by auto
  let ?f = "\<lambda>(s, t, perm) p. sepol_allow True True p s t c perm"
  obtain te where te: "sepol_allow True True p s t c perm = Ret (0, p\<lparr>te_avtab := te\<rparr>)" "policy_ready (p\<lparr>te_avtab := te\<rparr>)"
    "\<And>r. r \<in> named_rules p s t c AVTAB_ALLOWED \<Longrightarrow> te_permits (p\<lparr>te_avtab := te\<rparr>) r (nat (v - 1))"
    "\<And>r n. te_permits p r n \<Longrightarrow> te_permits (p\<lparr>te_avtab := te\<rparr>) r n"
    using allow_grants[OF Cons.prems(2) v] by blast
  show ?case
  proof (rule Cons.IH[OF _ te(2)])
    fix te'
    assume IH: "perform ?f xs (p\<lparr>te_avtab := te\<rparr>) = Ret (p\<lparr>te_avtab := te\<rparr>\<lparr>te_avtab := te'\<rparr>)"
      "policy_ready (p\<lparr>te_avtab := te\<rparr>\<lparr>te_avtab := te'\<rparr>)"
      "\<And>r n. te_permits (p\<lparr>te_avtab := te\<rparr>) r n \<Longrightarrow> te_permits (p\<lparr>te_avtab := te\<rparr>\<lparr>te_avtab := te'\<rparr>) r n"
      "\<And>s t perm v r. (s, t, perm) \<in> set xs \<Longrightarrow> perm_value (p\<lparr>te_avtab := te\<rparr>) c perm = Some v \<Longrightarrow>
        r \<in> named_rules (p\<lparr>te_avtab := te\<rparr>) s t c AVTAB_ALLOWED \<Longrightarrow>
        te_permits (p\<lparr>te_avtab := te\<rparr>\<lparr>te_avtab := te'\<rparr>) r (nat (v - 1))"
    show thesis
    proof (rule Cons.prems(1)[of te'])
      show "te_permits (p\<lparr>te_avtab := te'\<rparr>) r (nat (w - 1))"
        if "(s', t', perm') \<in> set (x # xs)" "perm_value p c perm' = Some w" "r \<in> named_rules p s' t' c AVTAB_ALLOWED" for s' t' perm' w r
        using that IH(3)[OF te(3)[of r]] IH(4)[of s' t' perm' w r] x v(2) by auto
    qed (use IH te x in simp_all)
  qed (use Cons.prems(3) in auto)
qed

lemma set_triples: "set (triples xs ys zs) = set xs \<times> set ys \<times> set zs"
  by (auto simp: triples_def)

lemma allow_statement:
  assumes ready: "policy_ready p" and ok: "list_all name_ok ss" "list_all name_ok ts" "name_ok c" "list_all name_ok ps"
    "cstr (print_1 ss ts c ps)"
    and known: "\<forall>s \<in> set ss. \<forall>t \<in> set ts. names_ok p (Some s) (Some t) (Some c)"
      "\<forall>x \<in> set ps. \<exists>v > 0. perm_value p (Some c) (Some x) = Some v"
  obtains te where "apply_rule True True ptr (''allow '' @ print_1 ss ts c ps) p = Ret (False, p\<lparr>te_avtab := te\<rparr>)"
    and "policy_ready (p\<lparr>te_avtab := te\<rparr>)" and "\<And>r n. te_permits p r n \<Longrightarrow> te_permits (p\<lparr>te_avtab := te\<rparr>) r n"
    and "\<And>s t x v r. s \<in> set ss \<Longrightarrow> t \<in> set ts \<Longrightarrow> x \<in> set ps \<Longrightarrow> perm_value p (Some c) (Some x) = Some v \<Longrightarrow>
      r \<in> named_rules p (Some s) (Some t) (Some c) AVTAB_ALLOWED \<Longrightarrow> te_permits (p\<lparr>te_avtab := te\<rparr>) r (nat (v - 1))"
proof -
  let ?xs = "triples (map Some ss) (map Some ts) (map Some ps)"
  have w: "word_ok ''allow''" by (simp add: word_ok_def)
  have split: "split_rule (''allow '' @ print_1 ss ts c ps) = Ret (''allow'', print_1 ss ts c ps)"
    using split_rule_word[OF w ok(5)] by simp
  have tok: "strtok_r '' '' (''allow '' @ print_1 ss ts c ps) = Some (''allow'', print_1 ss ts c ps)"
    using strtok_word(2)[OF w] by simp
  have "\<forall>(s, t, perm) \<in> set ?xs. names_ok p s t (Some c) \<and> (\<exists>v > 0. perm_value p (Some c) perm = Some v)"
    using known by (auto simp: set_triples)
  then show ?thesis
  proof (rule perform_allow[OF ready])
    fix te
    assume te: "perform (\<lambda>(s, t, perm) p. sepol_allow True True p s t (Some c) perm) ?xs p = Ret (p\<lparr>te_avtab := te\<rparr>)"
      "policy_ready (p\<lparr>te_avtab := te\<rparr>)" "\<And>r n. te_permits p r n \<Longrightarrow> te_permits (p\<lparr>te_avtab := te\<rparr>) r n"
      "\<And>s t perm v r. (s, t, perm) \<in> set ?xs \<Longrightarrow> perm_value p (Some c) perm = Some v \<Longrightarrow>
        r \<in> named_rules p s t (Some c) AVTAB_ALLOWED \<Longrightarrow> te_permits (p\<lparr>te_avtab := te\<rparr>) r (nat (v - 1))"
    have run: "apply_rule True True ptr (''allow '' @ print_1 ss ts c ps) p = Ret (False, p\<lparr>te_avtab := te\<rparr>)"
      using tok split te(1) operands_1_print[OF ok(1-4)] by (simp add: apply_rule_def parse_pattern_1_def Let_def)
    have grants: "te_permits (p\<lparr>te_avtab := te\<rparr>) r (nat (v - 1))"
      if "s \<in> set ss" "t \<in> set ts" "x \<in> set ps" "perm_value p (Some c) (Some x) = Some v"
        "r \<in> named_rules p (Some s) (Some t) (Some c) AVTAB_ALLOWED" for s t x v r
      using te(4)[of "Some s" "Some t" "Some x" v r] that by (simp add: set_triples)
    show ?thesis by (rule that[OF run te(2)]) (fact te(3), rule grants)
  qed
qed

end
