(* ===== verification/Mls.thy ===== *)
theory Mls
  imports EbitmapAlgebra
begin

text \<open>
  Levels, ranges and security contexts (\<^verbatim>\<open>policydb/mls_types.h\<close>, \<^verbatim>\<open>policydb/context.h\<close>): a level is a sensitivity
  and a set of categories, a range two levels, a context a user, a role, a type and a range. Level
  \<open>a\<close> dominates \<open>b\<close> when its sensitivity is at least that of \<open>b\<close> and it has all categories of \<open>b\<close>.
\<close>

section \<open>Definitions\<close>

record mls_level =
  sens :: u32
  cat :: ebitmap

text \<open>\<^verbatim>\<open>level[0]\<close> is the low level, \<^verbatim>\<open>level[1]\<close> the high one.\<close>

record mls_range =
  level0 :: mls_level
  level1 :: mls_level

record context_struct =
  c_user :: u32
  c_role :: u32
  c_type :: u32
  c_range :: mls_range

definition mls_level_init :: mls_level where
  "mls_level_init = \<lparr>sens = 0, cat = ebitmap_init\<rparr>"

text \<open>Copies give a return code and the destination; a failing copy has set the sensitivity only.\<close>

definition mls_level_cpy :: "bool \<Rightarrow> mls_level \<Rightarrow> int \<times> mls_level" where
  "mls_level_cpy mok src =
     (case ebitmap_cpy mok (cat src) of (rc, c) \<Rightarrow> (if rc < 0 then -1 else 0, \<lparr>sens = sens src, cat = c\<rparr>))"

definition mls_level_eq :: "mls_level \<Rightarrow> mls_level \<Rightarrow> bool" where
  "mls_level_eq l1 l2 \<longleftrightarrow> sens l1 = sens l2 \<and> ebitmap_cmp (cat l1) (cat l2)"

definition mls_level_dom :: "mls_level \<Rightarrow> mls_level \<Rightarrow> bool" where
  "mls_level_dom l1 l2 \<longleftrightarrow> sens l1 \<ge> sens l2 \<and> ebitmap_contains (cat l1) (cat l2)"

definition mls_level_incomp :: "mls_level \<Rightarrow> mls_level \<Rightarrow> bool" where
  "mls_level_incomp l1 l2 \<longleftrightarrow> \<not> mls_level_dom l1 l2 \<and> \<not> mls_level_dom l2 l1"

definition mls_level_between :: "mls_level \<Rightarrow> mls_level \<Rightarrow> mls_level \<Rightarrow> bool" where
  "mls_level_between l1 l2 l3 \<longleftrightarrow> mls_level_dom l1 l2 \<and> mls_level_dom l3 l1"

definition mls_range_contains :: "mls_range \<Rightarrow> mls_range \<Rightarrow> bool" where
  "mls_range_contains r1 r2 \<longleftrightarrow> mls_level_dom (level0 r2) (level0 r1) \<and> mls_level_dom (level1 r1) (level1 r2)"

definition mls_range_init :: mls_range where
  "mls_range_init = \<lparr>level0 = mls_level_init, level1 = mls_level_init\<rparr>"

definition mls_range_cpy :: "bool \<Rightarrow> bool \<Rightarrow> mls_range \<Rightarrow> mls_range \<Rightarrow> int \<times> mls_range" where
  "mls_range_cpy mok0 mok1 dst src =
     (case mls_level_cpy mok0 (level0 src) of (rc, l0) \<Rightarrow>
      if rc < 0 then (-1, dst\<lparr>level0 := l0\<rparr>)
      else case mls_level_cpy mok1 (level1 src) of (rc, l1) \<Rightarrow>
        if rc < 0 then (-1, dst\<lparr>level0 := mls_level_init, level1 := l1\<rparr>)
        else (0, \<lparr>level0 = l0, level1 = l1\<rparr>))"

definition mls_range_eq :: "mls_range \<Rightarrow> mls_range \<Rightarrow> bool" where
  "mls_range_eq r1 r2 \<longleftrightarrow> mls_level_eq (level0 r1) (level0 r2) \<and> mls_level_eq (level1 r1) (level1 r2)"

definition context_cmp :: "context_struct \<Rightarrow> context_struct \<Rightarrow> bool" where
  "context_cmp c1 c2 \<longleftrightarrow> c_user c1 = c_user c2 \<and> c_role c1 = c_role c2 \<and> c_type c1 = c_type c2 \<and>
     mls_range_eq (c_range c1) (c_range c2)"

section \<open>Dominance as an interface\<close>

text \<open>
  What users of dominance rely on: on the levels in question it is reflexive and transitive, and levels
  that dominate each other are the equal ones.
\<close>

locale dominance =
  fixes level_ok :: "'l \<Rightarrow> bool" and dom_by :: "'l \<Rightarrow> 'l \<Rightarrow> bool" and same_level :: "'l \<Rightarrow> 'l \<Rightarrow> bool"
  assumes dom_refl: "level_ok a \<Longrightarrow> dom_by a a"
    and dom_trans: "level_ok a \<Longrightarrow> level_ok b \<Longrightarrow> level_ok c \<Longrightarrow> dom_by a b \<Longrightarrow> dom_by b c \<Longrightarrow> dom_by a c"
    and dom_both: "level_ok a \<Longrightarrow> level_ok b \<Longrightarrow> same_level a b \<longleftrightarrow> dom_by a b \<and> dom_by b a"
begin

lemma same_sym: "level_ok a \<Longrightarrow> level_ok b \<Longrightarrow> same_level a b \<longleftrightarrow> same_level b a"
  by (auto simp: dom_both)

lemma same_trans: "level_ok a \<Longrightarrow> level_ok b \<Longrightarrow> level_ok c \<Longrightarrow> same_level a b \<Longrightarrow> same_level b c \<Longrightarrow> same_level a c"
  by (meson dom_both dom_trans)

text \<open>A level between the bounds of a range is between the bounds of every range that contains it.\<close>

lemma between_contains:
  assumes "level_ok l" and "level_ok lo" and "level_ok hi" and "level_ok lo'" and "level_ok hi'"
    and "dom_by l lo" and "dom_by hi l" and "dom_by lo lo'" and "dom_by hi' hi"
  shows "dom_by l lo' \<and> dom_by hi' l"
  using assms by (meson dom_trans)

end

definition level_wf :: "mls_level \<Rightarrow> bool" where
  "level_wf l \<longleftrightarrow> ebitmap_wf (cat l)"

definition range_wf :: "mls_range \<Rightarrow> bool" where
  "range_wf r \<longleftrightarrow> level_wf (level0 r) \<and> level_wf (level1 r)"

lemma level_eq_iff: "level_wf a \<Longrightarrow> level_wf b \<Longrightarrow> mls_level_eq a b \<longleftrightarrow> sens a = sens b \<and> ebitmap_set (cat a) = ebitmap_set (cat b)"
  by (simp add: mls_level_eq_def level_wf_def cmp_iff)

lemma level_dom_iff: "level_wf a \<Longrightarrow> level_wf b \<Longrightarrow> mls_level_dom a b \<longleftrightarrow> sens b \<le> sens a \<and> ebitmap_set (cat b) \<subseteq> ebitmap_set (cat a)"
  by (simp add: mls_level_dom_def level_wf_def contains_iff)

interpretation mls: dominance level_wf mls_level_dom mls_level_eq
  by unfold_locales (auto simp: level_eq_iff level_dom_iff)

text \<open>Containment of ranges, in terms of the levels between their bounds.\<close>

lemma range_contains_iff:
  assumes "range_wf r1" and "range_wf r2" and "mls_level_dom (level1 r2) (level0 r2)"
  shows "mls_range_contains r1 r2 \<longleftrightarrow>
    (\<forall>l. level_wf l \<longrightarrow> mls_level_between l (level0 r2) (level1 r2) \<longrightarrow> mls_level_between l (level0 r1) (level1 r1))"
proof
  assume "mls_range_contains r1 r2"
  then show "\<forall>l. level_wf l \<longrightarrow> mls_level_between l (level0 r2) (level1 r2) \<longrightarrow> mls_level_between l (level0 r1) (level1 r1)"
    using assms mls.between_contains[of _ "level0 r2" "level1 r2" "level0 r1" "level1 r1"]
    by (simp add: mls_range_contains_def mls_level_between_def range_wf_def)
next
  assume all: "\<forall>l. level_wf l \<longrightarrow> mls_level_between l (level0 r2) (level1 r2) \<longrightarrow> mls_level_between l (level0 r1) (level1 r1)"
  have "level_wf (level0 r2)" "level_wf (level1 r2)" using assms(2) by (simp_all add: range_wf_def)
  then show "mls_range_contains r1 r2"
    using all[rule_format, of "level0 r2"] all[rule_format, of "level1 r2"] assms(3) mls.dom_refl
    by (simp add: mls_range_contains_def mls_level_between_def)
qed

lemma level_cpy_ok [simp]: "mls_level_cpy True src = (0, src)"
  by (cases src) (simp add: mls_level_cpy_def)

lemma range_cpy_ok [simp]: "mls_range_cpy True True dst src = (0, src)"
  by (cases src) (simp add: mls_range_cpy_def)

end
