(* ===== verification/Decisions.thy ===== *)
theory Decisions
  imports Services Mls
begin

text \<open>
  The whole access decision (\<open>context_struct_compute_av\<close>, \<open>constraint_expr_eval_reason\<close> and
  \<open>type_attribute_bounds_av\<close> of \<^verbatim>\<open>libsepol/src/services.c\<close>): what the type enforcement rules allow is cut
  down by the constraints of the class, by the allowed changes of role, and by what the bounding
  type may do. The text that explains a decision is left out, but not the accesses to the policy that
  are made for it, and not what happens to the list of its parts when an evaluation gives up. \<open>mok\<close> tells
  whether the allocations made for that text succeed, because the value of a constraint depends on it.
\<close>

section \<open>Definitions\<close>

subsection \<open>Constraints\<close>

abbreviation (input) CEXPR_NOT :: u32 where "CEXPR_NOT \<equiv> 1"
abbreviation (input) CEXPR_AND :: u32 where "CEXPR_AND \<equiv> 2"
abbreviation (input) CEXPR_OR :: u32 where "CEXPR_OR \<equiv> 3"
abbreviation (input) CEXPR_ATTR :: u32 where "CEXPR_ATTR \<equiv> 4"
abbreviation (input) CEXPR_USER :: u32 where "CEXPR_USER \<equiv> 1"
abbreviation (input) CEXPR_ROLE :: u32 where "CEXPR_ROLE \<equiv> 2"
abbreviation (input) CEXPR_TYPE :: u32 where "CEXPR_TYPE \<equiv> 4"
abbreviation (input) CEXPR_TARGET :: u32 where "CEXPR_TARGET \<equiv> 8"
abbreviation (input) CEXPR_XTARGET :: u32 where "CEXPR_XTARGET \<equiv> 16"
abbreviation (input) CEXPR_L1L2 :: u32 where "CEXPR_L1L2 \<equiv> 32"
abbreviation (input) CEXPR_L1H2 :: u32 where "CEXPR_L1H2 \<equiv> 64"
abbreviation (input) CEXPR_H1L2 :: u32 where "CEXPR_H1L2 \<equiv> 128"
abbreviation (input) CEXPR_H1H2 :: u32 where "CEXPR_H1H2 \<equiv> 256"
abbreviation (input) CEXPR_L1H1 :: u32 where "CEXPR_L1H1 \<equiv> 512"
abbreviation (input) CEXPR_L2H2 :: u32 where "CEXPR_L2H2 \<equiv> 1024"
abbreviation (input) CEXPR_EQ :: u32 where "CEXPR_EQ \<equiv> 1"
abbreviation (input) CEXPR_NEQ :: u32 where "CEXPR_NEQ \<equiv> 2"
abbreviation (input) CEXPR_DOM :: u32 where "CEXPR_DOM \<equiv> 3"
abbreviation (input) CEXPR_DOMBY :: u32 where "CEXPR_DOMBY \<equiv> 4"
abbreviation (input) CEXPR_INCOMP :: u32 where "CEXPR_INCOMP \<equiv> 5"
abbreviation (input) CEXPR_MAXDEPTH :: nat where "CEXPR_MAXDEPTH \<equiv> 5"

text \<open>\<^verbatim>\<open>policydb->role_val_to_struct[i]\<close>, NULL being \<open>None\<close>.\<close>

definition role_at :: "policydb \<Rightarrow> u32 \<Rightarrow> role_datum option outcome" where
  "role_at p i = obind (array_at (role_val_to_struct p) i)
     (\<lambda>ko. Ret (case ko of None \<Rightarrow> None | Some k \<Rightarrow> hashtab_search (table (p_roles p)) k))"

definition role_dominates :: "role_datum option \<Rightarrow> u32 \<Rightarrow> bool outcome" where
  "role_dominates r v = (case r of None \<Rightarrow> UB NullDeref | Some d \<Rightarrow> Ret (ebitmap_get_bit (r_dominates d) (v - 1)))"

text \<open>The values of the three kinds of comparison; \<open>None\<close> for an operator they do not have.\<close>

definition value_op :: "u32 \<Rightarrow> u32 \<Rightarrow> u32 \<Rightarrow> bool option" where
  "value_op op v1 v2 = (if op = CEXPR_EQ then Some (v1 = v2) else if op = CEXPR_NEQ then Some (v1 \<noteq> v2) else None)"

definition role_op :: "policydb \<Rightarrow> u32 \<Rightarrow> u32 \<Rightarrow> u32 \<Rightarrow> bool option outcome" where
  "role_op p op v1 v2 =
     obind (role_at p (v1 - 1)) (\<lambda>r1.
     obind (role_at p (v2 - 1)) (\<lambda>r2.
       if op = CEXPR_DOM then obind (role_dominates r1 v2) (\<lambda>b. Ret (Some b))
       else if op = CEXPR_DOMBY then obind (role_dominates r2 v1) (\<lambda>b. Ret (Some b))
       else if op = CEXPR_INCOMP then
         obind (role_dominates r1 v2) (\<lambda>b. if b then Ret (Some False) else obind (role_dominates r2 v1) (\<lambda>c. Ret (Some (\<not> c))))
       else Ret (value_op op v1 v2)))"

definition mls_op :: "u32 \<Rightarrow> mls_level \<Rightarrow> mls_level \<Rightarrow> bool option" where
  "mls_op op l1 l2 =
     (if op = CEXPR_EQ then Some (mls_level_eq l1 l2)
      else if op = CEXPR_NEQ then Some (\<not> mls_level_eq l1 l2)
      else if op = CEXPR_DOM then Some (mls_level_dom l1 l2)
      else if op = CEXPR_DOMBY then Some (mls_level_dom l2 l1)
      else if op = CEXPR_INCOMP then Some (mls_level_incomp l2 l1)
      else None)"

text \<open>The two levels an attribute names.\<close>

definition attr_levels :: "mls_range \<Rightarrow> mls_range \<Rightarrow> u32 \<Rightarrow> (mls_level \<times> mls_level) option" where
  "attr_levels sr tr a =
     (if a = CEXPR_L1L2 then Some (level0 sr, level0 tr)
      else if a = CEXPR_L1H2 then Some (level0 sr, level1 tr)
      else if a = CEXPR_H1L2 then Some (level1 sr, level0 tr)
      else if a = CEXPR_H1H2 then Some (level1 sr, level1 tr)
      else if a = CEXPR_L1H1 then Some (level0 sr, level1 sr)
      else if a = CEXPR_L2H2 then Some (level0 tr, level1 tr)
      else None)"

text \<open>The value of a \<open>CEXPR_ATTR\<close> expression; \<open>None\<close> where the function gives up.\<close>

definition constraint_attr :: "policydb \<Rightarrow> context_struct \<Rightarrow> context_struct \<Rightarrow> constraint_expr \<Rightarrow> bool option outcome" where
  "constraint_attr p sc tc e =
     (if ce_attr e = CEXPR_USER then Ret (value_op (ce_op e) (c_user sc) (c_user tc))
      else if ce_attr e = CEXPR_TYPE then Ret (value_op (ce_op e) (c_type sc) (c_type tc))
      else if ce_attr e = CEXPR_ROLE then role_op p (ce_op e) (c_role sc) (c_role tc)
      else case attr_levels (c_range sc) (c_range tc) (ce_attr e) of
             None \<Rightarrow> Ret None
           | Some (l1, l2) \<Rightarrow> Ret (mls_op (ce_op e) l1 l2))"

text \<open>
  \<open>get_name_list\<close> writes the names of a \<open>CEXPR_NAMES\<close> expression into its text: every bit that is set
  is the index of a name. The arrays of names are filled along with \<open>role_val_to_struct\<close> and
  \<open>type_val_to_struct\<close>, which hold the names here.
\<close>

definition get_name_list :: "policydb \<Rightarrow> constraint_expr \<Rightarrow> u32 \<Rightarrow> unit outcome" where
  "get_name_list p e type =
     (case (if policyvers p \<ge> 29 \<and> type = CEXPR_TYPE then map_option ts_types (ce_type_names e) else Some (ce_names e)) of
        None \<Rightarrow> UB NullDeref
      | Some types \<Rightarrow>
          let names = (if type = CEXPR_USER then user_val_to_name p else if type = CEXPR_ROLE then role_val_to_struct p
                       else type_val_to_struct p);
              bits = filter (\<lambda>i. ebitmap_get_bit types (of_nat i)) [unat (ebitmap_startbit types)..<unat (highbit types)] in
          if \<forall>i \<in> set bits. i < length names then Ret () else UB OutOfBounds)"

text \<open>The value of a \<open>CEXPR_NAMES\<close> expression.\<close>

definition constraint_names :: "policydb \<Rightarrow> context_struct \<Rightarrow> context_struct \<Rightarrow> context_struct option \<Rightarrow> constraint_expr \<Rightarrow> bool option outcome" where
  "constraint_names p sc tc xc e =
     (case (if ce_attr e AND CEXPR_TARGET \<noteq> 0 then Some tc
            else if ce_attr e AND CEXPR_XTARGET \<noteq> 0 then xc else Some sc) of
        None \<Rightarrow> Ret None
      | Some c \<Rightarrow>
          (case (if ce_attr e AND CEXPR_USER \<noteq> 0 then Some (CEXPR_USER, c_user c)
                 else if ce_attr e AND CEXPR_ROLE \<noteq> 0 then Some (CEXPR_ROLE, c_role c)
                 else if ce_attr e AND CEXPR_TYPE \<noteq> 0 then Some (CEXPR_TYPE, c_type c)
                 else None) of
             None \<Rightarrow> Ret None
           | Some (u_r_t, val1) \<Rightarrow>
               if ce_op e = CEXPR_EQ then
                 obind (get_name_list p e u_r_t) (\<lambda>_. Ret (Some (ebitmap_get_bit (ce_names e) (val1 - 1))))
               else if ce_op e = CEXPR_NEQ then
                 obind (get_name_list p e u_r_t) (\<lambda>_. Ret (Some (\<not> ebitmap_get_bit (ce_names e) (val1 - 1))))
               else Ret None))"

text \<open>
  \<open>goto out\<close> from the loop: \<open>n\<close> is \<open>expr_counter\<close>. Unless it is 0, the loop that frees the texts looks for a
  null pointer that nobody has stored: the entries of \<open>expr_list\<close> after the last text are indeterminate.
\<close>

definition give_up :: "nat \<Rightarrow> int outcome" where
  "give_up n = (if n = 0 then Ret 0 else UB Uninitialised)"

text \<open>
  The loop over the expression in reverse Polish notation; the stack is given from its top, \<open>n\<close> is the
  number of expressions that have been processed. \<open>BUG_ON\<close> only writes a message, so operators without
  operands access the stack below its start.
\<close>

definition comparison_value ::
  "policydb \<Rightarrow> context_struct \<Rightarrow> context_struct \<Rightarrow> context_struct option \<Rightarrow> constraint_expr \<Rightarrow> bool option outcome" where
  "comparison_value p sc tc xc e = (if ce_expr_type e = CEXPR_ATTR then constraint_attr p sc tc e else constraint_names p sc tc xc e)"

fun constraint_loop ::
  "policydb \<Rightarrow> context_struct \<Rightarrow> context_struct \<Rightarrow> context_struct option \<Rightarrow> nat \<Rightarrow> constraint_expr list \<Rightarrow> bool list \<Rightarrow> int outcome" where
  "constraint_loop p sc tc xc n [] s = (if s = [] then UB Uninitialised else Ret (if last s then 1 else 0))"
| "constraint_loop p sc tc xc n (e # es) s =
     (if ce_expr_type e = CEXPR_NOT then
        (case s of [] \<Rightarrow> UB OutOfBounds | x # s \<Rightarrow> constraint_loop p sc tc xc (Suc n) es ((\<not> x) # s))
      else if ce_expr_type e = CEXPR_AND then
        (case s of y # x # s \<Rightarrow> constraint_loop p sc tc xc (Suc n) es ((x \<and> y) # s) | _ \<Rightarrow> UB OutOfBounds)
      else if ce_expr_type e = CEXPR_OR then
        (case s of y # x # s \<Rightarrow> constraint_loop p sc tc xc (Suc n) es ((x \<or> y) # s) | _ \<Rightarrow> UB OutOfBounds)
      else if ce_expr_type e = CEXPR_ATTR \<or> ce_expr_type e = CEXPR_NAMES then
        if length s = CEXPR_MAXDEPTH then give_up n
        else obind (comparison_value p sc tc xc e) (\<lambda>r.
          case r of None \<Rightarrow> give_up n | Some b \<Rightarrow> constraint_loop p sc tc xc (Suc n) es (b # s))
      else give_up n)"

definition constraint_expr_eval_reason ::
  "bool \<Rightarrow> policydb \<Rightarrow> context_struct \<Rightarrow> context_struct \<Rightarrow> context_struct option \<Rightarrow> constraint_node \<Rightarrow> int outcome" where
  "constraint_expr_eval_reason mok p sc tc xc c =
     (if \<not> mok then Ret (- ENOMEM) else constraint_loop p sc tc xc 0 (cn_expr c) [])"

subsection \<open>The decision\<close>

abbreviation (input) SECCLASS_PROCESS :: u32 where "SECCLASS_PROCESS \<equiv> 2"
abbreviation (input) PROCESS_TRANSITIONS :: u32 where "PROCESS_TRANSITIONS \<equiv> 0x00800002"
abbreviation (input) SEPOL_COMPUTEAV_TE :: u32 where "SEPOL_COMPUTEAV_TE \<equiv> 1"
abbreviation (input) SEPOL_COMPUTEAV_CONS :: u32 where "SEPOL_COMPUTEAV_CONS \<equiv> 2"
abbreviation (input) SEPOL_COMPUTEAV_RBAC :: u32 where "SEPOL_COMPUTEAV_RBAC \<equiv> 4"
abbreviation (input) SEPOL_COMPUTEAV_BOUNDS :: u32 where "SEPOL_COMPUTEAV_BOUNDS \<equiv> 8"

text \<open>The permissions of the request that are still granted, and the reason so far (\<open>None\<close> for a NULL pointer).\<close>

definition note_denied :: "u32 \<Rightarrow> av_decision \<Rightarrow> u32 \<times> u32 option \<Rightarrow> u32 \<times> u32 option" where
  "note_denied flag avd rr =
     (case rr of (requested, reason) \<Rightarrow>
        if requested AND NOT (allowed avd) \<noteq> 0
        then (requested AND allowed avd, map_option (\<lambda>r. r OR flag) reason) else rr)"

fun apply_constraints ::
  "bool \<Rightarrow> policydb \<Rightarrow> context_struct \<Rightarrow> context_struct \<Rightarrow> constraint_node list \<Rightarrow> av_decision \<Rightarrow> av_decision outcome" where
  "apply_constraints mok p sc tc [] avd = Ret avd"
| "apply_constraints mok p sc tc (c # cs) avd =
     (if cn_permissions c AND allowed avd \<noteq> 0 then
        obind (constraint_expr_eval_reason mok p sc tc None c) (\<lambda>r.
          apply_constraints mok p sc tc cs (if r = 0 then avd\<lparr>allowed := allowed avd AND NOT (cn_permissions c)\<rparr> else avd))
      else apply_constraints mok p sc tc cs avd)"

definition check_role_change :: "policydb \<Rightarrow> context_struct \<Rightarrow> context_struct \<Rightarrow> u32 \<Rightarrow> av_decision \<Rightarrow> av_decision" where
  "check_role_change p sc tc tclass avd =
     (if tclass = SECCLASS_PROCESS \<and> allowed avd AND PROCESS_TRANSITIONS \<noteq> 0 \<and> c_role sc \<noteq> c_role tc \<and>
         (c_role sc, c_role tc) \<notin> set (p_role_allow p)
      then avd\<lparr>allowed := allowed avd AND NOT PROCESS_TRANSITIONS\<rparr> else avd)"

text \<open>The function up to the call of \<open>type_attribute_bounds_av\<close>; \<open>Inl\<close> is an error code.\<close>

definition compute_unbounded ::
  "bool \<Rightarrow> policydb \<Rightarrow> context_struct \<Rightarrow> context_struct \<Rightarrow> u32 \<Rightarrow> u32 \<Rightarrow> u32 option \<Rightarrow> (int + av_decision \<times> u32 \<times> u32 option) outcome" where
  "compute_unbounded mok p sc tc tclass requested reason =
     obind (compute_te_av p (c_type sc) (c_type tc) tclass) (\<lambda>r.
       case r of None \<Rightarrow> Ret (Inl (- EINVAL))
       | Some avd \<Rightarrow>
           let rr = note_denied SEPOL_COMPUTEAV_TE avd (requested, map_option (\<lambda>_. 0) reason) in
           obind (array_at (class_val_to_struct p) (tclass - 1)) (\<lambda>ko.
             case (case ko of None \<Rightarrow> None | Some k \<Rightarrow> lookup_class p k) of
               None \<Rightarrow> UB NullDeref
             | Some cl \<Rightarrow>
                 obind (apply_constraints mok p sc tc (cl_constraints cl) avd) (\<lambda>avd.
                   let rr = note_denied SEPOL_COMPUTEAV_CONS avd rr;
                       avd = check_role_change p sc tc tclass avd in
                   Ret (Inr (avd, note_denied SEPOL_COMPUTEAV_RBAC avd rr)))))"

text \<open>The contexts with the bounding types; \<open>None\<close> where the source type has no bounds.\<close>

definition bounding_contexts :: "policydb \<Rightarrow> context_struct \<Rightarrow> context_struct \<Rightarrow> (context_struct \<times> context_struct) option outcome" where
  "bounding_contexts p sc tc =
     obind (type_at p (c_type sc - 1)) (\<lambda>so.
       case so of None \<Rightarrow> UB NullDeref
       | Some source \<Rightarrow>
           if t_bounds source = 0 then Ret None
           else obind (type_at p (c_type tc - 1)) (\<lambda>to.
             case to of None \<Rightarrow> UB NullDeref
             | Some target \<Rightarrow>
                 Ret (Some (sc\<lparr>c_type := t_bounds source\<rparr>, if t_bounds target \<noteq> 0 then tc\<lparr>c_type := t_bounds target\<rparr> else tc))))"

definition mask_bounds :: "u32 \<Rightarrow> av_decision \<Rightarrow> u32 option \<Rightarrow> (av_decision \<times> u32 option) outcome" where
  "mask_bounds lo_allowed avd reason =
     (let masked = NOT lo_allowed AND allowed avd in
      if masked = 0 then Ret (avd, reason)
      else case reason of None \<Rightarrow> UB NullDeref
        | Some r \<Rightarrow> Ret (avd\<lparr>allowed := allowed avd AND NOT masked\<rparr>, Some (r OR SEPOL_COMPUTEAV_BOUNDS)))"

text \<open>
  The decision; \<open>None\<close> when more than \<open>n\<close> calls are nested, as for bounds that form a cycle. The nested
  call has no place for its reason.
\<close>

fun context_struct_compute_av ::
  "nat \<Rightarrow> bool \<Rightarrow> policydb \<Rightarrow> context_struct \<Rightarrow> context_struct \<Rightarrow> u32 \<Rightarrow> u32 \<Rightarrow> u32 option \<Rightarrow>
     (int + av_decision \<times> u32 option) outcome option" where
  "context_struct_compute_av 0 mok p sc tc tclass requested reason = None"
| "context_struct_compute_av (Suc n) mok p sc tc tclass requested reason =
     (case compute_unbounded mok p sc tc tclass requested reason of
        Exit k \<Rightarrow> Some (Exit k)
      | UB u \<Rightarrow> Some (UB u)
      | Ret (Inl rc) \<Rightarrow> Some (Ret (Inl rc))
      | Ret (Inr (avd, requested, reason)) \<Rightarrow>
          (case bounding_contexts p sc tc of
             Exit k \<Rightarrow> Some (Exit k)
           | UB u \<Rightarrow> Some (UB u)
           | Ret None \<Rightarrow> Some (Ret (Inr (avd, reason)))
           | Ret (Some (lo_sc, lo_tc)) \<Rightarrow>
               map_option (\<lambda>r.
                 obind r (\<lambda>lo. obind (mask_bounds (case lo of Inl _ \<Rightarrow> 0 | Inr (lo_avd, _) \<Rightarrow> allowed lo_avd) avd reason) (\<lambda>ar. Ret (Inr ar))))
                 (context_struct_compute_av n mok p lo_sc lo_tc tclass requested None)))"

section \<open>Constraint expressions as trees\<close>

datatype constraint_tree = CtLeaf constraint_expr | CtNot constraint_tree | CtAnd constraint_tree constraint_tree
  | CtOr constraint_tree constraint_tree

abbreviation connective :: "u32 \<Rightarrow> constraint_expr" where
  "connective ty \<equiv> \<lparr>ce_expr_type = ty, ce_attr = 0, ce_op = 0, ce_names = ebitmap_init, ce_type_names = None\<rparr>"

primrec ct_postfix :: "constraint_tree \<Rightarrow> constraint_expr list" where
  "ct_postfix (CtLeaf e) = [e]"
| "ct_postfix (CtNot t) = ct_postfix t @ [connective CEXPR_NOT]"
| "ct_postfix (CtAnd t u) = ct_postfix t @ ct_postfix u @ [connective CEXPR_AND]"
| "ct_postfix (CtOr t u) = ct_postfix t @ ct_postfix u @ [connective CEXPR_OR]"

primrec ct_value :: "(constraint_expr \<Rightarrow> bool) \<Rightarrow> constraint_tree \<Rightarrow> bool" where
  "ct_value val (CtLeaf e) = val e"
| "ct_value val (CtNot t) = (\<not> ct_value val t)"
| "ct_value val (CtAnd t u) = (ct_value val t \<and> ct_value val u)"
| "ct_value val (CtOr t u) = (ct_value val t \<or> ct_value val u)"

primrec ct_depth :: "constraint_tree \<Rightarrow> nat" where
  "ct_depth (CtLeaf e) = 0"
| "ct_depth (CtNot t) = ct_depth t"
| "ct_depth (CtAnd t u) = max (ct_depth t) (1 + ct_depth u)"
| "ct_depth (CtOr t u) = max (ct_depth t) (1 + ct_depth u)"

primrec ct_leaves :: "constraint_tree \<Rightarrow> constraint_expr set" where
  "ct_leaves (CtLeaf e) = {e}"
| "ct_leaves (CtNot t) = ct_leaves t"
| "ct_leaves (CtAnd t u) = ct_leaves t \<union> ct_leaves u"
| "ct_leaves (CtOr t u) = ct_leaves t \<union> ct_leaves u"

text \<open>A comparison of the contexts, and its value.\<close>

definition leaf_holds :: "policydb \<Rightarrow> context_struct \<Rightarrow> context_struct \<Rightarrow> context_struct option \<Rightarrow> constraint_expr \<Rightarrow> bool \<Rightarrow> bool" where
  "leaf_holds p sc tc xc e b \<longleftrightarrow>
     (ce_expr_type e = CEXPR_ATTR \<or> ce_expr_type e = CEXPR_NAMES) \<and> comparison_value p sc tc xc e = Ret (Some b)"

text \<open>
  The value of the tree is left on the stack if the stack is deep enough. A deeper tree makes the evaluation
  give up, which it does not survive: some expressions have been processed by then.
\<close>

lemma ct_postfix_pos: "0 < length (ct_postfix t)"
  by (induction t) simp_all

lemma constraint_loop_postfix:
  assumes "\<forall>e \<in> ct_leaves t. leaf_holds p sc tc xc e (val e)" and "length s \<le> CEXPR_MAXDEPTH" and "length s \<le> n"
  shows "constraint_loop p sc tc xc n (ct_postfix t @ es) s =
    (if length s + ct_depth t < CEXPR_MAXDEPTH then constraint_loop p sc tc xc (n + length (ct_postfix t)) es (ct_value val t # s)
     else UB Uninitialised)"
  using assms
proof (induction t arbitrary: es s n)
  case (CtLeaf e)
  then show ?case by (auto simp: leaf_holds_def give_up_def)
next
  case (CtNot t)
  then show ?case by auto
next
  case (CtAnd t u)
  have "constraint_loop p sc tc xc (n + length (ct_postfix t)) (ct_postfix u @ es') (ct_value val t # s) =
      (if Suc (length s) + ct_depth u < CEXPR_MAXDEPTH
       then constraint_loop p sc tc xc (n + length (ct_postfix t) + length (ct_postfix u)) es' (ct_value val u # ct_value val t # s)
       else UB Uninitialised)" if "length s + ct_depth t < CEXPR_MAXDEPTH" for es'
    using CtAnd.IH(2)[of "ct_value val t # s" "n + length (ct_postfix t)" es'] CtAnd.prems ct_postfix_pos[of t] that by simp
  then show ?case using CtAnd.IH(1)[of s n] CtAnd.prems by (auto simp: add.assoc)
next
  case (CtOr t u)
  have "constraint_loop p sc tc xc (n + length (ct_postfix t)) (ct_postfix u @ es') (ct_value val t # s) =
      (if Suc (length s) + ct_depth u < CEXPR_MAXDEPTH
       then constraint_loop p sc tc xc (n + length (ct_postfix t) + length (ct_postfix u)) es' (ct_value val u # ct_value val t # s)
       else UB Uninitialised)" if "length s + ct_depth t < CEXPR_MAXDEPTH" for es'
    using CtOr.IH(2)[of "ct_value val t # s" "n + length (ct_postfix t)" es'] CtOr.prems ct_postfix_pos[of t] that by simp
  then show ?case using CtOr.IH(1)[of s n] CtOr.prems by (auto simp: add.assoc)
qed

lemma constraint_value:
  assumes "cn_expr c = ct_postfix t" and "\<forall>e \<in> ct_leaves t. leaf_holds p sc tc xc e (val e)"
  shows "constraint_expr_eval_reason True p sc tc xc c =
    (if ct_depth t < CEXPR_MAXDEPTH then Ret (if ct_value val t then 1 else 0) else UB Uninitialised)"
  using constraint_loop_postfix[OF assms(2), of "[]" 0 "[]"] assms(1) by (simp add: constraint_expr_eval_reason_def)

section \<open>What the decision allows\<close>

lemma bit_removed: "bit (w AND NOT v) k \<longleftrightarrow> bit w k \<and> \<not> bit v (k :: nat)" for w v :: u32
  using bit_imp_le_length[of w k] by (auto simp: bit_and_iff bit_not_iff)

lemma constraints_decide:
  assumes "apply_constraints mok p sc tc cs avd = Ret avd'"
  shows "bit (allowed avd') k \<longleftrightarrow> bit (allowed avd) k \<and>
    (\<forall>c \<in> set cs. bit (cn_permissions c) k \<longrightarrow> (\<exists>r. constraint_expr_eval_reason mok p sc tc None c = Ret r \<and> r \<noteq> 0))"
  using assms
proof (induction cs arbitrary: avd)
  case (Cons c cs)
  show ?case
  proof (cases "cn_permissions c AND allowed avd = 0")
    case True
    then have "\<not> (bit (cn_permissions c) k \<and> bit (allowed avd) k)" by (metis bit_0_eq bit_and_iff bot_apply bot_bool_def)
    with Cons.IH[of avd] Cons.prems True show ?thesis by auto
  next
    case False
    then obtain r where r: "constraint_expr_eval_reason mok p sc tc None c = Ret r"
      and rest: "apply_constraints mok p sc tc cs (if r = 0 then avd\<lparr>allowed := allowed avd AND NOT (cn_permissions c)\<rparr> else avd) = Ret avd'"
      using Cons.prems by auto
    show ?thesis using Cons.IH[OF rest] r by (auto simp: bit_removed split: if_splits)
  qed
qed simp

lemma bit_masked:
  "bit (if w AND m \<noteq> 0 \<and> b then w AND NOT m else w) k \<longleftrightarrow> bit w k \<and> (bit m k \<longrightarrow> \<not> b)" for w m :: u32
proof -
  have "w AND m \<noteq> 0" if "bit w k" "bit m k" using that by (metis bit_0_eq bit_and_iff bot_apply bot_bool_def)
  then show ?thesis by (auto simp: bit_removed)
qed

lemma role_change_decides:
  "bit (allowed (check_role_change p sc tc tclass avd)) k \<longleftrightarrow> bit (allowed avd) k \<and>
     (bit PROCESS_TRANSITIONS k \<longrightarrow> tclass = SECCLASS_PROCESS \<longrightarrow> c_role sc \<noteq> c_role tc \<longrightarrow> (c_role sc, c_role tc) \<in> set (p_role_allow p))"
proof -
  let ?b = "tclass = SECCLASS_PROCESS \<and> c_role sc \<noteq> c_role tc \<and> (c_role sc, c_role tc) \<notin> set (p_role_allow p)"
  have "allowed (check_role_change p sc tc tclass avd) =
      (if allowed avd AND PROCESS_TRANSITIONS \<noteq> 0 \<and> ?b then allowed avd AND NOT PROCESS_TRANSITIONS else allowed avd)"
    by (auto simp: check_role_change_def)
  then have "bit (allowed (check_role_change p sc tc tclass avd)) k \<longleftrightarrow> bit (allowed avd) k \<and> (bit PROCESS_TRANSITIONS k \<longrightarrow> \<not> ?b)"
    by (simp only: bit_masked)
  then show ?thesis by blast
qed

text \<open>The parts of the decision before bounds, taken apart.\<close>

lemma compute_unbounded_decides:
  assumes "compute_unbounded mok p sc tc tclass requested reason = Ret (Inr (avd, rr))"
  obtains te cl where "compute_te_av p (c_type sc) (c_type tc) tclass = Ret (Some te)"
    and "\<And>k. bit (allowed avd) k \<longleftrightarrow> bit (allowed te) k \<and>
      (\<forall>c \<in> set (cl_constraints cl). bit (cn_permissions c) k \<longrightarrow> (\<exists>r. constraint_expr_eval_reason mok p sc tc None c = Ret r \<and> r \<noteq> 0)) \<and>
      (bit PROCESS_TRANSITIONS k \<longrightarrow> tclass = SECCLASS_PROCESS \<longrightarrow> c_role sc \<noteq> c_role tc \<longrightarrow> (c_role sc, c_role tc) \<in> set (p_role_allow p))"
    and "\<exists>key. array_at (class_val_to_struct p) (tclass - 1) = Ret (Some key) \<and> lookup_class p key = Some cl"
proof -
  obtain te ko cl avd1 where te: "compute_te_av p (c_type sc) (c_type tc) tclass = Ret (Some te)"
    and cl: "array_at (class_val_to_struct p) (tclass - 1) = Ret ko" "(case ko of None \<Rightarrow> None | Some k \<Rightarrow> lookup_class p k) = Some cl"
    and ap: "apply_constraints mok p sc tc (cl_constraints cl) te = Ret avd1" and avd: "avd = check_role_change p sc tc tclass avd1"
    using assms by (auto simp: compute_unbounded_def Let_def split: option.splits)
  have "\<exists>key. array_at (class_val_to_struct p) (tclass - 1) = Ret (Some key) \<and> lookup_class p key = Some cl"
    using cl by (auto split: option.splits)
  moreover have "bit (allowed avd) k \<longleftrightarrow> bit (allowed te) k \<and>
      (\<forall>c \<in> set (cl_constraints cl). bit (cn_permissions c) k \<longrightarrow> (\<exists>r. constraint_expr_eval_reason mok p sc tc None c = Ret r \<and> r \<noteq> 0)) \<and>
      (bit PROCESS_TRANSITIONS k \<longrightarrow> tclass = SECCLASS_PROCESS \<longrightarrow> c_role sc \<noteq> c_role tc \<longrightarrow> (c_role sc, c_role tc) \<in> set (p_role_allow p))" for k
    unfolding avd role_change_decides constraints_decide[OF ap] by (simp only: conj_assoc)
  ultimately show thesis using that te by blast
qed

text \<open>With bounds, the decision for the bounding types limits the result.\<close>

lemma mask_bounds_decides:
  "mask_bounds lo avd reason = Ret (avd', reason') \<Longrightarrow> bit (allowed avd') k \<longleftrightarrow> bit (allowed avd) k \<and> bit lo k"
  using bit_imp_le_length[of "allowed avd" k]
  by (auto simp: mask_bounds_def Let_def bit_and_iff bit_not_iff bit_or_iff bit_eq_iff split: if_splits option.splits)

text \<open>More nesting does not change a decision, and a chain of bounds of length \<open>n\<close> needs \<open>n + 1\<close> calls.\<close>

lemma compute_av_more: "context_struct_compute_av n mok p sc tc tclass requested reason = Some r \<Longrightarrow>
    n \<le> m \<Longrightarrow> context_struct_compute_av m mok p sc tc tclass requested reason = Some r"
proof (induction n arbitrary: m sc tc requested reason r)
  case (Suc n)
  then obtain m' where m: "m = Suc m'" "n \<le> m'" by (cases m) auto
  show ?case
  proof (cases "\<exists>avd req rea lo_sc lo_tc. compute_unbounded mok p sc tc tclass requested reason = Ret (Inr (avd, req, rea)) \<and>
      bounding_contexts p sc tc = Ret (Some (lo_sc, lo_tc))")
    case True
    then obtain avd req rea lo_sc lo_tc where c: "compute_unbounded mok p sc tc tclass requested reason = Ret (Inr (avd, req, rea))"
      "bounding_contexts p sc tc = Ret (Some (lo_sc, lo_tc))" by blast
    with Suc.prems(1) obtain r' where "context_struct_compute_av n mok p lo_sc lo_tc tclass req None = Some r'" by auto
    with Suc.IH[OF this m(2)] c Suc.prems(1) show ?thesis by (simp add: m(1))
  next
    case False
    with Suc.prems(1) show ?thesis
      by (auto simp: m(1) split: outcome.splits sum.splits option.splits prod.splits)
  qed
qed simp

fun bounds_end :: "policydb \<Rightarrow> nat \<Rightarrow> u32 \<Rightarrow> bool" where
  "bounds_end p 0 ty = (\<exists>d. type_at p (ty - 1) = Ret (Some d) \<and> t_bounds d = 0)"
| "bounds_end p (Suc n) ty = (\<exists>d. type_at p (ty - 1) = Ret (Some d) \<and> t_bounds d \<noteq> 0 \<and> bounds_end p n (t_bounds d))"

lemma compute_av_returns:
  "bounds_end p n (c_type sc) \<Longrightarrow> \<exists>r. context_struct_compute_av (Suc n) mok p sc tc tclass requested reason = Some r"
proof (induction n arbitrary: sc tc requested reason)
  case 0
  then show ?case by (auto simp: bounding_contexts_def split: outcome.splits sum.splits)
next
  case (Suc n)
  obtain d where d: "type_at p (c_type sc - 1) = Ret (Some d)" "t_bounds d \<noteq> 0" "bounds_end p n (t_bounds d)"
    using Suc.prems by auto
  have IH: "\<exists>r. context_struct_compute_av (Suc n) mok p (sc\<lparr>c_type := t_bounds d\<rparr>) lo_tc tclass req None = Some r" for lo_tc req
    using Suc.IH[of "sc\<lparr>c_type := t_bounds d\<rparr>"] d(3) by simp
  show ?case
  proof (cases "bounding_contexts p sc tc")
    case (Ret x)
    then obtain lo_tc where "x = Some (sc\<lparr>c_type := t_bounds d\<rparr>, lo_tc)"
      using d(1,2) by (auto simp: bounding_contexts_def split: option.splits)
    then show ?thesis
      using Ret IH by (subst context_struct_compute_av.simps) (auto split: outcome.splits sum.splits simp del: context_struct_compute_av.simps)
  qed (subst context_struct_compute_av.simps; auto split: outcome.splits sum.splits simp del: context_struct_compute_av.simps)+
qed

text \<open>The whole decision for a source type without bounds, and for one with bounds.\<close>

lemma compute_av_unbounded:
  assumes "compute_unbounded mok p sc tc tclass requested reason = Ret (Inr (avd, req, rea))"
    and "type_at p (c_type sc - 1) = Ret (Some d)" and "t_bounds d = 0"
  shows "context_struct_compute_av (Suc n) mok p sc tc tclass requested reason = Some (Ret (Inr (avd, rea)))"
  using assms by (simp add: bounding_contexts_def)

lemma compute_av_bounded:
  assumes "compute_unbounded mok p sc tc tclass requested reason = Ret (Inr (avd, req, rea))"
    and "bounding_contexts p sc tc = Ret (Some (lo_sc, lo_tc))"
    and "context_struct_compute_av n mok p lo_sc lo_tc tclass req None = Some (Ret (Inr (lo, rea')))"
  shows "context_struct_compute_av (Suc n) mok p sc tc tclass requested reason =
    Some (obind (mask_bounds (allowed lo) avd rea) (\<lambda>ar. Ret (Inr ar)))"
  using assms by simp

text \<open>Two levels of bounds: the nested decision has no place for its reason, and writes it nevertheless.\<close>

lemma nested_bounds_crash:
  assumes outer: "compute_unbounded mok p sc tc tclass requested reason = Ret (Inr (avd, req, rea))"
      "bounding_contexts p sc tc = Ret (Some (sc1, tc1))"
    and inner: "compute_unbounded mok p sc1 tc1 tclass req None = Ret (Inr (avd1, req1, None))"
      "bounding_contexts p sc1 tc1 = Ret (Some (sc2, tc2))"
    and innermost: "context_struct_compute_av n mok p sc2 tc2 tclass req1 None = Some (Ret (Inr (avd2, rea2)))"
    and masked: "bit (allowed avd1) k" "\<not> bit (allowed avd2) k"
  shows "context_struct_compute_av (Suc (Suc n)) mok p sc tc tclass requested reason = Some (UB NullDeref)"
proof -
  have "bit (NOT (allowed avd2) AND allowed avd1) k"
    using masked bit_imp_le_length[of "allowed avd1" k] by (simp add: bit_and_iff bit_not_iff)
  then have "NOT (allowed avd2) AND allowed avd1 \<noteq> 0" by auto
  then have "mask_bounds (allowed avd2) avd1 None = UB NullDeref" by (simp add: mask_bounds_def)
  then have "context_struct_compute_av (Suc n) mok p sc1 tc1 tclass req None = Some (UB NullDeref)"
    using compute_av_bounded[OF inner innermost] by simp
  then show ?thesis using outer by (subst context_struct_compute_av.simps) (simp del: context_struct_compute_av.simps)
qed

text \<open>Without memory for its text every constraint counts as satisfied.\<close>

lemma constraints_without_memory: "apply_constraints False p sc tc cs avd = Ret avd"
  by (induction cs) (simp_all add: constraint_expr_eval_reason_def)

section \<open>The reason\<close>

lemma apply_constraints_returns:
  "\<forall>c \<in> set cs. \<exists>r. constraint_expr_eval_reason mok p sc tc None c = Ret r \<Longrightarrow> \<exists>avd'. apply_constraints mok p sc tc cs avd = Ret avd'"
proof (induction cs arbitrary: avd)
  case (Cons c cs)
  then obtain r where r: "constraint_expr_eval_reason mok p sc tc None c = Ret r" by auto
  have IH: "\<exists>avd'. apply_constraints mok p sc tc cs a = Ret avd'" for a using Cons by simp
  show ?case
    using r IH[of avd] IH[of "if r = 0 then avd\<lparr>allowed := allowed avd AND NOT (cn_permissions c)\<rparr> else avd"]
    by (cases "cn_permissions c AND allowed avd = 0") simp_all
qed simp

definition denied :: "u32 \<Rightarrow> u32 \<Rightarrow> bool" where
  "denied requested w \<longleftrightarrow> (\<exists>k. bit requested k \<and> \<not> bit w k)"

lemma denied_iff: "requested AND NOT w \<noteq> 0 \<longleftrightarrow> denied requested w"
proof -
  have "x = 0 \<longleftrightarrow> (\<forall>k. \<not> bit x k)" for x :: u32 by (auto intro: bit_word_eqI)
  then show ?thesis unfolding denied_def by (simp only: bit_removed) blast
qed

lemma note_denied_eq:
  "note_denied flag avd (requested, reason) =
     (requested AND allowed avd, if denied requested (allowed avd) then map_option (\<lambda>r. r OR flag) reason else reason)"
proof -
  have "requested AND allowed avd = requested" if "\<not> denied requested (allowed avd)"
    using that by (intro bit_eqI) (auto simp: denied_def bit_and_iff)
  then show ?thesis by (simp add: note_denied_def denied_iff)
qed

text \<open>The reason is empty exactly if everything that was requested is granted.\<close>

lemma reason_exact:
  assumes "\<And>k. bit (allowed b) k \<Longrightarrow> bit (allowed a) k" and "\<And>k. bit (allowed c) k \<Longrightarrow> bit (allowed b) k"
  obtains req rea where "note_denied SEPOL_COMPUTEAV_RBAC c (note_denied SEPOL_COMPUTEAV_CONS b (note_denied SEPOL_COMPUTEAV_TE a (requested, Some 0))) = (req, Some rea)"
    and "rea = 0 \<longleftrightarrow> \<not> denied requested (allowed c)"
proof -
  let ?d1 = "denied requested (allowed a)" and ?d2 = "denied (requested AND allowed a) (allowed b)"
    and ?d3 = "denied ((requested AND allowed a) AND allowed b) (allowed c)"
  have "denied requested (allowed c) \<longleftrightarrow> ?d1 \<or> ?d2 \<or> ?d3"
    unfolding denied_def bit_and_iff using assms by blast
  then have "\<exists>req rea. note_denied SEPOL_COMPUTEAV_RBAC c (note_denied SEPOL_COMPUTEAV_CONS b (note_denied SEPOL_COMPUTEAV_TE a (requested, Some 0))) =
      (req, Some rea) \<and> (rea = 0 \<longleftrightarrow> \<not> denied requested (allowed c))"
    by (cases ?d1; cases ?d2; cases ?d3) (simp_all add: note_denied_eq)
  then show thesis using that by blast
qed

lemma decision_exact:
  assumes te: "compute_te_av p (c_type sc) (c_type tc) tclass = Ret (Some te)"
    and cl: "array_at (class_val_to_struct p) (tclass - 1) = Ret (Some key)" "lookup_class p key = Some cl"
    and ret: "\<forall>c \<in> set (cl_constraints cl). \<exists>r. constraint_expr_eval_reason mok p sc tc None c = Ret r"
    and d: "type_at p (c_type sc - 1) = Ret (Some d)" "t_bounds d = 0"
  obtains avd rea where "context_struct_compute_av (Suc n) mok p sc tc tclass requested (Some old) = Some (Ret (Inr (avd, Some rea)))"
    and "\<And>k. bit (allowed avd) k \<longleftrightarrow> bit (allowed te) k \<and>
      (\<forall>c \<in> set (cl_constraints cl). bit (cn_permissions c) k \<longrightarrow> (\<exists>r. constraint_expr_eval_reason mok p sc tc None c = Ret r \<and> r \<noteq> 0)) \<and>
      (bit PROCESS_TRANSITIONS k \<longrightarrow> tclass = SECCLASS_PROCESS \<longrightarrow> c_role sc \<noteq> c_role tc \<longrightarrow> (c_role sc, c_role tc) \<in> set (p_role_allow p))"
    and "rea = 0 \<longleftrightarrow> \<not> denied requested (allowed avd)"
proof -
  obtain a where a: "apply_constraints mok p sc tc (cl_constraints cl) te = Ret a" using apply_constraints_returns[OF ret] by blast
  let ?b = "check_role_change p sc tc tclass a"
  have "bit (allowed a) k \<Longrightarrow> bit (allowed te) k" "bit (allowed ?b) k \<Longrightarrow> bit (allowed a) k" for k
    using constraints_decide[OF a, of k] role_change_decides[of p sc tc tclass a k] by blast+
  then obtain req rea where rr: "note_denied SEPOL_COMPUTEAV_RBAC ?b (note_denied SEPOL_COMPUTEAV_CONS a (note_denied SEPOL_COMPUTEAV_TE te (requested, Some 0))) = (req, Some rea)"
    "rea = 0 \<longleftrightarrow> \<not> denied requested (allowed ?b)"
    by (rule reason_exact[of a te ?b requested])
  have "compute_unbounded mok p sc tc tclass requested (Some old) = Ret (Inr (?b, req, Some rea))"
    using te cl a rr(1) by (simp add: compute_unbounded_def Let_def)
  from compute_av_unbounded[OF this d] rr(2) show thesis
    using constraints_decide[OF a] role_change_decides[of p sc tc tclass a] by (intro that[of ?b rea]) blast+
qed

section \<open>Type attributes and constraints\<close>

text \<open>
  \<open>add_typeattribute\<close> adds the type to the names of the constraints that mention the attribute, so that
  comparisons with those names hold for it.
\<close>

lemma constrained_names_hold:
  assumes "constrain_expr True attr_id ty e = Ret e'" and names: "ce_expr_type e = CEXPR_NAMES" and "ce_type_names e = Some ts"
    and "ebitmap_get_bit (ts_types ts) (attr_id - 1)" and wf: "ebitmap_wf (ce_names e)" and "ce_op e = CEXPR_EQ"
    and "ce_attr e = CEXPR_TYPE" and "c_type sc = ty" and bound: "unat (ty - 1) < 4294967232"
    and "policyvers p \<ge> 29" and "get_name_list p e CEXPR_TYPE = Ret ()"
  shows "leaf_holds p sc tc xc e' True"
proof -
  obtain n where n: "ebitmap_set_bit True (ce_names e) (ty - 1) True = (0, n)" "ebitmap_wf n"
    "ebitmap_set n = upd_set (unat (ty - 1)) True (ebitmap_set (ce_names e))"
    using set_bit_correct[OF wf bound] by metis
  have "e' = e\<lparr>ce_names := n\<rparr>" using assms n by (simp add: constrain_expr_def)
  moreover have "ebitmap_get_bit n (ty - 1)" using n by (simp add: get_bit_iff upd_set_def)
  moreover have "get_name_list p (e\<lparr>ce_names := n\<rparr>) CEXPR_TYPE = Ret ()" using assms by (simp add: get_name_list_def)
  ultimately show ?thesis using assms by (simp add: leaf_holds_def comparison_value_def constraint_names_def)
qed

end
