(* ===== verification/SamplePolicy.thy ===== *)
theory SamplePolicy
  imports Statements SepolicyTypes Decisions
begin

text \<open>
  A small policy on which the general results are instantiated: the type \<^verbatim>\<open>su\<close>, the type
  \<^verbatim>\<open>app\<close>, the attribute \<^verbatim>\<open>domain\<close>, and the class \<^verbatim>\<open>file\<close> with the permissions \<^verbatim>\<open>read\<close> and \<^verbatim>\<open>write\<close>.
  Every symbol table has one bucket.
\<close>

definition one_bucket :: "(string \<times> 'd) list \<Rightarrow> (string, 'd) hashtab" where
  "one_bucket xs = \<lparr>htable = [xs], hsize = 1, nel = of_nat (length xs), hash_value = symhash, keycmp = symcmp\<rparr>"

definition symbols :: "(string \<times> 'd) list \<Rightarrow> 'd symtab" where
  "symbols xs = \<lparr>table = Some (one_bucket xs), nprim = of_nat (length xs)\<rparr>"

definition sample_type :: "u32 \<Rightarrow> u32 \<Rightarrow> type_datum" where
  "sample_type v fl = type_datum_init\<lparr>t_primary := 1, t_flavor := fl, t_value := v\<rparr>"

definition sample_class :: class_datum where
  "sample_class = \<lparr>cl_value = 1, cl_comkey = None, cl_comdatum = None,
     cl_permissions = symbols [(''read'', \<lparr>pm_value = 1\<rparr>), (''write'', \<lparr>pm_value = 2\<rparr>)], cl_constraints = [],
     cl_validatetrans = [], cl_default_user = 0, cl_default_role = 0, cl_default_type = 0, cl_default_range = 0\<rparr>"

definition sample_types :: "(string \<times> type_datum) list" where
  "sample_types = [(''app'', sample_type 2 TYPE_TYPE), (''domain'', sample_type 3 TYPE_ATTRIB), (''su'', sample_type 1 TYPE_TYPE)]"

definition bitmap_of :: "u64 \<Rightarrow> ebitmap" where
  "bitmap_of m = \<lparr>enode = [\<lparr>startbit = 0, emap = m\<rparr>], highbit = 64\<rparr>"

definition sample :: policydb where
  "sample = \<lparr>p_commons = symbols [], p_classes = symbols [(''file'', sample_class)], p_roles = symbols [],
     p_types = symbols sample_types, scope_types = symbols [], declared_types = ebitmap_init, decl_blocks = [[1]],
     te_avtab = \<lparr>av_htable = Some [[]], av_nel = 0, av_nslot = 1, av_mask = 0\<rparr>,
     te_cond_avtab = \<lparr>av_htable = None, av_nel = 0, av_nslot = 0, av_mask = 0\<rparr>,
     type_attr_map = [bitmap_of 1, bitmap_of 2, bitmap_of 4], attr_type_map = [bitmap_of 1, bitmap_of 2, bitmap_of 4],
     permissive_map = ebitmap_init, p_filename_trans = [], common_val_to_name = [], class_val_to_struct = [Some ''file''],
     role_val_to_struct = [], type_val_to_struct = [Some ''su'', Some ''app'', Some ''domain''], user_val_to_name = [Some ''u''], decl_val_to_struct = [True], p_role_allow = [],
     policyvers = 30, p_rest_ok = True\<rparr>"

definition sample_allow :: policydb where
  "sample_allow = sample\<lparr>te_avtab := \<lparr>av_htable = Some [[(\<lparr>source_type = 1, target_type = 2, target_class = 1, specified = AVTAB_ALLOWED\<rparr>,
     \<lparr>av_data = 1, av_xperms = None\<rparr>)]], av_nel = 1, av_nslot = 1, av_mask = 0\<rparr>\<rparr>"

text \<open>
  Contexts that differ in their types only; the policy with the constraint that reading needs equal types; and a
  policy in which \<^verbatim>\<open>su\<close> is bounded by \<^verbatim>\<open>app\<close>, and \<^verbatim>\<open>app\<close> by \<^verbatim>\<open>domain\<close>.
\<close>

definition sample_ctx :: "u32 \<Rightarrow> context_struct" where
  "sample_ctx ty = \<lparr>c_user = 1, c_role = 1, c_type = ty, c_range = mls_range_init\<rparr>"

definition same_type :: constraint_expr where
  "same_type = \<lparr>ce_expr_type = CEXPR_ATTR, ce_attr = CEXPR_TYPE, ce_op = CEXPR_EQ, ce_names = ebitmap_init, ce_type_names = None\<rparr>"

definition sample_constrained :: policydb where
  "sample_constrained = sample_allow\<lparr>p_classes := symbols [(''file'', sample_class\<lparr>cl_constraints := [\<lparr>cn_permissions = 1, cn_expr = [same_type, same_type, connective CEXPR_OR]\<rparr>]\<rparr>)]\<rparr>"

definition sample_bounds :: policydb where
  "sample_bounds = sample\<lparr>te_avtab := \<lparr>av_htable = Some [[(\<lparr>source_type = 2, target_type = 3, target_class = 1, specified = AVTAB_ALLOWED\<rparr>,
     \<lparr>av_data = 1, av_xperms = None\<rparr>)]], av_nel = 1, av_nslot = 1, av_mask = 0\<rparr>,
     p_types := symbols [(''app'', (sample_type 2 TYPE_TYPE)\<lparr>t_bounds := 3\<rparr>), (''domain'', sample_type 3 TYPE_TYPE), (''su'', (sample_type 1 TYPE_TYPE)\<lparr>t_bounds := 2\<rparr>)]\<rparr>"

section \<open>Facts\<close>

lemma one_bucket_hvalue [simp]: "hvalue (one_bucket xs) k = 0"
  by (simp add: hvalue_def one_bucket_def symhash_def)

lemma one_bucket_on: "chain_ok symcmp xs \<Longrightarrow> hashtab_on symcmp (one_bucket xs)"
  using one_bucket_hvalue[of xs] by (simp add: hashtab_on_def hashtab_wf_def one_bucket_def hvalue_def)

lemma one_bucket_abs [simp]: "hashtab_abs (one_bucket xs) = map_of xs" "hashtab_nodes (one_bucket xs) = xs"
  by (simp_all add: hashtab_abs_def hashtab_nodes_def one_bucket_def)

lemma one_bucket_search [simp]: "chain_ok symcmp xs \<Longrightarrow> hashtab_search (Some (one_bucket xs)) k = map_of xs k"
  using sym.search_correct[OF one_bucket_on] by simp

lemma symbols_simps [simp]: "table (symbols xs) = Some (one_bucket xs)" "nprim (symbols xs) = of_nat (length xs)"
  by (simp_all add: symbols_def)

lemma sample_chains [simp]:
  "chain_ok symcmp sample_types" "chain_ok symcmp [(k, d)]" "chain_ok symcmp []"
  "chain_ok symcmp [(''read'', d1), (''write'', d2)]"
  by (simp_all add: chain_ok_def symcmp_def sample_types_def)

lemma sample_simps [simp]:
  "p_types sample = symbols sample_types" "p_classes sample = symbols [(''file'', sample_class)]"
  "type_attr_map sample = [bitmap_of 1, bitmap_of 2, bitmap_of 4]" "attr_type_map sample = [bitmap_of 1, bitmap_of 2, bitmap_of 4]"
  "permissive_map sample = ebitmap_init" "declared_types sample = ebitmap_init"
  by (simp_all add: sample_def)

lemma sample_avtab [simp]: "avtab_wf (te_avtab sample)" "avtab_abs (te_avtab sample) = Map.empty"
  by (simp_all add: sample_def avtab_wf_def av_chain_ok_def avtab_abs_def av_assoc_def avtab_nodes_def fun_eq_iff)

lemma sample_lookup [simp]:
  "lookup_type sample ''su'' = Some (sample_type 1 TYPE_TYPE)" "lookup_type sample ''app'' = Some (sample_type 2 TYPE_TYPE)"
  "lookup_type sample ''domain'' = Some (sample_type 3 TYPE_ATTRIB)" "lookup_class sample ''file'' = Some sample_class"
  "lookup_type sample ''magisk'' = None"
  by (simp_all add: lookup_type_def lookup_class_def) (simp_all add: sample_types_def)

lemma sample_type_simps [simp]:
  "t_value (sample_type v fl) = v" "t_flavor (sample_type v fl) = fl" "cl_value sample_class = 1"
  by (simp_all add: sample_type_def sample_class_def)

definition sample_perms :: "(string \<times> perm_datum) list" where
  "sample_perms = [(''read'', \<lparr>pm_value = 1\<rparr>), (''write'', \<lparr>pm_value = 2\<rparr>)]"

lemma sample_perm: "find_perm sample_class n = map_of sample_perms n"
proof -
  have "chain_ok symcmp sample_perms" by (simp add: sample_perms_def chain_ok_def symcmp_def)
  moreover have "table (cl_permissions sample_class) = Some (one_bucket sample_perms)" "cl_comdatum sample_class = None"
    by (simp_all add: sample_class_def sample_perms_def)
  ultimately show ?thesis by (simp add: find_perm_def split: option.splits)
qed

lemma sample_resolve [simp]:
  "resolve (Some (one_bucket sample_types)) (Some ''su'') = Entry (sample_type 1 TYPE_TYPE)"
  "resolve (Some (one_bucket sample_types)) (Some ''app'') = Entry (sample_type 2 TYPE_TYPE)"
  "resolve (Some (one_bucket [(''file'', sample_class)])) (Some ''file'') = Entry sample_class"
  "resolve tab None = Any"
  by (simp_all add: resolve_def) (simp_all add: sample_types_def)

lemma sample_names [simp]:
  "names_ok sample (Some ''su'') (Some ''app'') (Some ''file'')" "names_ok sample (Some ''app'') (Some ''su'') (Some ''file'')"
  by (simp_all add: names_ok_def)

lemma sample_perm_value [simp]:
  "perm_value sample (Some ''file'') (Some ''read'') = Some 1" "perm_value sample (Some ''file'') (Some ''write'') = Some 2"
  by (simp_all add: perm_value_def entry_opt_def sample_perm) (simp_all add: sample_perms_def)

lemma sample_ready [simp]: "policy_ready sample"
proof -
  have "v \<noteq> 0 \<and> v \<le> 32" if pv: "perm_value sample c perm = Some v" for c perm v
  proof (cases perm)
    case (Some n)
    then obtain cd d where "entry_opt (resolve (table (p_classes sample)) c) = Some cd" "find_perm cd n = Some d" "v = sint (pm_value d)"
      using pv by (auto simp: perm_value_def split: option.splits)
    moreover from this have "cd = sample_class"
      by (auto simp: resolve_def entry_opt_def split: option.splits if_splits)
    ultimately show ?thesis by (auto simp: sample_perm sample_perms_def split: if_splits)
  qed (use pv in \<open>simp add: perm_value_def\<close>)
  then show ?thesis by (simp add: policy_ready_def perms_ok_def)
qed

lemma bitmap_of_wf [simp]: "m \<noteq> 0 \<Longrightarrow> ebitmap_wf (bitmap_of m)"
  by (simp add: bitmap_of_def ebitmap_wf_def ebitmap_node_ok_def ebitmap_high_def)

lemma bitmap_of_bit [simp]: "unat i < 64 \<Longrightarrow> ebitmap_get_bit (bitmap_of m) i \<longleftrightarrow> bit m (unat i)"
  by (simp add: ebitmap_get_bit_def bitmap_of_def ebitmap_node_get_bit_def node_mask_def word_less_nat_alt word_le_nat_alt
      bit_iff_and_push_bit_not_eq_0[of m "unat i"])

lemma sample_maps [simp]: "attr_maps_ok sample"
  by (simp add: attr_maps_ok_def sample_types_def)

text \<open>The same policy with one rule: \<^verbatim>\<open>allow su app file read\<close>.\<close>

lemma sample_allow_simps [simp]:
  "type_attr_map sample_allow = type_attr_map sample" "p_classes sample_allow = p_classes sample"
  by (simp_all add: sample_allow_def)

lemma sample_allow_wf [simp]: "avtab_wf (te_avtab sample_allow)"
  by (simp add: sample_allow_def avtab_wf_def av_chain_ok_def plain_key_def av_id_def id_bucket_def avtab_hash_def
      spec_order_def av_kind_def Let_def)

lemma sample_allow_permits [simp]: "te_permits sample_allow (1, 2, 1, AVTAB_ALLOWED) 0"
  by (simp add: te_permits_def avtab_abs_def av_assoc_def avtab_nodes_def sample_allow_def av_id_def av_kind_def)

end
