(* ===== verification/Wire.thy ===== *)
theory Wire
  imports Prelude
begin

text \<open>
  The message primitives of the su daemon's socket (\<open>recv_fd\<close>, \<open>send_fd\<close>, \<open>read_int\<close>,
  \<open>write_int\<close>, \<open>read_string\<close>, \<open>write_string\<close> of \<^verbatim>\<open>src/jni/su/daemon.c\<close>).

  A stream socket carries cells: a byte, and the control message attached to it if the byte was
  sent with one: a file descriptor, or anything else a peer may send. What is to be read is the list of cells not yet consumed. A writer has the
  cells sent so far and the room left in the socket; a write that does not fit is short. A
  C \<open>int\<close> is a 32-bit word, read as \<open>sint\<close>. Leaving through \<open>exit(-1)\<close> is \<open>Exit (-1)\<close>.
\<close>

section \<open>Definitions\<close>

datatype control = ScmRights int | OtherControl

type_synonym cell = "u8 \<times> control option"

record out_chan =
  sent :: "cell list"
  room :: nat

abbreviation (input) PATH_MAX :: int where "PATH_MAX \<equiv> 4096"

definition plain :: "u8 list \<Rightarrow> cell list" where
  "plain bs = map (\<lambda>b. (b, None)) bs"

text \<open>
  \<open>recvmsg\<close> of one byte: the control message is absent, or of the size and kind of one descriptor
  (\<open>SOL_SOCKET\<close>, \<open>SCM_RIGHTS\<close>), or the function exits.
\<close>

definition recv_fd :: "cell list \<Rightarrow> (int \<times> cell list) outcome" where
  "recv_fd inp =
     (case inp of [] \<Rightarrow> Exit (-1)
      | (b, None) # rest \<Rightarrow> Ret (-1, rest)
      | (b, Some (ScmRights fd)) # rest \<Rightarrow> Ret (fd, rest)
      | (b, Some OtherControl) # rest \<Rightarrow> Exit (-1))"

text \<open>
  \<open>fd_open\<close> is what \<open>fcntl(fd, F_GETFD)\<close> finds: \<open>Some True\<close> for an open descriptor, \<open>Some False\<close>
  for \<open>EBADF\<close>, \<open>None\<close> for any other error.
\<close>

definition send_fd :: "(int \<Rightarrow> bool option) \<Rightarrow> out_chan \<Rightarrow> int \<Rightarrow> out_chan outcome" where
  "send_fd fd_open ch fd =
     (if fd \<noteq> -1 \<and> fd_open fd = None then Exit (-1)
      else
        let ctl = (if fd \<noteq> -1 \<and> fd_open fd = Some True then Some (ScmRights fd) else None) in
        if room ch < 1 then Exit (-1)
        else Ret (ch\<lparr>sent := sent ch @ [(0, ctl)], room := room ch - 1\<rparr>))"

definition read_int :: "cell list \<Rightarrow> (u32 \<times> cell list) outcome" where
  "read_int inp =
     (if length inp < 4 then Exit (-1)
      else Ret (le_word (map fst (take 4 inp)), drop 4 inp))"

definition write_bytes :: "out_chan \<Rightarrow> u8 list \<Rightarrow> out_chan outcome" where
  "write_bytes ch bs =
     (if room ch < length bs then Exit (-1)
      else Ret (ch\<lparr>sent := sent ch @ plain bs, room := room ch - length bs\<rparr>))"

definition write_int :: "out_chan \<Rightarrow> u32 \<Rightarrow> out_chan outcome" where
  "write_int ch val = write_bytes ch (le_bytes 4 val)"

definition read_string :: "bool \<Rightarrow> cell list \<Rightarrow> (string \<times> cell list) outcome" where
  "read_string mok inp =
     obind (read_int inp) (\<lambda>(w, inp).
       let len = sint w in
       if len > PATH_MAX \<or> len < 0 then Exit (-1)
       else if \<not> mok then Exit (-1)
       else if length inp < nat len then Exit (-1)
       else Ret (cstr_of (map (\<lambda>c. char_of (unat (fst c))) (take (nat len) inp)), drop (nat len) inp))"

definition write_string :: "out_chan \<Rightarrow> string \<Rightarrow> out_chan outcome" where
  "write_string ch val =
     obind (write_int ch (of_nat (length val))) (\<lambda>ch. write_bytes ch (map of_char val))"

section \<open>Lemmas\<close>

lemma plain_simps [simp]: "length (plain bs) = length bs" "plain (a @ b) = plain a @ plain b" "map fst (plain bs) = bs"
  by (simp_all add: plain_def comp_def)

definition encode_int :: "u32 \<Rightarrow> cell list" where
  "encode_int v = plain (le_bytes 4 v)"

definition encode_string :: "string \<Rightarrow> cell list" where
  "encode_string s = encode_int (of_nat (length s)) @ plain (map of_char s)"

lemma encode_lengths [simp]: "length (encode_int v) = 4" "length (encode_string s) = 4 + length s"
  by (simp_all add: encode_int_def encode_string_def)

lemma read_int_encode [simp]: "read_int (encode_int v @ rest) = Ret (v, rest)"
  by (simp add: read_int_def encode_int_def)

lemma char_of_byte [simp]: "char_of (unat (of_char c :: u8)) = c"
proof -
  have "of_char c < (256 :: nat)" by simp
  then have "unat (of_nat (of_char c) :: u8) = of_char c" by (simp add: unsigned_of_nat take_bit_nat_eq_self)
  then have "unat (of_char c :: u8) = of_char c" by (simp only: of_nat_of_char)
  then show ?thesis by simp
qed

lemma sint_of_nat32: "n < 2147483648 \<Longrightarrow> sint (of_nat n :: u32) = int n"
  by (simp add: signed_of_nat signed_take_bit_int_eq_self)

lemma read_string_encode [simp]:
  assumes "cstr s" and "length s \<le> 4096"
  shows "read_string True (encode_string s @ rest) = Ret (s, rest)"
  using assms by (simp add: read_string_def encode_string_def sint_of_nat32 plain_def comp_def)

lemma read_string_too_long:
  assumes "4096 < length s" and "length s < 2147483648"
  shows "read_string mok (encode_string s @ rest) = Exit (-1)"
  using assms by (simp add: read_string_def encode_string_def sint_of_nat32)

lemma recv_fd_simps [simp]:
  "recv_fd [] = Exit (-1)" "recv_fd ((b, None) # rest) = Ret (-1, rest)"
  "recv_fd ((b, Some (ScmRights fd)) # rest) = Ret (fd, rest)" "recv_fd ((b, Some OtherControl) # rest) = Exit (-1)"
  by (simp_all add: recv_fd_def)

text \<open>A writer with enough room appends the encoding.\<close>

definition append_cells :: "out_chan \<Rightarrow> cell list \<Rightarrow> out_chan" where
  "append_cells ch cs = ch\<lparr>sent := sent ch @ cs, room := room ch - length cs\<rparr>"

lemma append_cells_simps [simp]:
  "append_cells (append_cells ch a) b = append_cells ch (a @ b)"
  "sent (append_cells ch a) = sent ch @ a" "room (append_cells ch a) = room ch - length a"
  by (simp_all add: append_cells_def)

lemma write_int_ok [simp]: "4 \<le> room ch \<Longrightarrow> write_int ch v = Ret (append_cells ch (encode_int v))"
  by (simp add: write_int_def write_bytes_def append_cells_def encode_int_def)

lemma write_string_ok [simp]:
  "4 + length s \<le> room ch \<Longrightarrow> write_string ch s = Ret (append_cells ch (encode_string s))"
  by (simp add: write_string_def write_bytes_def encode_string_def append_cells_def)

definition encode_fd :: "(int \<Rightarrow> bool option) \<Rightarrow> int \<Rightarrow> cell" where
  "encode_fd fd_open fd = (0, if fd \<noteq> -1 \<and> fd_open fd = Some True then Some (ScmRights fd) else None)"

lemma send_fd_ok [simp]:
  "1 \<le> room ch \<Longrightarrow> fd = -1 \<or> fd_open fd \<noteq> None \<Longrightarrow> send_fd fd_open ch fd = Ret (append_cells ch [encode_fd fd_open fd])"
  by (auto simp: send_fd_def append_cells_def encode_fd_def)

lemma recv_fd_encode [simp]:
  "recv_fd (encode_fd fd_open fd # rest) = Ret (if fd \<noteq> -1 \<and> fd_open fd = Some True then fd else -1, rest)"
  by (simp add: encode_fd_def)

end
