(* ===== verification/Pts.thy ===== *)
theory Pts
  imports Prelude
begin

text \<open>
  Pseudo-terminal support of the su client (\<^verbatim>\<open>src/jni/su/pts.c\<close>): the pumps that copy data
  between the terminal and the daemon's PTY, opening a PTY, raw mode of standard input, and the
  thread that follows changes of the window size. What the kernel answers is given as input: the
  results of successive \<open>write\<close> and \<open>read\<close> calls as lists, the success of other calls as flags.
\<close>

section \<open>Definitions\<close>

subsection \<open>Pumps\<close>

text \<open>
  \<open>write_blocking\<close>: the return value, what was written, and the write results not used yet.
  \<open>None\<close> is a call that has not returned when the write results are used up.
\<close>

fun write_blocking :: "int list \<Rightarrow> u8 list \<Rightarrow> (int \<times> u8 list \<times> int list) option" where
  "write_blocking [] buf = None"
| "write_blocking (ret # rets) buf =
     (if ret = -1 then Some (-1, [], rets)
      else
        let out = take (nat ret) buf; left = drop (nat ret) buf in
        if left \<noteq> []
        then map_option (\<lambda>(rc, more, rets'). (rc, out @ more, rets')) (write_blocking rets left)
        else Some (0, out, rets))"

text \<open>
  \<open>pump_ex\<close>: the chunks that \<open>read\<close> returns, \<open>[]\<close> in the list being end of file or an error. The
  result is what was written, and which of the two descriptors were closed.
\<close>

fun pump_loop :: "u8 list list \<Rightarrow> int list \<Rightarrow> u8 list option" where
  "pump_loop [] rets = None"
| "pump_loop (chunk # chunks) rets =
     (if chunk = [] then Some []
      else case write_blocking rets chunk of
        None \<Rightarrow> None
      | Some (rc, out, rets') \<Rightarrow>
          if rc = -1 then Some out else map_option ((@) out) (pump_loop chunks rets'))"

definition pump_ex :: "int \<Rightarrow> int \<Rightarrow> bool \<Rightarrow> u8 list list \<Rightarrow> int list \<Rightarrow> (u8 list \<times> int list) option" where
  "pump_ex input output close_output chunks rets =
     map_option (\<lambda>out. (out, if close_output then [input, output] else [input])) (pump_loop chunks rets)"

definition pump :: "int \<Rightarrow> int \<Rightarrow> u8 list list \<Rightarrow> int list \<Rightarrow> (u8 list \<times> int list) option" where
  "pump input output = pump_ex input output True"

text \<open>\<open>pump_async\<close> packs the descriptors for the thread, which unpacks them and pumps.\<close>

definition pump_thread :: "int list \<Rightarrow> u8 list list \<Rightarrow> int list \<Rightarrow> (u8 list \<times> int list) option" where
  "pump_thread files = pump (files ! 0) (files ! 1)"

definition pump_async :: "bool \<Rightarrow> int \<Rightarrow> int \<Rightarrow> (u8 list list \<Rightarrow> int list \<Rightarrow> (u8 list \<times> int list) option) outcome" where
  "pump_async mok input output = (if \<not> mok then Exit (-1) else Ret (pump_thread [input, output]))"

subsection \<open>Opening a PTY\<close>

text \<open>\<open>strlcpy\<close>: the length it reports, and the destination as a C string.\<close>

definition strlcpy :: "string \<Rightarrow> nat \<Rightarrow> nat \<times> string" where
  "strlcpy src sz = (length src, take (sz - 1) src)"

record pty_env =
  ptmx :: "int option"
  slave :: "string option"
  grant_ok :: bool
  unlock_ok :: bool

text \<open>The return value, the slave's name where it was stored, and the descriptors left open.\<close>

definition pts_open :: "pty_env \<Rightarrow> nat \<Rightarrow> int \<times> string option \<times> int list" where
  "pts_open env slave_name_size =
     (case ptmx env of None \<Rightarrow> (-1, None, [])
      | Some fdm \<Rightarrow>
          (case slave env of None \<Rightarrow> (-2, None, [])
           | Some sn \<Rightarrow>
               (case strlcpy sn slave_name_size of (len, name) \<Rightarrow>
                  if len \<ge> slave_name_size then (-1, Some name, [fdm])
                  else if \<not> grant_ok env then (-1, Some name, [])
                  else if \<not> unlock_ok env then (-1, Some name, [])
                  else (fdm, Some name, [fdm]))))"

subsection \<open>Raw mode\<close>

record termios =
  c_iflag :: u32
  c_oflag :: u32
  c_lflag :: u32
  c_vmin :: u8
  c_vtime :: u8

record tty_state =
  stdin_tio :: termios
  old_stdin :: termios
  stdin_is_raw :: bool

abbreviation (input) IGNPAR :: u32 where "IGNPAR \<equiv> 0x4"
text \<open>\<open>ISTRIP | INLCR | IGNCR | ICRNL | IXON | IXANY | IXOFF\<close>, and the local flags cleared.\<close>
abbreviation (input) IFLAGS_OFF :: u32 where "IFLAGS_OFF \<equiv> 0x20 OR 0x40 OR 0x80 OR 0x100 OR 0x400 OR 0x800 OR 0x1000"
abbreviation (input) LFLAGS_OFF :: u32 where "LFLAGS_OFF \<equiv> 0x1 OR 0x2 OR 0x8 OR 0x10 OR 0x20 OR 0x40"
abbreviation (input) OPOST :: u32 where "OPOST \<equiv> 0x1"

definition raw_termios :: "termios \<Rightarrow> termios" where
  "raw_termios t = t\<lparr>c_iflag := (c_iflag t OR IGNPAR) AND NOT IFLAGS_OFF, c_lflag := c_lflag t AND NOT LFLAGS_OFF,
     c_oflag := c_oflag t AND NOT OPOST, c_vmin := 1, c_vtime := 0\<rparr>"

definition set_stdin_raw :: "bool \<Rightarrow> bool \<Rightarrow> tty_state \<Rightarrow> int \<times> tty_state" where
  "set_stdin_raw get_ok set_ok s =
     (if \<not> get_ok then (-1, s)
      else
        let s = s\<lparr>old_stdin := stdin_tio s\<rparr> in
        if \<not> set_ok then (-1, s)
        else (0, s\<lparr>stdin_tio := raw_termios (old_stdin s), stdin_is_raw := True\<rparr>))"

definition restore_stdin :: "bool \<Rightarrow> tty_state \<Rightarrow> int \<times> tty_state" where
  "restore_stdin set_ok s =
     (if \<not> stdin_is_raw s then (0, s)
      else if \<not> set_ok then (-1, s)
      else (0, s\<lparr>stdin_tio := old_stdin s, stdin_is_raw := False\<rparr>))"

subsection \<open>The window size watcher\<close>

text \<open>
  The watcher thread and the process it runs in. \<open>watcher_state\<close> is the place of the thread in its
  loop: waiting in \<open>sigwait\<close>, a signal taken, before the call that reads the size, before the call
  that sets the size just read, or out of the loop. \<open>blocked\<close>: \<open>SIGWINCH\<close> is blocked in every thread.
  A blocked signal waits where it was sent: \<open>pending\<close> is one sent to the process, which \<open>sigwait\<close> of
  any thread takes; \<open>raised\<close> is one sent by \<open>raise\<close>, which POSIX directs to the calling thread, so
  that \<open>sigwait\<close> of the watcher does not take it. A signal that is not blocked is ignored, the default
  action of \<open>SIGWINCH\<close>.
\<close>

datatype watcher = NotStarted | Waiting | Taken | Getting | Setting "nat \<times> nat" | Ended

record winch =
  watcher_state :: watcher
  closing_time :: bool
  blocked :: bool
  pending :: bool
  raised :: bool
  master_size :: "nat \<times> nat"
  slave_size :: "nat \<times> nat"

text \<open>
  \<open>watch_sigwinch\<close>, one step of the thread: \<open>sigwait\<close>, the test of \<open>closing_time\<close>, and the two
  \<open>ioctl\<close> calls, whose results are \<open>get_ok\<close> and \<open>set_ok\<close>. Without a signal the thread stays where it is.
\<close>

definition watch_sigwinch :: "bool \<Rightarrow> bool \<Rightarrow> winch \<Rightarrow> winch" where
  "watch_sigwinch get_ok set_ok w =
     (case watcher_state w of
        Waiting \<Rightarrow> if pending w then w\<lparr>pending := False, watcher_state := Taken\<rparr> else w
      | Taken \<Rightarrow> w\<lparr>watcher_state := if closing_time w then Ended else Getting\<rparr>
      | Getting \<Rightarrow> w\<lparr>watcher_state := if get_ok then Setting (master_size w) else Waiting\<rparr>
      | Setting sz \<Rightarrow> w\<lparr>watcher_state := Waiting, slave_size := if set_ok then sz else slave_size w\<rparr>
      | NotStarted \<Rightarrow> w
      | Ended \<Rightarrow> w)"

definition raise_winch :: "winch \<Rightarrow> winch" where
  "raise_winch w = w\<lparr>raised := raised w \<or> blocked w\<rparr>"

text \<open>A failing \<open>pthread_create\<close> leaves the signal blocked.\<close>

definition watch_sigwinch_async :: "bool \<Rightarrow> bool \<Rightarrow> bool \<Rightarrow> winch \<Rightarrow> int \<times> winch" where
  "watch_sigwinch_async mok mask_ok thread_ok w =
     (if \<not> mok then (-1, w)
      else if \<not> mask_ok then (-1, w)
      else
        let w = w\<lparr>blocked := True, closing_time := False\<rparr> in
        if \<not> thread_ok then (-1, w)
        else (0, raise_winch (w\<lparr>watcher_state := Waiting\<rparr>)))"

definition watch_sigwinch_cleanup :: "winch \<Rightarrow> winch" where
  "watch_sigwinch_cleanup w = raise_winch (w\<lparr>closing_time := True\<rparr>)"

text \<open>
  What can happen, one event at a time: the user resizes the terminal and the kernel sends the signal
  to the process; the thread makes a step; another thread is in \<open>watch_sigwinch_cleanup\<close>, which sets
  the flag and then raises the signal.
\<close>

datatype winch_event = Resize "nat \<times> nat" | Watch bool bool | Close | Raise

fun winch_step :: "winch_event \<Rightarrow> winch \<Rightarrow> winch" where
  "winch_step (Resize sz) w = w\<lparr>master_size := sz, pending := pending w \<or> blocked w\<rparr>"
| "winch_step (Watch get_ok set_ok) w = watch_sigwinch get_ok set_ok w"
| "winch_step Close w = w\<lparr>closing_time := True\<rparr>"
| "winch_step Raise w = raise_winch w"

definition winch_run :: "winch_event list \<Rightarrow> winch \<Rightarrow> winch" where
  "winch_run es w = fold winch_step es w"

subsection \<open>Standard input and output\<close>

definition pump_stdin_async :: "bool \<Rightarrow> bool \<Rightarrow> bool \<Rightarrow> int \<Rightarrow> tty_state \<Rightarrow> tty_state outcome" where
  "pump_stdin_async get_ok set_ok mok outfd s =
     (let s = snd (set_stdin_raw get_ok set_ok s) in obind (pump_async mok 0 outfd) (\<lambda>_. Ret s))"

definition pump_stdout_blocking ::
  "int \<Rightarrow> u8 list list \<Rightarrow> int list \<Rightarrow> bool \<Rightarrow> tty_state \<Rightarrow> winch \<Rightarrow> (u8 list \<times> tty_state \<times> winch) option" where
  "pump_stdout_blocking infd chunks rets set_ok s w =
     map_option (\<lambda>(out, _). (out, snd (restore_stdin set_ok s), watch_sigwinch_cleanup w))
       (pump_ex infd 1 False chunks rets)"

section \<open>Lemmas\<close>

text \<open>A kernel that always accepts something and never more than it is given.\<close>

fun write_blocking_ok :: "int list \<Rightarrow> nat \<Rightarrow> bool" where
  "write_blocking_ok [] n = False"
| "write_blocking_ok (r # rs) n = (0 \<le> r \<and> (if nat r \<ge> n then True else write_blocking_ok rs (n - nat r)))"

lemma write_blocking_complete:
  assumes "write_blocking_ok rets (length buf)"
  shows "\<exists>rets'. write_blocking rets buf = Some (0, buf, rets')"
  using assms
proof (induction rets buf rule: write_blocking.induct)
  case (2 ret rets buf)
  then show ?case
  proof (cases "nat ret \<ge> length buf")
    case True
    with 2 show ?thesis by auto
  next
    case False
    with 2(2) have r: "0 \<le> ret" "write_blocking_ok rets (length (drop (nat ret) buf))" by auto
    with False obtain rets' where "write_blocking rets (drop (nat ret) buf) = Some (0, drop (nat ret) buf, rets')"
      using 2(1) by auto
    with r False show ?thesis by auto
  qed
qed simp

text \<open>Whatever the kernel answers, a pump writes a prefix of what it read.\<close>

lemma write_blocking_prefix:
  "write_blocking rets buf = Some (rc, out, rets') \<Longrightarrow> \<exists>rest. buf = out @ rest \<and> (rc = 0 \<longrightarrow> rest = []) \<and> (rc = 0 \<or> rc = -1)"
proof (induction rets buf arbitrary: rc out rets' rule: write_blocking.induct)
  case (2 ret rets buf)
  show ?case
  proof (cases "ret = -1 \<or> drop (nat ret) buf = []")
    case True
    with 2(2) show ?thesis by (auto simp: Let_def split: if_splits)
  next
    case False
    with 2(2) obtain more where m: "write_blocking rets (drop (nat ret) buf) = Some (rc, more, rets')" "out = take (nat ret) buf @ more"
      by (auto simp: Let_def)
    with 2(1) False obtain rest where "drop (nat ret) buf = more @ rest" "rc = 0 \<longrightarrow> rest = []" "rc = 0 \<or> rc = -1" by blast
    with m(2) show ?thesis by (metis append.assoc append_take_drop_id)
  qed
qed simp

lemma pump_prefix: "pump_loop chunks rets = Some out \<Longrightarrow> \<exists>rest. concat chunks = out @ rest"
proof (induction chunks rets arbitrary: out rule: pump_loop.induct)
  case (2 chunk chunks rets)
  show ?case
  proof (cases "chunk = []")
    case False
    with 2(2) obtain rc o1 rets' where w: "write_blocking rets chunk = Some (rc, o1, rets')"
      by (auto split: option.splits)
    then obtain rest where r: "chunk = o1 @ rest" "rc = 0 \<longrightarrow> rest = []" "rc = 0 \<or> rc = -1"
      using write_blocking_prefix by blast
    show ?thesis
    proof (cases "rc = -1")
      case True
      with 2(2) False w r show ?thesis by auto
    next
      case rc: False
      with 2(2) False w obtain o2 where o2: "pump_loop chunks rets' = Some o2" "out = o1 @ o2" by auto
      with 2(1)[OF False w refl refl rc o2(1)] r rc show ?thesis by auto
    qed
  qed (use 2 in auto)
qed simp

text \<open>
  A kernel that never reports an error and accepts something often enough: every positive result
  takes at least one byte of the buffer, so that as many of them as there are bytes are enough.
\<close>

definition accepting :: "int list \<Rightarrow> nat" where
  "accepting rets = length (filter (\<lambda>r. 0 < r) rets)"

lemma accepting_Cons [simp]: "accepting (r # rets) = (if 0 < r then Suc (accepting rets) else accepting rets)"
  by (simp add: accepting_def)

lemma write_blocking_accepted:
  assumes "buf \<noteq> []" and "\<forall>r \<in> set rets. 0 \<le> r" and "length buf \<le> accepting rets"
  shows "\<exists>rets'. write_blocking rets buf = Some (0, buf, rets') \<and> set rets' \<subseteq> set rets \<and>
    accepting rets \<le> accepting rets' + length buf"
  using assms
proof (induction rets arbitrary: buf)
  case (Cons r rets)
  show ?case
  proof (cases "nat r < length buf")
    case True
    with Cons.prems have "drop (nat r) buf \<noteq> []" "length (drop (nat r) buf) \<le> accepting rets"
      by (auto split: if_splits)
    with Cons.IH[of "drop (nat r) buf"] Cons.prems(2) obtain rets' where
      w: "write_blocking rets (drop (nat r) buf) = Some (0, drop (nat r) buf, rets')" "set rets' \<subseteq> set rets"
        "accepting rets \<le> accepting rets' + length (drop (nat r) buf)" by auto
    moreover have "accepting (r # rets) \<le> accepting rets' + length buf" using w(3) True by (auto split: if_splits)
    ultimately show ?thesis using True Cons.prems(2) by auto
  next
    case False
    then have "accepting (r # rets) \<le> accepting rets + length buf" using Cons.prems(1) by (cases buf) auto
    with False Cons.prems(2) show ?thesis by auto
  qed
qed (simp add: accepting_def)

lemma pump_delivers:
  assumes "\<forall>c \<in> set chunks. c \<noteq> []" and "\<forall>r \<in> set rets. 0 \<le> r" and "length (concat chunks) \<le> accepting rets"
  shows "pump_loop (chunks @ [] # later) rets = Some (concat chunks)"
  using assms
proof (induction chunks arbitrary: rets)
  case (Cons c cs)
  with write_blocking_accepted[of c rets] obtain rets' where
    w: "write_blocking rets c = Some (0, c, rets')" "set rets' \<subseteq> set rets" "accepting rets \<le> accepting rets' + length c"
    by auto
  then have "pump_loop (cs @ [] # later) rets' = Some (concat cs)" using Cons.prems by (intro Cons.IH) auto
  with w(1) Cons.prems(1) show ?case by simp
qed simp

lemma restore_after_raw:
  assumes "\<not> stdin_is_raw s" and "set_stdin_raw True True s = (0, s1)" and "restore_stdin True s1 = (rc, s2)"
  shows "rc = 0" and "stdin_tio s2 = stdin_tio s" and "\<not> stdin_is_raw s2"
  using assms by (auto simp: set_stdin_raw_def restore_stdin_def Let_def)

lemma restore_twice: "restore_stdin True (snd (restore_stdin True s)) = (0, snd (restore_stdin True s))"
  by (simp add: restore_stdin_def)

subsection \<open>The window size watcher\<close>

lemma winch_run_simps [simp]:
  "winch_run [] w = w" "winch_run (e # es) w = winch_run es (winch_step e w)"
  "winch_run (es @ [e]) w = winch_step e (winch_run es w)"
  by (simp_all add: winch_run_def)

lemma cleanup_events: "watch_sigwinch_cleanup w = winch_run [Close, Raise] w"
  by (simp add: watch_sigwinch_cleanup_def)

text \<open>
  No event looks at a raised signal: that \<open>watch_sigwinch_async\<close> raises one after the thread was
  created gives the same runs as raising it before the thread's first step.
\<close>

lemma raise_commutes: "winch_step e (raise_winch w) = raise_winch (winch_step e w)"
  by (cases e) (simp_all add: raise_winch_def watch_sigwinch_def split: watcher.splits)

lemma winch_blocked [simp]: "blocked (winch_run es w) = blocked w"
proof (induction es rule: rev_induct)
  case (snoc e es)
  then show ?case by (cases e) (simp_all add: raise_winch_def watch_sigwinch_def split: watcher.splits)
qed simp

definition resizes :: "winch_event list \<Rightarrow> (nat \<times> nat) set" where
  "resizes es = {sz. Resize sz \<in> set es}"

lemma resizes_simps [simp]:
  "resizes [] = {}" "resizes (es @ [Resize sz]) = insert sz (resizes es)" "resizes (es @ [Watch g s]) = resizes es"
  "resizes (es @ [Close]) = resizes es" "resizes (es @ [Raise]) = resizes es"
  by (auto simp: resizes_def)

text \<open>Without a resize no signal reaches the thread, whatever is raised.\<close>

definition idle :: "winch \<Rightarrow> winch \<Rightarrow> bool" where
  "idle w0 w \<longleftrightarrow> watcher_state w = Waiting \<and> \<not> pending w \<and> slave_size w = slave_size w0"

lemma winch_idle:
  assumes "idle w0 w" and "resizes es = {}"
  shows "idle w0 (winch_run es w)"
  using assms(2)
proof (induction es rule: rev_induct)
  case (snoc e es)
  then show ?case by (cases e) (auto simp: idle_def watch_sigwinch_def raise_winch_def)
qed (simp add: assms(1))

lemma winch_closing: "closing_time (winch_run es w) \<longleftrightarrow> closing_time w \<or> Close \<in> set es"
proof (induction es rule: rev_induct)
  case (snoc e es)
  then show ?case by (cases e) (auto simp: watch_sigwinch_def raise_winch_def split: watcher.splits)
qed simp

lemma winch_ended:
  assumes "watcher_state w = Waiting"
  shows "watcher_state (winch_run es w) = Ended \<Longrightarrow> closing_time (winch_run es w)"
proof (induction es rule: rev_induct)
  case (snoc e es)
  then show ?case by (cases e) (auto simp: watch_sigwinch_def raise_winch_def split: watcher.splits if_splits)
qed (simp add: assms)

text \<open>The sizes in play are those the terminal has had.\<close>

definition sizes_known :: "(nat \<times> nat) set \<Rightarrow> (nat \<times> nat) set \<Rightarrow> winch \<Rightarrow> bool" where
  "sizes_known S T w \<longleftrightarrow> master_size w \<in> S \<and> slave_size w \<in> S \<union> T \<and> (\<forall>sz. watcher_state w = Setting sz \<longrightarrow> sz \<in> S)"

lemma winch_sizes:
  assumes "watcher_state w = Waiting"
  shows "sizes_known (insert (master_size w) (resizes es)) {slave_size w} (winch_run es w)"
proof (induction es rule: rev_induct)
  case (snoc e es)
  then show ?case
    by (cases e) (auto simp: sizes_known_def watch_sigwinch_def raise_winch_def split: watcher.splits if_splits)
qed (simp add: sizes_known_def assms)

text \<open>After a resize the thread is on its way to the size of the terminal, as long as no \<open>ioctl\<close> fails.\<close>

definition following :: "winch \<Rightarrow> bool" where
  "following w \<longleftrightarrow> pending w \<or>
     (case watcher_state w of Waiting \<Rightarrow> slave_size w = master_size w | Setting sz \<Rightarrow> sz = master_size w | _ \<Rightarrow> True)"

lemma following_step:
  "blocked w \<Longrightarrow> following (winch_step (Resize sz) w)" "following w \<Longrightarrow> following (winch_step Close w)"
  "following w \<Longrightarrow> following (winch_step Raise w)" "following w \<Longrightarrow> following (winch_step (Watch True True) w)"
  by (auto simp: following_def watch_sigwinch_def raise_winch_def split: watcher.splits)

lemma winch_following:
  assumes "blocked w" and "\<forall>g s. Watch g s \<in> set es \<longrightarrow> g \<and> s" and "resizes es \<noteq> {}"
  shows "following (winch_run es w)"
  using assms(2,3)
proof (induction es rule: rev_induct)
  case (snoc e es)
  then have ok: "\<forall>g s. Watch g s \<in> set es \<longrightarrow> g \<and> s" by auto
  show ?case
  proof (cases e)
    case (Watch g s)
    then have "g" "s" using snoc.prems(1) by auto
    with Watch snoc ok show ?thesis using following_step(4) by simp
  qed (use snoc ok following_step assms(1) in simp_all)
qed simp

text \<open>A resize after the flag was set ends the thread within four of its steps.\<close>

definition ending :: "winch \<Rightarrow> bool" where
  "ending w \<longleftrightarrow> closing_time w \<and> watcher_state w \<noteq> NotStarted \<and> (pending w \<or> watcher_state w = Taken \<or> watcher_state w = Ended)"

lemma ending_event: "ending w \<Longrightarrow> ending (winch_step e w)"
  by (cases e) (auto simp: ending_def watch_sigwinch_def raise_winch_def split: watcher.splits)

lemma ending_run: "ending w \<Longrightarrow> ending (winch_run es w)"
  by (induction es rule: rev_induct) (simp_all add: ending_event)

lemma winch_started: "watcher_state w \<noteq> NotStarted \<Longrightarrow> watcher_state (winch_run es w) \<noteq> NotStarted"
proof (induction es rule: rev_induct)
  case (snoc e es)
  then show ?case by (cases e) (auto simp: watch_sigwinch_def raise_winch_def split: watcher.splits)
qed simp

lemma winch_run_append [simp]: "winch_run (es @ es') w = winch_run es' (winch_run es w)"
  by (simp add: winch_run_def)

lemma winch_ending:
  assumes "blocked w" and "watcher_state w \<noteq> NotStarted"
  shows "ending (winch_run (es @ Close # es' @ Resize sz # es'') w)"
proof -
  have "closing_time (winch_run (es @ Close # es') w)" "watcher_state (winch_run (es @ Close # es') w) \<noteq> NotStarted"
    using assms winch_started[of w "es @ Close # es'"] winch_closing[of "es @ Close # es'" w] by simp_all
  then have "ending (winch_step (Resize sz) (winch_run (es @ Close # es') w))" using assms(1) by (simp add: ending_def)
  from ending_run[OF this, of es''] show ?thesis by simp
qed

lemma ending_ends:
  assumes "ending w"
  shows "watcher_state (winch_run [Watch g1 s1, Watch g2 s2, Watch g3 s3, Watch g4 s4] w) = Ended"
  using assms by (cases "watcher_state w") (auto simp: ending_def watch_sigwinch_def)

end
