(* ===== verification/Getopt.thy ===== *)
theory Getopt
  imports Prelude
begin

text \<open>
  Option parsing of \<^verbatim>\<open>su\<close>: the C library's \<open>getopt_long\<close> with the option tables of \<open>su_main\<close>
  (\<^verbatim>\<open>src/jni/su/su.c\<close>), and the loop over it. The leading \<open>+\<close> of the short options stops the
  parser at the first argument that is not an option, so \<open>argv\<close> is never permuted.
\<close>

section \<open>Definitions\<close>

text \<open>The long options, their arguments and the character each is read as; the short ones.\<close>

definition long_opts :: "(string \<times> bool \<times> char) list" where
  "long_opts = [(''command'', True, CHR ''c''), (''help'', False, CHR ''h''), (''login'', False, CHR ''l''),
     (''preserve-environment'', False, CHR ''p''), (''shell'', True, CHR ''s''), (''version'', False, CHR ''v'')]"

definition short_opts :: "(char \<times> bool) list" where
  "short_opts = [(CHR ''c'', True), (CHR ''h'', False), (CHR ''l'', False), (CHR ''m'', False), (CHR ''p'', False),
     (CHR ''s'', True), (CHR ''V'', False), (CHR ''v'', False)]"

text \<open>
  What one call of \<open>getopt_long\<close> gives: an option with \<open>optarg\<close>, an error (the character \<open>?\<close>), or
  \<open>-1\<close>. \<open>place\<close> is the rest of a group of short options.
\<close>

datatype opt = Opt char "string option" | OptError | OptEnd

record getopt_state =
  optind :: nat
  place :: string

text \<open>
  A long option matches by its full name or by an unambiguous beginning of it; its argument
  follows \<open>=\<close> or is the next element of \<open>argv\<close>.
\<close>

definition match_long :: "string \<Rightarrow> (string \<times> bool \<times> char) option" where
  "match_long name =
     (case List.find (\<lambda>(n, _). n = name) long_opts of
        Some m \<Rightarrow> Some m
      | None \<Rightarrow>
          (case filter (\<lambda>(n, _). take (length name) n = name) long_opts of [m] \<Rightarrow> Some m | _ \<Rightarrow> None))"

definition parse_long :: "string list \<Rightarrow> string \<Rightarrow> nat \<Rightarrow> opt \<times> getopt_state" where
  "parse_long argv body i =
     (let name = takeWhile (\<lambda>c. c \<noteq> CHR ''='') body;
          value = (if CHR ''='' \<in> set body then Some (tl (dropWhile (\<lambda>c. c \<noteq> CHR ''='') body)) else None);
          st = (\<lambda>n. \<lparr>optind = n, place = []\<rparr>) in
      case match_long name of
        None \<Rightarrow> (OptError, st (Suc i))
      | Some (_, has_arg, val) \<Rightarrow>
          if \<not> has_arg then (if value \<noteq> None then (OptError, st (Suc i)) else (Opt val None, st (Suc i)))
          else
            (case value of
               Some v \<Rightarrow> (Opt val (Some v), st (Suc i))
             | None \<Rightarrow>
                 if Suc i < length argv then (Opt val (Some (argv ! Suc i)), st (Suc (Suc i)))
                 else (OptError, st (Suc i))))"

text \<open>A dash that ends a group of short options ends the parsing, without moving \<open>optind\<close>.\<close>

definition parse_short :: "string list \<Rightarrow> char \<Rightarrow> string \<Rightarrow> nat \<Rightarrow> opt \<times> getopt_state" where
  "parse_short argv c rest i =
     (let next = \<lparr>optind = (if rest = [] then Suc i else i), place = rest\<rparr> in
      case map_of short_opts c of
        None \<Rightarrow> if c = CHR ''-'' \<and> rest = [] then (OptEnd, \<lparr>optind = i, place = []\<rparr>) else (OptError, next)
      | Some False \<Rightarrow> (Opt c None, next)
      | Some True \<Rightarrow>
          if rest \<noteq> [] then (Opt c (Some rest), \<lparr>optind = Suc i, place = []\<rparr>)
          else if Suc i < length argv then (Opt c (Some (argv ! Suc i)), \<lparr>optind = Suc (Suc i), place = []\<rparr>)
          else (OptError, \<lparr>optind = Suc i, place = []\<rparr>))"

definition getopt_long :: "string list \<Rightarrow> getopt_state \<Rightarrow> opt \<times> getopt_state" where
  "getopt_long argv st =
     (case place st of
        c # rest \<Rightarrow> parse_short argv c rest (optind st)
      | [] \<Rightarrow>
          if optind st \<ge> length argv then (OptEnd, st)
          else
            let a = argv ! optind st in
            if a = ''--'' then (OptEnd, \<lparr>optind = Suc (optind st), place = []\<rparr>)
            else if take 2 a = ''--'' then parse_long argv (drop 2 a) (optind st)
            else if length a \<ge> 2 \<and> hd a = CHR ''-'' then parse_short argv (a ! 1) (drop 2 a) (optind st)
            else (OptEnd, st))"

subsection \<open>The options of su\<close>

record su_options =
  o_login :: bool
  o_keepenv :: bool
  o_shell :: "string option"
  o_command :: "string option"

abbreviation DEFAULT_SHELL :: string where "DEFAULT_SHELL \<equiv> ''/system/bin/sh''"

text \<open>
  The switch on the option character: \<open>-h\<close>, \<open>-V\<close> and \<open>-v\<close> print a text and leave with status 0,
  an unknown option or a missing argument leaves with status 2.
\<close>

definition su_option :: "opt \<Rightarrow> su_options \<Rightarrow> su_options outcome" where
  "su_option op os =
     (case op of
        Opt c arg \<Rightarrow>
          if c = CHR ''c'' then Ret (os\<lparr>o_shell := Some DEFAULT_SHELL, o_command := arg\<rparr>)
          else if c = CHR ''h'' then Exit 0
          else if c = CHR ''l'' then Ret (os\<lparr>o_login := True\<rparr>)
          else if c = CHR ''m'' \<or> c = CHR ''p'' then Ret (os\<lparr>o_keepenv := True\<rparr>)
          else if c = CHR ''s'' then Ret (os\<lparr>o_shell := arg\<rparr>)
          else if c = CHR ''V'' \<or> c = CHR ''v'' then Exit 0
          else Exit 2
      | OptError \<Rightarrow> Exit 2
      | OptEnd \<Rightarrow> Ret os)"

text \<open>What is left to parse, in characters: every option takes some of it.\<close>

definition args_left :: "string list \<Rightarrow> nat \<Rightarrow> nat" where
  "args_left argv i = sum_list (map (\<lambda>a. Suc (length a)) (drop i argv))"

definition getopt_left :: "string list \<Rightarrow> getopt_state \<Rightarrow> nat" where
  "getopt_left argv st =
     (if place st = [] then args_left argv (optind st) else length (place st) + args_left argv (Suc (optind st)))"

lemma args_left_step: "i < length argv \<Longrightarrow> args_left argv i = Suc (length (argv ! i)) + args_left argv (Suc i)"
  by (simp add: args_left_def Cons_nth_drop_Suc[symmetric])

lemma args_left_Suc: "args_left argv (Suc i) \<le> args_left argv i"
  by (cases "i < length argv") (simp_all add: args_left_step, simp add: args_left_def)

lemma args_left_Suc_Suc: "args_left argv (Suc (Suc i)) \<le> args_left argv (Suc i)"
  by (rule args_left_Suc)

lemma parse_short_left:
  "parse_short argv c rest i = (op, st) \<Longrightarrow> op \<noteq> OptEnd \<Longrightarrow> getopt_left argv st \<le> length rest + args_left argv (Suc i)"
  using args_left_Suc[of argv "Suc i"]
  by (auto simp: parse_short_def getopt_left_def Let_def split: option.splits bool.splits if_splits)

lemma parse_long_left: "parse_long argv body i = (op, st) \<Longrightarrow> getopt_left argv st \<le> args_left argv (Suc i)"
  using args_left_Suc[of argv "Suc i"]
  by (auto simp: parse_long_def getopt_left_def Let_def split: option.splits prod.splits if_splits)

lemma getopt_left_decreases:
  assumes "getopt_long argv st = (op, st')" and "op \<noteq> OptEnd"
  shows "getopt_left argv st' < getopt_left argv st"
proof (cases "place st")
  case (Cons c rest)
  with assms(1) have "getopt_left argv st' \<le> length rest + args_left argv (Suc (optind st))"
    using parse_short_left assms(2) by (simp add: getopt_long_def)
  with Cons show ?thesis by (simp add: getopt_left_def)
next
  case Nil
  with assms have i: "optind st < length argv" by (auto simp: getopt_long_def split: if_splits)
  have left: "getopt_left argv st = Suc (length (argv ! optind st)) + args_left argv (Suc (optind st))"
    using Nil i by (simp add: getopt_left_def args_left_step)
  let ?a = "argv ! optind st"
  from assms Nil i consider
      "parse_long argv (drop 2 ?a) (optind st) = (op, st')"
    | "parse_short argv (?a ! 1) (drop 2 ?a) (optind st) = (op, st')"
    by (auto simp: getopt_long_def Let_def  split: if_splits)
  then show ?thesis
    by cases (use left assms(2) in \<open>fastforce dest: parse_long_left parse_short_left\<close>)+
qed

function su_getopt :: "string list \<Rightarrow> getopt_state \<Rightarrow> su_options \<Rightarrow> (nat \<times> su_options) outcome" where
  "su_getopt argv st os =
     (case getopt_long argv st of (op, st') \<Rightarrow>
        if op = OptEnd then Ret (optind st', os)
        else obind (su_option op os) (\<lambda>os. su_getopt argv st' os))"
  by pat_completeness auto

termination
  by (relation "measure (\<lambda>(argv, st, _). getopt_left argv st)") (use getopt_left_decreases in force)+

declare su_getopt.simps [simp del]

section \<open>Lemmas\<close>

subsection \<open>Bounds of optind\<close>

definition getopt_inv :: "string list \<Rightarrow> getopt_state \<Rightarrow> bool" where
  "getopt_inv argv st \<longleftrightarrow> optind st \<le> length argv \<and> (place st \<noteq> [] \<longrightarrow> optind st < length argv)"

lemma parse_short_inv:
  assumes "parse_short argv c rest i = (op, st)" and "i < length argv"
  shows "getopt_inv argv st \<and> i \<le> optind st"
  using assms by (auto simp: parse_short_def getopt_inv_def Let_def split: option.splits bool.splits if_splits)

lemma parse_long_inv:
  assumes "parse_long argv body i = (op, st)" and "i < length argv"
  shows "getopt_inv argv st \<and> i \<le> optind st"
  using assms by (auto simp: parse_long_def getopt_inv_def Let_def split: option.splits prod.splits if_splits)

lemma getopt_long_inv:
  assumes "getopt_long argv st = (op, st')" and "getopt_inv argv st"
  shows "getopt_inv argv st' \<and> optind st \<le> optind st'"
proof (cases "place st")
  case (Cons c rest)
  with assms show ?thesis using parse_short_inv[of argv c rest "optind st"]
    by (simp add: getopt_long_def getopt_inv_def[of _ st])
next
  case Nil
  with assms show ?thesis
    by (auto simp: getopt_long_def Let_def getopt_inv_def[of _ st] split: if_splits
        dest!: parse_short_inv parse_long_inv) (auto simp: getopt_inv_def)
qed

subsection \<open>Options with an argument\<close>

lemma match_long_in:
  assumes "match_long name = Some m"
  shows "m \<in> set long_opts"
proof (cases "List.find (\<lambda>(n, _). n = name) long_opts")
  case None
  with assms have "filter (\<lambda>(n, _). take (length name) n = name) long_opts = [m]"
    by (auto simp: match_long_def split: list.splits)
  then have "m \<in> set (filter (\<lambda>(n, _). take (length name) n = name) long_opts)" by simp
  then show ?thesis by (simp only: set_filter) simp
next
  case (Some m')
  with assms show ?thesis by (auto simp: match_long_def find_Some_iff in_set_conv_nth)
qed

lemma long_opts_arg: "(n, has_arg, c) \<in> set long_opts \<Longrightarrow> has_arg = (c = CHR ''c'' \<or> c = CHR ''s'')"
  by (auto simp: long_opts_def)

lemma short_opts_arg: "map_of short_opts c = Some has_arg \<Longrightarrow> has_arg = (c = CHR ''c'' \<or> c = CHR ''s'')"
  by (auto simp: short_opts_def split: if_splits)

lemma parse_long_arg:
  assumes "parse_long argv body i = (Opt c arg, st)" and "c = CHR ''c'' \<or> c = CHR ''s''"
  shows "arg \<noteq> None \<and> Suc i \<le> optind st"
  using assms
  by (auto simp: parse_long_def Let_def split: option.splits prod.splits if_splits
      dest!: match_long_in long_opts_arg)

lemma parse_short_arg:
  assumes "parse_short argv c' rest i = (Opt c arg, st)" and "c = CHR ''c'' \<or> c = CHR ''s''"
  shows "arg \<noteq> None \<and> Suc i \<le> optind st"
  using assms
  by (auto simp: parse_short_def Let_def split: option.splits bool.splits if_splits dest!: short_opts_arg)

lemma getopt_long_arg:
  assumes "getopt_long argv st = (Opt c arg, st')" and "c = CHR ''c'' \<or> c = CHR ''s''"
  shows "arg \<noteq> None \<and> Suc (optind st) \<le> optind st'"
  using assms(1) parse_short_arg[OF _ assms(2)] parse_long_arg[OF _ assms(2)]
  by (auto simp: getopt_long_def Let_def split: list.splits if_splits)

text \<open>What the option loop leaves behind.\<close>

definition options_inv :: "getopt_state \<Rightarrow> su_options \<Rightarrow> bool" where
  "options_inv st os \<longleftrightarrow> 1 \<le> optind st \<and> (o_command os \<noteq> None \<longrightarrow> o_shell os \<noteq> None \<and> 2 \<le> optind st)"

lemma options_inv_step:
  assumes "getopt_long argv st = (op, st')" and "getopt_inv argv st" and "options_inv st os"
    and "su_option op os = Ret os'"
  shows "options_inv st' os'"
  using assms(3,4) getopt_long_inv[OF assms(1,2)] getopt_long_arg[of argv st _ _ st'] assms(1)
  by (auto simp: options_inv_def su_option_def split: opt.splits if_splits)

lemma su_getopt_inv:
  assumes "su_getopt argv st os = Ret (i, os')" and "getopt_inv argv st" and "options_inv st os"
  shows "i \<le> length argv \<and> 1 \<le> i \<and> (o_command os' \<noteq> None \<longrightarrow> o_shell os' \<noteq> None \<and> 2 \<le> i)"
  using assms
proof (induction argv st os rule: su_getopt.induct)
  case (1 argv st os)
  obtain op st' where g: "getopt_long argv st = (op, st')" by fastforce
  note inv = getopt_long_inv[OF g 1(3)]
  show ?case
  proof (cases "op = OptEnd")
    case True
    with 1(2,4) g inv show ?thesis
      by (subst (asm) su_getopt.simps) (auto simp: getopt_inv_def options_inv_def)
  next
    case False
    with 1(2) g obtain os1 where "su_option op os = Ret os1" "su_getopt argv st' os1 = Ret (i, os')"
      by (subst (asm) su_getopt.simps) auto
    then show ?thesis using 1(1)[OF g[symmetric] False] inv options_inv_step[OF g 1(3,4)] by blast
  qed
qed

subsection \<open>Printing options and reading them back\<close>

definition option_args :: "su_options \<Rightarrow> string list" where
  "option_args os =
     (if o_login os then [''-l''] else []) @ (if o_keepenv os then [''-p''] else []) @
     (case o_command os of Some c \<Rightarrow> [''-c'', c] | None \<Rightarrow> []) @ (case o_shell os of Some s \<Rightarrow> [''-s'', s] | None \<Rightarrow> [])"

definition not_option :: "string list \<Rightarrow> bool" where
  "not_option rest \<longleftrightarrow> rest = [] \<or> hd rest = [] \<or> hd (hd rest) \<noteq> CHR ''-'' \<or> hd rest = ''-''"

lemmas getopt_step = getopt_long_def parse_short_def short_opts_def su_option_def nth_append Let_def

lemma su_getopt_flag:
  "su_getopt (pre @ ''-l'' # suf) \<lparr>optind = length pre, place = []\<rparr> os =
     su_getopt (pre @ ''-l'' # suf) \<lparr>optind = Suc (length pre), place = []\<rparr> (os\<lparr>o_login := True\<rparr>)"
  "su_getopt (pre @ ''-p'' # suf) \<lparr>optind = length pre, place = []\<rparr> os =
     su_getopt (pre @ ''-p'' # suf) \<lparr>optind = Suc (length pre), place = []\<rparr> (os\<lparr>o_keepenv := True\<rparr>)"
  by (subst su_getopt.simps, simp add: getopt_step)+

lemma su_getopt_arg:
  "su_getopt (pre @ ''-c'' # c # suf) \<lparr>optind = length pre, place = []\<rparr> os =
     su_getopt (pre @ ''-c'' # c # suf) \<lparr>optind = Suc (Suc (length pre)), place = []\<rparr>
       (os\<lparr>o_shell := Some DEFAULT_SHELL, o_command := Some c\<rparr>)"
  "su_getopt (pre @ ''-s'' # s # suf) \<lparr>optind = length pre, place = []\<rparr> os =
     su_getopt (pre @ ''-s'' # s # suf) \<lparr>optind = Suc (Suc (length pre)), place = []\<rparr> (os\<lparr>o_shell := Some s\<rparr>)"
  by (subst su_getopt.simps, simp add: getopt_step)+

lemma su_getopt_end:
  assumes "not_option suf"
  shows "su_getopt (pre @ suf) \<lparr>optind = length pre, place = []\<rparr> os = Ret (length pre, os)"
proof -
  have "take 2 (hd suf) \<noteq> ''--''" if "suf \<noteq> []"
    using assms that by (cases "hd suf") (auto simp: not_option_def)
  then show ?thesis using assms
    by (subst su_getopt.simps) (cases suf; cases "hd suf"; auto simp: getopt_step not_option_def)
qed

text \<open>The suffixes of \<open>option_args\<close>, read one after the other.\<close>

lemma su_getopt_shell:
  assumes "not_option rest"
  shows "su_getopt (pre @ (case sh of Some s \<Rightarrow> [''-s'', s] | None \<Rightarrow> []) @ rest) \<lparr>optind = length pre, place = []\<rparr> os =
     Ret (length pre + (case sh of Some s \<Rightarrow> 2 | None \<Rightarrow> 0), case sh of Some s \<Rightarrow> os\<lparr>o_shell := sh\<rparr> | None \<Rightarrow> os)"
proof (cases sh)
  case None
  then show ?thesis using su_getopt_end[OF assms] by simp
next
  case (Some s)
  then show ?thesis using su_getopt_arg(2)[of pre s rest os] su_getopt_end[OF assms, of "pre @ [''-s'', s]"] by simp
qed

lemma su_getopt_command:
  assumes "not_option rest"
  shows "su_getopt (pre @ (case cmd of Some c \<Rightarrow> [''-c'', c] | None \<Rightarrow> []) @
       (case sh of Some s \<Rightarrow> [''-s'', s] | None \<Rightarrow> []) @ rest) \<lparr>optind = length pre, place = []\<rparr> os =
     Ret (length pre + (case cmd of Some s \<Rightarrow> 2 | None \<Rightarrow> 0) + (case sh of Some s \<Rightarrow> 2 | None \<Rightarrow> 0),
       let os = (case cmd of Some c \<Rightarrow> os\<lparr>o_shell := Some DEFAULT_SHELL, o_command := cmd\<rparr> | None \<Rightarrow> os) in
       case sh of Some s \<Rightarrow> os\<lparr>o_shell := sh\<rparr> | None \<Rightarrow> os)"
proof (cases cmd)
  case None
  then show ?thesis using su_getopt_shell[OF assms] by simp
next
  case (Some c)
  then show ?thesis using su_getopt_arg(1)[of pre c]
    su_getopt_shell[OF assms, of "pre @ [''-c'', c]"] by (simp add: Let_def)
qed

lemma su_getopt_flags:
  "su_getopt (pre @ (if l then [''-l''] else []) @ (if p then [''-p''] else []) @ suf) \<lparr>optind = length pre, place = []\<rparr> os =
     su_getopt (pre @ (if l then [''-l''] else []) @ (if p then [''-p''] else []) @ suf)
       \<lparr>optind = length (pre @ (if l then [''-l''] else []) @ (if p then [''-p''] else [])), place = []\<rparr>
       (os\<lparr>o_login := l \<or> o_login os, o_keepenv := p \<or> o_keepenv os\<rparr>)"
  using su_getopt_flag(1)[of pre "(if p then [''-p''] else []) @ suf" os]
    su_getopt_flag(2)[of pre suf os] su_getopt_flag(2)[of "pre @ [''-l'']" suf "os\<lparr>o_login := True\<rparr>"]
  by (cases l; cases p; simp)

lemma su_getopt_option_args:
  assumes "not_option rest" and "o_command os \<noteq> None \<longrightarrow> o_shell os \<noteq> None"
  shows "su_getopt (a0 # option_args os @ rest) \<lparr>optind = 1, place = []\<rparr>
       \<lparr>o_login = False, o_keepenv = False, o_shell = None, o_command = None\<rparr> = Ret (Suc (length (option_args os)), os)"
proof -
  let ?fl = "(if o_login os then [''-l''] else []) @ (if o_keepenv os then [''-p''] else [])"
  let ?no = "\<lparr>o_login = False, o_keepenv = False, o_shell = None, o_command = None\<rparr>"
  have "su_getopt (a0 # option_args os @ rest) \<lparr>optind = 1, place = []\<rparr> ?no =
     su_getopt (a0 # option_args os @ rest) \<lparr>optind = length (a0 # ?fl), place = []\<rparr>
       (?no\<lparr>o_login := o_login os, o_keepenv := o_keepenv os\<rparr>)"
    using su_getopt_flags[of "[a0]" "o_login os" "o_keepenv os" _ ?no] by (simp add: option_args_def)
  also have "\<dots> = Ret (Suc (length (option_args os)), os)"
    using su_getopt_command[OF assms(1), of "a0 # ?fl" "o_command os" "o_shell os"] assms(2)
    by (cases os; cases "o_command os"; cases "o_shell os") (simp_all add: option_args_def)
  finally show ?thesis .
qed

end
