(* ===== verification/SuMain.thy ===== *)
theory SuMain
  imports Getopt
begin

text \<open>
  The su program proper (\<^verbatim>\<open>src/jni/su/su.c\<close>, \<^verbatim>\<open>su.h\<close>): who asks (\<open>from_init\<close>), for what
  (\<open>su_main\<close>), and running the command with the target's identity (\<open>allow\<close>).

  What the process reads of the system is an input (\<open>su_env\<close>); what it holds and changes is a
  \<open>process\<close>: its six ids, its environment and its file mode mask. A \<open>fork\<close> gives the value that the
  calling process sees, and \<open>wait\<close> the status it collects, so that a definition describes both
  sides of a fork. The calls that end \<open>su_main\<close> (\<open>run_daemon\<close>, \<open>connect_daemon\<close>, \<open>execvp\<close>) are
  returned as an action.
\<close>

section \<open>Definitions\<close>

subsection \<open>Processes\<close>

record creds =
  ruid :: u32
  euid :: u32
  suid :: u32
  rgid :: u32
  egid :: u32
  sgid :: u32

record process =
  ids :: creds
  environ :: "string \<Rightarrow> string option"
  file_mask :: u32

record passwd =
  pw_name :: "string option"
  pw_uid :: u32
  pw_dir :: string

text \<open>
  \<open>cmdline\<close> is what one \<open>read\<close> of 4096 bytes from \<^verbatim>\<open>/proc/<pid>/cmdline\<close> returns (\<open>None\<close> where it
  cannot be opened or read); \<open>exe\<close> is the target of \<^verbatim>\<open>/proc/<pid>/exe\<close>.
\<close>

record su_env =
  getppid :: u32
  is_daemon :: bool
  daemon_from_uid :: u32
  daemon_from_pid :: u32
  cmdline :: "u32 \<Rightarrow> string option"
  exe :: "u32 \<Rightarrow> string option"
  getpwuid :: "u32 \<Rightarrow> passwd option"
  getpwnam :: "string \<Rightarrow> passwd option"

abbreviation (input) AID_ROOT :: u32 where "AID_ROOT \<equiv> 0"
abbreviation (input) AID_SHELL :: u32 where "AID_SHELL \<equiv> 2000"

text \<open>The wait status of a process that exits with a value, and \<open>WEXITSTATUS\<close>.\<close>

definition exit_status :: "int \<Rightarrow> int" where
  "exit_status n = (n mod 256) * 256"

definition WEXITSTATUS :: "int \<Rightarrow> int" where
  "WEXITSTATUS s = (s div 256) mod 256"

text \<open>\<open>fork_zero_fucks\<close>: the values of the two forks, the second of which only the child makes.\<close>

definition fork_zero_fucks :: "int \<Rightarrow> int \<Rightarrow> int outcome" where
  "fork_zero_fucks pid pid2 = (if pid \<noteq> 0 then Ret pid else if pid2 \<noteq> 0 then Exit 0 else Ret 0)"

definition fork_for_samsung :: "int \<Rightarrow> int option \<Rightarrow> unit outcome" where
  "fork_for_samsung pid waited =
     (if pid = 0 then Ret ()
      else if pid = -1 then Exit 1
      else case waited of None \<Rightarrow> Exit 1 | Some rv \<Rightarrow> Exit (WEXITSTATUS rv))"

subsection \<open>Who asks\<close>

record su_initiator =
  from_pid :: u32
  from_uid :: u32
  from_name :: string
  from_bin :: string
  from_args :: string

text \<open>\<open>strlcpy\<close> into a buffer of \<open>sz\<close> bytes: \<open>None\<close> where the source does not fit.\<close>

definition copy_fits :: "string \<Rightarrow> nat \<Rightarrow> string option" where
  "copy_fits src sz = (if length src \<ge> sz then None else Some src)"

text \<open>
  The loop over the command line: the first NUL ends \<open>argv[0]\<close>, the later ones become spaces.
\<close>

definition split_cmdline :: "string \<Rightarrow> string \<times> string option" where
  "split_cmdline args =
     (cstr_of args,
      if NUL \<in> set args then Some (map (\<lambda>c. if c = NUL then CHR '' '' else c) (tl (dropWhile (\<lambda>c. c \<noteq> NUL) args)))
      else None)"

definition from_init :: "su_env \<Rightarrow> creds \<Rightarrow> (int \<times> su_initiator) outcome" where
  "from_init env cr =
     (let uid = (if is_daemon env then daemon_from_uid env else ruid cr);
          pid = (if is_daemon env then daemon_from_pid env else getppid env);
          from = \<lparr>from_pid = pid, from_uid = uid, from_name = [], from_bin = [], from_args = []\<rparr> in
      case cmdline env pid of
        None \<Rightarrow> Ret (-1, from)
      | Some raw \<Rightarrow>
          let args = take 4096 raw; argv0 = fst (split_cmdline args) in
          if length args = 4096 then Ret (-1, from)
          else
            (case (case snd (split_cmdline args) of None \<Rightarrow> Some [] | Some r \<Rightarrow> copy_fits r 4096) of
               None \<Rightarrow> Ret (-1, from)
             | Some a \<Rightarrow>
                 let from = from\<lparr>from_args := a\<rparr> in
                 (case exe env pid of
                    None \<Rightarrow> Ret (-1, from)
                  | Some target \<Rightarrow>
                      if length target \<ge> 4096 then UB OutOfBounds
                      else
                        (case copy_fits (if target \<noteq> ''/system/bin/app_process'' then target else argv0) 4096 of
                           None \<Rightarrow> Ret (-1, from)
                         | Some b \<Rightarrow>
                             let from = from\<lparr>from_bin := b\<rparr> in
                             (case Option.bind (getpwuid env uid) pw_name of
                                None \<Rightarrow> Ret (0, from)
                              | Some n \<Rightarrow>
                                  (case copy_fits n 64 of
                                     None \<Rightarrow> Ret (-1, from)
                                   | Some n \<Rightarrow> Ret (0, from\<lparr>from_name := n\<rparr>)))))))"

subsection \<open>The request\<close>

record su_request =
  to_uid :: u32
  to_name :: string
  login :: bool
  keepenv :: bool
  shell :: "string option"
  command :: "string option"
  to_argv :: "string list"
  to_optind :: nat

text \<open>
  \<open>argv[i]\<close> for \<open>i \<le> argc\<close>, the last element being NULL. The stores of \<open>allow\<close> must stay below it: its
  NULL has to remain the end of the arguments.
\<close>

definition argv_at :: "string list \<Rightarrow> nat \<Rightarrow> string option outcome" where
  "argv_at argv i =
     (if i < length argv then Ret (Some (argv ! i)) else if i = length argv then Ret None else UB OutOfBounds)"

definition argv_store :: "string list \<Rightarrow> int \<Rightarrow> string \<Rightarrow> string list outcome" where
  "argv_store argv i v =
     (if 0 \<le> i \<and> i < int (length argv) then Ret (argv[nat i := v]) else UB OutOfBounds)"

definition get_command :: "su_request \<Rightarrow> string outcome" where
  "get_command to =
     (case command to of Some c \<Rightarrow> Ret c
      | None \<Rightarrow>
          (case shell to of Some s \<Rightarrow> Ret s
           | None \<Rightarrow> obind (argv_at (to_argv to) (to_optind to))
               (\<lambda>a. Ret (case a of Some c \<Rightarrow> c | None \<Rightarrow> DEFAULT_SHELL))))"

definition deny :: "su_request \<Rightarrow> 'a outcome" where
  "deny to = obind (get_command to) (\<lambda>_. Exit 1)"

subsection \<open>Taking on the target's identity\<close>

text \<open>
  The kernel's rules: \<open>-1\<close> leaves an id as it is; a process whose effective user is root may set any
  id, another one only permutes those it has.
\<close>

definition new_id :: "u32 \<Rightarrow> u32 \<Rightarrow> u32" where
  "new_id old v = (if v = -1 then old else v)"

definition may_set :: "creds \<Rightarrow> u32 list \<Rightarrow> u32 \<Rightarrow> bool" where
  "may_set cr own v \<longleftrightarrow> euid cr = 0 \<or> v = -1 \<or> v \<in> set own"

definition seteuid :: "u32 \<Rightarrow> creds \<Rightarrow> creds option" where
  "seteuid v cr = (if may_set cr [ruid cr, suid cr] v then Some (cr\<lparr>euid := new_id (euid cr) v\<rparr>) else None)"

definition setresgid :: "u32 \<Rightarrow> creds \<Rightarrow> creds option" where
  "setresgid v cr =
     (if may_set cr [rgid cr, egid cr, sgid cr] v
      then Some (cr\<lparr>rgid := new_id (rgid cr) v, egid := new_id (egid cr) v, sgid := new_id (sgid cr) v\<rparr>) else None)"

definition setresuid :: "u32 \<Rightarrow> creds \<Rightarrow> creds option" where
  "setresuid v cr =
     (if may_set cr [ruid cr, euid cr, suid cr] v
      then Some (cr\<lparr>ruid := new_id (ruid cr) v, euid := new_id (euid cr) v, suid := new_id (suid cr) v\<rparr>) else None)"

definition set_identity :: "u32 \<Rightarrow> creds \<Rightarrow> creds outcome" where
  "set_identity uid cr =
     (case seteuid 0 cr of None \<Rightarrow> Exit 1
      | Some cr \<Rightarrow>
          (case setresgid uid cr of None \<Rightarrow> Exit 1
           | Some cr \<Rightarrow> (case setresuid uid cr of None \<Rightarrow> Exit 1 | Some cr \<Rightarrow> Ret cr)))"

definition populate_environment :: "su_env \<Rightarrow> su_request \<Rightarrow> (string \<Rightarrow> string option) \<Rightarrow> (string \<Rightarrow> string option) outcome" where
  "populate_environment env to vars =
     (if keepenv to then Ret vars
      else case getpwuid env (to_uid to) of
        None \<Rightarrow> Ret vars
      | Some pw \<Rightarrow>
          let vars = vars(''HOME'' \<mapsto> pw_dir pw,
                          ''SHELL'' \<mapsto> (case shell to of Some s \<Rightarrow> s | None \<Rightarrow> DEFAULT_SHELL)) in
          if login to \<or> to_uid to \<noteq> 0
          then (case pw_name pw of None \<Rightarrow> UB NullDeref | Some n \<Rightarrow> Ret (vars(''USER'' \<mapsto> n, ''LOGNAME'' \<mapsto> n)))
          else Ret vars)"

subsection \<open>Running the command\<close>

record exec_call =
  binary :: string
  arguments :: "string list"
  exec_as :: process

text \<open>
  How \<open>su_main\<close> goes on: as the daemon, as a client of the daemon, or, in the child that \<open>allow\<close>
  forks, with the command.
\<close>

datatype su_action = StartDaemon | ConnectDaemon "string list" u32 process | Execute exec_call

text \<open>
  The arguments of \<open>allow\<close> after the request: the value of its \<open>fork\<close>, the status that \<open>waitpid\<close>
  stores (nothing where it fails), and whether \<open>execvp\<close> finds the program.
\<close>

record fork_results =
  forked :: int
  status :: "int option"
  exec_ok :: bool

definition command_line :: "su_request \<Rightarrow> (string \<times> int \<times> string list) outcome" where
  "command_line to =
     (let argc = int (to_optind to) in
      case command to of
        Some c \<Rightarrow>
          obind (argv_store (to_argv to) (argc - 1) c) (\<lambda>argv.
          obind (argv_store argv (argc - 2) ''-c'') (\<lambda>argv.
            case shell to of None \<Rightarrow> UB NullDeref | Some s \<Rightarrow> Ret (s, argc - 2, argv)))
      | None \<Rightarrow>
          (case shell to of Some s \<Rightarrow> Ret (s, argc, to_argv to)
           | None \<Rightarrow>
               obind (argv_at (to_argv to) (to_optind to)) (\<lambda>a.
                 case a of Some b \<Rightarrow> Ret (b, argc + 1, to_argv to) | None \<Rightarrow> Ret (DEFAULT_SHELL, argc, to_argv to))))"

definition base_name :: "string \<Rightarrow> string" where
  "base_name path = (case strrchr path (CHR ''/'') of Some r \<Rightarrow> tl r | None \<Rightarrow> path)"

definition allow :: "su_env \<Rightarrow> bool \<Rightarrow> fork_results \<Rightarrow> u32 \<Rightarrow> su_request \<Rightarrow> process \<Rightarrow> su_action outcome" where
  "allow env mok fr um to pr =
     obind (command_line to) (\<lambda>(bin, argc, argv).
     obind (if login to then (if mok then Ret (CHR ''-'' # base_name bin) else Exit 1) else Ret (base_name bin)) (\<lambda>arg0.
     obind (populate_environment env to (environ pr)) (\<lambda>vars.
     obind (set_identity (to_uid to) (ids pr)) (\<lambda>cr.
     obind (argv_store argv (argc - 1) arg0) (\<lambda>argv.
       if forked fr = 0
       then (if exec_ok fr
             then Ret (Execute \<lparr>binary = bin, arguments = drop (nat (argc - 1)) argv,
                                exec_as = pr\<lparr>ids := cr, environ := vars, file_mask := um\<rparr>\<rparr>)
             else Exit 1)
       else (case status fr of Some s \<Rightarrow> Exit s | None \<Rightarrow> UB Uninitialised))))))"

subsection \<open>Dispatch and the main routine\<close>

datatype program = Supolicy "string list" | Su "string list"

text \<open>\<open>main\<close>: the program to run and its \<open>argv\<close>; \<open>Exit 1\<close> for a setuid binary.\<close>

definition main :: "creds \<Rightarrow> string list \<Rightarrow> program outcome" where
  "main cr argv =
     (if ruid cr \<noteq> euid cr then Exit 1
      else
        case argv of [] \<Rightarrow> UB NullDeref
        | a0 # rest \<Rightarrow>
            (case (if rest \<noteq> [] \<and> rest ! 0 \<noteq> [] \<and> hd (rest ! 0) = CHR ''@'' then (tl (rest ! 0), rest) else (base_name a0, argv)) of
               (name, argv) \<Rightarrow> if name = ''supolicy'' then Ret (Supolicy argv) else Ret (Su argv)))"

definition unsec_vars :: "string list" where
  "unsec_vars = [''GCONV_PATH'', ''GETCONF_DIR'', ''HOSTALIASES'', ''LD_AUDIT'', ''LD_DEBUG'', ''LD_DEBUG_OUTPUT'',
     ''LD_DYNAMIC_WEAK'', ''LD_LIBRARY_PATH'', ''LD_ORIGIN_PATH'', ''LD_PRELOAD'', ''LD_PROFILE'', ''LD_SHOW_AUXV'',
     ''LD_USE_LOAD_BIAS'', ''LOCALDOMAIN'', ''LOCPATH'', ''MALLOC_TRACE'', ''MALLOC_CHECK_'', ''NIS_PATH'', ''NLSPATH'',
     ''RESOLV_HOST_CONF'', ''RES_OPTIONS'', ''TMPDIR'', ''TZDIR'', ''LD_AOUT_LIBRARY_PATH'', ''LD_AOUT_PRELOAD'', ''IFS'']"

definition sanitize :: "(string \<Rightarrow> string option) \<Rightarrow> string \<Rightarrow> string option" where
  "sanitize vars = fold (\<lambda>v m. m(v := None)) unsec_vars vars"

text \<open>
  \<open>strtoul\<close> with base 10 and a 32-bit \<open>unsigned long\<close>: the value, whether \<open>errno\<close> is set, and the
  rest of the string (all of it where there are no digits).
\<close>

definition isdigit :: "char \<Rightarrow> bool" where
  "isdigit c \<longleftrightarrow> 48 \<le> (of_char c :: nat) \<and> (of_char c :: nat) \<le> 57"

definition dec_value :: "string \<Rightarrow> nat" where
  "dec_value ds = foldl (\<lambda>n c. 10 * n + (of_char c - 48)) 0 ds"

definition strtoul :: "string \<Rightarrow> u32 \<times> bool \<times> string" where
  "strtoul str =
     (let t = dropWhile isspace str;
          neg = (t \<noteq> [] \<and> hd t = CHR ''-'');
          t = (if t \<noteq> [] \<and> (hd t = CHR ''-'' \<or> hd t = CHR ''+'') then tl t else t);
          ds = takeWhile isdigit t;
          v = dec_value ds in
      if ds = [] then (0, False, str)
      else if v \<ge> 2 ^ 32 then (-1, True, dropWhile isdigit t)
      else (if neg then - of_nat v else of_nat v, False, dropWhile isdigit t))"

text \<open>The user: by name, else by number.\<close>

definition target_user :: "su_env \<Rightarrow> string \<Rightarrow> (u32 \<times> string) outcome" where
  "target_user env name =
     (case getpwnam env name of
        None \<Rightarrow> (case strtoul name of (uid, err, rest) \<Rightarrow> if err \<or> rest \<noteq> [] then Exit 1 else Ret (uid, []))
      | Some pw \<Rightarrow>
          (case pw_name pw of
             None \<Rightarrow> Ret (pw_uid pw, [])
           | Some n \<Rightarrow> (case copy_fits n 64 of None \<Rightarrow> Exit 1 | Some n \<Rightarrow> Ret (pw_uid pw, n))))"

text \<open>What follows the options: \<open>[-] [LOGIN] [--]\<close>.\<close>

definition request :: "su_env \<Rightarrow> string list \<Rightarrow> nat \<Rightarrow> su_options \<Rightarrow> su_request outcome" where
  "request env argv i os =
     (let dash = (i < length argv \<and> argv ! i = ''-'');
          i = (if dash then Suc i else i) in
      obind (if i < length argv \<and> argv ! i \<noteq> ''--''
             then obind (target_user env (argv ! i)) (\<lambda>(uid, name). Ret (uid, name, Suc i))
             else Ret (AID_ROOT, [], i)) (\<lambda>(uid, name, i).
        let i = (if i < length argv \<and> argv ! i = ''--'' then Suc i else i) in
        Ret \<lparr>to_uid = uid, to_name = name, login = o_login os \<or> dash, keepenv = o_keepenv os, shell = o_shell os,
             command = o_command os, to_argv = argv, to_optind = i\<rparr>))"

text \<open>
  The remaining inputs of \<open>su_main\<close>: whether memory is there, what \<open>daemon_exists\<close> answers, and the
  results of its forks.
\<close>

record su_calls =
  mem_ok :: bool
  running :: bool
  samsung_pid :: int
  samsung_wait :: "int option"
  allow_fork :: fork_results

definition no_options :: su_options where
  "no_options = \<lparr>o_login = False, o_keepenv = False, o_shell = None, o_command = None\<rparr>"

definition su_main :: "su_env \<Rightarrow> su_calls \<Rightarrow> string list \<Rightarrow> bool \<Rightarrow> process \<Rightarrow> su_action outcome" where
  "su_main env calls argv need_client pr =
     (if length argv = 2 \<and> (argv ! 1 = ''--daemon'' \<or> argv ! 1 = ''-d'' \<or> argv ! 1 = ''--start'')
      then (if running calls then Exit 0 else Ret StartDaemon)
      else
        obind (fork_for_samsung (samsung_pid calls) (samsung_wait calls)) (\<lambda>_.
          let pr = pr\<lparr>environ := sanitize (environ pr)\<rparr> in
          obind (su_getopt argv \<lparr>optind = 1, place = []\<rparr> no_options) (\<lambda>(i, os).
            if need_client then Ret (ConnectDaemon argv (getppid env) pr)
            else
              obind (request env argv i os) (\<lambda>to.
              obind (from_init env (ids pr)) (\<lambda>(rc, from).
                if rc < 0 then deny to
                else if from_uid from = AID_ROOT then allow env (mem_ok calls) (allow_fork calls) 0 to pr
                else if from_uid from = AID_SHELL then allow env (mem_ok calls) (allow_fork calls) 0 to pr
                else allow env (mem_ok calls) (allow_fork calls) 0 to pr)))))"

section \<open>Lemmas\<close>

subsection \<open>Identity\<close>

lemma obind_Exit_iff: "obind m f = Exit n \<longleftrightarrow> m = Exit n \<or> (\<exists>x. m = Ret x \<and> f x = Exit n)"
  by (cases m) auto

lemma set_identity_root:
  assumes "euid cr = 0 \<or> ruid cr = 0 \<or> suid cr = 0" and "uid \<noteq> -1"
  shows "set_identity uid cr = Ret \<lparr>ruid = uid, euid = uid, suid = uid, rgid = uid, egid = uid, sgid = uid\<rparr>"
  using assms by (auto simp: set_identity_def seteuid_def setresgid_def setresuid_def may_set_def new_id_def)

lemma set_identity_unprivileged:
  assumes "euid cr \<noteq> 0" and "ruid cr \<noteq> 0" and "suid cr \<noteq> 0"
  shows "set_identity uid cr = Exit 1"
  using assms by (simp add: set_identity_def seteuid_def may_set_def)

lemma set_identity_minus_one:
  assumes "cr = \<lparr>ruid = 0, euid = 0, suid = 0, rgid = 0, egid = 0, sgid = 0\<rparr>"
  shows "set_identity (-1) cr = Ret cr"
  using assms by (simp add: set_identity_def seteuid_def setresgid_def setresuid_def may_set_def new_id_def)

subsection \<open>The environment\<close>

lemma fold_unset: "fold (\<lambda>v m. m(v := None)) vs m x = (if x \<in> set vs then None else m x)"
  by (induction vs arbitrary: m) auto

lemma sanitize_apply: "sanitize vars x = (if x \<in> set unsec_vars then None else vars x)"
  by (simp add: sanitize_def fold_unset)

lemma populate_keeps_out:
  assumes "populate_environment env to vars = Ret vars'" and "x \<in> set unsec_vars"
  shows "vars' x = vars x"
proof -
  have "x \<notin> {''HOME'', ''SHELL'', ''USER'', ''LOGNAME''}"
    using assms(2) by (auto simp: unsec_vars_def)
  with assms(1) show ?thesis by (auto simp: populate_environment_def Let_def split: option.splits if_splits)
qed

lemma allow_environment:
  assumes "allow env mok fr um to pr = Ret (Execute call)"
  shows "\<exists>vars. populate_environment env to (environ pr) = Ret vars \<and> environ (exec_as call) = vars"
  using assms by (auto simp: allow_def split: if_splits option.splits prod.splits)

subsection \<open>Exit codes\<close>

lemma wexitstatus_exit: "WEXITSTATUS (exit_status n) = n mod 256"
  by (simp add: WEXITSTATUS_def exit_status_def)

lemma exit_status_twice: "exit_status (exit_status n) = 0"
  by (simp add: exit_status_def)

subsection \<open>The command line that is run\<close>

text \<open>What the options ask for: the program and its arguments after \<open>argv[0]\<close>.\<close>

definition wanted :: "su_request \<Rightarrow> string \<times> string list" where
  "wanted to =
     (let rest = drop (to_optind to) (to_argv to) in
      case (command to, shell to) of
        (Some c, Some s) \<Rightarrow> (s, ''-c'' # c # rest)
      | (None, Some s) \<Rightarrow> (s, rest)
      | (_, None) \<Rightarrow> (case rest of [] \<Rightarrow> (DEFAULT_SHELL, []) | b # bs \<Rightarrow> (b, bs)))"

definition request_ok :: "su_request \<Rightarrow> bool" where
  "request_ok to \<longleftrightarrow> 1 \<le> to_optind to \<and> to_optind to \<le> length (to_argv to) \<and>
     (command to \<noteq> None \<longrightarrow> shell to \<noteq> None \<and> 2 \<le> to_optind to)"

definition arg0_of :: "su_request \<Rightarrow> string" where
  "arg0_of to = (if login to then CHR ''-'' # base_name (fst (wanted to)) else base_name (fst (wanted to)))"

lemma drop_update_last:
  assumes "n < length xs"
  shows "drop n (xs[n := x]) = x # drop (Suc n) xs"
  using assms by (simp add: Cons_nth_drop_Suc[symmetric])

lemma drop_three_updates:
  assumes "3 \<le> n" and "n \<le> length xs"
  shows "drop (n - 3) (xs[n - 1 := c, n - 2 := b, n - 3 := a]) = a # b # c # drop n xs"
proof -
  obtain m where n: "n = m + 3" using assms(1) by (metis le_add_diff_inverse2)
  have "drop m (xs[m + 2 := c, m + 1 := b, m := a]) = a # drop (Suc m) (xs[m + 2 := c, m + 1 := b])"
    using assms n by (subst drop_update_last) auto
  also have "drop (Suc m) (xs[m + 2 := c, m + 1 := b]) = b # drop (Suc (Suc m)) (xs[m + 2 := c])"
    using assms n drop_update_last[of "Suc m" "xs[m + 2 := c]" b] by simp
  also have "drop (Suc (Suc m)) (xs[m + 2 := c]) = c # drop (Suc (Suc (Suc m))) xs"
    using assms n drop_update_last[of "Suc (Suc m)" xs c] by simp
  finally show ?thesis by (simp add: n numeral_3_eq_3)
qed

text \<open>The arguments \<open>allow\<close> passes to \<open>execvp\<close>, where its stores stay inside \<open>argv\<close>.\<close>

lemma command_line_wanted:
  assumes "request_ok to" and "command to \<noteq> None \<longrightarrow> 3 \<le> to_optind to"
  obtains argc argv where "command_line to = Ret (fst (wanted to), argc, argv)"
    and "argv_store argv (argc - 1) a = Ret (argv[nat (argc - 1) := a])"
    and "drop (nat (argc - 1)) (argv[nat (argc - 1) := a]) = a # snd (wanted to)"
proof (cases "command to")
  case (Some c)
  with assms obtain s where s: "shell to = Some s" and n: "3 \<le> to_optind to" "to_optind to \<le> length (to_argv to)"
    by (auto simp: request_ok_def)
  let ?n = "to_optind to"
  have eqs: "nat (int ?n - 1) = ?n - 1" "nat (int ?n - 2) = ?n - 2" "nat (int ?n - 3) = ?n - 3" by simp_all
  show ?thesis
  proof (rule that)
    show "command_line to = Ret (fst (wanted to), int ?n - 2, (to_argv to)[?n - 1 := c, ?n - 2 := ''-c''])"
      using Some s n by (simp add: command_line_def wanted_def argv_store_def eqs Let_def)
  qed (use Some s n drop_three_updates[OF n] in \<open>simp_all add: argv_store_def eqs wanted_def\<close>)
next
  case None
  show ?thesis
  proof (cases "shell to")
    case (Some s)
    show ?thesis
    proof (rule that)
      show "command_line to = Ret (fst (wanted to), int (to_optind to), to_argv to)"
        using None Some by (simp add: command_line_def wanted_def)
    qed (use None Some assms drop_update_last[of "to_optind to - 1" "to_argv to" a] in
        \<open>auto simp: argv_store_def wanted_def request_ok_def nat_diff_distrib\<close>)
  next
    case none: None
    show ?thesis
    proof (cases "to_optind to < length (to_argv to)")
      case True
      show ?thesis
      proof (rule that)
        show "command_line to = Ret (fst (wanted to), int (to_optind to) + 1, to_argv to)"
          using None none True by (simp add: command_line_def wanted_def argv_at_def Cons_nth_drop_Suc[symmetric])
      qed (use None none True drop_update_last[OF True] in
          \<open>simp_all add: argv_store_def wanted_def Cons_nth_drop_Suc[symmetric]\<close>)
    next
      case False
      then have n: "to_optind to = length (to_argv to)" using assms(1) by (simp add: request_ok_def)
      show ?thesis
      proof (rule that)
        show "command_line to = Ret (fst (wanted to), int (to_optind to), to_argv to)"
          using None none n by (simp add: command_line_def wanted_def argv_at_def)
      qed (use None none n assms drop_update_last[of "to_optind to - 1" "to_argv to" a] in
          \<open>auto simp: argv_store_def wanted_def request_ok_def nat_diff_distrib\<close>)
    qed
  qed
qed

subsection \<open>Running as the target user\<close>

definition all_ids :: "u32 \<Rightarrow> creds" where
  "all_ids uid = \<lparr>ruid = uid, euid = uid, suid = uid, rgid = uid, egid = uid, sgid = uid\<rparr>"

lemma allow_runs:
  assumes ok: "request_ok to" "command to \<noteq> None \<longrightarrow> 3 \<le> to_optind to"
    and vars: "populate_environment env to (environ pr) = Ret vars"
    and cr: "set_identity (to_uid to) (ids pr) = Ret cr"
    and fr: "forked fr = 0" "exec_ok fr"
  shows "allow env True fr um to pr =
     Ret (Execute \<lparr>binary = fst (wanted to), arguments = arg0_of to # snd (wanted to),
                   exec_as = pr\<lparr>ids := cr, environ := vars, file_mask := um\<rparr>\<rparr>)"
proof -
  obtain argc argv where "command_line to = Ret (fst (wanted to), argc, argv)"
    and "argv_store argv (argc - 1) (arg0_of to) = Ret (argv[nat (argc - 1) := arg0_of to])"
    and "drop (nat (argc - 1)) (argv[nat (argc - 1) := arg0_of to]) = arg0_of to # snd (wanted to)"
    using command_line_wanted[OF ok] .
  with vars cr fr show ?thesis by (cases "login to") (simp_all add: allow_def arg0_of_def)
qed

text \<open>An option such as \<^verbatim>\<open>-cCMD\<close> leaves no room before \<open>optind\<close> for the three strings.\<close>

lemma allow_underflow:
  assumes "request_ok to" and "command to \<noteq> None" and "to_optind to = 2"
    and "populate_environment env to (environ pr) = Ret vars" and "set_identity (to_uid to) (ids pr) = Ret cr"
  shows "allow env True fr um to pr = UB OutOfBounds"
  using assms by (auto simp: allow_def command_line_def request_ok_def argv_store_def Let_def)

lemma request_request_ok:
  assumes "su_getopt argv \<lparr>optind = 1, place = []\<rparr> no_options = Ret (i, os)" and "argv \<noteq> []"
    and "request env argv i os = Ret to"
  shows "request_ok to \<and> to_argv to = argv \<and> i \<le> to_optind to \<and> command to = o_command os \<and> shell to = o_shell os"
proof -
  have "i \<le> length argv \<and> 1 \<le> i \<and> (o_command os \<noteq> None \<longrightarrow> o_shell os \<noteq> None \<and> 2 \<le> i)"
    using assms(2) by (intro su_getopt_inv[OF assms(1)]) (auto simp: getopt_inv_def options_inv_def no_options_def Suc_le_eq)
  with assms(3) show ?thesis by (auto simp: request_def request_ok_def Let_def split: if_splits)
qed

text \<open>The initiator's uid plays no role: whoever asks is allowed.\<close>

lemma su_main_decides:
  assumes "\<not> (length argv = 2 \<and> (argv ! 1 = ''--daemon'' \<or> argv ! 1 = ''-d'' \<or> argv ! 1 = ''--start''))"
    and "samsung_pid calls = 0"
    and "su_getopt argv \<lparr>optind = 1, place = []\<rparr> no_options = Ret (i, os)" and "request env argv i os = Ret to"
    and "from_init env (ids pr) = Ret (0, from)"
  shows "su_main env calls argv False pr =
     allow env (mem_ok calls) (allow_fork calls) 0 to (pr\<lparr>environ := sanitize (environ pr)\<rparr>)"
  using assms by (auto simp: su_main_def fork_for_samsung_def Let_def)

lemma su_main_environment:
  assumes "su_main env calls argv False pr = Ret (Execute call)" and "x \<in> set unsec_vars"
  shows "environ (exec_as call) x = None"
proof -
  obtain to where a: "allow env (mem_ok calls) (allow_fork calls) 0 to (pr\<lparr>environ := sanitize (environ pr)\<rparr>) = Ret (Execute call)"
    using assms(1) by (auto simp: su_main_def deny_def Let_def split: if_splits)
  from allow_environment[OF this] obtain vars where
    "populate_environment env to (sanitize (environ pr)) = Ret vars" "environ (exec_as call) = vars" by auto
  with populate_keeps_out[OF this(1) assms(2)] assms(2) show ?thesis by (simp add: sanitize_apply)
qed

text \<open>In the parent, \<open>allow\<close> passes the raw wait status to \<open>exit\<close>.\<close>

lemma allow_parent:
  assumes ok: "request_ok to" "command to \<noteq> None \<longrightarrow> 3 \<le> to_optind to"
    and vars: "populate_environment env to (environ pr) = Ret vars"
    and cr: "set_identity (to_uid to) (ids pr) = Ret cr"
    and fr: "forked fr \<noteq> 0" "status fr = Some st"
  shows "allow env True fr um to pr = Exit st"
proof -
  obtain argc argv where "command_line to = Ret (fst (wanted to), argc, argv)"
    and "argv_store argv (argc - 1) (arg0_of to) = Ret (argv[nat (argc - 1) := arg0_of to])"
    using command_line_wanted[OF ok] by metis
  with vars cr fr show ?thesis by (cases "login to") (simp_all add: allow_def arg0_of_def)
qed

text \<open>An empty \<open>argv\<close> is read past its end.\<close>

lemma su_main_no_args:
  assumes "samsung_pid calls = 0" and "from_init env (ids pr) = Ret (0, from)"
  shows "su_main env calls [] False pr = UB OutOfBounds"
proof -
  have "su_getopt [] \<lparr>optind = 1, place = []\<rparr> no_options = Ret (1, no_options)"
    by (subst su_getopt.simps) (simp add: getopt_long_def)
  then show ?thesis using assms
    by (simp add: su_main_decides request_def allow_def command_line_def no_options_def argv_at_def)
qed

end
