(* ===== verification/Daemon.thy ===== *)
theory Daemon
  imports Wire Pts SuMain
begin

text \<open>
  The su daemon and its client (\<^verbatim>\<open>src/jni/su/daemon.c\<close>): \<open>connect_daemon\<close> sends a request over the
  socket, \<open>daemon_accept\<close> reads it, forks, runs \<open>su_main\<close> in the child and sends the exit code back.
  The two programs share only the cells on the socket.
\<close>

section \<open>Definitions\<close>

subsection \<open>The client\<close>

text \<open>
  What the client finds: the results of \<open>socket\<close>, \<open>fcntl\<close> and \<open>connect\<close>, whether
  \<^verbatim>\<open>MOUNT_EMULATED_STORAGE\<close> is set, which standard descriptors are terminals.
\<close>

record client =
  own_pid :: u32
  connected :: bool
  mount_storage :: bool
  tty_in :: bool
  tty_out :: bool
  tty_err :: bool
  pty :: pty_env
  fd_state :: "int \<Rightarrow> bool option"
  watch_results :: "bool \<times> bool \<times> bool"
  raw_results :: "bool \<times> bool \<times> bool"
  restore_ok :: bool
  sigaction_ok :: "nat \<Rightarrow> bool"

text \<open>
  The last four are the results of the calls that \<open>watch_sigwinch_async\<close>, \<open>pump_stdin_async\<close>,
  \<open>restore_stdin\<close> and \<open>setup_sighandlers\<close> make; the client ignores what these functions return.
\<close>

definition watch_output :: "client \<Rightarrow> winch \<Rightarrow> winch" where
  "watch_output cl w =
     (if tty_out cl then (case watch_results cl of (a, b, c) \<Rightarrow> snd (watch_sigwinch_async a b c w)) else w)"

fun send_args :: "out_chan \<Rightarrow> string list \<Rightarrow> out_chan outcome" where
  "send_args ch [] = Ret ch"
| "send_args ch (a # as) = obind (write_string ch a) (\<lambda>ch. send_args ch as)"

text \<open>The loop over \<open>argv\<close> leaves out index 1 when storage is to be mounted.\<close>

definition sent_args :: "bool \<Rightarrow> string list \<Rightarrow> string list" where
  "sent_args mount argv = (if mount then take 1 argv @ drop 2 argv else argv)"

definition open_pty :: "client \<Rightarrow> (int \<times> string) outcome" where
  "open_pty cl =
     (if tty_in cl \<or> tty_out cl \<or> tty_err cl
      then (case pts_open (pty cl) 4096 of (fd, name, _) \<Rightarrow>
              if fd < 0 then Exit (-1) else Ret (fd, case name of Some n \<Rightarrow> n | None \<Rightarrow> []))
      else Ret (-1, []))"

definition std_fd :: "bool \<Rightarrow> int \<Rightarrow> int" where
  "std_fd tty fd = (if tty then -1 else fd)"

text \<open>Everything the client sends; \<open>w\<close> is the window watcher, started when standard output is a terminal.\<close>

definition send_request :: "client \<Rightarrow> out_chan \<Rightarrow> winch \<Rightarrow> string list \<Rightarrow> u32 \<Rightarrow> (out_chan \<times> int \<times> winch) outcome" where
  "send_request cl ch w argv ppid =
     (if \<not> connected cl then Exit (-1)
      else
        obind (open_pty cl) (\<lambda>(master, tty_name).
        obind (write_int ch (own_pid cl)) (\<lambda>ch.
        obind (write_string ch tty_name) (\<lambda>ch.
        obind (write_int ch ppid) (\<lambda>ch.
        obind (write_int ch (if mount_storage cl then 1 else 0)) (\<lambda>ch.
        obind (send_fd (fd_state cl) ch (std_fd (tty_in cl) 0)) (\<lambda>ch.
          let w = watch_output cl w in
        obind (send_fd (fd_state cl) ch (std_fd (tty_out cl) 1)) (\<lambda>ch.
        obind (send_fd (fd_state cl) ch (std_fd (tty_err cl) 2)) (\<lambda>ch.
        obind (write_int ch (of_int (int (length argv) - (if mount_storage cl then 1 else 0)))) (\<lambda>ch.
        obind (send_args ch (sent_args (mount_storage cl) argv)) (\<lambda>ch.
          Ret (ch, master, w))))))))))))"

subsection \<open>Signals of the client\<close>

datatype disposition = SIG_DFL | Sighandler

text \<open>\<open>SIGALRM\<close>, \<open>SIGHUP\<close>, \<open>SIGPIPE\<close>, \<open>SIGQUIT\<close>, \<open>SIGTERM\<close>, \<open>SIGINT\<close>.\<close>

definition quit_signals :: "nat list" where
  "quit_signals = [14, 1, 13, 3, 15, 2]"

record terminal =
  handlers :: "nat \<Rightarrow> disposition"
  tty :: tty_state
  open_fds :: "int set"

definition set_handlers :: "(nat \<Rightarrow> bool) \<Rightarrow> disposition \<Rightarrow> (nat \<Rightarrow> disposition) \<Rightarrow> nat \<Rightarrow> disposition" where
  "set_handlers ok d hs = fold (\<lambda>s hs. if ok s then hs(s := d) else hs) quit_signals hs"

definition setup_sighandlers :: "(nat \<Rightarrow> bool) \<Rightarrow> terminal \<Rightarrow> terminal" where
  "setup_sighandlers ok t = t\<lparr>handlers := set_handlers ok Sighandler (handlers t)\<rparr>"

definition sighandler :: "(nat \<Rightarrow> bool) \<Rightarrow> bool \<Rightarrow> terminal \<Rightarrow> terminal" where
  "sighandler ok tc_ok t =
     t\<lparr>tty := snd (restore_stdin tc_ok (tty t)), open_fds := open_fds t - {0, 1, 2},
       handlers := set_handlers ok SIG_DFL (handlers t)\<rparr>"

text \<open>A signal is delivered: what its disposition does, \<open>None\<close> when the process dies.\<close>

definition deliver :: "(nat \<Rightarrow> bool) \<Rightarrow> bool \<Rightarrow> nat \<Rightarrow> terminal \<Rightarrow> terminal option" where
  "deliver ok tc_ok s t = (case handlers t s of SIG_DFL \<Rightarrow> None | Sighandler \<Rightarrow> Some (sighandler ok tc_ok t))"

text \<open>
  The second half of \<open>connect_daemon\<close>: the acknowledgement, the pumps, the exit code. \<open>inp\<close> is what the
  daemon sends, \<open>chunks\<close> and \<open>rets\<close> are the reads and writes of the output pump. \<open>None\<close>: the output
  pump has not come to an end.
\<close>

definition await_code ::
  "client \<Rightarrow> int \<Rightarrow> cell list \<Rightarrow> u8 list list \<Rightarrow> int list \<Rightarrow> terminal \<Rightarrow> winch \<Rightarrow> (int \<times> u8 list \<times> terminal) option outcome" where
  "await_code cl master inp chunks rets t w =
     obind (read_int inp) (\<lambda>(_, inp).
     obind (if tty_in cl
            then (case raw_results cl of (a, b, c) \<Rightarrow>
                    obind (pump_stdin_async a b c master (tty t))
                      (\<lambda>s. Ret ((setup_sighandlers (sigaction_ok cl) t)\<lparr>tty := s\<rparr>)))
            else Ret t) (\<lambda>t.
       case (if tty_out cl then pump_stdout_blocking master chunks rets (restore_ok cl) (tty t) w else Some ([], tty t, w)) of
         None \<Rightarrow> Ret None
       | Some (out, s, w) \<Rightarrow>
           obind (read_int inp) (\<lambda>(code, _). Ret (Some (sint code, out, t\<lparr>tty := s\<rparr>)))))"

definition connect_daemon ::
  "client \<Rightarrow> out_chan \<Rightarrow> cell list \<Rightarrow> u8 list list \<Rightarrow> int list \<Rightarrow> terminal \<Rightarrow> winch \<Rightarrow> string list \<Rightarrow> u32 \<Rightarrow>
     (out_chan \<times> (int \<times> u8 list \<times> terminal) option) outcome" where
  "connect_daemon cl ch inp chunks rets t w argv ppid =
     obind (send_request cl ch w argv ppid) (\<lambda>(ch, master, w).
     obind (await_code cl master inp chunks rets t w) (\<lambda>r. Ret (ch, r)))"

subsection \<open>The daemon\<close>

record su_message =
  remote_pid :: u32
  pts_slave :: string
  req_pid :: u32
  req_uid :: u32
  req_mount :: bool
  infd :: int
  outfd :: int
  errfd :: int
  req_args :: "string list"

fun read_args :: "bool \<Rightarrow> nat \<Rightarrow> cell list \<Rightarrow> (string list \<times> cell list) outcome" where
  "read_args mok 0 inp = Ret ([], inp)"
| "read_args mok (Suc n) inp =
     obind (read_string mok inp) (\<lambda>(a, inp). obind (read_args mok n inp) (\<lambda>(as, inp). Ret (a # as, inp)))"

text \<open>The first half of \<open>daemon_accept\<close>; \<open>peer\<close> is the uid that \<open>SO_PEERCRED\<close> reports.\<close>

definition read_request :: "bool \<Rightarrow> u32 option \<Rightarrow> cell list \<Rightarrow> (su_message \<times> cell list) outcome" where
  "read_request mok peer inp =
     obind (read_int inp) (\<lambda>(pid, inp).
     obind (read_string mok inp) (\<lambda>(tty_name, inp).
     obind (read_int inp) (\<lambda>(fpid, inp).
       case peer of None \<Rightarrow> Exit (-1)
       | Some uid \<Rightarrow>
           obind (read_int inp) (\<lambda>(mount, inp).
           obind (recv_fd inp) (\<lambda>(i, inp).
           obind (recv_fd inp) (\<lambda>(ou, inp).
           obind (recv_fd inp) (\<lambda>(e, inp).
           obind (read_int inp) (\<lambda>(argc, inp).
             if sint argc < 0 \<or> sint argc > 512 then Exit (-1)
             else if \<not> mok then UB NullDeref
             else
               obind (read_args mok (nat (sint argc)) inp) (\<lambda>(as, inp).
                 Ret (\<lparr>remote_pid = pid, pts_slave = tty_name, req_pid = fpid, req_uid = uid, req_mount = (mount \<noteq> 0),
                       infd = i, outfd = ou, errfd = e, req_args = as\<rparr>, inp))))))))))"

text \<open>The parent after the fork: its return value and what it sent.\<close>

definition daemon_parent :: "int option \<Rightarrow> bool option \<Rightarrow> out_chan \<Rightarrow> int \<times> out_chan" where
  "daemon_parent waited fd_ok ch =
     (let code = (case waited of Some s \<Rightarrow> WEXITSTATUS s | None \<Rightarrow> -1) in
      case fd_ok of
        Some True \<Rightarrow> (code, if room ch < 4 then ch else append_cells ch (encode_int (of_int code)))
      | _ \<Rightarrow> (code, ch))"

text \<open>
  \<open>mount_emulated_storage\<close>: the mounts it makes, as pairs of a source and a target; \<open>unshared\<close> and
  \<open>slave_ok\<close> are the results of \<open>unshare\<close> and of remounting the root.
\<close>

fun decimal :: "nat \<Rightarrow> string" where
  "decimal n = (if n < 10 then [char_of (48 + n)] else decimal (n div 10) @ [char_of (48 + n mod 10)])"

definition multiuser_get_user_id :: "u32 \<Rightarrow> u32" where
  "multiuser_get_user_id uid = uid div 100000"

definition mount_emulated_storage :: "(string \<Rightarrow> string option) \<Rightarrow> bool \<Rightarrow> bool \<Rightarrow> u32 \<Rightarrow> (string \<times> string option) list" where
  "mount_emulated_storage getenv unshared slave_ok user_id =
     (case (getenv ''EMULATED_STORAGE_SOURCE'', getenv ''EMULATED_STORAGE_TARGET'') of
        (Some source, Some target) \<Rightarrow>
          if \<not> unshared then []
          else if \<not> slave_ok then [(''rootfs'', Some ''/'')]
          else [(''rootfs'', Some ''/''), (source, Some target),
                (take 4095 (target @ ''/'' @ decimal (unat user_id)), getenv ''EXTERNAL_STORAGE'')]
      | _ \<Rightarrow> [])"

text \<open>
  The child: opening the PTY, with its owner and whether it is a character device; the \<open>dup2\<close>
  calls; then \<open>su_main\<close> without a client.
\<close>

record child_env =
  open_pts :: "string \<Rightarrow> int option"
  pts_stat :: "(u32 \<times> bool) option"
  dup_ok :: bool
  unshare_ok :: bool
  slave_mount_ok :: bool

definition child_fds :: "child_env \<Rightarrow> su_message \<Rightarrow> (int \<times> int \<times> int) outcome" where
  "child_fds ce m =
     (if pts_slave m = [] then Ret (infd m, outfd m, errfd m)
      else case open_pts ce (pts_slave m) of
        None \<Rightarrow> Exit (-1)
      | Some ptsfd \<Rightarrow>
          (case pts_stat ce of
             None \<Rightarrow> Exit (-1)
           | Some (uid, chr) \<Rightarrow>
               if uid \<noteq> req_uid m then Exit (-1)
               else if \<not> chr then Exit (-1)
               else Ret (if infd m < 0 then ptsfd else infd m, if outfd m < 0 then ptsfd else outfd m,
                         if errfd m < 0 then ptsfd else errfd m)))"

definition run_daemon_child ::
  "bool \<Rightarrow> su_env \<Rightarrow> su_calls \<Rightarrow> process \<Rightarrow> int \<times> int \<times> int \<Rightarrow> string list \<Rightarrow> ((int \<times> int \<times> int) \<times> su_action) outcome" where
  "run_daemon_child dups env calls pr fds args =
     (if \<not> dups then Exit (-1) else obind (su_main env calls args False pr) (\<lambda>a. Ret (fds, a)))"

definition daemon_child ::
  "child_env \<Rightarrow> su_env \<Rightarrow> su_calls \<Rightarrow> process \<Rightarrow> su_message \<Rightarrow>
     ((string \<times> string option) list \<times> (int \<times> int \<times> int) \<times> su_action) outcome" where
  "daemon_child ce env calls pr m =
     obind (child_fds ce m) (\<lambda>fds.
       let mounts = (if req_mount m
             then mount_emulated_storage (environ pr) (unshare_ok ce) (slave_mount_ok ce) (multiuser_get_user_id (req_uid m))
             else []);
           env = env\<lparr>is_daemon := True, daemon_from_uid := req_uid m, daemon_from_pid := req_pid m\<rparr> in
       obind (run_daemon_child (dup_ok ce) env calls pr fds (req_args m)) (\<lambda>r. Ret (mounts, r)))"

text \<open>What \<open>daemon_accept\<close> does in the process that sees \<open>child\<close> as the result of \<open>fork\<close>.\<close>

datatype served =
    Served int out_chan
  | InChild "(string \<times> string option) list" "int \<times> int \<times> int" su_action

definition daemon_accept ::
  "bool \<Rightarrow> u32 option \<Rightarrow> int \<Rightarrow> int option \<Rightarrow> bool option \<Rightarrow> child_env \<Rightarrow> su_env \<Rightarrow> su_calls \<Rightarrow> process \<Rightarrow>
     cell list \<Rightarrow> out_chan \<Rightarrow> served outcome" where
  "daemon_accept mok peer child waited fd_ok ce env calls pr inp ch =
     obind (read_request mok peer inp) (\<lambda>(m, _).
     obind (write_int ch 1) (\<lambda>ch.
       if child < 0 then Ret (Served child (if room ch < 4 then ch else append_cells ch (encode_int (of_int child))))
       else if child \<noteq> 0 then (case daemon_parent waited fd_ok ch of (code, ch) \<Rightarrow> Ret (Served code ch))
       else obind (daemon_child ce env calls pr m) (\<lambda>(mounts, fds, a). Ret (InChild mounts fds a))))"

text \<open>
  The accept loop: each round has the client's descriptor and the results of the two forks. The
  value is the return code, or the client this process serves; \<open>None\<close> while it waits for more.
\<close>

fun accept_loop :: "(int \<times> int \<times> int) list \<Rightarrow> (int + int) option outcome" where
  "accept_loop [] = Ret None"
| "accept_loop ((client, f1, f2) # rs) =
     (if client \<le> 0 then Ret (Some (Inl (-1)))
      else obind (fork_zero_fucks f1 f2) (\<lambda>pid. if pid = 0 then Ret (Some (Inr client)) else accept_loop rs))"

definition run_daemon :: "bool \<Rightarrow> bool \<Rightarrow> bool \<Rightarrow> bool \<Rightarrow> (int \<times> int \<times> int) list \<Rightarrow> (int + int) option outcome" where
  "run_daemon socket_ok cloexec_ok bind_ok listen_ok rounds =
     (if \<not> socket_ok then Ret (Some (Inl (-1)))
      else if \<not> cloexec_ok \<or> \<not> bind_ok \<or> \<not> listen_ok then Ret (Some (Inl (-1)))
      else accept_loop rounds)"

section \<open>Lemmas\<close>

subsection \<open>Requests on the wire\<close>

definition encode_args :: "string list \<Rightarrow> cell list" where
  "encode_args as = concat (map encode_string as)"

lemma encode_args_simps [simp]: "encode_args [] = []" "encode_args (a # as) = encode_string a @ encode_args as"
  by (simp_all add: encode_args_def)

lemma send_args_ok: "length (encode_args as) \<le> room ch \<Longrightarrow> send_args ch as = Ret (append_cells ch (encode_args as))"
proof (induction as arbitrary: ch)
  case Nil
  show ?case by (simp add: append_cells_def)
qed simp

definition arg_ok :: "string \<Rightarrow> bool" where
  "arg_ok a \<longleftrightarrow> cstr a \<and> length a \<le> 4096"

lemma read_args_encode: "list_all arg_ok as \<Longrightarrow> read_args True (length as) (encode_args as @ rest) = Ret (as, rest)"
  by (induction as) (simp_all add: arg_ok_def)

text \<open>The request of a client whose PTY has the name \<open>tty_name\<close>.\<close>

definition request_cells :: "client \<Rightarrow> string \<Rightarrow> string list \<Rightarrow> u32 \<Rightarrow> cell list" where
  "request_cells cl tty_name argv ppid =
     encode_int (own_pid cl) @ encode_string tty_name @ encode_int ppid @ encode_int (if mount_storage cl then 1 else 0) @
     [encode_fd (fd_state cl) (std_fd (tty_in cl) 0), encode_fd (fd_state cl) (std_fd (tty_out cl) 1),
      encode_fd (fd_state cl) (std_fd (tty_err cl) 2)] @
     encode_int (of_int (int (length argv) - (if mount_storage cl then 1 else 0))) @
     encode_args (sent_args (mount_storage cl) argv)"

definition fds_ok :: "client \<Rightarrow> bool" where
  "fds_ok cl \<longleftrightarrow> (\<forall>fd \<in> {0, 1, 2}. fd_state cl fd \<noteq> None)"

lemma send_request_cells:
  assumes "connected cl" and "open_pty cl = Ret (master, tty_name)" and "fds_ok cl"
    and "length (request_cells cl tty_name argv ppid) \<le> room ch"
  shows "send_request cl ch w argv ppid =
    Ret (append_cells ch (request_cells cl tty_name argv ppid), master, watch_output cl w)"
  using assms
  by (simp add: send_request_def request_cells_def send_args_ok fds_ok_def std_fd_def Let_def)

definition received_fd :: "client \<Rightarrow> bool \<Rightarrow> int \<Rightarrow> int" where
  "received_fd cl is_tty fd = (if \<not> is_tty \<and> fd_state cl fd = Some True then fd else -1)"

text \<open>The message the daemon is meant to get.\<close>

definition message_of :: "client \<Rightarrow> u32 \<Rightarrow> string \<Rightarrow> string list \<Rightarrow> u32 \<Rightarrow> su_message" where
  "message_of cl uid tty_name as ppid =
     \<lparr>remote_pid = own_pid cl, pts_slave = tty_name, req_pid = ppid, req_uid = uid, req_mount = mount_storage cl,
      infd = received_fd cl (tty_in cl) 0, outfd = received_fd cl (tty_out cl) 1, errfd = received_fd cl (tty_err cl) 2,
      req_args = as\<rparr>"

lemma read_request_cells:
  assumes "arg_ok tty_name" and "list_all arg_ok as" and "length as \<le> 512" and "count = (of_nat (length as) :: u32)"
  shows "read_request True (Some uid)
     (encode_int (own_pid cl) @ encode_string tty_name @ encode_int ppid @ encode_int (if mount_storage cl then 1 else 0) @
      [encode_fd (fd_state cl) (std_fd (tty_in cl) 0), encode_fd (fd_state cl) (std_fd (tty_out cl) 1),
       encode_fd (fd_state cl) (std_fd (tty_err cl) 2)] @ encode_int count @ encode_args as @ rest) =
     Ret (message_of cl uid tty_name as ppid, rest)"
  using assms sint_of_nat32[of "length as"]
  by (simp add: read_request_def arg_ok_def[of tty_name] read_args_encode message_of_def received_fd_def std_fd_def)

lemma sent_args_count:
  assumes "\<not> mount \<or> 2 \<le> length argv"
  shows "int (length argv) - (if mount then 1 else 0) = int (length (sent_args mount argv))"
  using assms by (auto simp: sent_args_def)

lemma request_read_back:
  assumes "arg_ok tty_name" and "list_all arg_ok argv" and "length argv \<le> 512" and "\<not> mount_storage cl \<or> 2 \<le> length argv"
  shows "read_request True (Some uid) (request_cells cl tty_name argv ppid @ rest) =
    Ret (message_of cl uid tty_name (sent_args (mount_storage cl) argv) ppid, rest)"
proof -
  have "list_all arg_ok (sent_args (mount_storage cl) argv)" "length (sent_args (mount_storage cl) argv) \<le> 512"
    using assms(2,3) by (auto simp: sent_args_def list_all_iff dest: in_set_takeD in_set_dropD)
  moreover have "(of_int (int (length argv) - (if mount_storage cl then 1 else 0)) :: u32) =
      of_nat (length (sent_args (mount_storage cl) argv))"
    using sent_args_count[OF assms(4)] by (metis of_int_of_nat_eq)
  ultimately show ?thesis
    using read_request_cells[OF assms(1), of "sent_args (mount_storage cl) argv"] by (simp add: request_cells_def)
qed

text \<open>
  The descriptor the child uses: the one it received, or the PTY where there is one and no
  descriptor came with the request.
\<close>

definition session_fd :: "client \<Rightarrow> string \<Rightarrow> int \<Rightarrow> bool \<Rightarrow> int \<Rightarrow> int" where
  "session_fd cl tty_name ptsfd is_tty fd =
     (if tty_name \<noteq> [] \<and> received_fd cl is_tty fd < 0 then ptsfd else received_fd cl is_tty fd)"

lemma child_fds_session:
  assumes "tty_name = [] \<or> open_pts ce tty_name = Some ptsfd \<and> pts_stat ce = Some (uid, True)"
  shows "child_fds ce (message_of cl uid tty_name as ppid) =
    Ret (session_fd cl tty_name ptsfd (tty_in cl) 0, session_fd cl tty_name ptsfd (tty_out cl) 1,
         session_fd cl tty_name ptsfd (tty_err cl) 2)"
  using assms by (auto simp: child_fds_def message_of_def session_fd_def)

text \<open>With storage to mount and no argument the count is one short: the program name stays unread.\<close>

lemma request_out_of_step:
  assumes "arg_ok tty_name" and "mount_storage cl"
  shows "read_request True (Some uid) (request_cells cl tty_name [a0] ppid @ rest) =
    Ret (message_of cl uid tty_name [] ppid, encode_string a0 @ rest)"
  using read_request_cells[OF assms(1), of "[]" 0 uid cl ppid "encode_string a0 @ rest"] assms(2)
  by (simp add: request_cells_def sent_args_def)

subsection \<open>The answer\<close>

lemma sint_code: "0 \<le> code \<Longrightarrow> code < 256 \<Longrightarrow> sint (of_int code :: u32) = code"
  by (simp add: signed_of_int signed_take_bit_int_eq_self)

lemma await_code_plain:
  assumes "\<not> tty_in cl" and "\<not> tty_out cl" and "0 \<le> code" and "code < 256"
  shows "await_code cl master (encode_int ack @ encode_int (of_int code) @ rest) chunks rets t w = Ret (Some (code, [], t))"
  using assms by (simp add: await_code_def sint_code)

lemma wexitstatus_range: "0 \<le> WEXITSTATUS s" "WEXITSTATUS s < 256"
  by (simp_all add: WEXITSTATUS_def)

subsection \<open>Signals\<close>

lemma set_handlers_apply:
  "set_handlers ok d hs s = (if s \<in> set quit_signals \<and> ok s then d else hs s)"
proof -
  have "fold (\<lambda>s hs. if ok s then hs(s := d) else hs) xs hs s = (if s \<in> set xs \<and> ok s then d else hs s)" for xs hs
    by (induction xs arbitrary: hs) auto
  then show ?thesis by (simp add: set_handlers_def)
qed

subsection \<open>Bounds on what any client can make the daemon read\<close>

lemma read_string_bound:
  assumes "read_string mok inp = Ret (a, rest)"
  shows "arg_ok a \<and> length rest + 4 \<le> length inp"
proof -
  define w :: u32 where "w = le_word (map fst (take 4 inp))"
  have w: "4 \<le> length inp" "0 \<le> sint w" "sint w \<le> 4096" "nat (sint w) \<le> length (drop 4 inp)"
      "a = cstr_of (map (\<lambda>c. char_of (unat (fst c))) (take (nat (sint w)) (drop 4 inp)))" "rest = drop (nat (sint w)) (drop 4 inp)"
    using assms by (auto simp: read_string_def read_int_def Let_def w_def split: if_splits)
  then have "length a \<le> 4096" unfolding w(5) cstr_of_def
    by (intro order_trans[OF length_takeWhile_le]) simp
  then show ?thesis using w by (auto simp: arg_ok_def cstr_def cstr_of_def dest: set_takeWhileD)
qed

lemma read_args_bound:
  "read_args mok n inp = Ret (as, rest) \<Longrightarrow> length as = n \<and> list_all arg_ok as"
proof (induction n arbitrary: inp as)
  case (Suc n)
  then obtain a inp' as' where "read_string mok inp = Ret (a, inp')" "read_args mok n inp' = Ret (as', rest)" "as = a # as'"
    by auto
  with Suc.IH[of inp' as'] read_string_bound[of mok inp a inp'] show ?case by simp
qed simp

lemma read_request_bound:
  assumes "read_request mok peer inp = Ret (m, rest)"
  shows "length (req_args m) \<le> 512 \<and> list_all arg_ok (req_args m) \<and> arg_ok (pts_slave m) \<and> peer = Some (req_uid m)"
  using assms
  by (auto simp: read_request_def split: option.splits if_splits dest!: read_args_bound read_string_bound)

end
