(* ===== verification/SampleSession.thy ===== *)
theory SampleSession
  imports Daemon
begin

text \<open>
  A concrete client, daemon and system on which the results about su sessions are instantiated:
  the caller is a shell with uid 10042, no terminal is involved, and every call succeeds.
\<close>

definition sample_env :: su_env where
  "sample_env = \<lparr>getppid = 77, is_daemon = False, daemon_from_uid = 0, daemon_from_pid = 0,
     cmdline = (\<lambda>_. Some (''sh'' @ [NUL] @ ''-i'' @ [NUL])), exe = (\<lambda>_. Some ''/system/bin/sh''),
     getpwuid = (\<lambda>uid. Some \<lparr>pw_name = Some ''user'', pw_uid = uid, pw_dir = ''/data''\<rparr>), getpwnam = (\<lambda>_. None)\<rparr>"

definition root_process :: process where
  "root_process = \<lparr>ids = \<lparr>ruid = 0, euid = 0, suid = 0, rgid = 0, egid = 0, sgid = 0\<rparr>,
     environ = [''PATH'' \<mapsto> ''/system/bin'', ''LD_PRELOAD'' \<mapsto> ''evil.so''], file_mask = 18\<rparr>"

definition all_succeed :: su_calls where
  "all_succeed = \<lparr>mem_ok = True, running = False, samsung_pid = 0, samsung_wait = None,
     allow_fork = \<lparr>forked = 0, status = None, exec_ok = True\<rparr>\<rparr>"

definition sample_client :: client where
  "sample_client = \<lparr>own_pid = 78, connected = True, mount_storage = False, tty_in = False, tty_out = False, tty_err = False,
     pty = \<lparr>ptmx = None, slave = None, grant_ok = False, unlock_ok = False\<rparr>, fd_state = (\<lambda>_. Some True),
     watch_results = (True, True, True), raw_results = (True, True, True), restore_ok = True, sigaction_ok = (\<lambda>_. True)\<rparr>"

definition sample_child :: child_env where
  "sample_child = \<lparr>open_pts = (\<lambda>_. None), pts_stat = None, dup_ok = True, unshare_ok = True, slave_mount_ok = True\<rparr>"

definition no_watcher :: winch where
  "no_watcher = \<lparr>watcher_state = NotStarted, closing_time = False, blocked = False, pending = False, raised = False,
     master_size = (24, 80), slave_size = (0, 0)\<rparr>"

definition cooked_tty :: tty_state where
  "cooked_tty = \<lparr>stdin_tio = \<lparr>c_iflag = 0x500, c_oflag = 5, c_lflag = 0x8a3b, c_vmin = 1, c_vtime = 0\<rparr>,
     old_stdin = \<lparr>c_iflag = 0, c_oflag = 0, c_lflag = 0, c_vmin = 0, c_vtime = 0\<rparr>, stdin_is_raw = False\<rparr>"

definition sample_terminal :: terminal where
  "sample_terminal = \<lparr>handlers = (\<lambda>_. SIG_DFL), tty = cooked_tty, open_fds = {0, 1, 2, 3}\<rparr>"

text \<open>The request that \<^verbatim>\<open>su -c id\<close> makes.\<close>

definition sample_options :: su_options where
  "sample_options = no_options\<lparr>o_shell := Some DEFAULT_SHELL, o_command := Some ''id''\<rparr>"

definition sample_request :: su_request where
  "sample_request = \<lparr>to_uid = 0, to_name = [], login = False, keepenv = False, shell = Some DEFAULT_SHELL, command = Some ''id'',
     to_argv = [''su'', ''-c'', ''id''], to_optind = 3\<rparr>"

definition sample_vars :: "string \<Rightarrow> string option" where
  "sample_vars = (sanitize (environ root_process))(''HOME'' \<mapsto> ''/data'', ''SHELL'' \<mapsto> DEFAULT_SHELL)"

lemma sample_getopt [simp]:
  "su_getopt [''su'', ''-c'', ''id''] \<lparr>optind = 1, place = []\<rparr> no_options = Ret (3, sample_options)"
  using su_getopt_arg(1)[of "[''su'']" "''id''" "[]" no_options] su_getopt_end[of "[]" "[''su'', ''-c'', ''id'']" sample_options]
  by (simp add: sample_options_def not_option_def)

lemma sample_request_ok [simp]:
  "request env [''su'', ''-c'', ''id''] 3 sample_options = Ret sample_request" "request_ok sample_request"
  "wanted sample_request = (DEFAULT_SHELL, [''-c'', ''id''])" "arg0_of sample_request = ''sh''"
  by (simp_all add: request_def sample_options_def no_options_def sample_request_def request_ok_def wanted_def arg0_of_def base_name_def)

lemma sample_populate [simp]:
  "populate_environment (sample_env\<lparr>is_daemon := b, daemon_from_uid := u, daemon_from_pid := q\<rparr>) sample_request (sanitize (environ root_process)) =
     Ret sample_vars"
  by (simp add: populate_environment_def sample_env_def sample_request_def sample_vars_def Let_def)

lemma root_process_ids [simp]: "euid (ids root_process) = 0"
  by (simp add: root_process_def)

lemma sample_client_simps [simp]:
  "connected sample_client" "\<not> mount_storage sample_client" "fds_ok sample_client" "open_pty sample_client = Ret (-1, [])"
  "\<not> tty_in sample_client" "\<not> tty_out sample_client" "\<not> tty_err sample_client" "own_pid sample_client = 78"
  "fd_state sample_client = (\<lambda>_. Some True)"
  by (simp_all add: sample_client_def fds_ok_def open_pty_def)

lemma all_succeed_simps [simp]:
  "mem_ok all_succeed" "samsung_pid all_succeed = 0" "forked (allow_fork all_succeed) = 0" "exec_ok (allow_fork all_succeed)"
  by (simp_all add: all_succeed_def)

lemma sample_from_init [simp]:
  "from_init (sample_env\<lparr>is_daemon := True, daemon_from_uid := uid, daemon_from_pid := pid\<rparr>) cr =
     Ret (0, \<lparr>from_pid = pid, from_uid = uid, from_name = ''user'', from_bin = ''/system/bin/sh'', from_args = ''-i ''\<rparr>)"
  by (simp add: from_init_def sample_env_def split_cmdline_def copy_fits_def Let_def)

end
