(* ===== verification/ProcTitle.thy ===== *)
theory ProcTitle
  imports Prelude
begin

text \<open>
  The process title (\<^verbatim>\<open>src/jni/su/setproctitle.c\<close>), which the daemon sets to \<^verbatim>\<open>permd\<close>: the environment is
  moved into a block of its own, and the title overwrites the memory where the kernel put the
  arguments and the environment. Memory is a partial map from addresses to characters; an access
  outside of it is undefined behaviour. \<open>argv\<close> and \<open>environ\<close> are the lists of their non-null pointers.
\<close>

section \<open>Definitions\<close>

type_synonym mem = "nat \<rightharpoonup> char"

definition store_char :: "mem \<Rightarrow> nat \<Rightarrow> char \<Rightarrow> mem outcome" where
  "store_char m a c = (if m a = None then UB OutOfBounds else Ret (m(a \<mapsto> c)))"

definition load_char :: "mem \<Rightarrow> nat \<Rightarrow> char outcome" where
  "load_char m a = (case m a of None \<Rightarrow> UB OutOfBounds | Some c \<Rightarrow> Ret c)"

text \<open>\<open>strlen\<close>; \<open>None\<close> when there is no terminating NUL before the end of the mapped memory.\<close>

partial_function (option) strlen_at :: "mem \<Rightarrow> nat \<Rightarrow> nat option" where
  "strlen_at m a = (case m a of None \<Rightarrow> None
     | Some c \<Rightarrow> if c = NUL then Some 0 else Option.bind (strlen_at m (a + 1)) (\<lambda>n. Some (n + 1)))"

definition strlen :: "mem \<Rightarrow> nat \<Rightarrow> nat outcome" where
  "strlen m a = (case strlen_at m a of None \<Rightarrow> UB OutOfBounds | Some n \<Rightarrow> Ret n)"

text \<open>\<open>cpystrn\<close>: the loop runs while \<^verbatim>\<open>--n\<close> is not 0; the result is the address of the NUL it wrote.\<close>

fun cpystrn_loop :: "nat \<Rightarrow> mem \<Rightarrow> nat \<Rightarrow> nat \<Rightarrow> (mem \<times> nat) outcome" where
  "cpystrn_loop 0 m dst src = obind (store_char m dst NUL) (\<lambda>m. Ret (m, dst))"
| "cpystrn_loop (Suc n) m dst src =
     obind (load_char m src) (\<lambda>c.
     obind (store_char m dst c) (\<lambda>m.
       if c = NUL then Ret (m, dst) else cpystrn_loop n m (dst + 1) (src + 1)))"

definition cpystrn :: "mem \<Rightarrow> nat \<Rightarrow> nat \<Rightarrow> nat \<Rightarrow> (mem \<times> nat) outcome" where
  "cpystrn m dst src n = (if n = 0 then Ret (m, dst) else cpystrn_loop (n - 1) m dst src)"

subsection \<open>Preparing the memory\<close>

record title_state =
  memory :: mem
  os_argv :: "nat list"
  environ_ptrs :: "nat list"
  os_argv_last :: nat

text \<open>The loop that adds up the sizes of the environment strings.\<close>

fun env_size :: "mem \<Rightarrow> nat list \<Rightarrow> nat outcome" where
  "env_size m [] = Ret 0"
| "env_size m (e # es) = obind (strlen m e) (\<lambda>n. obind (env_size m es) (\<lambda>sz. Ret (n + 1 + sz)))"

text \<open>The loop that walks over the arguments as long as they lie one after the other.\<close>

fun args_end :: "mem \<Rightarrow> nat list \<Rightarrow> nat \<Rightarrow> nat outcome" where
  "args_end m [] end_ptr = Ret end_ptr"
| "args_end m (a # as) end_ptr =
     (if end_ptr = a then obind (strlen m a) (\<lambda>n. args_end m as (a + n + 1)) else args_end m as end_ptr)"

text \<open>The loop that copies the environment strings that follow to \<open>p\<close>.\<close>

fun move_env :: "mem \<Rightarrow> nat list \<Rightarrow> nat \<Rightarrow> nat \<Rightarrow> (mem \<times> nat list \<times> nat) outcome" where
  "move_env m [] end_ptr p = Ret (m, [], end_ptr)"
| "move_env m (e # es) end_ptr p =
     (if end_ptr = e
      then obind (strlen m e) (\<lambda>n.
           obind (cpystrn m p e (n + 1)) (\<lambda>(m, _).
           obind (move_env m es (e + (n + 1)) (p + (n + 1))) (\<lambda>(m, es, end_ptr). Ret (m, p # es, end_ptr))))
      else obind (move_env m es end_ptr p) (\<lambda>(m, es, end_ptr). Ret (m, e # es, end_ptr)))"

text \<open>Memory after \<^verbatim>\<open>calloc\<close> has returned the block of the given size at \<open>p\<close>.\<close>

definition calloc_at :: "mem \<Rightarrow> nat \<Rightarrow> nat \<Rightarrow> mem" where
  "calloc_at m p sz = (\<lambda>a. if p \<le> a \<and> a < p + sz then Some NUL else m a)"

definition init_setproctitle :: "(nat \<Rightarrow> nat option) \<Rightarrow> mem \<Rightarrow> nat list \<Rightarrow> nat list \<Rightarrow> nat \<Rightarrow> (int \<times> title_state) outcome" where
  "init_setproctitle calloc m argv env old_last =
     obind (env_size m env) (\<lambda>sz.
       case calloc sz of
         None \<Rightarrow> Ret (-1, \<lparr>memory = m, os_argv = argv, environ_ptrs = env, os_argv_last = old_last\<rparr>)
       | Some p \<Rightarrow>
           let m = calloc_at m p sz in
           (case argv of [] \<Rightarrow> UB NullDeref
            | a0 # _ \<Rightarrow>
                obind (args_end m argv a0) (\<lambda>end_ptr.
                obind (move_env m env end_ptr p) (\<lambda>(m, env, end_ptr).
                  Ret (0, \<lparr>memory = m, os_argv = argv, environ_ptrs = env, os_argv_last = end_ptr - 1\<rparr>)))))"

subsection \<open>Setting the title\<close>

fun memset :: "mem \<Rightarrow> nat \<Rightarrow> char \<Rightarrow> nat \<Rightarrow> mem outcome" where
  "memset m p c 0 = Ret m"
| "memset m p c (Suc n) = obind (store_char m p c) (\<lambda>m. memset m (p + 1) c n)"

text \<open>A pointer difference converted to \<^verbatim>\<open>size_t\<close>.\<close>

definition ptr_diff :: "nat \<Rightarrow> nat \<Rightarrow> nat" where
  "ptr_diff a b = nat ((int a - int b) mod 2 ^ 32)"

text \<open>\<open>setproctitle\<close>; the title is a string in memory. \<^verbatim>\<open>os_argv[1] = NULL\<close> ends the argument list after the first.\<close>

definition setproctitle :: "title_state \<Rightarrow> nat \<Rightarrow> title_state outcome" where
  "setproctitle s title =
     (case os_argv s of [] \<Rightarrow> UB NullDeref
      | a0 # _ \<Rightarrow>
          obind (cpystrn (memory s) a0 title (ptr_diff (os_argv_last s) a0)) (\<lambda>(m, p).
          obind (memset m p NUL (ptr_diff (os_argv_last s) p)) (\<lambda>m.
            Ret (s\<lparr>memory := m, os_argv := [a0]\<rparr>))))"

section \<open>Strings in memory\<close>

definition str_at :: "mem \<Rightarrow> nat \<Rightarrow> string \<Rightarrow> bool" where
  "str_at m a s \<longleftrightarrow> cstr s \<and> (\<forall>i < length s. m (a + i) = Some (s ! i)) \<and> m (a + length s) = Some NUL"

text \<open>The strings lie one after the other from \<open>a\<close> to \<open>e\<close>, at the given addresses.\<close>

fun laid :: "mem \<Rightarrow> nat \<Rightarrow> nat list \<Rightarrow> string list \<Rightarrow> nat \<Rightarrow> bool" where
  "laid m a [] [] e = (a = e)"
| "laid m a (x # xs) (s # ss) e = (x = a \<and> str_at m a s \<and> laid m (a + length s + 1) xs ss e)"
| "laid m a _ _ e = False"

definition strings_size :: "string list \<Rightarrow> nat" where
  "strings_size ss = sum_list (map (\<lambda>s. length s + 1) ss)"

lemma strings_size_simps [simp]:
  "strings_size [] = 0" "strings_size (s # ss) = length s + 1 + strings_size ss"
  by (simp_all add: strings_size_def)

lemma laid_end: "laid m a xs ss e \<Longrightarrow> e = a + strings_size ss"
  by (induction m a xs ss e rule: laid.induct) auto

lemma str_at_Cons: "str_at m a (c # s) \<longleftrightarrow> c \<noteq> NUL \<and> m a = Some c \<and> str_at m (a + 1) s"
  by (auto simp: str_at_def nth_Cons All_less_Suc2)

lemma str_at_Nil: "str_at m a [] \<longleftrightarrow> m a = Some NUL"
  by (simp add: str_at_def)

lemmas str_at_simps = str_at_Nil str_at_Cons

lemma strlen_str: "str_at m a s \<Longrightarrow> strlen m a = Ret (length s)"
proof -
  have "str_at m a s \<Longrightarrow> strlen_at m a = Some (length s)"
    by (induction s arbitrary: a) (subst strlen_at.simps, simp add: str_at_simps)+
  then show "str_at m a s \<Longrightarrow> strlen m a = Ret (length s)" by (simp add: strlen_def)
qed

text \<open>A string is unaffected by changes elsewhere.\<close>

lemma str_at_cong: "(\<And>i. a \<le> i \<Longrightarrow> i \<le> a + length s \<Longrightarrow> m' i = m i) \<Longrightarrow> str_at m' a s = str_at m a s"
  by (simp add: str_at_def)

lemma laid_cong: "laid m a xs ss e \<Longrightarrow> (\<And>i. a \<le> i \<Longrightarrow> i < e \<Longrightarrow> m' i = m i) \<Longrightarrow> laid m' a xs ss e"
proof (induction m a xs ss e rule: laid.induct)
  case (2 m a x xs s ss e)
  then have "a + length s < e" using laid_end[of m "a + length s + 1" xs ss e] by simp
  with 2 show ?case using str_at_cong[of a s m' m] by simp
qed simp_all

definition put_str :: "mem \<Rightarrow> nat \<Rightarrow> string \<Rightarrow> mem" where
  "put_str m dst t =
     (\<lambda>a. if dst \<le> a \<and> a < dst + length t then Some (t ! (a - dst)) else if a = dst + length t then Some NUL else m a)"

lemma put_str_Nil [simp]: "put_str m dst [] = m(dst \<mapsto> NUL)"
  by (auto simp: put_str_def fun_eq_iff)

lemma put_str_Cons [simp]: "put_str m dst (c # t) = put_str (m(dst \<mapsto> c)) (dst + 1) t"
  by (auto simp: put_str_def fun_eq_iff nth_Cons' Suc_diff_le intro: arg_cong[where f = "\<lambda>k. t ! k"])

lemma put_str_at: "cstr t \<Longrightarrow> str_at (put_str m dst t) dst t"
  by (simp add: str_at_def put_str_def)

lemma put_str_else: "a < dst \<or> dst + length t < a \<Longrightarrow> put_str m dst t a = m a"
  by (auto simp: put_str_def)

lemma put_str_mapped: "m a \<noteq> None \<Longrightarrow> put_str m dst t a \<noteq> None"
  by (simp add: put_str_def)

lemma cpystrn_loop_str:
  assumes "str_at m src s" and "\<And>i. i \<le> min n (length s) \<Longrightarrow> m (dst + i) \<noteq> None"
    and "dst + min n (length s) < src \<or> src + length s < dst"
  shows "cpystrn_loop n m dst src = Ret (put_str m dst (take n s), dst + min n (length s))"
  using assms
proof (induction n arbitrary: m dst src s)
  case 0
  then show ?case by (simp add: store_char_def fun_upd_def)
next
  case (Suc n)
  show ?case
  proof (cases s)
    case Nil
    with Suc.prems(1) Suc.prems(2)[of 0] show ?thesis by (simp add: str_at_simps load_char_def store_char_def fun_upd_def)
  next
    case (Cons c t)
    let ?m = "m(dst \<mapsto> c)"
    have c: "m src = Some c" "c \<noteq> NUL" and t: "str_at m (src + 1) t" using Suc.prems(1) by (simp_all add: Cons str_at_simps)
    have "str_at ?m (src + 1) t" using t Suc.prems(3) by (subst str_at_cong[of _ _ _ m]) (auto simp: Cons)
    moreover have "?m (dst + 1 + i) \<noteq> None" if "i \<le> min n (length t)" for i
      using Suc.prems(2)[of "Suc i"] that by (simp add: Cons)
    moreover have "dst + 1 + min n (length t) < src + 1 \<or> src + 1 + length t < dst + 1" using Suc.prems(3) by (auto simp: Cons)
    ultimately have "cpystrn_loop n ?m (dst + 1) (src + 1) = Ret (put_str ?m (dst + 1) (take n t), dst + 1 + min n (length t))"
      by (rule Suc.IH)
    with c Suc.prems(2)[of 0] show ?thesis by (simp add: Cons load_char_def store_char_def)
  qed
qed

lemma memset_mapped:
  assumes "\<And>i. i < n \<Longrightarrow> m (p + i) \<noteq> None"
  shows "memset m p c n = Ret (\<lambda>a. if p \<le> a \<and> a < p + n then Some c else m a)"
  using assms
proof (induction n arbitrary: m p)
  case 0
  show ?case by (auto simp: fun_eq_iff)
next
  case (Suc n)
  have "(m(p \<mapsto> c)) (p + 1 + i) \<noteq> None" if "i < n" for i using Suc.prems[of "Suc i"] that by simp
  note IH = Suc.IH[of "m(p \<mapsto> c)" "p + 1", OF this]
  have "store_char m p c = Ret (m(p \<mapsto> c))" using Suc.prems[of 0] by (simp add: store_char_def)
  moreover have "(\<lambda>a. if p + 1 \<le> a \<and> a < p + 1 + n then Some c else (m(p \<mapsto> c)) a) =
      (\<lambda>a. if p \<le> a \<and> a < p + Suc n then Some c else m a)" by (auto simp: fun_eq_iff)
  ultimately show ?case by (simp only: memset.simps obind.simps IH)
qed

lemma memset_unmapped: "m (p + k) = None \<Longrightarrow> k < n \<Longrightarrow> memset m p c n = UB OutOfBounds"
proof (induction n arbitrary: m p k)
  case (Suc n)
  show ?case
  proof (cases k)
    case 0
    with Suc.prems show ?thesis by (simp add: store_char_def)
  next
    case (Suc j)
    with Suc.prems have "memset (m(p \<mapsto> c)) (p + 1) c n = UB OutOfBounds" by (intro Suc.IH[of _ _ j]) simp_all
    then show ?thesis by (cases "m p") (simp_all add: store_char_def)
  qed
qed simp

lemma ptr_diff_le: "b \<le> a \<Longrightarrow> a < 2 ^ 32 \<Longrightarrow> ptr_diff a b = a - b"
  by (simp add: ptr_diff_def of_nat_diff[symmetric] nat_mod_distrib del: of_nat_diff)

lemma ptr_diff_null: "0 < b \<Longrightarrow> b < 2 ^ 32 \<Longrightarrow> ptr_diff 0 b = 2 ^ 32 - b"
  by (auto simp: ptr_diff_def zmod_zminus1_eq_if nat_diff_distrib)

section \<open>The environment survives\<close>

lemma env_size_laid: "laid m a xs ss e \<Longrightarrow> env_size m xs = Ret (strings_size ss)"
  by (induction m a xs ss e rule: laid.induct) (simp_all add: strlen_str)

lemma args_end_laid: "laid m a xs ss e \<Longrightarrow> args_end m xs a = Ret e"
  by (induction m a xs ss e rule: laid.induct) (auto simp: strlen_str)

lemma move_env_laid:
  assumes "laid m a xs ss e" and "\<And>i. i < strings_size ss \<Longrightarrow> m (p + i) \<noteq> None" and "p + strings_size ss \<le> a \<or> e \<le> p"
  shows "\<exists>m' ys. move_env m xs a p = Ret (m', ys, e) \<and> laid m' p ys ss (p + strings_size ss) \<and>
    (\<forall>i. \<not> (p \<le> i \<and> i < p + strings_size ss) \<longrightarrow> m' i = m i)"
  using assms
proof (induction xs ss arbitrary: m a p rule: list_induct2')
  case (4 x xs s ss)
  let ?m = "put_str m p s" and ?a = "a + length s + 1" and ?p = "p + length s + 1"
  have x: "x = a" and s: "str_at m a s" and rest: "laid m ?a xs ss e" using 4(2) by simp_all
  have e: "e = ?a + strings_size ss" using laid_end[OF rest] .
  have "m (p + i) \<noteq> None" if "i \<le> length s" for i using 4(3)[of i] that by simp
  then have cp: "cpystrn m p a (length s + 1) = Ret (?m, p + length s)"
    using cpystrn_loop_str[OF s, of "length s" p] 4(4) e by (auto simp: cpystrn_def)
  have lower: "?m i = m i" if "\<not> (p \<le> i \<and> i < ?p)" for i using that by (intro put_str_else) auto
  have "laid ?m ?a xs ss e" using 4(4) e by (intro laid_cong[OF rest] lower) auto
  moreover have "?m (?p + i) \<noteq> None" if "i < strings_size ss" for i
    using 4(3)[of "length s + 1 + i"] that by (intro put_str_mapped) (simp add: add.assoc)
  moreover have "?p + strings_size ss \<le> ?a \<or> e \<le> ?p" using 4(4) e by auto
  ultimately obtain m' ys where IH: "move_env ?m xs ?a ?p = Ret (m', ys, e)" "laid m' ?p ys ss (?p + strings_size ss)"
    "\<forall>i. \<not> (?p \<le> i \<and> i < ?p + strings_size ss) \<longrightarrow> m' i = ?m i"
    using "4.IH"[of ?m ?a ?p] by blast
  have "str_at m' p s = str_at ?m p s" using IH(3) by (intro str_at_cong) auto
  then have "str_at m' p s" using put_str_at[of s m p] s by (simp add: str_at_def)
  moreover have "m' i = m i" if "\<not> (p \<le> i \<and> i < p + strings_size (s # ss))" for i
    using IH(3) lower[of i] that by auto
  ultimately show ?case using IH(1,2) strlen_str[OF s] cp by (auto simp: x add.assoc)
qed simp_all

text \<open>
  What the kernel hands over: the strings of the arguments and of the environment one after the
  other from \<open>a\<close> to \<open>e\<close>.
\<close>

definition kernel_layout :: "mem \<Rightarrow> nat \<Rightarrow> nat list \<Rightarrow> string list \<Rightarrow> nat list \<Rightarrow> string list \<Rightarrow> nat \<Rightarrow> bool" where
  "kernel_layout m a argv args env vars e \<longleftrightarrow> argv \<noteq> [] \<and>
     laid m a argv args (a + strings_size args) \<and> laid m (a + strings_size args) env vars e"

lemma layout_bounds:
  assumes "kernel_layout m a argv args env vars e"
  shows "e = a + strings_size args + strings_size vars" "argv ! 0 = a" "0 < strings_size args"
  using assms by (auto simp: kernel_layout_def neq_Nil_conv dest: laid_end elim: laid.elims)

lemma laid_mapped: "laid m a xs ss e \<Longrightarrow> a \<le> i \<Longrightarrow> i < e \<Longrightarrow> m i \<noteq> None"
proof (induction m a xs ss e rule: laid.induct)
  case (2 m a x xs s ss e)
  have "m i \<noteq> None" if "str_at m a s" "i \<le> a + length s"
  proof (cases "i = a + length s")
    case False
    then have "i - a < length s" using that(2) 2(3) by simp
    then have "m (a + (i - a)) = Some (s ! (i - a))" using that(1) unfolding str_at_def by blast
    then show ?thesis using 2(3) by simp
  qed (use that in \<open>simp add: str_at_def\<close>)
  with 2 show ?case by (cases "i \<le> a + length s") auto
qed simp_all

lemma init_setproctitle_layout:
  assumes lay: "kernel_layout m a argv args env vars e" and p: "calloc (strings_size vars) = Some p"
    and apart: "p + strings_size vars \<le> a \<or> e \<le> p"
  obtains m' ys where "init_setproctitle calloc m argv env last0 =
      Ret (0, \<lparr>memory = m', os_argv = argv, environ_ptrs = ys, os_argv_last = e - 1\<rparr>)"
    and "laid m' p ys vars (p + strings_size vars)" and "\<And>i. \<not> (p \<le> i \<and> i < p + strings_size vars) \<Longrightarrow> m' i = m i"
proof -
  let ?m = "calloc_at m p (strings_size vars)" and ?b = "a + strings_size args"
  note e = layout_bounds(1)[OF lay]
  have same: "?m i = m i" if "a \<le> i" "i < e" for i using that apart by (auto simp: calloc_at_def)
  have "laid m a argv args ?b" and "laid m ?b env vars e" using lay by (simp_all add: kernel_layout_def)
  then have args: "laid ?m a argv args ?b" and env: "laid ?m ?b env vars e"
    using e by (auto elim!: laid_cong intro!: same)
  have "?m (p + i) \<noteq> None" if "i < strings_size vars" for i using that by (simp add: calloc_at_def)
  moreover have "p + strings_size vars \<le> ?b \<or> e \<le> p" using apart e by auto
  ultimately obtain m' ys where mv: "move_env ?m env ?b p = Ret (m', ys, e)" "laid m' p ys vars (p + strings_size vars)"
    "\<forall>i. \<not> (p \<le> i \<and> i < p + strings_size vars) \<longrightarrow> m' i = ?m i"
    using move_env_laid[OF env] by blast
  obtain as where "argv = a # as" using lay layout_bounds(2)[OF lay] by (auto simp: kernel_layout_def neq_Nil_conv)
  moreover have "env_size m env = Ret (strings_size vars)" using lay env_size_laid by (auto simp: kernel_layout_def)
  ultimately have "init_setproctitle calloc m argv env last0 =
      Ret (0, \<lparr>memory = m', os_argv = argv, environ_ptrs = ys, os_argv_last = e - 1\<rparr>)"
    using mv(1) p args_end_laid[OF args] by (auto simp: init_setproctitle_def Let_def)
  moreover have "m' i = m i" if "\<not> (p \<le> i \<and> i < p + strings_size vars)" for i
    using mv(3)[rule_format, OF that] that by (simp add: calloc_at_def)
  ultimately show thesis using that mv(2) by blast
qed

lemma setproctitle_layout:
  assumes argv: "os_argv s = a # as" and n: "a < os_argv_last s" and top: "os_argv_last s < 2 ^ 32" and title: "str_at (memory s) t title"
    and mapped: "\<And>i. a \<le> i \<Longrightarrow> i < os_argv_last s \<Longrightarrow> memory s i \<noteq> None"
    and apart: "os_argv_last s \<le> t \<or> t + length title < a"
  obtains m' where "setproctitle s t = Ret (s\<lparr>memory := m', os_argv := [a]\<rparr>)"
    and "str_at m' a (take (os_argv_last s - a - 1) title)" and "\<And>i. i < a \<or> os_argv_last s \<le> i \<Longrightarrow> m' i = memory s i"
    and "\<And>i. a + length title \<le> i \<Longrightarrow> i < os_argv_last s \<Longrightarrow> m' i = Some NUL"
proof -
  define n where "n = os_argv_last s - a - 1"
  define l where "l = min n (length title)"
  have lst: "os_argv_last s = a + n + 1" using assms(2) by (simp add: n_def)
  let ?m = "put_str (memory s) a (take n title)"
  have diff: "ptr_diff (os_argv_last s) a = os_argv_last s - a" "ptr_diff (os_argv_last s) (a + l) = os_argv_last s - (a + l)"
    using top ptr_diff_le[of a "os_argv_last s"] ptr_diff_le[of "a + l" "os_argv_last s"] by (simp_all add: lst l_def)
  have cp: "cpystrn (memory s) a t (os_argv_last s - a) = Ret (?m, a + l)"
    using title mapped apart unfolding cpystrn_def lst l_def by (auto intro!: cpystrn_loop_str)
  have "?m (a + l + i) \<noteq> None" if "i < os_argv_last s - (a + l)" for i
    using that mapped by (intro put_str_mapped) (auto simp: lst l_def)
  note ms = memset_mapped[of "os_argv_last s - (a + l)" ?m "a + l" NUL, OF this]
  let ?m' = "\<lambda>i. if a + l \<le> i \<and> i < a + l + (os_argv_last s - (a + l)) then Some NUL else ?m i"
  have "str_at ?m' a (take n title)"
  proof -
    have len: "length (take n title) = l" by (simp add: l_def)
    have "str_at ?m a (take n title)" using title by (intro put_str_at) (auto simp: str_at_def cstr_def dest: in_set_takeD)
    then show ?thesis unfolding str_at_def len by (auto simp: lst l_def)
  qed
  moreover have "?m' i = memory s i" if "i < a \<or> os_argv_last s \<le> i" for i
    using that by (auto simp: lst l_def intro!: put_str_else)
  moreover have "?m' i = Some NUL" if "a + length title \<le> i" "i < os_argv_last s" for i
    using that by (auto simp: l_def)
  moreover have "setproctitle s t = Ret (s\<lparr>memory := ?m', os_argv := [a]\<rparr>)"
    by (simp add: setproctitle_def argv diff cp ms)
  ultimately show thesis using that[of ?m'] unfolding n_def by blast
qed

text \<open>
  The two calls of \<open>su_main\<close>: the environment has the same strings as before, the memory of the
  arguments holds the title, and nothing changes outside of that memory and the new block.
\<close>

lemma title_replaces_arguments:
  assumes lay: "kernel_layout m a argv args env vars e" and p: "calloc (strings_size vars) = Some p"
    and apart: "p + strings_size vars \<le> a \<or> e \<le> p" and size: "a + 1 < e" "e \<le> 2 ^ 32"
    and title: "str_at m t title" and t: "e \<le> t \<or> t + length title < a" "t + length title < p \<or> p + strings_size vars \<le> t"
  obtains s s' where "init_setproctitle calloc m argv env last0 = Ret (0, s)" and "setproctitle s t = Ret s'"
    and "os_argv s' = [a]" and "str_at (memory s') a (take (e - a - 2) title)"
    and "laid (memory s') p (environ_ptrs s') vars (p + strings_size vars)"
    and "\<And>i. \<not> (a \<le> i \<and> i < e) \<Longrightarrow> \<not> (p \<le> i \<and> i < p + strings_size vars) \<Longrightarrow> memory s' i = m i"
proof -
  obtain m1 ys where init: "init_setproctitle calloc m argv env last0 =
      Ret (0, \<lparr>memory = m1, os_argv = argv, environ_ptrs = ys, os_argv_last = e - 1\<rparr>)" (is "_ = Ret (0, ?s)")
    and env: "laid m1 p ys vars (p + strings_size vars)"
    and m1: "\<And>i. \<not> (p \<le> i \<and> i < p + strings_size vars) \<Longrightarrow> m1 i = m i"
    using init_setproctitle_layout[where calloc = calloc, OF lay p apart, of last0] by metis
  note b = layout_bounds[OF lay]
  obtain as where argv: "argv = a # as" using lay b(2) by (auto simp: kernel_layout_def neq_Nil_conv)
  have "str_at m1 t title = str_at m t title" using t(2) by (intro str_at_cong m1) auto
  then have h1: "str_at (memory ?s) t title" using title by simp
  have h2: "memory ?s i \<noteq> None" if "a \<le> i" "i < os_argv_last ?s" for i
  proof -
    have "m i \<noteq> None" using lay that laid_mapped[of m a argv args _ i] laid_mapped[of m _ env vars e i]
      by (cases "i < a + strings_size args") (auto simp: kernel_layout_def)
    moreover have "\<not> (p \<le> i \<and> i < p + strings_size vars)" using that apart by auto
    ultimately show ?thesis using m1[of i] by simp
  qed
  have "os_argv_last ?s \<le> t \<or> t + length title < a" "a < os_argv_last ?s" "os_argv_last ?s < 2 ^ 32"
    using t(1) size by auto
  then obtain m2 where set: "setproctitle ?s t = Ret (?s\<lparr>memory := m2, os_argv := [a]\<rparr>)"
    and str: "str_at m2 a (take (e - 1 - a - 1) title)" and m2: "\<And>i. i < a \<or> e - 1 \<le> i \<Longrightarrow> m2 i = m1 i"
    using setproctitle_layout[OF _ _ _ h1 h2, of a as] argv by (metis title_state.select_convs(1,2,4))
  have "laid m2 p ys vars (p + strings_size vars)" using apart by (intro laid_cong[OF env] m2) auto
  moreover have "m2 i = m i" if "\<not> (a \<le> i \<and> i < e)" and out: "\<not> (p \<le> i \<and> i < p + strings_size vars)" for i
  proof -
    have "i < a \<or> e - 1 \<le> i" using that(1) by auto
    then show ?thesis using m1[OF out] m2 by simp
  qed
  ultimately show thesis using that[OF init set] str by (simp add: numeral_2_eq_2)
qed

text \<open>
  Where \<^verbatim>\<open>calloc\<close> fails, \<open>os_argv_last\<close> is still NULL, and the length that \<open>setproctitle\<close> pads wraps
  around.
\<close>

lemma title_after_failure:
  assumes "kernel_layout m a argv args env vars e" and "calloc (strings_size vars) = None" and "0 < a"
    and "str_at m t title" and "e \<le> t \<or> t + length title < a" and "a + length title < e" and "e < 2 ^ 32"
    and top: "m (2 ^ 32 - 1) = None"
  obtains s where "init_setproctitle calloc m argv env 0 = Ret (-1, s)" and "setproctitle s t = UB OutOfBounds"
proof -
  let ?s = "\<lparr>memory = m, os_argv = argv, environ_ptrs = env, os_argv_last = 0\<rparr>" and ?l = "length title"
  note lay = assms(1)
  obtain as where argv: "argv = a # as"
    using lay layout_bounds(2)[OF lay] by (auto simp: kernel_layout_def neq_Nil_conv)
  have "m (a + i) \<noteq> None" if "i \<le> ?l" for i
    using lay that assms(6) laid_mapped[of m a argv args _ "a + i"] laid_mapped[of m _ env vars e "a + i"]
    by (cases "a + i < a + strings_size args") (auto simp: kernel_layout_def)
  then have "cpystrn_loop (2 ^ 32 - a - 1) m a t = Ret (put_str m a title, a + ?l)"
    using cpystrn_loop_str[OF assms(4), of "2 ^ 32 - a - 1" a] assms(5-7) by (auto simp: min_absorb2)
  then have cp: "cpystrn m a t (2 ^ 32 - a) = Ret (put_str m a title, a + ?l)" using assms(6,7) by (simp add: cpystrn_def)
  have "memset (put_str m a title) (a + ?l) NUL (2 ^ 32 - (a + ?l)) = UB OutOfBounds"
    using assms(6,7) top by (intro memset_unmapped[where k = "2 ^ 32 - 1 - (a + ?l)"]) (auto simp: put_str_else)
  moreover have "ptr_diff 0 a = 2 ^ 32 - a" "ptr_diff 0 (a + ?l) = 2 ^ 32 - (a + ?l)"
    using assms(3,6,7) ptr_diff_null[of a] ptr_diff_null[of "a + ?l"] by simp_all
  ultimately have "setproctitle ?s t = UB OutOfBounds" using cp by (simp add: setproctitle_def argv)
  moreover have "init_setproctitle calloc m argv env 0 = Ret (-1, ?s)"
    using lay env_size_laid assms(2) by (auto simp: kernel_layout_def init_setproctitle_def)
  ultimately show thesis using that by blast
qed

end
