(* ===== verification/Startup.thy ===== *)
theory Startup
  imports Daemon Statements ProcTitle
begin

text \<open>
  Starting the daemon: \<open>daemonize\<close> (\<^verbatim>\<open>src/jni/su/daemonize.c\<close>), the part of \<open>su_main\<close> that calls it and then
  reloads the policy, renames the process and enters \<open>run_daemon\<close>; and the build properties
  (\<^verbatim>\<open>src/jni/su/utils.c\<close>) with \<open>access_disabled\<close> of \<^verbatim>\<open>src/jni/su/su.c\<close>, whose only call is commented out.
\<close>

section \<open>Definitions\<close>

subsection \<open>Becoming a daemon\<close>

text \<open>A process: its file mode mask, what is open at each descriptor, its directory, session and signals.\<close>

record daemon_process =
  cmask :: nat
  fds :: "nat \<rightharpoonup> string"
  cwd :: string
  new_session :: bool
  hup_ignored :: bool

text \<open>
  What the kernel answers: the soft and the hard limit on descriptors (\<open>None\<close> for \<open>RLIM_INFINITY\<close>),
  the values of the two forks, and which of the other calls succeed.
\<close>

record daemonize_env =
  nofile :: "(nat \<times> nat option) option"
  first_fork :: int
  second_fork :: int
  sighup_ok :: bool
  chdir_ok :: bool
  null_ok :: bool

text \<open>A new descriptor is the lowest free one below the soft limit.\<close>

definition open_fd :: "nat \<Rightarrow> (nat \<rightharpoonup> string) \<Rightarrow> string \<Rightarrow> int \<times> (nat \<rightharpoonup> string)" where
  "open_fd soft tab file =
     (case find (\<lambda>n. tab n = None) [0..<soft] of None \<Rightarrow> (-1, tab) | Some n \<Rightarrow> (int n, tab(n \<mapsto> file)))"

definition dup_fd :: "nat \<Rightarrow> (nat \<rightharpoonup> string) \<Rightarrow> nat \<Rightarrow> int \<times> (nat \<rightharpoonup> string)" where
  "dup_fd soft tab fd = (case tab fd of None \<Rightarrow> (-1, tab) | Some file \<Rightarrow> open_fd soft tab file)"

definition DEV_NULL :: string where "DEV_NULL = ''/dev/null''"

definition close_below :: "nat option \<Rightarrow> (nat \<rightharpoonup> string) \<Rightarrow> nat \<rightharpoonup> string" where
  "close_below hard tab = (let rlim_max = (case hard of None \<Rightarrow> 1024 | Some n \<Rightarrow> n) in (\<lambda>i. if i < rlim_max then None else tab i))"

definition daemonize :: "daemonize_env \<Rightarrow> daemon_process \<Rightarrow> daemon_process outcome" where
  "daemonize env p =
     (let p = p\<lparr>cmask := 0\<rparr> in
      case nofile env of None \<Rightarrow> Exit 1
      | Some (soft, hard) \<Rightarrow>
          if first_fork env < 0 then Exit 1
          else if first_fork env \<noteq> 0 then Exit 0
          else
            let p = p\<lparr>new_session := True\<rparr> in
            if \<not> sighup_ok env then Exit 1
            else
              let p = p\<lparr>hup_ignored := True\<rparr> in
              if second_fork env < 0 then Exit 1
              else if second_fork env \<noteq> 0 then Exit 0
              else if \<not> chdir_ok env then Exit 1
              else
                let tab = close_below hard (fds p) in
                case (if null_ok env then open_fd soft tab DEV_NULL else (-1, tab)) of (fd0, tab) \<Rightarrow>
                case dup_fd soft tab 0 of (fd1, tab) \<Rightarrow>
                case dup_fd soft tab 0 of (fd2, tab) \<Rightarrow>
                  if fd0 \<noteq> 0 \<or> fd1 \<noteq> 1 \<or> fd2 \<noteq> 2 then Exit 1
                  else Ret (p\<lparr>cwd := ''/'', fds := tab\<rparr>))"

text \<open>
  \<open>selinux_attr_set_priv\<close>: \<open>fd\<close> and \<open>written\<close> are the results of \<open>open\<close> and \<open>write\<close>, \<open>ctx\<close> is the
  security context of the process, which a write of all 12 bytes replaces.
\<close>

definition INIT_CONTEXT :: string where "INIT_CONTEXT = ''u:r:init:s0''"

definition selinux_attr_set_priv :: "int \<Rightarrow> int \<Rightarrow> string \<Rightarrow> int \<times> string" where
  "selinux_attr_set_priv fd written ctx =
     (if fd < 0 then (-1, ctx) else if written = 12 then (0, INIT_CONTEXT) else (-1, ctx))"

text \<open>
  The branch of \<open>su_main\<close> for \<^verbatim>\<open>--daemon\<close> after \<open>daemon_exists\<close>: \<open>patch\<close> is the run of
  \<open>magiskpolicy_main\<close>, \<open>attr\<close> the two results in \<open>selinux_attr_set_priv\<close>, \<open>run\<close> the run of
  \<open>run_daemon\<close>. Return codes of the calls in between are not looked at.
\<close>

definition start_daemon ::
  "daemonize_env \<Rightarrow> daemon_process \<Rightarrow> (int \<times> 'p) outcome \<Rightarrow> (nat \<Rightarrow> nat option) \<Rightarrow> mem \<Rightarrow> nat list \<Rightarrow> nat list \<Rightarrow> nat \<Rightarrow>
     int \<times> int \<Rightarrow> string \<Rightarrow> 'r outcome \<Rightarrow> (daemon_process \<times> 'p \<times> title_state \<times> string \<times> 'r) outcome" where
  "start_daemon env p patch calloc m argv envp permd attr ctx run =
     obind (daemonize env p) (\<lambda>p.
     obind patch (\<lambda>(_, policy).
     obind (init_setproctitle calloc m argv envp 0) (\<lambda>(_, s).
     obind (setproctitle s permd) (\<lambda>s.
       let ctx = snd (selinux_attr_set_priv (fst attr) (snd attr) ctx) in
     obind run (\<lambda>r. Ret (p, policy, s, ctx, r))))))"

subsection \<open>Build properties\<close>

record prop_file =
  f_size :: "nat option"
  f_text :: string

text \<open>\<open>read_file\<close>: NULL unless the file can be opened, stat'ed and read in one piece.\<close>

definition read_file :: "bool \<Rightarrow> prop_file option \<Rightarrow> string option" where
  "read_file mok f =
     (case f of None \<Rightarrow> None
      | Some f \<Rightarrow>
          (case f_size f of None \<Rightarrow> None
           | Some n \<Rightarrow> if \<not> mok then None else if length (take n (f_text f)) \<noteq> n then None
                      else Some (cstr_of (take n (f_text f) @ [NEWLINE]))))"

text \<open>The lines of a text that end in a newline.\<close>

fun full_lines :: "string \<Rightarrow> string \<Rightarrow> string list" where
  "full_lines acc [] = []"
| "full_lines acc (c # cs) = (if c = NEWLINE then acc # full_lines [] cs else full_lines (acc @ [c]) cs)"

text \<open>The loops that cut trailing spaces never reach the first character.\<close>

definition cut_trailing :: "string \<Rightarrow> string" where
  "cut_trailing s = (case s of [] \<Rightarrow> [] | c # cs \<Rightarrow> c # rev (dropWhile isspace (rev cs)))"

text \<open>Key and value of a line; \<open>None\<close> for the lines the loop skips.\<close>

definition property_line :: "string \<Rightarrow> (string \<times> string) option" where
  "property_line line =
     (if CHR ''='' \<notin> set line then None
      else
        let key = dropWhile isspace (takeWhile (\<lambda>c. c \<noteq> CHR ''='') line);
            value = tl (dropWhile (\<lambda>c. c \<noteq> CHR ''='') line) in
        if key \<noteq> [] \<and> hd key = CHR ''#'' then None
        else Some (cut_trailing key, cut_trailing (dropWhile isspace value)))"

text \<open>The value \<open>get_property\<close> finds: that of the first line whose key starts with the search key.\<close>

definition find_property :: "string \<Rightarrow> string \<Rightarrow> string option" where
  "find_property data searchkey =
     map_option snd (find (\<lambda>(k, _). take (length searchkey) k = searchkey) (List.map_filter property_line (full_lines [] data)))"

text \<open>
  \<open>get_property\<close>: return value and the contents of \<open>found\<close>. The value that was found points into
  the copy of the data that is freed before the value is read.
\<close>

definition get_property :: "bool \<Rightarrow> string option \<Rightarrow> string \<Rightarrow> string \<Rightarrow> (int \<times> string) outcome" where
  "get_property mok data searchkey not_found =
     (case data of None \<Rightarrow> Ret (int (length not_found), not_found)
      | Some d \<Rightarrow>
          if \<not> mok then UB NullDeref
          else case find_property d searchkey of
            None \<Rightarrow> Ret (int (length not_found), not_found)
          | Some value \<Rightarrow> UB UseAfterFree)"

definition check_property :: "string option \<Rightarrow> string \<Rightarrow> bool" where
  "check_property data prefix = (case data of None \<Rightarrow> False | Some d \<Rightarrow> strstr d prefix)"

text \<open>\<open>atoi\<close>: \<open>strtol\<close> in base 10 with a 32-bit \<open>long\<close>, which saturates.\<close>

definition atoi :: "string \<Rightarrow> int" where
  "atoi s =
     (let s = dropWhile isspace s;
          (neg, ds) = (case s of c # cs \<Rightarrow> if c = CHR ''-'' then (True, cs) else if c = CHR ''+'' then (False, cs) else (False, s) | [] \<Rightarrow> (False, []));
          v = int (dec_value (takeWhile isdigit ds)) in
      max (- (2 ^ 31)) (min (2 ^ 31 - 1) (if neg then - v else v)))"

definition root_access_bit :: "string \<Rightarrow> int \<Rightarrow> bool" where
  "root_access_bit enabled b = (atoi enabled AND b = b)"

definition access_disabled :: "bool \<Rightarrow> (string \<Rightarrow> prop_file option) \<Rightarrow> u32 \<Rightarrow> int outcome" where
  "access_disabled mok files uid =
     (let data = read_file mok (files ''/system/build.prop'') in
      if \<not> check_property data ''ro.cm.version'' then Ret 0
      else
        obind (get_property mok data ''ro.build.type'' []) (\<lambda>(_, build_type).
        obind (get_property mok (read_file mok (files ''/default.prop'')) ''ro.debuggable'' ''0'') (\<lambda>(_, debuggable).
          if debuggable \<noteq> ''1'' then Ret 1
          else
            let enabled = (case read_file mok (files ''/data/property/persist.sys.root_access'') of
                             None \<Rightarrow> ''0'' | Some d \<Rightarrow> if length d \<ge> 92 then ''0'' else d) in
            if build_type \<noteq> ''eng'' \<and> uid \<noteq> AID_SHELL \<and> uid \<noteq> AID_ROOT \<and> \<not> root_access_bit enabled 1 then Ret 1
            else if uid = AID_SHELL \<and> \<not> root_access_bit enabled 2 then Ret 1
            else Ret 0)))"

section \<open>The daemon process\<close>

lemma find_first: "P n \<Longrightarrow> n < k \<Longrightarrow> (\<And>i. i < n \<Longrightarrow> \<not> P i) \<Longrightarrow> find P [0..<k] = Some (n :: nat)"
  by (auto simp: find_Some_iff intro!: exI[of _ n])

lemma open_lowest: "tab n = None \<Longrightarrow> n < soft \<Longrightarrow> (\<And>i. i < n \<Longrightarrow> tab i \<noteq> None) \<Longrightarrow>
    open_fd soft tab file = (int n, tab(n \<mapsto> file))"
  using find_first[of "\<lambda>n. tab n = None" n soft] by (simp add: open_fd_def)

definition daemon_fds :: "nat option \<Rightarrow> (nat \<rightharpoonup> string) \<Rightarrow> nat \<rightharpoonup> string" where
  "daemon_fds hard tab = (close_below hard tab)(0 \<mapsto> DEV_NULL, 1 \<mapsto> DEV_NULL, 2 \<mapsto> DEV_NULL)"

lemma daemonize_grandchild:
  assumes "nofile env = Some (soft, hard)" and "3 \<le> soft" and "\<forall>n. hard = Some n \<longrightarrow> 3 \<le> n"
    and "first_fork env = 0" and "second_fork env = 0" and "sighup_ok env" and "chdir_ok env" and "null_ok env"
  shows "daemonize env p = Ret \<lparr>cmask = 0, fds = daemon_fds hard (fds p), cwd = ''/'', new_session = True, hup_ignored = True\<rparr>"
proof -
  let ?t = "close_below hard (fds p)"
  have free: "?t i = None" if "i < 3" for i using that assms(3) by (auto simp: close_below_def split: option.splits)
  have 0: "open_fd soft ?t DEV_NULL = (0, ?t(0 \<mapsto> DEV_NULL))" using open_lowest[of ?t 0 soft DEV_NULL] free assms(2) by simp
  have 1: "dup_fd soft (?t(0 \<mapsto> DEV_NULL)) 0 = (1, ?t(0 \<mapsto> DEV_NULL, 1 \<mapsto> DEV_NULL))"
    using open_lowest[of "?t(0 \<mapsto> DEV_NULL)" 1 soft DEV_NULL] free assms(2) by (simp add: dup_fd_def)
  have 2: "dup_fd soft (?t(0 \<mapsto> DEV_NULL, 1 \<mapsto> DEV_NULL)) 0 = (2, ?t(0 \<mapsto> DEV_NULL, 1 \<mapsto> DEV_NULL, 2 \<mapsto> DEV_NULL))"
  proof -
    have "(?t(0 \<mapsto> DEV_NULL, 1 \<mapsto> DEV_NULL)) i \<noteq> None" if "i < 2" for i using less_2_cases[OF that] by auto
    then show ?thesis
      using open_lowest[of "?t(0 \<mapsto> DEV_NULL, 1 \<mapsto> DEV_NULL)" 2 soft DEV_NULL] free assms(2) by (simp add: dup_fd_def)
  qed
  show ?thesis
    using assms 0 1 2 unfolding daemonize_def Let_def daemon_fds_def by (simp del: fun_upd_apply)
qed

text \<open>Every other process that runs \<open>daemonize\<close> exits.\<close>

lemma daemonize_returns: "daemonize env p = Ret q \<Longrightarrow> first_fork env = 0 \<and> second_fork env = 0 \<and> cmask q = 0 \<and> cwd q = ''/''"
  unfolding daemonize_def Let_def by (auto split: option.splits if_splits prod.splits)

text \<open>Without \<^verbatim>\<open>--minimal\<close> and without statements, the policy that is written back is the one that was loaded.\<close>

lemma live_reload:
  assumes "load SELINUX_POLICY = (0, Some p)" and "dump SELINUX_LOAD p = 0"
  shows "magiskpolicy_main cok mok ptr load dump [''--live''] = Ret (0, Some (SELINUX_LOAD, p))"
  using assms by (simp add: magiskpolicy_main_def is_option_def)

end
