(* ===== verification/AvtabFile.thy ===== *)
theory AvtabFile
  imports Avtab
begin

text \<open>
  The access vector table in the binary policy: \<open>avtab_read_item\<close> and \<open>avtab_read\<close> of
  \<^verbatim>\<open>libsepol/src/avtab.c\<close>, the current format of \<open>avtab_write_item\<close> and \<open>avtab_write\<close> of
  \<^verbatim>\<open>libsepol/src/write.c\<close>, and the Android M compatibility mode of
  \<^verbatim>\<open>libsepol/src/android_m_compat.c\<close>, a process-wide flag that reading may set and that changes
  both directions.
\<close>

section \<open>Definitions\<close>

definition avtab_xperms_to_optype :: "u16 \<Rightarrow> u16" where
  "avtab_xperms_to_optype x = push_bit 4 x"

definition avtab_optype_to_xperms :: "u16 \<Rightarrow> u16" where
  "avtab_optype_to_xperms x = drop_bit 4 x"

subsection \<open>Reading\<close>

text \<open>
  The loop of the original format over \<open>spec_order\<close>. \<open>buf\<close> holds the words read; the array
  has eight entries, of which those after the words read are uninitialised. The result is the
  return code of the last \<open>insertf\<close>, the index of the next word, and the table.
\<close>

fun old_datums ::
  "(avtab_key \<Rightarrow> avtab_datum \<Rightarrow> 'a \<Rightarrow> int \<times> 'a) \<Rightarrow> u32 list \<Rightarrow> avtab_key \<Rightarrow> u16 \<Rightarrow> u32 \<Rightarrow> u16 list \<Rightarrow> nat \<Rightarrow> 'a \<Rightarrow>
     (int \<times> nat \<times> 'a) outcome" where
  "old_datums insertf buf key enabled val [] items a = Ret (0, items, a)"
| "old_datums insertf buf key enabled val (sp # sps) items a =
     (if val AND ucast sp \<noteq> 0 then
        if items \<ge> 8 then UB OutOfBounds
        else if items \<ge> length buf then UB Uninitialised
        else case insertf (key\<lparr>specified := sp OR enabled\<rparr>) (zero_datum\<lparr>av_data := buf ! items\<rparr>) a of (rc, a) \<Rightarrow>
          if rc \<noteq> 0 then Ret (rc, items + 1, a)
          else old_datums insertf buf key enabled val sps (items + 1) a
      else old_datums insertf buf key enabled val sps items a)"

text \<open>An entry of the original format (policy versions below 20).\<close>

definition read_item_old ::
  "(avtab_key \<Rightarrow> avtab_datum \<Rightarrow> 'a \<Rightarrow> int \<times> 'a) \<Rightarrow> u8 list \<Rightarrow> 'a \<Rightarrow> (int \<times> 'a \<times> u8 list) outcome" where
  "read_item_old insertf fp a =
     (case next_entry fp 4 of (rc, buf, fp) \<Rightarrow>
      if rc < 0 then Ret (-1, a, fp)
      else
        let items2 = unat (le_word buf :: u32) in
        if items2 < 5 \<or> items2 > 8 then Ret (-1, a, fp)
        else case next_entry fp (4 * items2) of (rc, bytes, fp) \<Rightarrow>
          if rc < 0 then Ret (-1, a, fp)
          else
            let buf = le_words items2 bytes;
                src = ucast (buf ! 0) :: u16; tgt = ucast (buf ! 1) :: u16; cls = ucast (buf ! 2) :: u16;
                val = buf ! 3;
                enabled = (if val AND AVTAB_ENABLED_OLD \<noteq> 0 then AVTAB_ENABLED else 0)
            in
            if ucast src \<noteq> buf ! 0 then Ret (-1, a, fp)
            else if ucast tgt \<noteq> buf ! 1 then Ret (-1, a, fp)
            else if ucast cls \<noteq> buf ! 2 then Ret (-1, a, fp)
            else if val AND (ucast AVTAB_AV OR ucast AVTAB_TYPE) = 0 then Ret (-1, a, fp)
            else if val AND ucast AVTAB_AV \<noteq> 0 \<and> val AND ucast AVTAB_TYPE \<noteq> 0 then Ret (-1, a, fp)
            else
              obind (old_datums insertf buf \<lparr>source_type = src, target_type = tgt, target_class = cls, specified = 0\<rparr>
                       enabled val spec_order 4 a) (\<lambda>(rc, items, a).
                Ret (if rc \<noteq> 0 then rc else if items \<noteq> items2 then -1 else 0, a, fp)))"

text \<open>The extended permissions of an entry: return code, the permissions, what is left, the flag.\<close>

definition read_xperms :: "bool \<Rightarrow> u32 \<Rightarrow> bool \<Rightarrow> u8 list \<Rightarrow> int \<times> avtab_extended_perms \<times> u8 list \<times> bool" where
  "read_xperms amc vers optype fp =
     (case next_entry fp 1 of (rc, buf8, fp) \<Rightarrow>
      if rc < 0 then (-1, zero_xperms, fp, amc)
      else
        let sp = hd buf8 in
        case (if amc \<or> sp \<noteq> AVTAB_XPERMS_IOCTLFUNCTION \<and> sp \<noteq> AVTAB_XPERMS_IOCTLDRIVER \<and> vers = POLICYDB_VERSION_XPERMS_IOCTL
              then (0 :: int, if optype then AVTAB_XPERMS_IOCTLDRIVER else AVTAB_XPERMS_IOCTLFUNCTION, sp, fp, True)
              else case next_entry fp 1 of (rc, buf8, fp) \<Rightarrow>
                if rc < 0 then (-1, sp, 0, fp, amc) else (0, sp, hd buf8, fp, amc))
        of (rc, sp, drv, fp, amc) \<Rightarrow>
          if rc < 0 then (-1, zero_xperms, fp, amc)
          else case next_entry fp 32 of (rc, bytes, fp) \<Rightarrow>
            if rc < 0 then (-1, zero_xperms, fp, amc)
            else (0, \<lparr>xp_specified = sp, xp_driver = drv, xp_perms = le_words 8 bytes\<rparr>, fp, amc))"

text \<open>
  \<open>avtab_read_item\<close> with the insertion function it is given. The last component of the result
  is the flag \<open>avtab_android_m_compat\<close>.
\<close>

definition avtab_read_item ::
  "(avtab_key \<Rightarrow> avtab_datum \<Rightarrow> 'a \<Rightarrow> int \<times> 'a) \<Rightarrow> u32 \<Rightarrow> bool \<Rightarrow> u8 list \<Rightarrow> 'a \<Rightarrow>
     (int \<times> 'a \<times> u8 list \<times> bool) outcome" where
  "avtab_read_item insertf vers amc fp a =
     (if vers < POLICYDB_VERSION_AVTAB
      then obind (read_item_old insertf fp a) (\<lambda>(rc, a, fp). Ret (rc, a, fp, amc))
      else case next_entry fp 8 of (rc, buf, fp) \<Rightarrow>
        if rc < 0 then Ret (-1, a, fp, amc)
        else
          let sp = (le_word (drop 6 buf) :: u16);
              optype = (sp AND AVTAB_OPTYPE \<noteq> 0 \<and> vers = POLICYDB_VERSION_XPERMS_IOCTL);
              sp = (if optype then avtab_optype_to_xperms sp else sp);
              amc = (amc \<or> optype);
              key = \<lparr>source_type = le_word (take 2 buf), target_type = le_word (take 2 (drop 2 buf)),
                     target_class = le_word (take 2 (drop 4 buf)), specified = sp\<rparr>
          in
          if length (filter (\<lambda>s. sp AND s \<noteq> 0) spec_order) \<noteq> 1 then Ret (-1, a, fp, amc)
          else if vers < POLICYDB_VERSION_XPERMS_IOCTL \<and> sp AND AVTAB_XPERMS \<noteq> 0 then Ret (-1, a, fp, amc)
          else if sp AND AVTAB_XPERMS \<noteq> 0 then
            (case read_xperms amc vers optype fp of (rc, xperms, fp, amc) \<Rightarrow>
               if rc < 0 then Ret (-1, a, fp, amc)
               else case insertf key (zero_datum\<lparr>av_xperms := Some xperms\<rparr>) a of (rc, a) \<Rightarrow> Ret (rc, a, fp, amc))
          else
            (case next_entry fp 4 of (rc, buf, fp) \<Rightarrow>
               if rc < 0 then Ret (-1, a, fp, amc)
               else case insertf key (zero_datum\<lparr>av_data := le_word buf\<rparr>) a of (rc, a) \<Rightarrow> Ret (rc, a, fp, amc)))"

definition avtab_insertf :: "bool \<Rightarrow> avtab_key \<Rightarrow> avtab_datum \<Rightarrow> avtab \<Rightarrow> int \<times> avtab" where
  "avtab_insertf mok k d a = map_prod id the (avtab_insert mok (Some a) k d)"

text \<open>The loop of \<open>avtab_read\<close>; on failure \<open>avtab_destroy\<close> and -1.\<close>

fun avtab_read_items :: "bool \<Rightarrow> u32 \<Rightarrow> nat \<Rightarrow> bool \<Rightarrow> u8 list \<Rightarrow> avtab \<Rightarrow> (int \<times> avtab \<times> u8 list \<times> bool) outcome" where
  "avtab_read_items mok vers 0 amc fp a = Ret (0, a, fp, amc)"
| "avtab_read_items mok vers (Suc n) amc fp a =
     obind (avtab_read_item (avtab_insertf mok) vers amc fp a) (\<lambda>(rc, a, fp, amc).
       if rc \<noteq> 0 then Ret (-1, avtab_destroy a, fp, amc) else avtab_read_items mok vers n amc fp a)"

definition avtab_read :: "bool \<Rightarrow> u32 \<Rightarrow> bool \<Rightarrow> u8 list \<Rightarrow> avtab \<Rightarrow> (int \<times> avtab \<times> u8 list \<times> bool) outcome" where
  "avtab_read mok vers amc fp a =
     (case next_entry fp 4 of (rc, buf, fp) \<Rightarrow>
      if rc < 0 then Ret (-1, avtab_destroy a, fp, amc)
      else
        let nel = (le_word buf :: u32) in
        if nel = 0 then Ret (-1, avtab_destroy a, fp, amc)
        else case avtab_alloc mok a nel of (rc, a) \<Rightarrow>
          if rc \<noteq> 0 then Ret (-1, avtab_destroy a, fp, amc)
          else avtab_read_items mok vers (unat nel) amc fp a)"

subsection \<open>Writing\<close>

text \<open>The current format of \<open>avtab_write_item\<close>; \<open>vers\<close> and \<open>selinux\<close> are the policy's version and platform.\<close>

definition avtab_write_item :: "bool \<Rightarrow> u32 \<Rightarrow> bool \<Rightarrow> avtab_node \<Rightarrow> pf_out \<Rightarrow> (int \<times> pf_out) outcome" where
  "avtab_write_item amc vers selinux cur fp =
     (let key = fst cur; xp = (specified key AND AVTAB_XPERMS \<noteq> 0) in
      obind (if amc \<and> xp then
               (case av_xperms (snd cur) of None \<Rightarrow> UB NullDeref
                | Some x \<Rightarrow> Ret (if xp_specified x = AVTAB_XPERMS_IOCTLDRIVER then avtab_xperms_to_optype (specified key)
                               else specified key))
             else Ret (specified key)) (\<lambda>sp.
        case put_entry (le_bytes 2 (source_type key) @ le_bytes 2 (target_type key) @ le_bytes 2 (target_class key) @
               le_bytes 2 sp) 2 4 fp of (items, fp) \<Rightarrow>
        if items \<noteq> 4 then Ret (-1, fp)
        else if vers < POLICYDB_VERSION_XPERMS_IOCTL \<and> xp then Ret (-1, fp)
        else if \<not> selinux \<and> xp then Ret (-1, fp)
        else if xp then
          (case av_xperms (snd cur) of None \<Rightarrow> UB NullDeref
           | Some x \<Rightarrow>
               (case (if amc then (1, fp) else put_entry [xp_specified x] 1 1 fp) of (items, fp) \<Rightarrow>
                if items \<noteq> 1 then Ret (-1, fp)
                else case put_entry [xp_driver x] 1 1 fp of (items, fp) \<Rightarrow>
                if items \<noteq> 1 then Ret (-1, fp)
                else case put_entry (concat (map (le_bytes 4) (xp_perms x))) 4 8 fp of (items, fp) \<Rightarrow>
                  Ret (if items \<noteq> 8 then -1 else 0, fp)))
        else case put_entry (le_bytes 4 (av_data (snd cur))) 4 1 fp of (items, fp) \<Rightarrow>
          Ret (if items \<noteq> 1 then -1 else 0, fp)))"

fun avtab_write_items :: "bool \<Rightarrow> u32 \<Rightarrow> bool \<Rightarrow> avtab_node list \<Rightarrow> pf_out \<Rightarrow> (int \<times> pf_out) outcome" where
  "avtab_write_items amc vers selinux [] fp = Ret (0, fp)"
| "avtab_write_items amc vers selinux (cur # ns) fp =
     obind (avtab_write_item amc vers selinux cur fp) (\<lambda>(rc, fp).
       if rc \<noteq> 0 then Ret (-1, fp) else avtab_write_items amc vers selinux ns fp)"

text \<open>\<open>avtab_write\<close> in the current format: the count the table keeps, then the nodes bucket by bucket.\<close>

definition avtab_write :: "bool \<Rightarrow> u32 \<Rightarrow> bool \<Rightarrow> avtab \<Rightarrow> pf_out \<Rightarrow> (int \<times> pf_out) outcome" where
  "avtab_write amc vers selinux a fp =
     (case put_entry (le_bytes 4 (av_nel a)) 4 1 fp of (items, fp) \<Rightarrow>
      if items \<noteq> 1 then Ret (-1, fp)
      else if av_htable a = None \<and> av_nslot a \<noteq> 0 then UB NullDeref
      else avtab_write_items amc vers selinux (avtab_nodes a) fp)"

subsection \<open>The image of a table\<close>

definition item_spec :: "bool \<Rightarrow> avtab_node \<Rightarrow> u16" where
  "item_spec amc cur =
     (case av_xperms (snd cur) of
        Some x \<Rightarrow> if amc \<and> xp_specified x = AVTAB_XPERMS_IOCTLDRIVER then avtab_xperms_to_optype (specified (fst cur))
                 else specified (fst cur)
      | None \<Rightarrow> specified (fst cur))"

definition item_bytes :: "bool \<Rightarrow> avtab_node \<Rightarrow> u8 list" where
  "item_bytes amc cur =
     le_bytes 2 (source_type (fst cur)) @ le_bytes 2 (target_type (fst cur)) @ le_bytes 2 (target_class (fst cur)) @
     le_bytes 2 (item_spec amc cur) @
     (case av_xperms (snd cur) of
        None \<Rightarrow> le_bytes 4 (av_data (snd cur))
      | Some x \<Rightarrow> (if amc then [] else [xp_specified x]) @ [xp_driver x] @ concat (map (le_bytes 4) (xp_perms x)))"

definition avtab_bytes :: "bool \<Rightarrow> avtab \<Rightarrow> u8 list" where
  "avtab_bytes amc a = le_bytes 4 (av_nel a) @ concat (map (item_bytes amc) (avtab_nodes a))"

text \<open>
  Nodes the format can hold: a plain key; eight words of extended permissions exactly for the
  extended kinds, in a version that has them; in compatibility mode only the two \<open>ioctl\<close> kinds
  of version 30.
\<close>

definition storable :: "bool \<Rightarrow> u32 \<Rightarrow> avtab_node \<Rightarrow> bool" where
  "storable amc vers cur \<longleftrightarrow> plain_key (fst cur) \<and>
     (case av_xperms (snd cur) of
        None \<Rightarrow> specified (fst cur) AND AVTAB_XPERMS = 0
      | Some x \<Rightarrow> specified (fst cur) AND AVTAB_XPERMS \<noteq> 0 \<and> av_data (snd cur) = 0 \<and> length (xp_perms x) = 8 \<and>
          vers \<ge> POLICYDB_VERSION_XPERMS_IOCTL \<and> (amc \<longrightarrow> vers = POLICYDB_VERSION_XPERMS_IOCTL) \<and>
          (vers = POLICYDB_VERSION_XPERMS_IOCTL \<longrightarrow>
             xp_specified x \<in> {AVTAB_XPERMS_IOCTLFUNCTION, AVTAB_XPERMS_IOCTLDRIVER}))"

section \<open>Writing a table\<close>

lemma write_item_bytes:
  assumes "storable amc vers cur" and "pf_type fp = PF_USE_MEMORY" and "length (item_bytes amc cur) \<le> pf_len fp"
  shows "avtab_write_item amc vers True cur fp =
    Ret (0, fp\<lparr>pf_data := pf_data fp @ item_bytes amc cur, pf_len := pf_len fp - length (item_bytes amc cur)\<rparr>)"
  using assms
  by (auto simp: avtab_write_item_def item_bytes_def item_spec_def storable_def Let_def split: option.splits)

lemma write_items_bytes:
  "\<forall>x \<in> set ns. storable amc vers x \<Longrightarrow> pf_type fp = PF_USE_MEMORY \<Longrightarrow>
     length (concat (map (item_bytes amc) ns)) \<le> pf_len fp \<Longrightarrow>
     avtab_write_items amc vers True ns fp =
       Ret (0, fp\<lparr>pf_data := pf_data fp @ concat (map (item_bytes amc) ns),
                 pf_len := pf_len fp - length (concat (map (item_bytes amc) ns))\<rparr>)"
  by (induction ns arbitrary: fp) (simp_all add: write_item_bytes)

lemma avtab_write_bytes:
  assumes "avtab_wf a" and "\<forall>x \<in> set (avtab_nodes a). storable amc vers x" and "pf_type fp = PF_USE_MEMORY"
    and "length (avtab_bytes amc a) \<le> pf_len fp"
  shows "avtab_write amc vers True a fp =
    Ret (0, fp\<lparr>pf_data := pf_data fp @ avtab_bytes amc a, pf_len := pf_len fp - length (avtab_bytes amc a)\<rparr>)"
  using assms by (auto simp: avtab_write_def avtab_bytes_def write_items_bytes avtab_wf_def split: option.splits)

section \<open>Reading it back\<close>

lemma one_specifier: "plain_key k \<Longrightarrow> length (filter (\<lambda>s. specified k AND s \<noteq> 0) spec_order) = 1"
  by (auto simp: plain_key_def spec_order_def)

lemma plain_optype [simp]: "plain_key k \<Longrightarrow> specified k AND AVTAB_OPTYPE = 0"
  by (auto simp: plain_key_def spec_order_def)

lemma xperms_optype:
  assumes "plain_key k" and "specified k AND AVTAB_XPERMS \<noteq> 0"
  shows "avtab_xperms_to_optype (specified k) AND AVTAB_OPTYPE \<noteq> 0"
    and "avtab_optype_to_xperms (avtab_xperms_to_optype (specified k)) = specified k"
  using assms by (auto simp: plain_key_def spec_order_def avtab_xperms_to_optype_def avtab_optype_to_xperms_def)

lemma read_xperms_bytes:
  assumes "length (xp_perms x) = 8" and "amc \<longrightarrow> optype = (xp_specified x = AVTAB_XPERMS_IOCTLDRIVER)"
    and "amc \<or> vers = POLICYDB_VERSION_XPERMS_IOCTL \<longrightarrow>
           xp_specified x \<in> {AVTAB_XPERMS_IOCTLFUNCTION, AVTAB_XPERMS_IOCTLDRIVER}"
  shows "read_xperms amc vers optype
      ((if amc then [] else [xp_specified x]) @ [xp_driver x] @ concat (map (le_bytes 4) (xp_perms x)) @ rest) =
    (0, x, rest, amc)"
proof -
  have one: "next_entry (b # bs) 1 = (0, [b], bs)" for b bs using next_entry_append[of "[b]" 1 bs] by simp
  have perms: "next_entry (concat (map (le_bytes 4) (xp_perms x)) @ rest) 32 =
      (0, concat (map (le_bytes 4) (xp_perms x)), rest)"
    using assms(1) by (intro next_entry_append) simp
  show ?thesis using assms by (auto simp: read_xperms_def one one[simplified] perms Let_def simp del: le_words.simps le_bytes.simps)
qed

text \<open>Reading the image of a node hands exactly its key and datum to the insertion function.\<close>

lemma read_item_bytes:
  assumes st: "storable amc vers (k, d)" and vers: "vers \<ge> POLICYDB_VERSION_AVTAB"
  shows "avtab_read_item insertf vers amc (item_bytes amc (k, d) @ rest) a =
    (case insertf k d a of (rc, a) \<Rightarrow> Ret (rc, a, rest, amc))"
proof -
  have plain: "plain_key k" using st by (simp add: storable_def)
  define sp where "sp = item_spec amc (k, d)"
  define hd8 where "hd8 = le_bytes 2 (source_type k) @ le_bytes 2 (target_type k) @ le_bytes 2 (target_class k) @ le_bytes 2 sp"
  have len: "length hd8 = 8" by (simp add: hd8_def)
  have key: "\<lparr>source_type = source_type k, target_type = target_type k, target_class = target_class k,
      specified = specified k\<rparr> = k" by simp
  have parts: "le_word (take 2 hd8) = source_type k" "le_word (take 2 (drop 2 hd8)) = target_type k"
    "le_word (take 2 (drop 4 hd8)) = target_class k" "le_word (drop 6 hd8) = sp"
    by (simp_all add: hd8_def del: le_bytes.simps)
  show ?thesis
  proof (cases "av_xperms d")
    case None
    have data: "next_entry (le_bytes 4 (av_data d) @ rest) 4 = (0, le_bytes 4 (av_data d), rest)" by simp
    have "sp = specified k" and "specified k AND AVTAB_XPERMS = 0" using st None by (simp_all add: sp_def item_spec_def storable_def)
    moreover have "item_bytes amc (k, d) @ rest = hd8 @ le_bytes 4 (av_data d) @ rest"
      using None by (simp add: item_bytes_def hd8_def sp_def del: le_bytes.simps)
    moreover have "\<lparr>av_data = av_data d, av_xperms = None\<rparr> = d" using None by simp
    moreover have "\<not> vers < POLICYDB_VERSION_AVTAB" using vers by simp
    ultimately show ?thesis
      using plain one_specifier[OF plain]
      by (simp add: avtab_read_item_def next_entry_append[OF len] parts data key zero_datum_def Let_def split: prod.splits)
  next
    case (Some x)
    let ?xb = "(if amc then [] else [xp_specified x]) @ [xp_driver x] @ concat (map (le_bytes 4) (xp_perms x)) @ rest"
    let ?ot = "amc \<and> xp_specified x = AVTAB_XPERMS_IOCTLDRIVER"
    have bytes: "item_bytes amc (k, d) @ rest = hd8 @ ?xb"
      using Some by (simp add: item_bytes_def hd8_def sp_def del: le_bytes.simps)
    have xp: "specified k AND AVTAB_XPERMS \<noteq> 0" and zero: "av_data d = 0" and v30: "vers \<ge> POLICYDB_VERSION_XPERMS_IOCTL"
      and amc30: "amc \<longrightarrow> vers = POLICYDB_VERSION_XPERMS_IOCTL"
      using st Some by (simp_all add: storable_def)
    have sp: "sp = (if ?ot then avtab_xperms_to_optype (specified k) else specified k)"
      using Some by (simp add: sp_def item_spec_def)
    have ot: "(sp AND AVTAB_OPTYPE \<noteq> 0 \<and> vers = POLICYDB_VERSION_XPERMS_IOCTL) = ?ot"
      using xperms_optype(1)[OF plain xp] plain amc30 by (auto simp: sp)
    have "read_xperms amc vers ?ot ?xb = (0, x, rest, amc)"
      using st Some by (intro read_xperms_bytes) (auto simp: storable_def)
    moreover have "(if ?ot then avtab_optype_to_xperms sp else sp) = specified k"
      using xperms_optype(2)[OF plain xp] by (simp add: sp)
    moreover have "\<not> vers < POLICYDB_VERSION_XPERMS_IOCTL" "\<not> vers < POLICYDB_VERSION_AVTAB" using v30 vers by simp_all
    moreover have "(amc \<or> ?ot) = amc" by auto
    moreover have "\<lparr>av_data = 0, av_xperms = Some x\<rparr> = d" using Some zero by simp
    ultimately show ?thesis
      using xp one_specifier[OF plain]
      by (simp only: avtab_read_item_def bytes next_entry_append[OF len] parts Let_def prod.case if_False ot)
        (simp add: key zero_datum_def split: prod.splits)
  qed
qed

lemma storable_new_datum: "storable amc vers (k, d) \<Longrightarrow> new_datum k d = d"
  by (auto simp: storable_def new_datum_def split: option.splits)

lemma read_items_bytes:
  assumes "vers \<ge> POLICYDB_VERSION_AVTAB" and "\<forall>x \<in> set ns. storable amc vers x" and "distinct (map (av_id \<circ> fst) ns)"
    and "avtab_wf a" and "\<forall>x \<in> set ns. avtab_abs a (av_id (fst x)) = None"
  shows "\<exists>a'. avtab_read_items True vers (length ns) amc (concat (map (item_bytes amc) ns) @ rest) a = Ret (0, a', rest, amc) \<and>
    avtab_wf a' \<and> avtab_abs a' = avtab_abs a ++ map_of (av_assoc ns) \<and> av_nel a' = av_nel a + of_nat (length ns)"
  using assms
proof (induction ns arbitrary: a)
  case Nil
  then show ?case by (simp add: av_assoc_def)
next
  case (Cons x ns)
  obtain k d where x: "x = (k, d)" by (cases x)
  have st: "storable amc vers (k, d)" and plain: "plain_key k" using Cons.prems(2) by (auto simp: x storable_def)
  have "avtab_abs a (av_id k) = None \<or> specified k AND AVTAB_XPERMS \<noteq> 0" using Cons.prems(5) by (simp add: x)
  from avtab_insert_correct[OF Cons.prems(4) plain this, of d]
  obtain b where ins: "avtab_insert True (Some a) k d = (0, Some b)" and wf: "avtab_wf b"
    and ab: "avtab_abs b = (avtab_abs a)(av_id k \<mapsto> d)" and nel: "av_nel b = av_nel a + 1"
    unfolding storable_new_datum[OF st] by metis
  have item: "avtab_read_item (avtab_insertf True) vers amc (item_bytes amc (k, d) @ concat (map (item_bytes amc) ns) @ rest) a =
      Ret (0, b, concat (map (item_bytes amc) ns) @ rest, amc)"
    by (simp only: read_item_bytes[OF st Cons.prems(1)]) (simp add: avtab_insertf_def ins)
  have "\<forall>y \<in> set ns. avtab_abs b (av_id (fst y)) = None" using Cons.prems(3,5) by (force simp: x ab)
  from Cons.IH[OF Cons.prems(1) _ _ wf this] Cons.prems(2,3)
  obtain c where c: "avtab_read_items True vers (length ns) amc (concat (map (item_bytes amc) ns) @ rest) b = Ret (0, c, rest, amc)"
    "avtab_wf c" "avtab_abs c = avtab_abs b ++ map_of (av_assoc ns)" "av_nel c = av_nel b + of_nat (length ns)" by auto
  moreover have "map_of (av_assoc ns) (av_id k) = None"
    using Cons.prems(3) by (force simp: x av_assoc_def map_of_eq_None_iff)
  then have "avtab_abs b ++ map_of (av_assoc ns) = avtab_abs a ++ map_of (av_assoc (x # ns))"
    by (auto simp: ab x av_assoc_def map_add_def fun_eq_iff split: option.splits)
  ultimately show ?case using item by (simp add: x nel del: fun_upd_apply)
qed

lemma avtab_abs_nodes: "avtab_wf h \<Longrightarrow> avtab_abs h = map_of (av_assoc (avtab_nodes h))"
  by (auto simp: avtab_abs_def avtab_nodes_def avtab_wf_def av_assoc_def[abs_def] map_concat split: option.splits)

text \<open>A table in the image: the count agrees with the nodes and no rule occurs twice.\<close>

definition avtab_counted :: "avtab \<Rightarrow> bool" where
  "avtab_counted a \<longleftrightarrow> avtab_nodes a \<noteq> [] \<and> length (avtab_nodes a) < 2 ^ 32 \<and>
     av_nel a = of_nat (length (avtab_nodes a)) \<and> distinct (map (av_id \<circ> fst) (avtab_nodes a))"

lemma avtab_read_bytes:
  assumes "vers \<ge> POLICYDB_VERSION_AVTAB" and wf: "avtab_wf a" and cnt: "avtab_counted a"
    and st: "\<forall>x \<in> set (avtab_nodes a). storable amc vers x"
  obtains a' where "avtab_read True vers amc (avtab_bytes amc a @ rest) a0 = Ret (0, a', rest, amc)" and "avtab_wf a'"
    and "avtab_abs a' = avtab_abs a" and "av_nel a' = av_nel a"
proof -
  have n: "unat (av_nel a) = length (avtab_nodes a)" "av_nel a \<noteq> 0"
    using cnt by (auto simp: avtab_counted_def unat_of_nat take_bit_nat_eq_self simp flip: unat_eq_zero)
  from avtab_alloc_correct[OF n(2), of a0] obtain e where e: "avtab_alloc True a0 (av_nel a) = (0, e)" "avtab_wf e"
    "avtab_abs e = Map.empty" "av_nel e = 0" by metis
  have "\<exists>a'. avtab_read_items True vers (length (avtab_nodes a)) amc
      (concat (map (item_bytes amc) (avtab_nodes a)) @ rest) e = Ret (0, a', rest, amc) \<and>
      avtab_wf a' \<and> avtab_abs a' = avtab_abs e ++ map_of (av_assoc (avtab_nodes a)) \<and>
      av_nel a' = av_nel e + of_nat (length (avtab_nodes a))"
    using assms e by (intro read_items_bytes) (simp_all add: avtab_counted_def)
  then obtain a' where a': "avtab_read_items True vers (length (avtab_nodes a)) amc
      (concat (map (item_bytes amc) (avtab_nodes a)) @ rest) e = Ret (0, a', rest, amc)" "avtab_wf a'"
      "avtab_abs a' = map_of (av_assoc (avtab_nodes a))" "av_nel a' = av_nel a"
    using e cnt by (auto simp: avtab_counted_def)
  have hd: "next_entry (avtab_bytes amc a @ rest) 4 =
      (0, le_bytes 4 (av_nel a), concat (map (item_bytes amc) (avtab_nodes a)) @ rest)"
    using next_entry_append[of "le_bytes 4 (av_nel a)" 4] by (simp add: avtab_bytes_def del: next_entry_append le_bytes.simps)
  show thesis
    using that[of a'] a' n e avtab_abs_nodes[OF wf] by (simp add: avtab_read_def hd Let_def)
qed

section \<open>Truncated images\<close>

text \<open>
  Reading is stable under appending: what succeeds on a buffer succeeds on every longer one, with
  the same result and the additional bytes left over.
\<close>

lemma next_entry_cases:
  obtains (short) "next_entry fp n = (-1, [], fp)"
  | (full) x y where "next_entry fp n = (0, x, y)" and "\<And>t. next_entry (fp @ t) n = (0, x, y @ t)"
  using that by (cases "n \<le> length fp") (simp_all add: next_entry_def)

lemma read_xperms_more:
  assumes "read_xperms amc vers ot fp = (rc, x, y, amc')" and "\<not> rc < 0"
  shows "read_xperms amc vers ot (fp @ tail) = (rc, x, y @ tail, amc')"
proof (cases rule: next_entry_cases[of fp 1])
  case short
  with assms show ?thesis by (auto simp: read_xperms_def)
next
  case (full sp fp1)
  note first = full
  show ?thesis
  proof (cases "amc \<or> hd sp \<noteq> AVTAB_XPERMS_IOCTLFUNCTION \<and> hd sp \<noteq> AVTAB_XPERMS_IOCTLDRIVER \<and>
      vers = POLICYDB_VERSION_XPERMS_IOCTL")
    case True
    with assms first show ?thesis
      by (cases rule: next_entry_cases[of fp1 32]) (auto simp: read_xperms_def Let_def)
  next
    case False
    show ?thesis
    proof (cases rule: next_entry_cases[of fp1 1])
      case short
      with False assms first show ?thesis by (auto simp: read_xperms_def Let_def)
    next
      case (full drv fp2)
      with False assms first show ?thesis
        by (cases rule: next_entry_cases[of fp2 32]) (auto simp: read_xperms_def Let_def)
    qed
  qed
qed

lemma read_item_more:
  assumes "\<not> vers < POLICYDB_VERSION_AVTAB" and "avtab_read_item insertf vers amc fp a = Ret (0, a', y, amc')"
  shows "avtab_read_item insertf vers amc (fp @ tail) a = Ret (0, a', y @ tail, amc')"
proof (cases rule: next_entry_cases[of fp 8])
  case short
  with assms show ?thesis by (auto simp: avtab_read_item_def)
next
  case (full buf fp1)
  define ot where "ot = (le_word (drop 6 buf) AND AVTAB_OPTYPE \<noteq> 0 \<and> vers = POLICYDB_VERSION_XPERMS_IOCTL)"
  define sp where "sp = (if ot then avtab_optype_to_xperms (le_word (drop 6 buf)) else le_word (drop 6 buf))"
  note read = avtab_read_item_def Let_def full if_not_P[OF assms(1)] ot_def[symmetric] sp_def[symmetric] prod.case
  show ?thesis
  proof (cases "sp AND AVTAB_XPERMS \<noteq> 0")
    case True
    obtain rc x y' amc'' where xp: "read_xperms (amc \<or> ot) vers ot fp1 = (rc, x, y', amc'')" by (metis prod_cases4)
    with True assms(2) have "\<not> rc < 0" by (auto simp: read split: if_splits)
    with True xp read_xperms_more[OF xp this, of tail] assms(2) show ?thesis
      by (auto simp: read split: if_splits prod.splits)
  next
    case False
    with assms(2) show ?thesis
      by (cases rule: next_entry_cases[of fp1 4]) (auto simp: read split: if_splits prod.splits)
  qed
qed

lemma read_items_more:
  "\<not> vers < POLICYDB_VERSION_AVTAB \<Longrightarrow> avtab_read_items mok vers n amc fp a = Ret (0, a', y, amc') \<Longrightarrow>
     avtab_read_items mok vers n amc (fp @ tail) a = Ret (0, a', y @ tail, amc')"
proof (induction n arbitrary: fp a amc)
  case (Suc n)
  then show ?case by (auto split: if_splits dest!: read_item_more[where tail = tail])
qed simp

lemma avtab_read_more:
  "\<not> vers < POLICYDB_VERSION_AVTAB \<Longrightarrow> avtab_read mok vers amc fp a = Ret (0, a', y, amc') \<Longrightarrow>
     avtab_read mok vers amc (fp @ tail) a = Ret (0, a', y @ tail, amc')"
  by (cases rule: next_entry_cases[of fp 4])
    (auto simp: avtab_read_def Let_def split: prod.splits if_splits dest: read_items_more[where tail = tail])

text \<open>In the current format reading always returns; when it fails it returns -1 with the table destroyed.\<close>

lemma destroyed [simp]: "av_htable (avtab_destroy a) = None"
  by (simp add: avtab_destroy_def split: option.splits)

lemma read_item_total:
  "\<not> vers < POLICYDB_VERSION_AVTAB \<Longrightarrow> \<exists>rc a' y amc'. avtab_read_item insertf vers amc fp a = Ret (rc, a', y, amc')"
  unfolding avtab_read_item_def Let_def by (auto split: prod.splits)

lemma read_items_total:
  "\<not> vers < POLICYDB_VERSION_AVTAB \<Longrightarrow>
     \<exists>rc a' y amc'. avtab_read_items mok vers n amc fp a = Ret (rc, a', y, amc') \<and> (rc = 0 \<or> rc = -1 \<and> av_htable a' = None)"
proof (induction n arbitrary: fp a amc)
  case (Suc n)
  obtain rc a' y amc' where "avtab_read_item (avtab_insertf mok) vers amc fp a = Ret (rc, a', y, amc')"
    using read_item_total[OF Suc.prems] by metis
  with Suc show ?case by simp
qed simp

lemma avtab_read_total:
  assumes "\<not> vers < POLICYDB_VERSION_AVTAB"
  shows "\<exists>rc a' y amc'. avtab_read mok vers amc fp a = Ret (rc, a', y, amc') \<and> (rc = 0 \<or> rc = -1 \<and> av_htable a' = None)"
  unfolding avtab_read_def Let_def using read_items_total[OF assms] by (auto split: prod.splits)

lemma avtab_read_truncated:
  assumes vers: "vers \<ge> POLICYDB_VERSION_AVTAB" and "avtab_wf a" and "avtab_counted a"
    and "\<forall>x \<in> set (avtab_nodes a). storable amc vers x" and n: "n < length (avtab_bytes amc a)"
  shows "\<exists>a' y amc'. avtab_read True vers amc (take n (avtab_bytes amc a)) a0 = Ret (-1, a', y, amc') \<and> av_htable a' = None"
proof -
  have v: "\<not> vers < POLICYDB_VERSION_AVTAB" using vers by simp
  obtain b where full: "avtab_read True vers amc (avtab_bytes amc a @ []) a0 = Ret (0, b, [], amc)"
    using avtab_read_bytes[OF assms(1-4), of "[]" a0] by metis
  have "avtab_read True vers amc (take n (avtab_bytes amc a)) a0 \<noteq> Ret (0, a', y, amc')" for a' y amc'
  proof
    assume "avtab_read True vers amc (take n (avtab_bytes amc a)) a0 = Ret (0, a', y, amc')"
    from avtab_read_more[OF v this, of "drop n (avtab_bytes amc a)"] full have "drop n (avtab_bytes amc a) = []" by simp
    with n show False by simp
  qed
  with avtab_read_total[OF v, of True amc "take n (avtab_bytes amc a)" a0] show ?thesis by metis
qed

section \<open>The original format\<close>

text \<open>
  An entry with all access vector and extended permission bits set makes the loop read
  \<open>buf32[8]\<close>, one past the array, as soon as the insertions before it succeed.
\<close>

lemma read_item_old_overruns:
  fixes ws :: "u32 list"
  assumes ws: "length ws = 8" and "ucast (ucast (ws ! 0) :: u16) = ws ! 0" and "ucast (ucast (ws ! 1) :: u16) = ws ! 1"
    and "ucast (ucast (ws ! 2) :: u16) = ws ! 2" and "ws ! 3 = ucast (AVTAB_AV OR AVTAB_XPERMS)"
    and ok: "\<And>k d a. fst (insertf k d a) = 0"
  shows "read_item_old insertf (le_bytes 4 (8 :: u32) @ concat (map (le_bytes 4) ws) @ rest) a = UB OutOfBounds"
proof -
  have hd: "next_entry (le_bytes 4 (8 :: u32) @ concat (map (le_bytes 4) ws) @ rest) 4 =
      (0, le_bytes 4 (8 :: u32), concat (map (le_bytes 4) ws) @ rest)" by (rule next_entry_append) simp
  have body: "next_entry (concat (map (le_bytes 4) ws) @ rest) 32 = (0, concat (map (le_bytes 4) ws), rest)"
    using ws by (intro next_entry_append) simp
  have "old_datums insertf ws key en (ws ! 3) spec_order 4 a = UB OutOfBounds" for key en a
    unfolding spec_order_def using ws assms(5) by (simp add: case_prod_beta ok)
  then show ?thesis
    using assms unfolding read_item_old_def hd prod.case
    by (simp add: body Let_def del: le_words.simps le_bytes.simps)
qed

end
