(* ===== verification/Conditional.thy ===== *)
theory Conditional
  imports Avtab
begin

text \<open>
  Conditional policy (\<^verbatim>\<open>libsepol/src/conditional.c\<close>, \<^verbatim>\<open>policydb/conditional.h\<close>): blocks of rules that are switched
  on and off by an expression over the booleans of the policy. An expression is a list in reverse
  Polish notation. The booleans are the array \<open>bool_val_to_struct\<close> (\<open>None\<close> for a NULL entry) of their
  states. The lists of a block point to nodes of the conditional rule table; a pointer is an
  address in a heap of rule keys, so that two lists may share a node.
\<close>

section \<open>Definitions\<close>

abbreviation (input) COND_BOOL :: u32 where "COND_BOOL \<equiv> 1"
abbreviation (input) COND_NOT :: u32 where "COND_NOT \<equiv> 2"
abbreviation (input) COND_OR :: u32 where "COND_OR \<equiv> 3"
abbreviation (input) COND_AND :: u32 where "COND_AND \<equiv> 4"
abbreviation (input) COND_XOR :: u32 where "COND_XOR \<equiv> 5"
abbreviation (input) COND_EQ :: u32 where "COND_EQ \<equiv> 6"
abbreviation (input) COND_NEQ :: u32 where "COND_NEQ \<equiv> 7"
abbreviation (input) COND_EXPR_MAXDEPTH :: nat where "COND_EXPR_MAXDEPTH \<equiv> 10"
abbreviation (input) COND_MAX_BOOLS :: nat where "COND_MAX_BOOLS \<equiv> 5"

record cond_expr =
  expr_type :: u32
  expr_bool :: u32

type_synonym bool_states = "int option list"
type_synonym key_heap = "nat \<Rightarrow> avtab_key"

record cond_node =
  cur_state :: int
  cexpr :: "cond_expr list"
  true_list :: "nat list"
  false_list :: "nat list"
  avtrue_list :: "nat list"
  avfalse_list :: "nat list"
  nbools :: nat
  bool_ids :: "u32 list"
  expr_pre_comp :: u32
  cflags :: u32

subsection \<open>Order of the rules\<close>

text \<open>
  The loop of \<open>cond_optimize\<close>: \<open>before\<close> is the list from \<open>top\<close> to \<open>p\<close>, the other argument the list from
  \<open>cur\<close>; \<open>top\<close> is \<open>cur\<close> exactly while \<open>before\<close> is empty.
\<close>

fun cond_optimize_loop :: "key_heap \<Rightarrow> nat list \<Rightarrow> nat list \<Rightarrow> nat list" where
  "cond_optimize_loop h before [] = before"
| "cond_optimize_loop h before (cur # rest) =
     (if specified (h cur) AND AVTAB_TYPE \<noteq> 0 \<and> before \<noteq> [] then cond_optimize_loop h (cur # before) rest
      else cond_optimize_loop h (before @ [cur]) rest)"

definition cond_optimize :: "key_heap \<Rightarrow> nat list \<Rightarrow> nat list" where
  "cond_optimize h l = cond_optimize_loop h [] l"

definition cond_optimize_lists :: "key_heap \<Rightarrow> cond_node list \<Rightarrow> cond_node list" where
  "cond_optimize_lists h cl =
     map (\<lambda>n. n\<lparr>true_list := cond_optimize h (true_list n), false_list := cond_optimize h (false_list n)\<rparr>) cl"

subsection \<open>Comparing expressions\<close>

definition bool_present :: "u32 \<Rightarrow> u32 list \<Rightarrow> nat \<Rightarrow> bool" where
  "bool_present target ids num_bools =
     (if num_bools > COND_MAX_BOOLS then False else target \<in> set (take num_bools ids))"

definition same_bools :: "cond_node \<Rightarrow> cond_node \<Rightarrow> bool" where
  "same_bools a b \<longleftrightarrow> nbools a = nbools b \<and> list_all (\<lambda>i. bool_present i (bool_ids b) (nbools a)) (take (nbools a) (bool_ids a))"

fun same_exprs :: "cond_expr list \<Rightarrow> cond_expr list \<Rightarrow> bool" where
  "same_exprs [] [] = True"
| "same_exprs (a # as) (b # bs) =
     (if expr_type a \<noteq> expr_type b then False
      else if expr_type a = COND_BOOL \<and> expr_bool a \<noteq> expr_bool b then False
      else same_exprs as bs)"
| "same_exprs _ _ = False"

definition cond_expr_equal :: "cond_node option \<Rightarrow> cond_node option \<Rightarrow> bool" where
  "cond_expr_equal ao bo =
     (case (ao, bo) of
        (Some a, Some b) \<Rightarrow>
          if nbools a \<noteq> nbools b then False
          else if nbools a \<le> COND_MAX_BOOLS \<and> nbools b \<le> COND_MAX_BOOLS
          then (if \<not> same_bools a b then False else expr_pre_comp a = expr_pre_comp b)
          else same_exprs (cexpr a) (cexpr b)
      | _ \<Rightarrow> False)"

subsection \<open>Evaluation\<close>

text \<open>The state of a boolean, by its value (which counts from 1).\<close>

definition bool_state :: "bool_states \<Rightarrow> u32 \<Rightarrow> int outcome" where
  "bool_state bs b =
     (let i = unat (b - 1) in
      if i \<ge> length bs then UB OutOfBounds else case bs ! i of None \<Rightarrow> UB NullDeref | Some v \<Rightarrow> Ret v)"

text \<open>What an operator with two operands leaves on the stack; \<open>x\<close> is below \<open>y\<close>.\<close>

definition cond_operator :: "u32 \<Rightarrow> int \<Rightarrow> int \<Rightarrow> int option" where
  "cond_operator ty x y =
     (if ty = COND_OR then Some (x OR y)
      else if ty = COND_AND then Some (x AND y)
      else if ty = COND_XOR then Some (x XOR y)
      else if ty = COND_EQ then Some (if x = y then 1 else 0)
      else if ty = COND_NEQ then Some (if x \<noteq> y then 1 else 0)
      else None)"

text \<open>The loop; the stack is given from its top. The result is \<open>s[0]\<close>, or -1 for undefined.\<close>

fun cond_evaluate_loop :: "bool_states \<Rightarrow> cond_expr list \<Rightarrow> int list \<Rightarrow> int outcome" where
  "cond_evaluate_loop bs [] s = Ret (if s = [] then -1 else last s)"
| "cond_evaluate_loop bs (cur # es) s =
     (if expr_type cur = COND_BOOL then
        if length s = COND_EXPR_MAXDEPTH then Ret (-1)
        else obind (bool_state bs (expr_bool cur)) (\<lambda>v. cond_evaluate_loop bs es (v # s))
      else if expr_type cur = COND_NOT then
        (case s of [] \<Rightarrow> Ret (-1) | x # s \<Rightarrow> cond_evaluate_loop bs es ((if x = 0 then 1 else 0) # s))
      else
        (case s of
           y # x # s \<Rightarrow> (case cond_operator (expr_type cur) x y of None \<Rightarrow> Ret (-1) | Some z \<Rightarrow> cond_evaluate_loop bs es (z # s))
         | _ \<Rightarrow> Ret (-1)))"

definition cond_evaluate_expr :: "bool_states \<Rightarrow> cond_expr list \<Rightarrow> int outcome" where
  "cond_evaluate_expr bs expr = cond_evaluate_loop bs expr []"

definition set_enabled :: "bool \<Rightarrow> nat \<Rightarrow> key_heap \<Rightarrow> key_heap" where
  "set_enabled en i h =
     h(i := (h i)\<lparr>specified := (if en then specified (h i) OR AVTAB_ENABLED else specified (h i) AND NOT AVTAB_ENABLED)\<rparr>)"

definition evaluate_cond_node :: "bool_states \<Rightarrow> key_heap \<Rightarrow> cond_node \<Rightarrow> (key_heap \<times> cond_node) outcome" where
  "evaluate_cond_node bs h node =
     obind (cond_evaluate_expr bs (cexpr node)) (\<lambda>new_state.
       if new_state \<noteq> cur_state node
       then Ret (fold (set_enabled (new_state = 0)) (false_list node) (fold (set_enabled (\<not> new_state \<le> 0)) (true_list node) h),
                 node\<lparr>cur_state := new_state\<rparr>)
       else Ret (h, node))"

fun evaluate_conds :: "bool_states \<Rightarrow> key_heap \<Rightarrow> cond_node list \<Rightarrow> (key_heap \<times> cond_node list) outcome" where
  "evaluate_conds bs h [] = Ret (h, [])"
| "evaluate_conds bs h (cur # ns) =
     obind (evaluate_cond_node bs h cur) (\<lambda>(h, cur).
     obind (evaluate_conds bs h ns) (\<lambda>(h, ns). Ret (h, cur # ns)))"

subsection \<open>Normalization\<close>

text \<open>The loop that records the booleans of an expression.\<close>

fun find_bools :: "cond_expr list \<Rightarrow> u32 list \<Rightarrow> nat \<Rightarrow> u32 list \<times> nat" where
  "find_bools [] ids n = (ids, n)"
| "find_bools (e # es) ids n =
     (if expr_type e = COND_BOOL \<and> \<not> bool_present (expr_bool e) ids n
      then (if n < COND_MAX_BOOLS then find_bools es (ids[n := expr_bool e]) (n + 1) else find_bools es ids (n + 1))
      else find_bools es ids n)"

definition set_bool :: "u32 \<Rightarrow> int \<Rightarrow> bool_states \<Rightarrow> bool_states outcome" where
  "set_bool b v bs = obind (bool_state bs b) (\<lambda>_. Ret (bs[unat (b - 1) := Some v]))"

fun set_bools :: "u32 list \<Rightarrow> int list \<Rightarrow> bool_states \<Rightarrow> bool_states outcome" where
  "set_bools (b # ids) (v # vs) bs = obind (set_bool b v bs) (\<lambda>bs. set_bools ids vs bs)"
| "set_bools _ _ bs = Ret bs"

fun get_bools :: "u32 list \<Rightarrow> bool_states \<Rightarrow> int list outcome" where
  "get_bools [] bs = Ret []"
| "get_bools (b # ids) bs = obind (bool_state bs b) (\<lambda>v. obind (get_bools ids bs) (\<lambda>vs. Ret (v # vs)))"

text \<open>The values that the number \<open>test\<close> gives the booleans.\<close>

definition test_values :: "nat \<Rightarrow> nat \<Rightarrow> int list" where
  "test_values n test = map (\<lambda>j. if bit test j then 1 else 0) [0..<n]"

text \<open>The loop over all combinations: return code, booleans, table.\<close>

fun precompute :: "cond_expr list \<Rightarrow> u32 list \<Rightarrow> nat list \<Rightarrow> bool_states \<Rightarrow> u32 \<Rightarrow> (int \<times> bool_states \<times> u32) outcome" where
  "precompute expr ids [] bs pre = Ret (0, bs, pre)"
| "precompute expr ids (test # tests) bs pre =
     obind (set_bools ids (test_values (length ids) test) bs) (\<lambda>bs.
     obind (cond_evaluate_expr bs expr) (\<lambda>k.
       if k = -1 then Ret (-1, bs, pre)
       else precompute expr ids tests bs (if k \<noteq> 0 then pre OR push_bit test 1 else pre)))"

definition cond_normalize_expr :: "bool_states \<Rightarrow> cond_node \<Rightarrow> (int \<times> bool_states \<times> cond_node) outcome" where
  "cond_normalize_expr bs cn =
     (let cn = cn\<lparr>nbools := 0, bool_ids := replicate COND_MAX_BOOLS 0, expr_pre_comp := 0\<rparr> in
      if cexpr cn = [] then UB NullDeref
      else if expr_type (last (cexpr cn)) = COND_NOT \<and> butlast (cexpr cn) = [] then Ret (-1, bs, cn)
      else
        let cn = (if expr_type (last (cexpr cn)) = COND_NOT
                  then cn\<lparr>cexpr := butlast (cexpr cn), true_list := false_list cn, false_list := true_list cn,
                          avtrue_list := avfalse_list cn, avfalse_list := avtrue_list cn\<rparr>
                  else cn);
            (ids, n) = find_bools (cexpr cn) (bool_ids cn) 0;
            cn = cn\<lparr>bool_ids := ids, nbools := n\<rparr> in
        if n \<le> COND_MAX_BOOLS then
          obind (get_bools (take n ids) bs) (\<lambda>orig_value.
          obind (precompute (cexpr cn) (take n ids) [0..<2 ^ n] bs 0) (\<lambda>(rc, bs, pre).
            if rc \<noteq> 0 then Ret (-1, bs, cn\<lparr>expr_pre_comp := pre\<rparr>)
            else obind (set_bools (take n ids) orig_value bs) (\<lambda>bs. Ret (0, bs, cn\<lparr>expr_pre_comp := pre\<rparr>))))
        else Ret (0, bs, cn))"

subsection \<open>Nodes\<close>

text \<open>\<open>cond_copy_expr\<close> copies the list or gives NULL; \<open>NULL\<close> is also the copy of no expression.\<close>

definition cond_copy_expr :: "bool \<Rightarrow> cond_expr list \<Rightarrow> cond_expr list" where
  "cond_copy_expr mok expr = (if mok then expr else [])"

definition zero_node :: cond_node where
  "zero_node = \<lparr>cur_state = 0, cexpr = [], true_list = [], false_list = [], avtrue_list = [], avfalse_list = [],
     nbools = 0, bool_ids = replicate COND_MAX_BOOLS 0, expr_pre_comp = 0, cflags = 0\<rparr>"

definition cond_node_create :: "bool \<Rightarrow> bool_states \<Rightarrow> cond_node option \<Rightarrow> cond_node option outcome" where
  "cond_node_create mok bs node =
     (if \<not> mok then Ret None
      else case node of None \<Rightarrow> Ret (Some zero_node)
      | Some n \<Rightarrow>
          let expr = cond_copy_expr mok (cexpr n) in
          if expr = [] then Ret None
          else obind (cond_evaluate_expr bs expr) (\<lambda>st.
            Ret (Some (zero_node\<lparr>cexpr := expr, cur_state := st, nbools := nbools n,
              bool_ids := take (min (nbools n) COND_MAX_BOOLS) (bool_ids n) @ replicate (COND_MAX_BOOLS - min (nbools n) COND_MAX_BOOLS) 0,
              expr_pre_comp := expr_pre_comp n, cflags := cflags n\<rparr>))))"

text \<open>\<open>cond_node_search\<close>: the list of the policy with the node in it, and the node's position (\<open>None\<close> for NULL).\<close>

definition cond_node_search :: "bool \<Rightarrow> bool_states \<Rightarrow> cond_node list \<Rightarrow> cond_node \<Rightarrow> (nat option \<times> cond_node list) outcome" where
  "cond_node_search mok bs lst cn =
     (case find (\<lambda>i. cond_expr_equal (Some cn) (Some (lst ! i))) [0..<length lst] of
        Some i \<Rightarrow> Ret (Some i, lst)
      | None \<Rightarrow>
          obind (cond_node_create mok bs (Some cn)) (\<lambda>r.
            case r of None \<Rightarrow> Ret (None, lst) | Some n \<Rightarrow> Ret (Some 0, n # lst)))"

subsection \<open>Reading an expression\<close>

definition expr_isvalid :: "u32 \<Rightarrow> cond_expr \<Rightarrow> bool" where
  "expr_isvalid nb e \<longleftrightarrow> \<not> (expr_type e = 0 \<or> expr_type e > COND_NEQ) \<and> \<not> expr_bool e > nb"

text \<open>The loop of \<open>cond_read_node\<close> over the expression: 0 or -1, the expression, what is left.\<close>

fun cond_read_exprs :: "bool \<Rightarrow> u32 \<Rightarrow> nat \<Rightarrow> u8 list \<Rightarrow> int \<times> cond_expr list \<times> u8 list" where
  "cond_read_exprs mok nb 0 fp = (0, [], fp)"
| "cond_read_exprs mok nb (Suc n) fp =
     (case next_entry fp 8 of (rc, buf, fp) \<Rightarrow>
      if rc < 0 \<or> \<not> mok then (-1, [], fp)
      else
        let e = \<lparr>expr_type = le_word (take 4 buf), expr_bool = le_word (drop 4 buf)\<rparr> in
        if \<not> expr_isvalid nb e then (-1, [], fp)
        else case cond_read_exprs mok nb n fp of (rc, es, fp) \<Rightarrow> if rc < 0 then (-1, [], fp) else (0, e # es, fp))"

section \<open>Type rules come first\<close>

lemma optimize_loop:
  "before \<noteq> [] \<Longrightarrow> cond_optimize_loop h before l =
     rev (filter (\<lambda>i. specified (h i) AND AVTAB_TYPE \<noteq> 0) l) @ before @ filter (\<lambda>i. specified (h i) AND AVTAB_TYPE = 0) l"
  by (induction l arbitrary: before) auto

lemma cond_optimize_filter:
  "cond_optimize h l =
     rev (filter (\<lambda>i. specified (h i) AND AVTAB_TYPE \<noteq> 0) l) @ filter (\<lambda>i. specified (h i) AND AVTAB_TYPE = 0) l"
  by (cases l) (simp_all add: cond_optimize_def optimize_loop)

section \<open>Expressions as trees\<close>

datatype cond_tree = CBool u32 | CNot cond_tree | COr cond_tree cond_tree | CAnd cond_tree cond_tree
  | CXor cond_tree cond_tree | CEq cond_tree cond_tree | CNeq cond_tree cond_tree

abbreviation operator_expr :: "u32 \<Rightarrow> cond_expr" where
  "operator_expr ty \<equiv> \<lparr>expr_type = ty, expr_bool = 0\<rparr>"

primrec postfix :: "cond_tree \<Rightarrow> cond_expr list" where
  "postfix (CBool b) = [\<lparr>expr_type = COND_BOOL, expr_bool = b\<rparr>]"
| "postfix (CNot e) = postfix e @ [operator_expr COND_NOT]"
| "postfix (COr e f) = postfix e @ postfix f @ [operator_expr COND_OR]"
| "postfix (CAnd e f) = postfix e @ postfix f @ [operator_expr COND_AND]"
| "postfix (CXor e f) = postfix e @ postfix f @ [operator_expr COND_XOR]"
| "postfix (CEq e f) = postfix e @ postfix f @ [operator_expr COND_EQ]"
| "postfix (CNeq e f) = postfix e @ postfix f @ [operator_expr COND_NEQ]"

primrec tree_value :: "(u32 \<Rightarrow> bool) \<Rightarrow> cond_tree \<Rightarrow> bool" where
  "tree_value env (CBool b) = env b"
| "tree_value env (CNot e) = (\<not> tree_value env e)"
| "tree_value env (COr e f) = (tree_value env e \<or> tree_value env f)"
| "tree_value env (CAnd e f) = (tree_value env e \<and> tree_value env f)"
| "tree_value env (CXor e f) = (tree_value env e \<noteq> tree_value env f)"
| "tree_value env (CEq e f) = (tree_value env e = tree_value env f)"
| "tree_value env (CNeq e f) = (tree_value env e \<noteq> tree_value env f)"

text \<open>
  How many values lie on the stack, of those an evaluation puts there, when it makes its deepest push;
  and the booleans it reads.
\<close>

primrec depth :: "cond_tree \<Rightarrow> nat" where
  "depth (CBool b) = 0"
| "depth (CNot e) = depth e"
| "depth (COr e f) = max (depth e) (1 + depth f)"
| "depth (CAnd e f) = max (depth e) (1 + depth f)"
| "depth (CXor e f) = max (depth e) (1 + depth f)"
| "depth (CEq e f) = max (depth e) (1 + depth f)"
| "depth (CNeq e f) = max (depth e) (1 + depth f)"

primrec tree_bools :: "cond_tree \<Rightarrow> u32 list" where
  "tree_bools (CBool b) = [b]"
| "tree_bools (CNot e) = tree_bools e"
| "tree_bools (COr e f) = tree_bools e @ tree_bools f"
| "tree_bools (CAnd e f) = tree_bools e @ tree_bools f"
| "tree_bools (CXor e f) = tree_bools e @ tree_bools f"
| "tree_bools (CEq e f) = tree_bools e @ tree_bools f"
| "tree_bools (CNeq e f) = tree_bools e @ tree_bools f"

definition int_of_bool :: "bool \<Rightarrow> int" where
  "int_of_bool v = (if v then 1 else 0)"

text \<open>The booleans of a policy hold the values of an assignment.\<close>

definition holds_values :: "bool_states \<Rightarrow> (u32 \<Rightarrow> bool) \<Rightarrow> u32 set \<Rightarrow> bool" where
  "holds_values bs env B \<longleftrightarrow> (\<forall>b \<in> B. bool_state bs b = Ret (int_of_bool (env b)))"

lemma cond_operator_values [simp]:
  "cond_operator COND_OR (int_of_bool x) (int_of_bool y) = Some (int_of_bool (x \<or> y))"
  "cond_operator COND_AND (int_of_bool x) (int_of_bool y) = Some (int_of_bool (x \<and> y))"
  "cond_operator COND_XOR (int_of_bool x) (int_of_bool y) = Some (int_of_bool (x \<noteq> y))"
  "cond_operator COND_EQ (int_of_bool x) (int_of_bool y) = Some (int_of_bool (x = y))"
  "cond_operator COND_NEQ (int_of_bool x) (int_of_bool y) = Some (int_of_bool (x \<noteq> y))"
  by (cases x; cases y; simp add: cond_operator_def int_of_bool_def)+

lemma evaluate_postfix:
  assumes "holds_values bs env (set (tree_bools e))" and "length s \<le> COND_EXPR_MAXDEPTH"
  shows "cond_evaluate_loop bs (postfix e @ es) s =
    (if length s + depth e < COND_EXPR_MAXDEPTH then cond_evaluate_loop bs es (int_of_bool (tree_value env e) # s) else Ret (-1))"
  using assms
proof (induction e arbitrary: es s)
  case (CBool b)
  then show ?case by (auto simp: holds_values_def)
next
  case (CNot e)
  then show ?case by (auto simp: int_of_bool_def)
qed (auto simp: holds_values_def)

lemma cond_evaluate_postfix:
  assumes "holds_values bs env (set (tree_bools e))"
  shows "cond_evaluate_expr bs (postfix e) = Ret (if depth e < COND_EXPR_MAXDEPTH then int_of_bool (tree_value env e) else -1)"
  using evaluate_postfix[OF assms, of "[]" "[]"] by (simp add: cond_evaluate_expr_def)

section \<open>Rules follow their condition\<close>

definition enabled :: "key_heap \<Rightarrow> nat \<Rightarrow> bool" where
  "enabled h i \<longleftrightarrow> specified (h i) AND AVTAB_ENABLED \<noteq> 0"

text \<open>The rules of a block are enabled as its recorded state says.\<close>

definition synced :: "key_heap \<Rightarrow> cond_node \<Rightarrow> bool" where
  "synced h n \<longleftrightarrow> (\<forall>i \<in> set (true_list n). enabled h i = (0 < cur_state n)) \<and>
     (\<forall>i \<in> set (false_list n). enabled h i = (cur_state n = 0))"

definition node_rules :: "cond_node \<Rightarrow> nat set" where
  "node_rules n = set (true_list n) \<union> set (false_list n)"

text \<open>No rule belongs to two lists.\<close>

definition rules_apart :: "cond_node list \<Rightarrow> bool" where
  "rules_apart ns \<longleftrightarrow> sorted_wrt (\<lambda>a b. node_rules a \<inter> node_rules b = {}) ns \<and>
     (\<forall>n \<in> set ns. set (true_list n) \<inter> set (false_list n) = {})"

text \<open>Two versions of a block that differ only in the recorded state.\<close>

definition same_block :: "cond_node \<Rightarrow> cond_node \<Rightarrow> bool" where
  "same_block n n' \<longleftrightarrow> n' = n\<lparr>cur_state := cur_state n'\<rparr>"

lemma enabled_set [simp]: "enabled (set_enabled en i h) j = (if j = i then en else enabled h j)"
proof -
  have "(w AND NOT AVTAB_ENABLED) AND AVTAB_ENABLED = 0" "(w OR AVTAB_ENABLED) AND AVTAB_ENABLED \<noteq> 0" for w :: u16
    by (simp_all add: and.assoc bit.conj_disj_distrib2)
  then show ?thesis by (simp add: enabled_def set_enabled_def)
qed

lemma enabled_fold [simp]: "enabled (fold (set_enabled en) l h) j = (if j \<in> set l then en else enabled h j)"
  by (induction l arbitrary: h) auto

lemma evaluate_node_synced:
  assumes "evaluate_cond_node bs h n = Ret (h', n')" and "synced h n" and "set (true_list n) \<inter> set (false_list n) = {}"
  shows "synced h' n'" and "same_block n n'" and "cond_evaluate_expr bs (cexpr n) = Ret (cur_state n')"
    and "\<And>j. j \<notin> node_rules n \<Longrightarrow> enabled h' j = enabled h j"
  using assms by (auto simp: evaluate_cond_node_def synced_def same_block_def node_rules_def disjoint_iff split: if_splits)

lemma same_block_rules: "same_block n n' \<Longrightarrow> node_rules n' = node_rules n"
  by (cases n; cases n') (simp add: same_block_def node_rules_def)

lemma synced_cong: "(\<And>i. i \<in> node_rules n \<Longrightarrow> enabled h' i = enabled h i) \<Longrightarrow> synced h' n = synced h n"
  by (simp add: synced_def node_rules_def)

lemma evaluate_conds_synced:
  assumes "evaluate_conds bs h ns = Ret (h', ns')" and "\<forall>n \<in> set ns. synced h n" and "rules_apart ns"
  shows "list_all2 (\<lambda>n n'. same_block n n' \<and> cond_evaluate_expr bs (cexpr n) = Ret (cur_state n') \<and> synced h' n') ns ns' \<and>
    (\<forall>j. (\<forall>n \<in> set ns. j \<notin> node_rules n) \<longrightarrow> enabled h' j = enabled h j)"
  using assms
proof (induction ns arbitrary: h ns')
  case (Cons n ns)
  obtain h1 n' ns1 where 1: "evaluate_cond_node bs h n = Ret (h1, n')" and 2: "evaluate_conds bs h1 ns = Ret (h', ns1)"
    and ns': "ns' = n' # ns1"
    using Cons.prems(1) by auto
  have n: "synced h n" "set (true_list n) \<inter> set (false_list n) = {}" and ap: "rules_apart ns"
    and dis: "\<forall>m \<in> set ns. node_rules n \<inter> node_rules m = {}"
    using Cons.prems(2,3) by (simp_all add: rules_apart_def)
  note node = evaluate_node_synced[OF 1 n]
  have "synced h1 m" if "m \<in> set ns" for m
    using Cons.prems(2) that dis node(4) by (subst synced_cong[of m h1 h]) auto
  with Cons.IH[OF 2] ap have IH: "list_all2 (\<lambda>n n'. same_block n n' \<and> cond_evaluate_expr bs (cexpr n) = Ret (cur_state n') \<and> synced h' n') ns ns1"
    "\<forall>j. (\<forall>n \<in> set ns. j \<notin> node_rules n) \<longrightarrow> enabled h' j = enabled h1 j" by auto
  have "synced h' n'"
    using node(1) dis IH(2) same_block_rules[OF node(2)] by (subst synced_cong[of n' h' h1]) (simp_all, blast)
  then show ?case using IH node by (simp add: ns')
qed simp

text \<open>Evaluation returns when every expression is that of a tree over booleans the policy has.\<close>

lemma evaluate_conds_returns:
  assumes "\<forall>n \<in> set ns. \<exists>e. cexpr n = postfix e \<and> holds_values bs env (set (tree_bools e))"
  shows "\<exists>h' ns'. evaluate_conds bs h ns = Ret (h', ns')"
  using assms
proof (induction ns arbitrary: h)
  case (Cons n ns)
  then obtain e where "cexpr n = postfix e" "holds_values bs env (set (tree_bools e))" by auto
  then obtain h1 n' where "evaluate_cond_node bs h n = Ret (h1, n')"
    by (cases "evaluate_cond_node bs h n") (auto simp: evaluate_cond_node_def cond_evaluate_postfix split: if_splits)
  moreover obtain h' ns' where "evaluate_conds bs h1 ns = Ret (h', ns')" using Cons.IH[of h1] Cons.prems by auto
  ultimately show ?case by simp
qed simp

section \<open>Normalization keeps the meaning\<close>

subsection \<open>Finding the booleans\<close>

definition expr_bools :: "cond_expr list \<Rightarrow> u32 set" where
  "expr_bools es = expr_bool ` {e \<in> set es. expr_type e = COND_BOOL}"

lemma expr_bools_simps [simp]:
  "expr_bools [] = {}"
  "expr_bools (e # es) = (if expr_type e = COND_BOOL then insert (expr_bool e) (expr_bools es) else expr_bools es)"
  "expr_bools (es @ fs) = expr_bools es \<union> expr_bools fs"
  by (auto simp: expr_bools_def)

lemma expr_bools_postfix [simp]: "expr_bools (postfix e) = set (tree_bools e)"
  by (induction e) auto

lemma take_update_last: "n < length ids \<Longrightarrow> take (Suc n) (ids[n := b]) = take n ids @ [b]"
  by (simp add: take_Suc_conv_app_nth)

lemma find_bools_spec:
  assumes "length ids = COND_MAX_BOOLS" and "n \<le> COND_MAX_BOOLS" and "distinct (take n ids)"
    and "card (set (take n ids) \<union> expr_bools es) \<le> COND_MAX_BOOLS"
  obtains ids' n' where "find_bools es ids n = (ids', n')" and "length ids' = COND_MAX_BOOLS" and "n' \<le> COND_MAX_BOOLS"
    and "distinct (take n' ids')" and "set (take n' ids') = set (take n ids) \<union> expr_bools es"
proof -
  have "\<exists>ids' n'. find_bools es ids n = (ids', n') \<and> length ids' = COND_MAX_BOOLS \<and> n' \<le> COND_MAX_BOOLS \<and>
      distinct (take n' ids') \<and> set (take n' ids') = set (take n ids) \<union> expr_bools es"
    using assms
  proof (induction es arbitrary: ids n)
    case (Cons e es)
    show ?case
    proof (cases "expr_type e = COND_BOOL \<and> \<not> bool_present (expr_bool e) ids n")
      case True
      let ?b = "expr_bool e"
      have new: "?b \<notin> set (take n ids)" using True Cons.prems(2) by (simp add: bool_present_def)
      have fin: "finite (expr_bools es)" by (simp add: expr_bools_def)
      have "Suc n = card (insert ?b (set (take n ids)))"
        using new Cons.prems(1-3) distinct_card[of "take n ids"] by simp
      also have "\<dots> \<le> card (set (take n ids) \<union> expr_bools (e # es))" using True fin by (intro card_mono) auto
      finally have n: "n < COND_MAX_BOOLS" using Cons.prems(4) by simp
      then have tk: "take (Suc n) (ids[n := ?b]) = take n ids @ [?b]" using Cons.prems(1) by (intro take_update_last) simp
      have "\<exists>ids' n'. find_bools es (ids[n := ?b]) (Suc n) = (ids', n') \<and> length ids' = COND_MAX_BOOLS \<and> n' \<le> COND_MAX_BOOLS \<and>
          distinct (take n' ids') \<and> set (take n' ids') = set (take (Suc n) (ids[n := ?b])) \<union> expr_bools es"
        using Cons.prems n new True by (intro Cons.IH) (simp_all add: tk)
      with True n show ?thesis by (auto simp: tk)
    next
      case False
      then have "set (take n ids) \<union> expr_bools (e # es) = set (take n ids) \<union> expr_bools es"
        using Cons.prems(2) by (auto simp: bool_present_def)
      moreover have "find_bools (e # es) ids n = find_bools es ids n" unfolding find_bools.simps using False by (rule if_not_P)
      moreover have "\<exists>ids' n'. find_bools es ids n = (ids', n') \<and> length ids' = COND_MAX_BOOLS \<and> n' \<le> COND_MAX_BOOLS \<and>
          distinct (take n' ids') \<and> set (take n' ids') = set (take n ids) \<union> expr_bools es"
        using Cons.prems calculation(1) by (intro Cons.IH) simp_all
      ultimately show ?thesis by simp
    qed
  qed auto
  then show thesis using that by blast
qed

subsection \<open>Setting and restoring them\<close>

lemma bool_state_Ret: "bool_state bs b = Ret v \<longleftrightarrow> unat (b - 1) < length bs \<and> bs ! unat (b - 1) = Some v"
  by (auto simp: bool_state_def Let_def split: option.splits)

lemma index_inj: "unat (a - 1) = unat (b - 1) \<longleftrightarrow> a = (b :: u32)"
  by (metis diff_add_cancel unsigned_word_eqI)

definition valid_bools :: "bool_states \<Rightarrow> u32 set \<Rightarrow> bool" where
  "valid_bools bs B \<longleftrightarrow> (\<forall>b \<in> B. \<exists>v. bool_state bs b = Ret v)"

text \<open>Two arrays of booleans that agree outside the given ones.\<close>

definition agree_outside :: "u32 set \<Rightarrow> bool_states \<Rightarrow> bool_states \<Rightarrow> bool" where
  "agree_outside B bs bs' \<longleftrightarrow> length bs' = length bs \<and> (\<forall>b. b \<notin> B \<longrightarrow> unat (b - 1) < length bs \<longrightarrow> bs' ! unat (b - 1) = bs ! unat (b - 1))"

lemma agree_outside_trans: "agree_outside B a b \<Longrightarrow> agree_outside B b c \<Longrightarrow> agree_outside B a c"
  by (simp add: agree_outside_def)

lemma set_bools_spec:
  assumes "length vs = length ids" and "distinct ids" and "valid_bools bs (set ids)"
  shows "\<exists>bs'. set_bools ids vs bs = Ret bs' \<and> agree_outside (set ids) bs bs' \<and> (\<forall>j < length ids. bool_state bs' (ids ! j) = Ret (vs ! j))"
  using assms
proof (induction ids vs arbitrary: bs rule: list_induct2')
  case (4 b ids v vs)
  let ?bs = "bs[unat (b - 1) := Some v]"
  obtain w where w: "unat (b - 1) < length bs" "bs ! unat (b - 1) = Some w"
    using 4(4) by (auto simp: valid_bools_def bool_state_Ret)
  then have set: "set_bool b v bs = Ret ?bs" by (simp add: set_bool_def bool_state_def)
  have ne: "unat (c - 1) \<noteq> unat (b - 1)" if "c \<in> set ids" for c using that 4(3) index_inj[of c b] by auto
  have "bool_state ?bs c = bool_state bs c" if "c \<in> set ids" for c using ne[OF that] by (simp add: bool_state_def Let_def)
  then have "valid_bools ?bs (set ids)" using 4(4) by (simp add: valid_bools_def)
  with 4(1)[of ?bs] 4(2,3) obtain bs' where IH: "set_bools ids vs ?bs = Ret bs'" "agree_outside (set ids) ?bs bs'"
    "\<forall>j < length ids. bool_state bs' (ids ! j) = Ret (vs ! j)" by auto
  have "bool_state bs' b = Ret v" using IH(2) w 4(3) by (simp add: agree_outside_def bool_state_Ret)
  then have "\<forall>j < length (b # ids). bool_state bs' ((b # ids) ! j) = Ret ((v # vs) ! j)"
    using IH(3) by (simp add: All_less_Suc2)
  moreover have "agree_outside (set (b # ids)) bs bs'"
    using IH(2) by (auto simp: agree_outside_def nth_list_update index_inj)
  ultimately show ?case using set IH(1) by auto
qed (auto simp: agree_outside_def)

lemma get_bools_spec:
  "valid_bools bs (set ids) \<Longrightarrow> \<exists>vs. get_bools ids bs = Ret vs \<and> length vs = length ids \<and> (\<forall>j < length ids. bool_state bs (ids ! j) = Ret (vs ! j))"
proof (induction ids)
  case (Cons b ids)
  then obtain vs v where "get_bools ids bs = Ret vs" "length vs = length ids" "\<forall>j < length ids. bool_state bs (ids ! j) = Ret (vs ! j)"
    "bool_state bs b = Ret v" by (auto simp: valid_bools_def)
  then show ?case by (auto simp: All_less_Suc2 intro!: exI[of _ "v # vs"])
qed simp

text \<open>Restoring the values undoes every change to the given booleans.\<close>

lemma restore_bools:
  assumes "agree_outside (set ids) bs bs'" and "valid_bools bs (set ids)"
    and "\<forall>j < length ids. bool_state bs (ids ! j) = Ret (vs ! j)" and "\<forall>j < length ids. bool_state bs' (ids ! j) = Ret (vs ! j)"
    and "length bs \<le> 2 ^ 32"
  shows "bs' = bs"
proof (rule nth_equalityI)
  show len: "length bs' = length bs" using assms(1) by (simp add: agree_outside_def)
  fix i assume "i < length bs'"
  then have i: "i < length bs" using len by simp
  define b where "b = (of_nat i :: u32) + 1"
  have b: "unat (b - 1) = i" using i assms(5) by (simp add: b_def unat_of_nat32)
  show "bs' ! i = bs ! i"
  proof (cases "b \<in> set ids")
    case True
    then obtain j where "j < length ids" "ids ! j = b" by (auto simp: in_set_conv_nth)
    then show ?thesis using assms(3,4) b by (auto simp: bool_state_Ret)
  next
    case False
    then show ?thesis using assms(1) i b by (auto simp: agree_outside_def)
  qed
qed

subsection \<open>The truth table\<close>

text \<open>The assignment that bit \<open>j\<close> of a number gives to the \<open>j\<close>-th boolean.\<close>

definition test_env :: "u32 list \<Rightarrow> nat \<Rightarrow> u32 \<Rightarrow> bool" where
  "test_env ids test b \<longleftrightarrow> (\<exists>j < length ids. ids ! j = b \<and> bit test j)"

lemma test_env_nth: "distinct ids \<Longrightarrow> j < length ids \<Longrightarrow> test_env ids test (ids ! j) = bit test j"
  by (auto simp: test_env_def nth_eq_iff_index_eq)

lemma set_bools_holds:
  assumes "distinct ids" and "\<forall>j < length ids. bool_state bs (ids ! j) = Ret (test_values (length ids) test ! j)" and "B \<subseteq> set ids"
  shows "holds_values bs (test_env ids test) B"
proof -
  have "bool_state bs b = Ret (int_of_bool (test_env ids test b))" if "b \<in> set ids" for b
  proof -
    obtain j where "j < length ids" "b = ids ! j" using \<open>b \<in> set ids\<close> by (auto simp: in_set_conv_nth)
    then show ?thesis using assms(1,2) by (simp add: test_values_def test_env_nth int_of_bool_def)
  qed
  then show ?thesis using assms(3) by (auto simp: holds_values_def)
qed

lemma precompute_spec:
  assumes "distinct ids" and "valid_bools bs (set ids)" and "set (tree_bools e) \<subseteq> set ids" and "depth e < COND_EXPR_MAXDEPTH"
    and "\<forall>t \<in> set tests. t < 32"
  shows "\<exists>bs' pre'. precompute (postfix e) ids tests bs pre = Ret (0, bs', pre') \<and> agree_outside (set ids) bs bs' \<and>
    valid_bools bs' (set ids) \<and> (\<forall>k. bit pre' k \<longleftrightarrow> bit pre k \<or> k \<in> set tests \<and> tree_value (test_env ids k) e)"
  using assms
proof (induction tests arbitrary: bs pre)
  case Nil
  then show ?case by (auto simp: agree_outside_def)
next
  case (Cons t tests)
  let ?v = "tree_value (test_env ids t) e"
  have "length (test_values (length ids) t) = length ids" by (simp add: test_values_def)
  from set_bools_spec[OF this Cons.prems(1,2)] obtain bs1 where
    bs1: "set_bools ids (test_values (length ids) t) bs = Ret bs1" "agree_outside (set ids) bs bs1"
      "\<forall>j < length ids. bool_state bs1 (ids ! j) = Ret (test_values (length ids) t ! j)" by blast
  have ev: "cond_evaluate_expr bs1 (postfix e) = Ret (int_of_bool ?v)"
    using cond_evaluate_postfix[OF set_bools_holds[OF Cons.prems(1) bs1(3) Cons.prems(3)]] Cons.prems(4) by simp
  have "valid_bools bs1 (set ids)" using bs1(3) by (fastforce simp: valid_bools_def in_set_conv_nth)
  from Cons.IH[OF Cons.prems(1) this Cons.prems(3,4), of "if ?v then pre OR push_bit t 1 else pre"] Cons.prems(5)
  obtain bs' pre' where IH: "precompute (postfix e) ids tests bs1 (if ?v then pre OR push_bit t 1 else pre) = Ret (0, bs', pre')"
    "agree_outside (set ids) bs1 bs'" "valid_bools bs' (set ids)"
    "\<forall>k. bit pre' k \<longleftrightarrow> bit (if ?v then pre OR push_bit t 1 else pre) k \<or> k \<in> set tests \<and> tree_value (test_env ids k) e"
    by auto
  have "bit (push_bit t 1 :: u32) k \<longleftrightarrow> k = t" for k using Cons.prems(5) by (auto simp: bit_simps)
  then have "\<forall>k. bit pre' k \<longleftrightarrow> bit pre k \<or> k \<in> set (t # tests) \<and> tree_value (test_env ids k) e"
    using IH(4) by (auto simp: bit_or_iff)
  moreover have "precompute (postfix e) ids (t # tests) bs pre = Ret (0, bs', pre')"
    using bs1(1) ev IH(1) by (simp add: int_of_bool_def split: if_splits)
  ultimately show ?case using IH(3) agree_outside_trans[OF bs1(2) IH(2)] by blast
qed

subsection \<open>The normal form\<close>

text \<open>An outer negation is dropped.\<close>

fun without_not :: "cond_tree \<Rightarrow> cond_tree" where
  "without_not (CNot e) = e"
| "without_not e = e"

definition is_not :: "cond_tree \<Rightarrow> bool" where
  "is_not e \<longleftrightarrow> (\<exists>f. e = CNot f)"

lemma postfix_nonempty [simp]: "postfix e \<noteq> []"
  by (induction e) auto

lemma postfix_last: "expr_type (last (postfix e)) = COND_NOT \<longleftrightarrow> is_not e"
  by (cases e) (auto simp: is_not_def)

lemma without_not_simps:
  "is_not e \<Longrightarrow> butlast (postfix e) = postfix (without_not e)" "\<not> is_not e \<Longrightarrow> without_not e = e"
  "tree_bools (without_not e) = tree_bools e" "depth (without_not e) = depth e"
  "tree_value env (without_not e) = (tree_value env e \<noteq> is_not e)"
  by (cases e; simp add: is_not_def)+

text \<open>What \<open>cond_normalize_expr\<close> makes of a block, apart from the table.\<close>

definition normal_block :: "cond_tree \<Rightarrow> cond_node \<Rightarrow> cond_node \<Rightarrow> bool" where
  "normal_block e cn cn' \<longleftrightarrow> cexpr cn' = postfix (without_not e) \<and> cur_state cn' = cur_state cn \<and>
     true_list cn' = (if is_not e then false_list cn else true_list cn) \<and>
     false_list cn' = (if is_not e then true_list cn else false_list cn)"

text \<open>The table of a block: the booleans it is over, and its bits.\<close>

definition table_of :: "cond_tree \<Rightarrow> cond_node \<Rightarrow> bool" where
  "table_of e cn \<longleftrightarrow> nbools cn = card (set (tree_bools e)) \<and> distinct (take (nbools cn) (bool_ids cn)) \<and>
     length (bool_ids cn) = COND_MAX_BOOLS \<and> set (take (nbools cn) (bool_ids cn)) = set (tree_bools e) \<and>
     (\<forall>k. bit (expr_pre_comp cn) k \<longleftrightarrow> k < 2 ^ nbools cn \<and> tree_value (test_env (take (nbools cn) (bool_ids cn)) k) e)"

lemma cond_normalize_postfix:
  assumes expr: "cexpr cn = postfix e" and valid: "valid_bools bs (set (tree_bools e))" and depth: "depth e < COND_EXPR_MAXDEPTH"
    and few: "card (set (tree_bools e)) \<le> COND_MAX_BOOLS" and size: "length bs \<le> 2 ^ 32"
  obtains cn' where "cond_normalize_expr bs cn = Ret (0, bs, cn')" and "normal_block e cn cn'" and "table_of (without_not e) cn'"
    and "find_bools (postfix (without_not e)) (replicate COND_MAX_BOOLS 0) 0 = (bool_ids cn', nbools cn')"
proof -
  let ?f = "without_not e"
  have "card (set (take 0 (replicate COND_MAX_BOOLS 0)) \<union> expr_bools (postfix ?f)) \<le> COND_MAX_BOOLS"
    using few by (simp add: without_not_simps)
  then obtain ids n where find: "find_bools (postfix ?f) (replicate COND_MAX_BOOLS 0) 0 = (ids, n)" and len: "length ids = COND_MAX_BOOLS"
    and n: "n \<le> COND_MAX_BOOLS" and dist: "distinct (take n ids)" and set0: "set (take n ids) = set (take 0 (replicate COND_MAX_BOOLS 0 :: u32 list)) \<union> expr_bools (postfix ?f)"
    by (rule find_bools_spec[where ids = "replicate COND_MAX_BOOLS 0" and n = 0, rotated 3]) simp_all
  have set: "set (take n ids) = set (tree_bools e)" using set0 by (simp add: without_not_simps)
  have card: "n = card (set (tree_bools e))" using dist len n set distinct_card by force
  have valid': "valid_bools bs (set (take n ids))" using valid set by simp
  obtain vs where vs: "get_bools (take n ids) bs = Ret vs" "length vs = length (take n ids)"
    "\<forall>j < length (take n ids). bool_state bs (take n ids ! j) = Ret (vs ! j)" using get_bools_spec[OF valid'] by blast
  have "(2 :: nat) ^ n \<le> 2 ^ 5" using n by (intro power_increasing) auto
  then have "\<forall>t \<in> set [0..<2 ^ n]. t < 32" by auto
  from precompute_spec[OF dist valid' _ _ this, of ?f 0] depth set obtain bs1 pre where
    pc: "precompute (postfix ?f) (take n ids) [0..<2 ^ n] bs 0 = Ret (0, bs1, pre)" "agree_outside (set (take n ids)) bs bs1"
      "valid_bools bs1 (set (take n ids))"
      "\<forall>k. bit pre k \<longleftrightarrow> k < 2 ^ n \<and> tree_value (test_env (take n ids) k) ?f"
    by (auto simp: without_not_simps)
  obtain bs2 where bs2: "set_bools (take n ids) vs bs1 = Ret bs2" "agree_outside (set (take n ids)) bs1 bs2"
    "\<forall>j < length (take n ids). bool_state bs2 (take n ids ! j) = Ret (vs ! j)"
    using set_bools_spec[OF vs(2) dist pc(3)] by blast
  have "bs2 = bs" using restore_bools[OF agree_outside_trans[OF pc(2) bs2(2)] valid' vs(3) bs2(3) size] .
  let ?cn = "cn\<lparr>cexpr := postfix ?f, true_list := if is_not e then false_list cn else true_list cn,
    false_list := if is_not e then true_list cn else false_list cn,
    avtrue_list := if is_not e then avfalse_list cn else avtrue_list cn,
    avfalse_list := if is_not e then avtrue_list cn else avfalse_list cn,
    nbools := n, bool_ids := ids, expr_pre_comp := pre\<rparr>"
  have "cond_normalize_expr bs cn = Ret (0, bs, ?cn)"
    using find n vs(1) pc(1) bs2(1) \<open>bs2 = bs\<close>
    by (cases "is_not e") (simp_all add: cond_normalize_expr_def expr postfix_last without_not_simps Let_def)
  moreover have "normal_block e cn ?cn" by (simp add: normal_block_def)
  moreover have "table_of ?f ?cn" using card dist len set pc(4) by (simp add: table_of_def without_not_simps)
  ultimately show thesis using that[of ?cn] find by simp
qed

section \<open>Comparing tables\<close>

lemma tree_value_cong: "(\<And>b. b \<in> set (tree_bools e) \<Longrightarrow> env b = env' b) \<Longrightarrow> tree_value env e = tree_value env' e"
  by (induction e) auto

lemma number_with_bits: "\<exists>k < 2 ^ n. \<forall>j < n. bit (k :: nat) j \<longleftrightarrow> P j"
proof (induction n arbitrary: P)
  case (Suc n)
  obtain k :: nat where k: "k < 2 ^ n" "\<forall>j < n. bit k j \<longleftrightarrow> P (Suc j)" using Suc[of "\<lambda>j. P (Suc j)"] by blast
  then show ?case
    by (intro exI[of _ "2 * k + of_bool (P 0)"]) (auto simp: All_less_Suc2 bit_0 bit_Suc of_bool_def)
qed auto

lemma test_env_complete:
  assumes "distinct ids"
  obtains k where "k < 2 ^ length ids" and "\<And>b. b \<in> set ids \<Longrightarrow> test_env ids k b = env b"
proof -
  obtain k :: nat where k: "k < 2 ^ length ids" "\<forall>j < length ids. bit k j \<longleftrightarrow> env (ids ! j)"
    using number_with_bits[of "length ids" "\<lambda>j. env (ids ! j)"] by blast
  then have "test_env ids k b = env b" if "b \<in> set ids" for b
    using that assms by (auto simp: in_set_conv_nth test_env_nth)
  then show thesis using that k(1) by blast
qed

text \<open>Over the same booleans in the same order, the comparison decides whether two expressions agree.\<close>

lemma cond_expr_equal_ordered:
  assumes a: "table_of e a" and b: "table_of f b" and n: "nbools a = nbools b" "nbools a \<le> COND_MAX_BOOLS"
    and ids: "take (nbools a) (bool_ids a) = take (nbools b) (bool_ids b)"
  shows "cond_expr_equal (Some a) (Some b) \<longleftrightarrow> (\<forall>env. tree_value env e = tree_value env f)"
proof -
  let ?ids = "take (nbools a) (bool_ids a)"
  have dist: "distinct ?ids" and se: "set ?ids = set (tree_bools e)" using a unfolding table_of_def by blast+
  have sf: "set ?ids = set (tree_bools f)" using b unfolding table_of_def ids by blast
  have len: "length ?ids = nbools a" using a n(2) by (simp add: table_of_def)
  have "same_bools a b" using n ids by (auto simp: same_bools_def list_all_iff bool_present_def)
  then have "cond_expr_equal (Some a) (Some b) \<longleftrightarrow> expr_pre_comp a = expr_pre_comp b"
    using n by (simp add: cond_expr_equal_def)
  also have "\<dots> \<longleftrightarrow> (\<forall>k < 2 ^ nbools a. tree_value (test_env ?ids k) e = tree_value (test_env ?ids k) f)"
  proof -
    have pa: "bit (expr_pre_comp a) k \<longleftrightarrow> k < 2 ^ nbools a \<and> tree_value (test_env ?ids k) e" for k
      using a unfolding table_of_def by (elim conjE) (erule allE)
    have pb: "bit (expr_pre_comp b) k \<longleftrightarrow> k < 2 ^ nbools a \<and> tree_value (test_env ?ids k) f" for k
      using b unfolding table_of_def ids unfolding n(1) by (elim conjE) (erule allE)
    have "expr_pre_comp a = expr_pre_comp b \<longleftrightarrow> (\<forall>k. bit (expr_pre_comp a) k = bit (expr_pre_comp b) k)"
      by (auto intro: bit_word_eqI)
    then show ?thesis unfolding pa pb by blast
  qed
  also have "\<dots> \<longleftrightarrow> (\<forall>env. tree_value env e = tree_value env f)"
  proof (rule iffI, rule allI)
    fix env
    assume tab: "\<forall>k < 2 ^ nbools a. tree_value (test_env ?ids k) e = tree_value (test_env ?ids k) f"
    obtain k :: nat where k: "k < 2 ^ nbools a" "\<And>b. b \<in> set ?ids \<Longrightarrow> test_env ?ids k b = env b"
      using test_env_complete[OF dist, of env] len by metis
    have "tree_value (test_env ?ids k) e = tree_value env e" "tree_value (test_env ?ids k) f = tree_value env f"
      using k(2) se sf by (auto intro!: tree_value_cong)
    then show "tree_value env e = tree_value env f" using tab k(1) by simp
  qed simp
  finally show ?thesis .
qed

subsection \<open>Other orders\<close>

text \<open>
  The table of an expression lists its booleans in the order of their first use. Renaming the booleans of an expression
  renames them in the list and leaves the bits of the table as they are, so an expression and the one with its booleans
  exchanged cannot be told apart.
\<close>

primrec rename_bools :: "(u32 \<Rightarrow> u32) \<Rightarrow> cond_tree \<Rightarrow> cond_tree" where
  "rename_bools \<sigma> (CBool b) = CBool (\<sigma> b)"
| "rename_bools \<sigma> (CNot e) = CNot (rename_bools \<sigma> e)"
| "rename_bools \<sigma> (COr e f) = COr (rename_bools \<sigma> e) (rename_bools \<sigma> f)"
| "rename_bools \<sigma> (CAnd e f) = CAnd (rename_bools \<sigma> e) (rename_bools \<sigma> f)"
| "rename_bools \<sigma> (CXor e f) = CXor (rename_bools \<sigma> e) (rename_bools \<sigma> f)"
| "rename_bools \<sigma> (CEq e f) = CEq (rename_bools \<sigma> e) (rename_bools \<sigma> f)"
| "rename_bools \<sigma> (CNeq e f) = CNeq (rename_bools \<sigma> e) (rename_bools \<sigma> f)"

lemma rename_simps [simp]:
  "tree_bools (rename_bools \<sigma> e) = map \<sigma> (tree_bools e)" "depth (rename_bools \<sigma> e) = depth e"
  "tree_value env (rename_bools \<sigma> e) = tree_value (env \<circ> \<sigma>) e"
  by (induction e) simp_all

lemma rename_without_not: "without_not (rename_bools \<sigma> e) = rename_bools \<sigma> (without_not e)" "is_not (rename_bools \<sigma> e) = is_not e"
  by (cases e; simp add: is_not_def)+

definition rename_expr :: "(u32 \<Rightarrow> u32) \<Rightarrow> cond_expr \<Rightarrow> cond_expr" where
  "rename_expr \<sigma> e = (if expr_type e = COND_BOOL then e\<lparr>expr_bool := \<sigma> (expr_bool e)\<rparr> else e)"

lemma postfix_rename: "postfix (rename_bools \<sigma> e) = map (rename_expr \<sigma>) (postfix e)"
  by (induction e) (simp_all add: rename_expr_def)

lemma find_bools_rename:
  assumes "inj_on \<sigma> (set (take n ids) \<union> expr_bools es)" and "take n jds = map \<sigma> (take n ids)"
    and "length ids = COND_MAX_BOOLS" and "length jds = COND_MAX_BOOLS"
  shows "\<exists>ids' jds' m. find_bools es ids n = (ids', m) \<and> find_bools (map (rename_expr \<sigma>) es) jds n = (jds', m) \<and>
    take m jds' = map \<sigma> (take m ids')"
  using assms
proof (induction es arbitrary: ids jds n)
  case (Cons e es)
  have ty: "expr_type (rename_expr \<sigma> e) = expr_type e" by (simp add: rename_expr_def)
  show ?case
  proof (cases "expr_type e = COND_BOOL")
    case True
    have b: "expr_bool (rename_expr \<sigma> e) = \<sigma> (expr_bool e)" using True by (simp add: rename_expr_def)
    have "\<sigma> (expr_bool e) \<in> set (take n jds) \<longleftrightarrow> expr_bool e \<in> set (take n ids)"
      using Cons.prems(1,2) True by (auto simp: inj_on_def)
    then have present: "bool_present (\<sigma> (expr_bool e)) jds n = bool_present (expr_bool e) ids n" by (simp add: bool_present_def)
    show ?thesis
    proof (cases "bool_present (expr_bool e) ids n")
      case old: True
      then show ?thesis using Cons.IH[of n ids jds] Cons.prems True ty b present by (auto simp: inj_on_Un)
    next
      case new: False
      show ?thesis
      proof (cases "n < COND_MAX_BOOLS")
        case n: True
        let ?ids = "ids[n := expr_bool e]" and ?jds = "jds[n := \<sigma> (expr_bool e)]"
        have "take (Suc n) ?ids = take n ids @ [expr_bool e]" "take (Suc n) ?jds = take n jds @ [\<sigma> (expr_bool e)]"
          using n Cons.prems(3,4) by (auto intro: take_update_last)
        then show ?thesis using Cons.IH[of "Suc n" ?ids ?jds] Cons.prems True new n ty b present by (auto simp: inj_on_def)
      next
        case n: False
        then have "take (Suc n) jds = map \<sigma> (take (Suc n) ids)" "take (Suc n) ids = take n ids" using Cons.prems(2-4) by simp_all
        then show ?thesis using Cons.IH[of "Suc n" ids jds] Cons.prems True new n ty b present by (auto simp: inj_on_Un)
      qed
    qed
  next
    case False
    then show ?thesis using Cons.IH[of n ids jds] Cons.prems ty by simp
  qed
qed auto

lemma test_env_rename:
  assumes "inj_on \<sigma> (set ids)" and "b \<in> set ids"
  shows "test_env (map \<sigma> ids) k (\<sigma> b) = test_env ids k b"
proof -
  have "map \<sigma> ids ! j = \<sigma> b \<longleftrightarrow> ids ! j = b" if "j < length ids" for j
    using that assms by (auto simp: inj_on_def)
  then show ?thesis by (auto simp: test_env_def)
qed

lemma cond_expr_equal_renamed:
  assumes a: "table_of e a" "find_bools (postfix e) (replicate COND_MAX_BOOLS 0) 0 = (bool_ids a, nbools a)"
    and b: "table_of (rename_bools \<sigma> e) b"
      "find_bools (postfix (rename_bools \<sigma> e)) (replicate COND_MAX_BOOLS 0) 0 = (bool_ids b, nbools b)"
    and inj: "inj_on \<sigma> (set (tree_bools e))" and perm: "\<sigma> ` set (tree_bools e) = set (tree_bools e)"
    and few: "card (set (tree_bools e)) \<le> COND_MAX_BOOLS"
  shows "cond_expr_equal (Some a) (Some b)"
proof -
  let ?ids = "take (nbools a) (bool_ids a)"
  have n: "nbools b = nbools a" and ids: "take (nbools a) (bool_ids b) = map \<sigma> ?ids"
    using find_bools_rename[of \<sigma> 0 "replicate COND_MAX_BOOLS 0" "postfix e" "replicate COND_MAX_BOOLS 0"] inj a(2) b(2)
    by (auto simp: postfix_rename)
  have set: "set ?ids = set (tree_bools e)" and card: "nbools a = card (set (tree_bools e))" using a(1) unfolding table_of_def by blast+
  have le: "nbools a \<le> COND_MAX_BOOLS" using card few by simp
  have bits: "bit (expr_pre_comp a) k \<longleftrightarrow> k < 2 ^ nbools a \<and> tree_value (test_env ?ids k) e"
    "bit (expr_pre_comp b) k \<longleftrightarrow> k < 2 ^ nbools a \<and> tree_value (test_env (map \<sigma> ?ids) k) (rename_bools \<sigma> e)" for k
    using a(1) b(1) unfolding table_of_def n ids by blast+
  have "same_bools a b" using perm set le n ids by (auto simp: same_bools_def list_all_iff bool_present_def)
  moreover have "expr_pre_comp a = expr_pre_comp b"
  proof (rule bit_word_eqI)
    fix k
    have "tree_value (test_env (map \<sigma> ?ids) k \<circ> \<sigma>) e = tree_value (test_env ?ids k) e"
      using test_env_rename[of \<sigma> ?ids _ k] inj set by (intro tree_value_cong) simp
    then show "bit (expr_pre_comp a) k = bit (expr_pre_comp b) k"
      unfolding bits by simp
  qed
  ultimately show ?thesis using le n by (simp add: cond_expr_equal_def)
qed

text \<open>A boolean numbered 0 passes the check of the reader, and evaluating it reads before the array.\<close>

lemma boolean_zero_reads_outside:
  assumes "length bs < 2 ^ 32"
  shows "expr_isvalid nb \<lparr>expr_type = COND_BOOL, expr_bool = 0\<rparr>" and
    "cond_evaluate_expr bs [\<lparr>expr_type = COND_BOOL, expr_bool = 0\<rparr>] = UB OutOfBounds"
  using assms by (simp_all add: expr_isvalid_def cond_evaluate_expr_def bool_state_def Let_def unsigned_minus_1_eq_mask mask_eq_exp_minus_1)

end
