(* ===== verification/Codec.thy ===== *)
theory Codec
  imports PolicyFile EbitmapAlgebra Hashtab
begin

text \<open>
  What the readers (\<^verbatim>\<open>policydb.c\<close>) and writers (\<^verbatim>\<open>write.c\<close>) of the binary policy share. A reader takes the
  bytes that are left and gives a value and the bytes after it, or \<open>None\<close> where the function returns an
  error: every caller then gives up and releases what was read. A writer gives 0 or
  \<open>POLICYDB_ERROR\<close> and the file. The flag \<open>mok\<close> tells whether allocations succeed.

  \<open>reads\<close>, \<open>emits\<close> and \<open>extends\<close> say what readers and writers do with an image, and compose along
  \<open>rbind\<close> and \<open>wseq\<close>; the interface \<open>codec\<close> is a pair of both with a common image.
\<close>

section \<open>Definitions\<close>

type_synonym 'a reader = "u8 list \<Rightarrow> ('a \<times> u8 list) option"
type_synonym writer = "pf_out \<Rightarrow> int \<times> pf_out"

subsection \<open>Sequences\<close>

definition rreturn :: "'a \<Rightarrow> 'a reader" where
  "rreturn x fp = Some (x, fp)"

definition rfail :: "'a reader" where
  "rfail fp = None"

definition rbind :: "'a reader \<Rightarrow> ('a \<Rightarrow> 'b reader) \<Rightarrow> 'b reader" where
  "rbind r f fp = (case r fp of None \<Rightarrow> None | Some (x, fp) \<Rightarrow> f x fp)"

definition rguard :: "bool \<Rightarrow> 'a reader \<Rightarrow> 'a reader" where
  "rguard b r = (if b then r else rfail)"

definition wskip :: writer where
  "wskip fp = (0, fp)"

definition wfail :: writer where
  "wfail fp = (-1, fp)"

definition wseq :: "writer \<Rightarrow> writer \<Rightarrow> writer" where
  "wseq w1 w2 fp = (case w1 fp of (rc, fp) \<Rightarrow> if rc \<noteq> 0 then (-1, fp) else w2 fp)"

text \<open>A loop that reads or writes the elements of a list.\<close>

primrec rrepeat :: "nat \<Rightarrow> 'a reader \<Rightarrow> 'a list reader" where
  "rrepeat 0 r = rreturn []"
| "rrepeat (Suc n) r = rbind r (\<lambda>x. rbind (rrepeat n r) (\<lambda>xs. rreturn (x # xs)))"

primrec wlist :: "('a \<Rightarrow> writer) \<Rightarrow> 'a list \<Rightarrow> writer" where
  "wlist w [] = wskip"
| "wlist w (x # xs) = wseq (w x) (wlist w xs)"

subsection \<open>Words and strings\<close>

text \<open>\<^verbatim>\<open>next_entry(buf, fp, sizeof(uint32_t) * n)\<close> with the words in host order.\<close>

definition read_words :: "nat \<Rightarrow> u32 list reader" where
  "read_words n fp =
     (case next_entry fp (4 * n) of (rc, buf, fp) \<Rightarrow> if rc < 0 then None else Some (le_words n buf, fp))"

definition put_words :: "u32 list \<Rightarrow> writer" where
  "put_words ws fp =
     (case put_entry (concat (map (le_bytes 4) ws)) 4 (length ws) fp of (items, fp) \<Rightarrow>
        (if items \<noteq> length ws then -1 else 0, fp))"

definition zero_or_saturated :: "u32 \<Rightarrow> bool" where
  "zero_or_saturated x \<longleftrightarrow> x = 0 \<or> x = -1"

text \<open>\<open>len\<close> bytes and a terminating NUL, as a C string.\<close>

definition read_chars :: "bool \<Rightarrow> u32 \<Rightarrow> string reader" where
  "read_chars mok len fp =
     (if \<not> mok then None
      else case next_entry fp (unat len) of (rc, buf, fp) \<Rightarrow>
        if rc < 0 then None else Some (cstr_of (map (\<lambda>b. char_of (unat b)) buf), fp))"

definition str_read :: "bool \<Rightarrow> u32 \<Rightarrow> string reader" where
  "str_read mok len = (if zero_or_saturated len then rfail else read_chars mok len)"

definition put_string :: "string \<Rightarrow> writer" where
  "put_string s fp =
     (case put_entry (map of_char s) 1 (length s) fp of (items, fp) \<Rightarrow> (if items \<noteq> length s then -1 else 0, fp))"

definition read_ebitmap :: "bool \<Rightarrow> ebitmap reader" where
  "read_ebitmap mok fp = (case ebitmap_read mok fp of (rc, e, fp) \<Rightarrow> if rc \<noteq> 0 then None else Some (e, fp))"

abbreviation strlen32 :: "string \<Rightarrow> u32" where
  "strlen32 s \<equiv> of_nat (length s)"

subsection \<open>Table entries\<close>

text \<open>The last step of the readers of symbols: \<^verbatim>\<open>if (hashtab_insert(h, key, datum)) goto bad;\<close>.\<close>

definition insert_entry :: "bool \<Rightarrow> ('k, 'd) hashtab option \<Rightarrow> 'k \<times> 'd \<Rightarrow> ('k, 'd) hashtab option reader" where
  "insert_entry mok h kd =
     (case hashtab_insert mok h (fst kd) (snd kd) of (rc, h') \<Rightarrow> if rc \<noteq> 0 then rfail else rreturn h')"

primrec read_loop :: "nat \<Rightarrow> ('h \<Rightarrow> 'h reader) \<Rightarrow> 'h \<Rightarrow> 'h reader" where
  "read_loop 0 r h = rreturn h"
| "read_loop (Suc n) r h = rbind (r h) (read_loop n r)"

subsection \<open>Images\<close>

definition words_image :: "u32 list \<Rightarrow> u8 list" where
  "words_image ws = concat (map (le_bytes 4) ws)"

definition string_image :: "string \<Rightarrow> u8 list" where
  "string_image s = map of_char s"

text \<open>The reader finds the value \<open>x\<close> in the image \<open>bs\<close>.\<close>

definition reads :: "'a reader \<Rightarrow> u8 list \<Rightarrow> 'a \<Rightarrow> bool" where
  "reads r bs x \<longleftrightarrow> (\<forall>rest. r (bs @ rest) = Some (x, rest))"

text \<open>More bytes at the end do not change what is read.\<close>

definition extends :: "'a reader \<Rightarrow> bool" where
  "extends r \<longleftrightarrow> (\<forall>fp x fp' post. r fp = Some (x, fp') \<longrightarrow> r (fp @ post) = Some (x, fp' @ post))"

text \<open>The file after \<open>bs\<close> has been put: stored, or counted in the mode that only counts.\<close>

definition after_put :: "u8 list \<Rightarrow> pf_out \<Rightarrow> pf_out" where
  "after_put bs fp =
     (case pf_type fp of
        PF_USE_MEMORY \<Rightarrow> fp\<lparr>pf_data := pf_data fp @ bs, pf_len := pf_len fp - length bs\<rparr>
      | PF_LEN \<Rightarrow> fp\<lparr>pf_len := pf_len fp + length bs\<rparr>)"

definition has_room :: "nat \<Rightarrow> pf_out \<Rightarrow> bool" where
  "has_room n fp \<longleftrightarrow> pf_type fp = PF_LEN \<or> n \<le> pf_len fp"

definition emits :: "writer \<Rightarrow> u8 list \<Rightarrow> bool" where
  "emits w bs \<longleftrightarrow> (\<forall>fp. has_room (length bs) fp \<longrightarrow> w fp = (0, after_put bs fp))"

named_theorems reads_intros \<open>what readers find in images\<close>
named_theorems extends_intros \<open>readers that more bytes do not disturb\<close>
named_theorems emits_intros \<open>what writers put\<close>

section \<open>Composition\<close>

lemma readsD: "reads r bs x \<Longrightarrow> r (bs @ rest) = Some (x, rest)"
  by (simp add: reads_def)

lemma reads_return [reads_intros]: "reads (rreturn x) [] x"
  by (simp add: reads_def rreturn_def)

lemma reads_bind [reads_intros]: "reads r bs x \<Longrightarrow> reads (f x) cs y \<Longrightarrow> reads (rbind r f) (bs @ cs) y"
  by (simp add: reads_def rbind_def)

lemma reads_bind_last: "reads r bs x \<Longrightarrow> reads (f x) [] y \<Longrightarrow> reads (rbind r f) bs y"
  using reads_bind[of r bs x f "[]" y] by simp

lemma reads_guard [reads_intros]: "b \<Longrightarrow> reads r bs x \<Longrightarrow> reads (rguard b r) bs x"
  by (simp add: rguard_def)

lemma reads_if [reads_intros]: "(b \<Longrightarrow> reads r bs x) \<Longrightarrow> (\<not> b \<Longrightarrow> reads r' bs x) \<Longrightarrow> reads (if b then r else r') bs x"
  by simp

lemma extends_return [extends_intros]: "extends (rreturn x)"
  by (simp add: extends_def rreturn_def)

lemma extends_fail [extends_intros]: "extends rfail"
  by (simp add: extends_def rfail_def)

lemma extends_bind [extends_intros]: "extends r \<Longrightarrow> (\<And>x. extends (f x)) \<Longrightarrow> extends (rbind r f)"
  by (fastforce simp: extends_def rbind_def split: option.splits)

lemma extends_guard [extends_intros]: "extends r \<Longrightarrow> extends (rguard b r)"
  by (simp add: rguard_def extends_fail)

lemma extends_if [extends_intros]: "extends r \<Longrightarrow> extends r' \<Longrightarrow> extends (if b then r else r')"
  by simp

lemma has_room_append: "has_room (length (bs @ cs)) fp \<longleftrightarrow> has_room (length bs) fp \<and> has_room (length cs) (after_put bs fp)"
  by (cases "pf_type fp") (auto simp: has_room_def after_put_def)

lemma after_put_append: "after_put (bs @ cs) fp = after_put cs (after_put bs fp)"
  by (cases "pf_type fp") (simp_all add: after_put_def add.assoc)

lemma after_put_Nil [simp]: "after_put [] fp = fp"
  by (cases "pf_type fp") (simp_all add: after_put_def)

lemma emits_skip [emits_intros]: "emits wskip []"
  by (simp add: emits_def wskip_def)

lemma emits_seq [emits_intros]: "emits w1 bs \<Longrightarrow> emits w2 cs \<Longrightarrow> emits (wseq w1 w2) (bs @ cs)"
  by (simp only: emits_def has_room_append after_put_append wseq_def) simp

lemma emits_if [emits_intros]: "(b \<Longrightarrow> emits w bs) \<Longrightarrow> (\<not> b \<Longrightarrow> emits w' bs) \<Longrightarrow> emits (if b then w else w') bs"
  by simp

lemma emits_seq_skip: "emits w bs \<Longrightarrow> emits (wseq w wskip) bs"
  using emits_seq[OF _ emits_skip] by simp

lemma emits_when [emits_intros]: "(b \<Longrightarrow> emits w bs) \<Longrightarrow> emits (if b then w else wskip) (if b then bs else [])"
  by (simp add: emits_skip)

lemma reads_when: "(b \<Longrightarrow> reads r bs x) \<Longrightarrow> (\<not> b \<Longrightarrow> x = x0) \<Longrightarrow> reads (if b then r else rreturn x0) (if b then bs else []) x"
  by (simp add: reads_return)

lemma emits_list [emits_intros]: "(\<And>x. x \<in> set xs \<Longrightarrow> emits (w x) (f x)) \<Longrightarrow> emits (wlist w xs) (concat (map f xs))"
  by (induction xs) (simp_all add: emits_skip emits_seq)

lemma reads_repeat [reads_intros]:
  "n = length xs \<Longrightarrow> (\<And>x. x \<in> set xs \<Longrightarrow> reads r (f x) x) \<Longrightarrow> reads (rrepeat n r) (concat (map f xs)) xs"
proof (induction xs arbitrary: n)
  case (Cons x xs)
  then have "reads r (f x) x" "reads (rrepeat (length xs) r) (concat (map f xs)) xs" by simp_all
  then show ?case using Cons.prems(1) by (auto intro: reads_bind reads_bind_last reads_return)
qed (simp add: reads_return)

lemma extends_repeat [extends_intros]: "extends r \<Longrightarrow> extends (rrepeat n r)"
  by (induction n) (simp_all add: extends_return extends_bind)

section \<open>Words, strings and bitmaps\<close>

lemma put_entry_emits:
  "length bs = sz * n \<Longrightarrow> has_room (length bs) fp \<Longrightarrow> put_entry bs sz n fp = (n, after_put bs fp)"
  by (cases "pf_type fp") (auto simp: put_entry_def after_put_def has_room_def)

lemma emits_words [emits_intros]: "emits (put_words ws) (words_image ws)"
  by (simp add: emits_def put_words_def put_entry_emits words_image_def)

lemma emits_string [emits_intros]: "emits (put_string s) (string_image s)"
  by (simp add: emits_def put_string_def put_entry_emits string_image_def)

lemma next_entry_more: "next_entry fp n = (rc, buf, fp') \<Longrightarrow> \<not> rc < 0 \<Longrightarrow> next_entry (fp @ post) n = (rc, buf, fp' @ post)"
  by (auto simp: next_entry_def split: if_splits)

lemma reads_words [reads_intros]: "length ws = n \<Longrightarrow> reads (read_words n) (words_image ws) ws"
  by (simp add: reads_def read_words_def words_image_def)

lemma extends_words [extends_intros]: "extends (read_words n)"
  by (auto simp: extends_def read_words_def next_entry_more split: prod.splits if_splits)

lemma char_of_u8 [simp]: "char_of (unat (of_char c :: u8)) = c"
proof -
  have "of_char c < (256 :: nat)" by simp
  then have "unat (of_nat (of_char c) :: u8) = of_char c" by (simp add: unsigned_of_nat take_bit_nat_eq_self)
  then have "unat (of_char c :: u8) = of_char c" by (simp only: of_nat_of_char)
  then show ?thesis by simp
qed

lemma reads_chars [reads_intros]: "cstr s \<Longrightarrow> unat len = length s \<Longrightarrow> reads (read_chars True len) (string_image s) s"
  by (simp add: reads_def read_chars_def string_image_def comp_def)

lemma extends_chars [extends_intros]: "extends (read_chars mok len)"
  by (auto simp: extends_def read_chars_def next_entry_more split: prod.splits if_splits)

text \<open>A name that the format can hold.\<close>

definition symbol_name :: "string \<Rightarrow> bool" where
  "symbol_name s \<longleftrightarrow> cstr s \<and> s \<noteq> [] \<and> length s < 4294967295"

lemma unat_strlen [simp]: "length s < 4294967296 \<Longrightarrow> unat (strlen32 s) = length s"
  by (simp add: unat_of_nat32)

lemma name_len: "symbol_name s \<Longrightarrow> unat (strlen32 s) = length s \<and> \<not> zero_or_saturated (strlen32 s)"
proof -
  assume ok: "symbol_name s"
  then have len: "unat (strlen32 s) = length s" by (simp add: symbol_name_def)
  moreover have "strlen32 s \<noteq> 0" using ok len by (metis length_0_conv symbol_name_def unat_0)
  moreover have "unat (-1 :: u32) = 4294967295" by (simp add: unsigned_minus_1_eq_mask mask_eq_exp_minus_1)
  moreover from this have "strlen32 s \<noteq> -1" using ok len by (metis symbol_name_def less_irrefl)
  ultimately show ?thesis by (simp add: zero_or_saturated_def)
qed

lemma reads_str [reads_intros]: "symbol_name s \<Longrightarrow> reads (str_read True (strlen32 s)) (string_image s) s"
  using name_len[of s] by (simp add: str_read_def reads_chars symbol_name_def)

lemma extends_str [extends_intros]: "extends (str_read mok len)"
  by (simp add: str_read_def extends_chars extends_fail)

lemma reads_ebitmap [reads_intros]: "ebitmap_wf e \<Longrightarrow> reads (read_ebitmap True) (ebitmap_bytes e) e"
  by (simp add: reads_def read_ebitmap_def read_bytes)

lemma read_nodes_more:
  "ebitmap_read_nodes mok n hb l fp = (0, ns, fp') \<Longrightarrow> ebitmap_read_nodes mok n hb l (fp @ post) = (0, ns, fp' @ post)"
proof (induction mok n hb l fp arbitrary: ns rule: ebitmap_read_nodes.induct)
  case (2 mok count hb l fp)
  then show ?case
    by (fastforce simp: Let_def dest: next_entry_more[where post = post] split: prod.splits if_splits)
qed (auto split: option.splits if_splits)

lemma ebitmap_read_more:
  assumes "ebitmap_read mok fp = (0, e, fp')"
  shows "ebitmap_read mok (fp @ post) = (0, e, fp' @ post)"
proof -
  obtain rc buf fp1 where h: "next_entry fp 12 = (rc, buf, fp1)" by (metis surj_pair)
  have rc: "\<not> rc < 0" using assms h by (auto simp: ebitmap_read_def)
  let ?mapsize = "le_word (take 4 buf) :: u32" and ?hb = "le_word (take 4 (drop 4 buf)) :: u32" and ?n = "le_word (drop 8 buf) :: u32"
  obtain rc2 ns fp2 where n: "ebitmap_read_nodes mok (unat ?n) ?hb None fp1 = (rc2, ns, fp2)" by (metis surj_pair)
  note h' = next_entry_more[OF h rc, of post]
  show ?thesis
  proof (cases "rc2 = 0")
    case True
    note n' = read_nodes_more[OF n[unfolded True], of post]
    from assms show ?thesis using rc by (simp add: ebitmap_read_def h h' n n' True Let_def split: if_splits)
  next
    case False
    with assms show ?thesis using rc by (simp add: ebitmap_read_def h h' n Let_def split: if_splits)
  qed
qed

lemma extends_ebitmap [extends_intros]: "extends (read_ebitmap mok)"
  by (auto simp: extends_def read_ebitmap_def ebitmap_read_more split: prod.splits if_splits)

text \<open>\<open>ebitmap_write\<close> puts the image of the map.\<close>

lemma emits_write_nodes: "emits (ebitmap_write_nodes ns) (concat (map node_bytes ns))"
proof (induction ns)
  case (Cons n ns)
  have "ebitmap_write_nodes (n # ns) fp = (0, after_put (node_bytes n @ concat (map node_bytes ns)) fp)"
    if "has_room (length (node_bytes n @ concat (map node_bytes ns))) fp" for fp
  proof -
    have "has_room (length (le_bytes 4 (startbit n))) fp" "has_room (length (le_bytes 8 (emap n))) (after_put (le_bytes 4 (startbit n)) fp)"
      "has_room (length (concat (map node_bytes ns))) (after_put (le_bytes 8 (emap n)) (after_put (le_bytes 4 (startbit n)) fp))"
      using that by (simp_all only: has_room_append node_bytes_def after_put_append)
    then show ?thesis
      using Cons by (simp add: put_entry_emits node_bytes_def[of n] after_put_append emits_def)
  qed
  then show ?case by (simp add: emits_def)
qed (simp add: emits_def)

lemma emits_ebitmap [emits_intros]: "emits (ebitmap_write e) (ebitmap_bytes e)"
proof -
  define h where "h = le_bytes 4 MAPSIZE @ le_bytes 4 (highbit e) @ le_bytes 4 (of_nat (length (enode e)) :: u32)"
  have "ebitmap_write e fp = (0, after_put (h @ concat (map node_bytes (enode e))) fp)"
    if "has_room (length (h @ concat (map node_bytes (enode e)))) fp" for fp
  proof -
    have "has_room (length h) fp" "has_room (length (concat (map node_bytes (enode e)))) (after_put h fp)"
      using that by (simp_all only: has_room_append)
    moreover have "length h = 4 * 3" by (simp add: h_def)
    ultimately show ?thesis
      using emits_write_nodes[of "enode e"] put_entry_emits[of h 4 3 fp]
      by (simp add: ebitmap_write_def Let_def emits_def after_put_append h_def)
  qed
  then show ?thesis by (simp add: emits_def ebitmap_bytes_def h_def)
qed

text \<open>The same facts as rewrite rules for readers that are applied to an image.\<close>

lemmas read_simps = rbind_def rreturn_def rfail_def readsD[OF reads_words] readsD[OF reads_chars] readsD[OF reads_str]
  readsD[OF reads_ebitmap] append_assoc option.case prod.case

section \<open>Codecs\<close>

locale codec =
  fixes item_ok :: "'a \<Rightarrow> bool" and img :: "'a \<Rightarrow> u8 list" and put_item :: "'a \<Rightarrow> writer" and get_item :: "'a reader"
  assumes write_image: "item_ok x \<Longrightarrow> emits (put_item x) (img x)"
    and read_image: "item_ok x \<Longrightarrow> reads get_item (img x) x"
    and read_extends: "extends get_item"
begin

lemma roundtrip:
  assumes "item_ok x" and "pf_type fp = PF_USE_MEMORY" and "length (img x) \<le> pf_len fp"
  shows "put_item x fp = (0, after_put (img x) fp) \<and> pf_data (after_put (img x) fp) = pf_data fp @ img x \<and>
    get_item (img x @ rest) = Some (x, rest)"
  using assms write_image read_image by (simp add: emits_def has_room_def reads_def after_put_def)

text \<open>The mode that only counts gives the length of the img.\<close>

lemma counting: "item_ok x \<Longrightarrow> pf_type fp = PF_LEN \<Longrightarrow> put_item x fp = (0, fp\<lparr>pf_len := pf_len fp + length (img x)\<rparr>)"
  using write_image by (simp add: emits_def has_room_def after_put_def)

lemma truncated:
  assumes "item_ok x" and "n < length (img x)"
  shows "get_item (take n (img x)) = None"
proof (rule ccontr)
  assume "get_item (take n (img x)) \<noteq> None"
  then obtain y left where "get_item (take n (img x)) = Some (y, left)" by auto
  then have "get_item (take n (img x) @ drop n (img x)) = Some (y, left @ drop n (img x))"
    using read_extends unfolding extends_def by blast
  moreover have "get_item (img x @ []) = Some (x, [])" using read_image[OF assms(1)] by (simp only: reads_def)
  ultimately show False using assms(2) by simp
qed

lemma image_inj: "item_ok x \<Longrightarrow> item_ok y \<Longrightarrow> img x = img y \<Longrightarrow> x = y"
  using read_image by (metis readsD option.inject prod.inject)

lemma list_reads: "\<forall>x \<in> set xs. item_ok x \<Longrightarrow> n = length xs \<Longrightarrow> reads (rrepeat n get_item) (concat (map img xs)) xs"
  using read_image by (intro reads_repeat) simp_all

lemma list_emits: "\<forall>x \<in> set xs. item_ok x \<Longrightarrow> emits (wlist put_item xs) (concat (map img xs))"
  using write_image by (intro emits_list) simp

end

section \<open>Tables\<close>

lemma extends_insert [extends_intros]: "extends (insert_entry mok h kd)"
  by (auto simp: insert_entry_def split: prod.splits intro: extends_intros)

lemma extends_loop [extends_intros]: "(\<And>h. extends (r h)) \<Longrightarrow> extends (read_loop n r h)"
  by (induction n arbitrary: h) (simp_all add: extends_return extends_bind)

lemma insert_keeps: "hashtab_insert mok (Some h) k d = (rc, Some h') \<Longrightarrow> hash_value h' = hash_value h \<and> hsize h' = hsize h"
  by (auto simp: hashtab_insert_def Let_def split: option.splits if_splits)

lemma distinct_buckets:
  assumes "\<forall>i < length bs. distinct (map fst (bs ! i))"
    and "\<forall>i < length bs. \<forall>j < length bs. i \<noteq> j \<longrightarrow> set (map fst (bs ! i)) \<inter> set (map fst (bs ! j)) = {}"
  shows "distinct (concat (map (map fst) bs))"
  using assms
proof (induction bs)
  case (Cons b bs)
  have "set (map fst b) \<inter> set (map fst c) = {}" if c: "c \<in> set bs" for c
  proof -
    obtain i where "i < length bs" "c = bs ! i" using c by (auto simp: in_set_conv_nth)
    then show ?thesis using Cons.prems(2)[rule_format, of 0 "Suc i"] by simp
  qed
  then have "set (map fst b) \<inter> set (concat (map (map fst) bs)) = {}" by auto
  moreover have "distinct (concat (map (map fst) bs))"
  proof (rule Cons.IH)
    show "\<forall>i < length bs. distinct (map fst (bs ! i))" using Cons.prems(1) by (metis Suc_less_eq length_Cons nth_Cons_Suc)
    show "\<forall>i < length bs. \<forall>j < length bs. i \<noteq> j \<longrightarrow> set (map fst (bs ! i)) \<inter> set (map fst (bs ! j)) = {}"
      using Cons.prems(2) by (metis Suc_less_eq length_Cons nat.inject nth_Cons_Suc)
  qed
  moreover have "distinct (map fst b)" using Cons.prems(1)[rule_format, of 0] by simp
  ultimately show ?case by simp
qed simp

context key_order
begin

text \<open>A chain is determined by the map it represents, and so is a table with given hash function and size.\<close>

lemma chain_unique: "chain_ok cmp ch \<Longrightarrow> chain_ok cmp ch' \<Longrightarrow> map_of ch = map_of ch' \<Longrightarrow> ch = ch'"
proof (induction ch arbitrary: ch')
  case Nil
  then show ?case by (metis map_of_eq_empty_iff)
next
  case (Cons x ch)
  obtain k d where x: "x = (k, d)" by (cases x)
  obtain k' d' ys where y: "ch' = (k', d') # ys" using Cons.prems(3) x by (cases ch') (auto dest: fun_cong[of _ _ k])
  have "k' \<in> fst ` set (x # ch)" "k \<in> fst ` set ch'"
    using Cons.prems(3) x y by (metis (no_types) dom_map_of_conv_image_fst domI map_of_Cons_code(2))+
  then have k: "k = k'" using Cons.prems(1,2) x y cmp_trans[of k k' k] by (auto dest: cmp_trans)
  have d: "d = d'" using Cons.prems(3) x y k by (metis map_of_Cons_code(2) option.inject)
  have "map_of ch k = None" "map_of ys k = None" using Cons.prems(1,2) x y k by (auto simp: map_of_eq_None_iff)
  then have "map_of ch = map_of ys" using Cons.prems(3) x y k d by (auto simp: fun_eq_iff split: if_splits) metis
  then show ?case using Cons.IH[of ys] Cons.prems(1,2) x y k d by simp
qed

lemma table_unique:
  assumes on: "hashtab_on cmp h" "hashtab_on cmp h'" and same: "hash_value h = hash_value h'" "hsize h = hsize h'"
    and abs: "hashtab_abs h = hashtab_abs h'" and nel: "nel h = nel h'"
  shows "h = h'"
proof -
  have hv: "hvalue h = hvalue h'" using same by (simp add: fun_eq_iff hvalue_def)
  have wf: "hashtab_wf h" "hashtab_wf h'" using on by (simp_all add: hashtab_on_def)
  have len: "length (htable h) = unat (hsize h)" "length (htable h') = unat (hsize h)" using wf same by (simp_all add: hashtab_wf_def)
  have "htable h ! i = htable h' ! i" if i: "i < length (htable h)" for i
  proof (rule chain_unique)
    show "chain_ok cmp (htable h ! i)" "chain_ok cmp (htable h' ! i)"
      using on i len by (auto simp: hashtab_on_def hashtab_wf_def)
    show "map_of (htable h ! i) = map_of (htable h' ! i)"
    proof
      fix k
      show "map_of (htable h ! i) k = map_of (htable h' ! i) k"
      proof (cases "hvalue h k = i")
        case True
        then show ?thesis using fun_cong[OF abs, of k] abs_bucket[OF wf(1), of k] abs_bucket[OF wf(2), of k] hv by simp
      next
        case False
        then have "map_of (htable h ! i) k = None" "map_of (htable h' ! i) k = None"
          using bucket_hash[OF wf(1), of i] bucket_hash[OF wf(2), of i] i len hv by (auto simp: map_of_eq_None_iff)
        then show ?thesis by simp
      qed
    qed
  qed
  then have "htable h = htable h'" using len by (simp add: nth_equalityI)
  then show ?thesis using assms by (simp add: hashtab_on_def)
qed

text \<open>Reading entries with new keys into a table adds them all, except those that the reader skips.\<close>

lemma loop_reads:
  assumes "hashtab_on cmp h"
    and step: "\<And>x h h'. x \<in> set xs \<Longrightarrow> \<not> skip x \<Longrightarrow> hashtab_insert True (Some h) (fst x) (snd x) = (0, Some h') \<Longrightarrow>
      reads (r (Some h)) (f x) (Some h')"
    and skipped: "\<And>x h. x \<in> set xs \<Longrightarrow> skip x \<Longrightarrow> reads (r (Some h)) (f x) (Some h)"
    and "distinct (map fst xs)" and "\<forall>x \<in> set xs. \<not> skip x \<longrightarrow> hashtab_abs h (fst x) = None"
  shows "\<exists>h'. reads (read_loop (length xs) r (Some h)) (concat (map f xs)) (Some h') \<and> hashtab_on cmp h' \<and>
    hashtab_abs h' = hashtab_abs h ++ map_of (filter (\<lambda>x. \<not> skip x) xs) \<and>
    nel h' = nel h + of_nat (length (filter (\<lambda>x. \<not> skip x) xs)) \<and> hash_value h' = hash_value h \<and> hsize h' = hsize h"
  using assms
proof (induction xs arbitrary: h)
  case (Cons x xs)
  obtain h1 where h1: "reads (r (Some h)) (f x) (Some h1)" "hashtab_on cmp h1"
    "hashtab_abs h1 = (if skip x then hashtab_abs h else (hashtab_abs h)(fst x \<mapsto> snd x))"
    "nel h1 = (if skip x then nel h else nel h + 1)" "hash_value h1 = hash_value h" "hsize h1 = hsize h"
  proof (cases "skip x")
    case True
    then show thesis using that[of h] Cons.prems(1) Cons.prems(3)[of x] by simp
  next
    case False
    then obtain h2 where h2: "hashtab_insert True (Some h) (fst x) (snd x) = (0, Some h2)" "hashtab_on cmp h2"
      "hashtab_abs h2 = (hashtab_abs h)(fst x \<mapsto> snd x)" "nel h2 = nel h + 1"
      using insert_correct[OF Cons.prems(1), of "fst x" "snd x"] Cons.prems(5) by auto
    then show thesis using that[of h2] Cons.prems(2)[of x h h2] insert_keeps[OF h2(1)] False by simp
  qed
  have "\<forall>y \<in> set xs. \<not> skip y \<longrightarrow> hashtab_abs h1 (fst y) = None"
    using Cons.prems(4,5) h1(3) by (auto simp: image_iff)
  then obtain h' where h': "reads (read_loop (length xs) r (Some h1)) (concat (map f xs)) (Some h')"
    "hashtab_on cmp h'" "hashtab_abs h' = hashtab_abs h1 ++ map_of (filter (\<lambda>x. \<not> skip x) xs)"
    "nel h' = nel h1 + of_nat (length (filter (\<lambda>x. \<not> skip x) xs))" "hash_value h' = hash_value h1" "hsize h' = hsize h1"
    using Cons.IH[OF h1(2)] Cons.prems(2-4) by auto
  have "reads (read_loop (length (x # xs)) r (Some h)) (concat (map f (x # xs))) (Some h')"
    using h'(1) h1(1) by (simp add: reads_bind)
  moreover have "map_of (filter (\<lambda>x. \<not> skip x) xs) (fst x) = None"
    using Cons.prems(4) by (force simp: map_of_eq_None_iff)
  then have "hashtab_abs h' = hashtab_abs h ++ map_of (filter (\<lambda>x. \<not> skip x) (x # xs))"
    using h'(3) h1(3) by (cases "skip x") (auto simp: fun_eq_iff map_add_def split: option.splits)
  moreover have "nel h' = nel h + of_nat (length (filter (\<lambda>x. \<not> skip x) (x # xs)))" "hash_value h' = hash_value h" "hsize h' = hsize h"
    using h' h1 by simp_all
  ultimately show ?case using h'(2) by blast
next
  case Nil
  then show ?case by (intro exI[of _ h]) (simp add: reads_return)
qed

lemma nodes_distinct:
  assumes "hashtab_on cmp h"
  shows "distinct (map fst (hashtab_nodes h))"
proof -
  have wf: "hashtab_wf h" "keycmp h = cmp" using assms by (simp_all add: hashtab_on_def)
  have chain: "distinct (map fst (htable h ! i))" if "i < length (htable h)" for i
    using that wf by (intro chain_keys_distinct) (auto simp: hashtab_wf_def)
  have apart: "set (map fst (htable h ! i)) \<inter> set (map fst (htable h ! j)) = {}"
    if "i < length (htable h)" "j < length (htable h)" "i \<noteq> j" for i j
    using that by (auto simp: image_iff) (metis bucket_hash[OF wf(1)] fst_conv)
  have "distinct (concat (map (map fst) (htable h)))" using chain apart by (intro distinct_buckets) simp_all
  then show ?thesis by (simp add: hashtab_nodes_def map_concat)
qed

end

text \<open>A symbol table of a given size, as the format can hold it: reading its entries into a new table gives it back.\<close>

definition table_form :: "u32 \<Rightarrow> (string, 'd) hashtab \<Rightarrow> bool" where
  "table_form sz h \<longleftrightarrow> hashtab_on symcmp h \<and> hash_value h = symhash \<and> hsize h = sz \<and> hashtab_counted h \<and>
     length (hashtab_nodes h) < 4294967296"

lemma table_form_nel: "table_form sz h \<Longrightarrow> unat (nel h) = length (hashtab_nodes h)"
  by (simp add: table_form_def hashtab_counted_def unat_of_nat32)

lemma table_reads:
  fixes h :: "(string, 'd) hashtab"
  assumes "table_form sz h" and "0 < sz" and "\<forall>x \<in> set (hashtab_nodes h). reads r (f x) x"
    and init: "symtab_init True s sz = (0, s')" and n: "n = unat (nel h)"
  shows "reads (read_loop n (\<lambda>h. rbind r (insert_entry True h)) (table s')) (concat (map f (hashtab_nodes h))) (Some h)"
proof -
  let ?h0 = "\<lparr>htable = replicate (unat sz) [], hsize = sz, nel = 0, hash_value = symhash, keycmp = symcmp\<rparr> :: (string, 'd) hashtab"
  have s': "table s' = Some ?h0" using init by (auto simp: symtab_init_def hashtab_create_def)
  have on0: "hashtab_on symcmp ?h0" "hashtab_abs ?h0 = Map.empty"
    using create_correct[of sz symhash symcmp, OF assms(2)] symhash_less[OF assms(2)] by (auto simp: hashtab_create_def)
  have on: "hashtab_on symcmp h" using assms(1) by (simp add: table_form_def)
  have "reads (rbind r (insert_entry True (Some g))) (f x) (Some g')"
    if "x \<in> set (hashtab_nodes h)" "hashtab_insert True (Some g) (fst x) (snd x) = (0, Some g')" for x g g'
    using that assms(3) by (intro reads_bind_last[where x = x]) (simp_all add: insert_entry_def reads_return)
  then obtain h' where h': "reads (read_loop (length (hashtab_nodes h)) (\<lambda>h. rbind r (insert_entry True h)) (Some ?h0))
      (concat (map f (hashtab_nodes h))) (Some h')" "hashtab_on symcmp h'" "hashtab_abs h' = map_of (hashtab_nodes h)"
    "nel h' = of_nat (length (hashtab_nodes h))" "hash_value h' = symhash" "hsize h' = sz"
    using sym.loop_reads[where skip = "\<lambda>_. False" and f = f and r = "\<lambda>h. rbind r (insert_entry True h)", OF on0(1) _ _ sym.nodes_distinct[OF on]] on0(2)
    by auto
  have "h' = h"
    using assms(1) h' by (intro sym.table_unique) (simp_all add: table_form_def hashtab_abs_def hashtab_counted_def)
  then show ?thesis using h'(1) table_form_nel[OF assms(1)] s' n by simp
qed

lemma emits_table [emits_intros]:
  assumes "\<And>k d. (k, d) \<in> set (hashtab_nodes h) \<Longrightarrow> emits (w k d) (f (k, d))"
  shows "emits (hashtab_map w (Some h)) (concat (map f (hashtab_nodes h)))"
proof -
  have "emits (map_nodes w xs) (concat (map f xs))" if "\<And>k d. (k, d) \<in> set xs \<Longrightarrow> emits (w k d) (f (k, d))" for xs
    using that
  proof (induction xs)
    case (Cons x xs)
    obtain k d where x: "x = (k, d)" by (cases x)
    have "emits (w k d) (f (k, d))" "emits (map_nodes w xs) (concat (map f xs))" using Cons x by auto
    then show ?case by (simp only: emits_def has_room_append after_put_append x list.map concat.simps map_nodes.simps) simp
  qed (simp add: emits_def)
  with assms show ?thesis by (simp add: hashtab_map_def emits_def)
qed

section \<open>Rebuilding a table\<close>

text \<open>
  A table whose chains ascend, for any comparison of keys: inserting its nodes in the order of \<open>hashtab_map\<close> into an
  empty table of the same size appends each to its chain, so the same table is built again.
\<close>

definition chains_ascend :: "('k, 'd) hashtab \<Rightarrow> bool" where
  "chains_ascend h \<longleftrightarrow> length (htable h) = unat (hsize h) \<and> nel h = of_nat (length (hashtab_nodes h)) \<and>
     (\<forall>i < length (htable h). sorted_wrt (\<lambda>x y. keycmp h (fst y) (fst x) > 0) (htable h ! i) \<and> (\<forall>x \<in> set (htable h ! i). hvalue h (fst x) = i))"

definition emptied :: "('k, 'd) hashtab \<Rightarrow> ('k, 'd) hashtab" where
  "emptied h = h\<lparr>htable := replicate (unat (hsize h)) [], nel := 0\<rparr>"

lemma append_to_chain: "(\<forall>y \<in> set ch. cmp k (fst y) > 0) \<Longrightarrow> chain_insert cmp k d ch = Some (ch @ [(k, d)])"
  by (induction cmp k d ch rule: chain_insert.induct) auto

definition filled :: "('k, 'd) hashtab \<Rightarrow> ('k \<times> 'd) list \<Rightarrow> ('k, 'd) hashtab" where
  "filled h xs = h\<lparr>htable := map (\<lambda>i. filter (\<lambda>x. hvalue h (fst x) = i) xs) [0..<unat (hsize h)], nel := of_nat (length xs)\<rparr>"

lemma filled_insert:
  assumes "hvalue h (fst x) < unat (hsize h)" and "\<forall>y \<in> set xs. hvalue h (fst y) = hvalue h (fst x) \<longrightarrow> keycmp h (fst x) (fst y) > 0"
  shows "hashtab_insert True (Some (filled h xs)) (fst x) (snd x) = (0, Some (filled h (xs @ [x])))"
proof -
  have hv: "hvalue (filled h xs) = hvalue h" by (simp add: filled_def hvalue_def fun_eq_iff)
  have "chain_insert (keycmp h) (fst x) (snd x) (filter (\<lambda>y. hvalue h (fst y) = hvalue h (fst x)) xs) =
      Some (filter (\<lambda>y. hvalue h (fst y) = hvalue h (fst x)) xs @ [(fst x, snd x)])"
    using assms(2) by (intro append_to_chain) simp
  then show ?thesis
    using assms(1) by (auto simp: hashtab_insert_def hv Let_def filled_def list_eq_iff_nth_eq nth_list_update)
qed

lemma other_buckets: "b \<in> set (take i bs) \<or> b \<in> set (drop (Suc i) bs) \<Longrightarrow> \<exists>j < length bs. j \<noteq> i \<and> b = bs ! j"
proof (elim disjE)
  assume "b \<in> set (take i bs)"
  then obtain j where "j < length bs" "j < i" "b = bs ! j" by (auto simp: in_set_conv_nth)
  then show ?thesis by blast
next
  assume "b \<in> set (drop (Suc i) bs)"
  then obtain j where "j < length bs - Suc i" "b = bs ! (Suc i + j)" by (auto simp: in_set_conv_nth)
  then show ?thesis by (intro exI[of _ "Suc i + j"]) simp
qed

lemma filled_nodes:
  assumes "chains_ascend h"
  shows "filled h (hashtab_nodes h) = h"
proof -
  let ?T = "htable h"
  have home: "hvalue h (fst x) = j" if "j < length ?T" "x \<in> set (?T ! j)" for j x
    using assms that by (simp add: chains_ascend_def)
  have "filter (\<lambda>x. hvalue h (fst x) = i) (concat ?T) = ?T ! i" if i: "i < length ?T" for i
  proof -
    have "concat ?T = concat (take i ?T) @ ?T ! i @ concat (drop (Suc i) ?T)"
      by (subst id_take_nth_drop[OF i]) simp
    moreover have "hvalue h (fst x) \<noteq> i" if "x \<in> set b" "b \<in> set (take i ?T) \<or> b \<in> set (drop (Suc i) ?T)" for x b
      using other_buckets[OF that(2)] home that(1) by metis
    then have "filter (\<lambda>x. hvalue h (fst x) = i) (concat (take i ?T)) = []" "filter (\<lambda>x. hvalue h (fst x) = i) (concat (drop (Suc i) ?T)) = []"
      unfolding filter_empty_conv by auto
    moreover have "filter (\<lambda>x. hvalue h (fst x) = i) (?T ! i) = ?T ! i"
      using home[OF i] by (simp add: filter_id_conv)
    ultimately show ?thesis by simp
  qed
  then have "map (\<lambda>i. filter (\<lambda>x. hvalue h (fst x) = i) (hashtab_nodes h)) [0..<unat (hsize h)] = ?T"
    using assms by (intro nth_equalityI) (simp_all add: chains_ascend_def hashtab_nodes_def)
  then show ?thesis using assms by (simp add: filled_def chains_ascend_def)
qed

text \<open>In the order of the nodes, a key comes after the keys of its chain.\<close>

lemma nodes_ascend:
  assumes "chains_ascend h"
  shows "sorted_wrt (\<lambda>x y. hvalue h (fst x) = hvalue h (fst y) \<longrightarrow> keycmp h (fst y) (fst x) > 0) (hashtab_nodes h)"
    and "x \<in> set (hashtab_nodes h) \<Longrightarrow> hvalue h (fst x) < unat (hsize h)"
proof -
  have home: "\<forall>i < length (htable h). sorted_wrt (\<lambda>x y. keycmp h (fst y) (fst x) > 0) (htable h ! i) \<and> (\<forall>x \<in> set (htable h ! i). hvalue h (fst x) = i)"
    and len: "length (htable h) = unat (hsize h)"
    using assms by (simp_all add: chains_ascend_def)
  have "sorted_wrt (\<lambda>x y. hvalue h (fst x) = hvalue h (fst y) \<longrightarrow> keycmp h (fst y) (fst x) > 0) (concat bs)"
    if "\<forall>i < length bs. sorted_wrt (\<lambda>x y. keycmp h (fst y) (fst x) > 0) (bs ! i) \<and> (\<forall>x \<in> set (bs ! i). hvalue h (fst x) = n + i)" for bs n
    using that
  proof (induction bs arbitrary: n)
    case (Cons b bs)
    have b: "sorted_wrt (\<lambda>x y. keycmp h (fst y) (fst x) > 0) b" "\<forall>x \<in> set b. hvalue h (fst x) = n" using Cons.prems[rule_format, of 0] by auto
    have rest: "sorted_wrt (\<lambda>x y. keycmp h (fst y) (fst x) > 0) (bs ! i) \<and> (\<forall>x \<in> set (bs ! i). hvalue h (fst x) = Suc n + i)" if "i < length bs" for i
      using Cons.prems[rule_format, of "Suc i"] that by simp
    have "hvalue h (fst y) \<noteq> n" if y: "y \<in> set (concat bs)" for y
    proof -
      obtain b' where "y \<in> set b'" "b' \<in> set bs" using y unfolding set_concat by blast
      then show ?thesis using rest by (metis in_set_conv_nth add_Suc less_add_Suc1 less_irrefl)
    qed
    then show ?case using b Cons.IH[of "Suc n"] rest by (auto simp: sorted_wrt_append intro: sorted_wrt_mono_rel[OF _ b(1)])
  qed simp
  from this[of "htable h" 0] home show "sorted_wrt (\<lambda>x y. hvalue h (fst x) = hvalue h (fst y) \<longrightarrow> keycmp h (fst y) (fst x) > 0) (hashtab_nodes h)"
    by (simp add: hashtab_nodes_def)
  show "hvalue h (fst x) < unat (hsize h)" if x: "x \<in> set (hashtab_nodes h)"
  proof -
    obtain b where "x \<in> set b" "b \<in> set (htable h)" using x unfolding hashtab_nodes_def set_concat by blast
    then show ?thesis using home len by (metis in_set_conv_nth)
  qed
qed

lemma table_rebuilt:
  assumes h: "chains_ascend h"
    and step: "\<And>x g g'. x \<in> set (hashtab_nodes h) \<Longrightarrow> hashtab_insert True (Some g) (fst x) (snd x) = (0, Some g') \<Longrightarrow> reads (r (Some g)) (f x) (Some g')"
    and n: "n = length (hashtab_nodes h)"
  shows "reads (read_loop n r (Some (emptied h))) (concat (map f (hashtab_nodes h))) (Some h)"
proof -
  have "reads (read_loop (length ys) r (Some (filled h xs))) (concat (map f ys)) (Some (filled h (xs @ ys)))" if "hashtab_nodes h = xs @ ys" for xs ys
    using that
  proof (induction ys arbitrary: xs)
    case (Cons y ys)
    have "\<forall>x \<in> set xs. hvalue h (fst x) = hvalue h (fst y) \<longrightarrow> keycmp h (fst y) (fst x) > 0"
      using nodes_ascend(1)[OF h] Cons.prems by (simp add: sorted_wrt_append)
    moreover have "hvalue h (fst y) < unat (hsize h)" using nodes_ascend(2)[OF h, of y] Cons.prems by simp
    ultimately have "hashtab_insert True (Some (filled h xs)) (fst y) (snd y) = (0, Some (filled h (xs @ [y])))" by (intro filled_insert)
    then have "reads (r (Some (filled h xs))) (f y) (Some (filled h (xs @ [y])))" using step[of y] Cons.prems by simp
    moreover have "reads (read_loop (length ys) r (Some (filled h (xs @ [y])))) (concat (map f ys)) (Some (filled h (xs @ y # ys)))"
      using Cons.IH[of "xs @ [y]"] Cons.prems by simp
    ultimately show ?case by (simp add: reads_bind)
  qed (simp add: reads_return)
  from this[of "[]" "hashtab_nodes h"] have "reads (read_loop n r (Some (filled h []))) (concat (map f (hashtab_nodes h))) (Some h)"
    using n filled_nodes[OF h] by simp
  moreover have "filled h [] = emptied h" by (simp add: filled_def emptied_def map_replicate_const)
  ultimately show ?thesis by simp
qed

end
