(* ===== verification/SymbolFile.thy ===== *)
theory SymbolFile
  imports Codec Decisions
begin

text \<open>
  The symbols of a kernel policy in the binary format: readers of \<^verbatim>\<open>libsepol/src/policydb.c\<close> and
  \<^verbatim>\<open>conditional.c\<close> and writers of \<^verbatim>\<open>libsepol/src/write.c\<close> for permissions, commons, classes with their constraints,
  roles, types, users, booleans, levels and categories. Only kernel policies (\<open>POLICY_KERN\<close>) are
  considered, in every version \<open>vers\<close>; the branches for modules are left out. The readers of entries
  parse one symbol; the reader for the table then inserts it.
\<close>

section \<open>Definitions\<close>

abbreviation (input) PERM_SYMTAB_SIZE :: u32 where "PERM_SYMTAB_SIZE \<equiv> 32"
abbreviation (input) POLICYDB_VERSION_VALIDATETRANS :: u32 where "POLICYDB_VERSION_VALIDATETRANS \<equiv> 19"
abbreviation (input) POLICYDB_VERSION_MLS :: u32 where "POLICYDB_VERSION_MLS \<equiv> 19"
abbreviation (input) POLICYDB_VERSION_BOUNDARY :: u32 where "POLICYDB_VERSION_BOUNDARY \<equiv> 24"
abbreviation (input) POLICYDB_VERSION_NEW_OBJECT_DEFAULTS :: u32 where "POLICYDB_VERSION_NEW_OBJECT_DEFAULTS \<equiv> 27"
abbreviation (input) POLICYDB_VERSION_DEFAULT_TYPE :: u32 where "POLICYDB_VERSION_DEFAULT_TYPE \<equiv> 28"
abbreviation (input) POLICYDB_VERSION_CONSTRAINT_NAMES :: u32 where "POLICYDB_VERSION_CONSTRAINT_NAMES \<equiv> 29"
abbreviation (input) TYPEDATUM_PROPERTY_PRIMARY :: u32 where "TYPEDATUM_PROPERTY_PRIMARY \<equiv> 1"
abbreviation (input) TYPEDATUM_PROPERTY_ATTRIBUTE :: u32 where "TYPEDATUM_PROPERTY_ATTRIBUTE \<equiv> 2"
abbreviation (input) ROLE_ATTRIB :: u32 where "ROLE_ATTRIB \<equiv> 1"
abbreviation (input) OBJECT_R_VAL :: u32 where "OBJECT_R_VAL \<equiv> 1"

definition OBJECT_R :: string where "OBJECT_R = ''object_r''"

definition policydb_has_boundary_feature :: "u32 \<Rightarrow> bool" where
  "policydb_has_boundary_feature vers \<longleftrightarrow> vers \<ge> POLICYDB_VERSION_BOUNDARY"

text \<open>What kernel policies have of users, and the remaining kinds of symbols.\<close>

record user_datum =
  u_value :: u32
  u_roles :: ebitmap
  u_exp_range :: mls_range
  u_exp_dfltlevel :: mls_level
  u_bounds :: u32

record cond_bool_datum =
  b_value :: u32
  b_state :: u32

record level_datum =
  ld_level :: mls_level
  ld_isalias :: u8

record cat_datum =
  cd_value :: u32
  cd_isalias :: u8

definition type_set_init :: type_set where
  "type_set_init = \<lparr>ts_types = ebitmap_init, ts_negset = ebitmap_init, ts_flags = 0\<rparr>"

subsection \<open>Type sets, levels and ranges\<close>

definition type_set_read :: "bool \<Rightarrow> type_set reader" where
  "type_set_read mok =
     rbind (read_ebitmap mok) (\<lambda>ts. rbind (read_ebitmap mok) (\<lambda>ns. rbind (read_words 1) (\<lambda>buf.
       rreturn \<lparr>ts_types = ts, ts_negset = ns, ts_flags = buf ! 0\<rparr>)))"

definition type_set_write :: "type_set \<Rightarrow> writer" where
  "type_set_write x = wseq (ebitmap_write (ts_types x)) (wseq (ebitmap_write (ts_negset x)) (put_words [ts_flags x]))"

definition mls_read_level :: "bool \<Rightarrow> mls_level reader" where
  "mls_read_level mok =
     rbind (read_words 1) (\<lambda>buf. rbind (read_ebitmap mok) (\<lambda>c. rreturn \<lparr>sens = buf ! 0, cat = c\<rparr>))"

definition mls_write_level :: "mls_level \<Rightarrow> writer" where
  "mls_write_level l = wseq (put_words [sens l]) (ebitmap_write (cat l))"

text \<open>
  The number of items, at most two, is read into the first place of the buffer: for no items that 0 is
  taken for the sensitivity. With fewer than two items the high level is a copy of the low one.
\<close>

definition mls_read_range_helper :: "bool \<Rightarrow> mls_range reader" where
  "mls_read_range_helper mok =
     rbind (read_words 1) (\<lambda>buf. let items = buf ! 0 in
       if items > 2 then rfail
       else rbind (read_words (unat items)) (\<lambda>sens_buf. let s0 = (if items = 0 then items else sens_buf ! 0) in
         rbind (read_ebitmap mok) (\<lambda>c0.
           if items > 1 then
             rbind (read_ebitmap mok) (\<lambda>c1.
               rreturn \<lparr>level0 = \<lparr>sens = s0, cat = c0\<rparr>, level1 = \<lparr>sens = sens_buf ! 1, cat = c1\<rparr>\<rparr>)
           else (case ebitmap_cpy mok c0 of (rc, c1) \<Rightarrow>
             if rc \<noteq> 0 then rfail
             else rreturn \<lparr>level0 = \<lparr>sens = s0, cat = c0\<rparr>, level1 = \<lparr>sens = s0, cat = c1\<rparr>\<rparr>))))"

definition mls_write_range_helper :: "mls_range \<Rightarrow> writer" where
  "mls_write_range_helper r =
     (let eq = mls_level_eq (level1 r) (level0 r) in
      wseq (put_words (if eq then [1, sens (level0 r)] else [2, sens (level0 r), sens (level1 r)]))
        (wseq (ebitmap_write (cat (level0 r))) (if eq then wskip else ebitmap_write (cat (level1 r)))))"

subsection \<open>Permissions and commons\<close>

definition perm_entry :: "bool \<Rightarrow> (string \<times> perm_datum) reader" where
  "perm_entry mok =
     rbind (read_words 2) (\<lambda>buf. rbind (str_read mok (buf ! 0)) (\<lambda>key. rreturn (key, \<lparr>pm_value = buf ! 1\<rparr>)))"

definition perm_read :: "bool \<Rightarrow> (string, perm_datum) hashtab option \<Rightarrow> (string, perm_datum) hashtab option reader" where
  "perm_read mok h = rbind (perm_entry mok) (insert_entry mok h)"

definition perm_write :: "string \<Rightarrow> perm_datum \<Rightarrow> writer" where
  "perm_write key d = wseq (put_words [strlen32 key, pm_value d]) (put_string key)"

definition common_entry :: "bool \<Rightarrow> (string \<times> common_datum) reader" where
  "common_entry mok =
     rbind (read_words 4) (\<lambda>buf.
       if zero_or_saturated (buf ! 0) then rfail
       else case symtab_init mok \<lparr>table = None, nprim = 0\<rparr> PERM_SYMTAB_SIZE of (rc, st) \<Rightarrow>
         if rc \<noteq> 0 then rfail
         else rbind (read_chars mok (buf ! 0)) (\<lambda>key.
           rbind (read_loop (unat (buf ! 3)) (perm_read mok) (table st)) (\<lambda>tab.
             rreturn (key, \<lparr>com_value = buf ! 1, com_permissions = \<lparr>table = tab, nprim = buf ! 2\<rparr>\<rparr>))))"

definition common_read :: "bool \<Rightarrow> (string, common_datum) hashtab option \<Rightarrow> (string, common_datum) hashtab option reader" where
  "common_read mok h = rbind (common_entry mok) (insert_entry mok h)"

definition table_nel :: "('k, 'd) hashtab option \<Rightarrow> u32" where
  "table_nel t = (case t of None \<Rightarrow> 0 | Some h \<Rightarrow> nel h)"

text \<open>A common always has a table of permissions.\<close>

definition common_write :: "string \<Rightarrow> common_datum \<Rightarrow> writer" where
  "common_write key d =
     wseq (put_words [strlen32 key, com_value d, nprim (com_permissions d), table_nel (table (com_permissions d))])
       (wseq (put_string key) (hashtab_map perm_write (table (com_permissions d))))"

subsection \<open>Constraints\<close>

text \<open>The checks on an expression; \<open>depth\<close> is the place of the top of the stack, -1 for the empty one.\<close>

definition cons_depth :: "bool \<Rightarrow> u32 \<Rightarrow> u32 \<Rightarrow> int \<Rightarrow> int option" where
  "cons_depth allowxtarget ty attr depth =
     (if ty = CEXPR_NOT then (if depth < 0 then None else Some depth)
      else if ty = CEXPR_AND \<or> ty = CEXPR_OR then (if depth < 1 then None else Some (depth - 1))
      else if ty = CEXPR_ATTR then (if depth = int CEXPR_MAXDEPTH - 1 then None else Some (depth + 1))
      else if ty = CEXPR_NAMES then
        (if \<not> allowxtarget \<and> attr AND CEXPR_XTARGET \<noteq> 0 then None
         else if depth = int CEXPR_MAXDEPTH - 1 then None else Some (depth + 1))
      else None)"

definition read_cons_names :: "bool \<Rightarrow> u32 \<Rightarrow> u32 \<Rightarrow> (ebitmap \<times> type_set) reader" where
  "read_cons_names mok vers ty =
     (if ty = CEXPR_NAMES then
        rbind (read_ebitmap mok) (\<lambda>names.
          rbind (if vers \<ge> POLICYDB_VERSION_CONSTRAINT_NAMES then type_set_read mok else rreturn type_set_init) (\<lambda>ts.
            rreturn (names, ts)))
      else rreturn (ebitmap_init, type_set_init))"

primrec read_cons_exprs :: "bool \<Rightarrow> u32 \<Rightarrow> bool \<Rightarrow> nat \<Rightarrow> int \<Rightarrow> (constraint_expr list \<times> int) reader" where
  "read_cons_exprs mok vers allowxtarget 0 depth = rreturn ([], depth)"
| "read_cons_exprs mok vers allowxtarget (Suc n) depth =
     (if \<not> mok then rfail
      else rbind (read_words 3) (\<lambda>buf.
        case cons_depth allowxtarget (buf ! 0) (buf ! 1) depth of None \<Rightarrow> rfail
        | Some depth \<Rightarrow>
            rbind (read_cons_names mok vers (buf ! 0)) (\<lambda>nt.
            rbind (read_cons_exprs mok vers allowxtarget n depth) (\<lambda>ed.
              rreturn (\<lparr>ce_expr_type = buf ! 0, ce_attr = buf ! 1, ce_op = buf ! 2, ce_names = fst nt, ce_type_names = Some (snd nt)\<rparr>
                         # fst ed, snd ed)))))"

definition read_cons_node :: "bool \<Rightarrow> u32 \<Rightarrow> bool \<Rightarrow> constraint_node reader" where
  "read_cons_node mok vers allowxtarget =
     (if \<not> mok then rfail
      else rbind (read_words 2) (\<lambda>buf.
        rbind (read_cons_exprs mok vers allowxtarget (unat (buf ! 1)) (-1)) (\<lambda>ed.
          if snd ed \<noteq> 0 then rfail else rreturn \<lparr>cn_permissions = buf ! 0, cn_expr = fst ed\<rparr>)))"

definition read_cons_helper :: "bool \<Rightarrow> u32 \<Rightarrow> nat \<Rightarrow> bool \<Rightarrow> constraint_node list reader" where
  "read_cons_helper mok vers ncons allowxtarget = rrepeat ncons (read_cons_node mok vers allowxtarget)"

text \<open>\<open>type_names\<close> is never NULL here: \<open>constraint_expr_init\<close> allocates it.\<close>

definition write_cons_expr :: "u32 \<Rightarrow> bool \<Rightarrow> constraint_expr \<Rightarrow> writer" where
  "write_cons_expr vers allowxtarget e =
     wseq (put_words [ce_expr_type e, ce_attr e, ce_op e])
       (if ce_expr_type e = CEXPR_NAMES then
          if \<not> allowxtarget \<and> ce_attr e AND CEXPR_XTARGET \<noteq> 0 then wfail
          else wseq (ebitmap_write (ce_names e))
            (if vers \<ge> POLICYDB_VERSION_CONSTRAINT_NAMES
             then (case ce_type_names e of None \<Rightarrow> wfail | Some ts \<Rightarrow> type_set_write ts) else wskip)
        else wskip)"

definition write_cons_node :: "u32 \<Rightarrow> bool \<Rightarrow> constraint_node \<Rightarrow> writer" where
  "write_cons_node vers allowxtarget c =
     wseq (put_words [cn_permissions c, of_nat (length (cn_expr c))]) (wlist (write_cons_expr vers allowxtarget) (cn_expr c))"

definition write_cons_helper :: "u32 \<Rightarrow> constraint_node list \<Rightarrow> bool \<Rightarrow> writer" where
  "write_cons_helper vers node allowxtarget = wlist (write_cons_node vers allowxtarget) node"

subsection \<open>Classes\<close>

text \<open>The common a class inherits from, by its name.\<close>

definition read_comkey :: "bool \<Rightarrow> (string, common_datum) hashtab option \<Rightarrow> u32 \<Rightarrow> (string option \<times> common_datum option) reader" where
  "read_comkey mok commons len2 =
     (if len2 = 0 then rreturn (None, None)
      else rbind (read_chars mok len2) (\<lambda>comkey.
        case hashtab_search commons comkey of None \<Rightarrow> rfail | Some com \<Rightarrow> rreturn (Some comkey, Some com)))"

definition read_validatetrans :: "bool \<Rightarrow> u32 \<Rightarrow> constraint_node list reader" where
  "read_validatetrans mok vers =
     (if vers \<ge> POLICYDB_VERSION_VALIDATETRANS
      then rbind (read_words 1) (\<lambda>b. read_cons_helper mok vers (unat (b ! 0)) True) else rreturn [])"

text \<open>The defaults for new objects: user, role and range, then the type.\<close>

definition read_defaults :: "u32 \<Rightarrow> (u32 list \<times> u32 list) reader" where
  "read_defaults vers =
     rbind (if vers \<ge> POLICYDB_VERSION_NEW_OBJECT_DEFAULTS then read_words 3 else rreturn [0, 0, 0]) (\<lambda>df.
     rbind (if vers \<ge> POLICYDB_VERSION_DEFAULT_TYPE then read_words 1 else rreturn [0]) (\<lambda>dt. rreturn (df, dt)))"

definition class_entry :: "bool \<Rightarrow> u32 \<Rightarrow> (string, common_datum) hashtab option \<Rightarrow> (string \<times> class_datum) reader" where
  "class_entry mok vers commons =
     rbind (read_words 6) (\<lambda>buf.
       if zero_or_saturated (buf ! 0) \<or> buf ! 1 = -1 then rfail
       else case symtab_init mok \<lparr>table = None, nprim = 0\<rparr> PERM_SYMTAB_SIZE of (rc, st) \<Rightarrow>
         if rc \<noteq> 0 then rfail
         else rbind (read_chars mok (buf ! 0)) (\<lambda>key.
           rbind (read_comkey mok commons (buf ! 1)) (\<lambda>com.
           rbind (read_loop (unat (buf ! 4)) (perm_read mok) (table st)) (\<lambda>tab.
           rbind (read_cons_helper mok vers (unat (buf ! 5)) False) (\<lambda>cons.
           rbind (read_validatetrans mok vers) (\<lambda>vt.
           rbind (read_defaults vers) (\<lambda>df.
             rreturn (key, \<lparr>cl_value = buf ! 2, cl_comkey = fst com, cl_comdatum = snd com,
               cl_permissions = \<lparr>table = tab, nprim = buf ! 3\<rparr>, cl_constraints = cons, cl_validatetrans = vt,
               cl_default_user = fst df ! 0, cl_default_role = fst df ! 1, cl_default_type = snd df ! 0,
               cl_default_range = fst df ! 2\<rparr>))))))))"

definition class_read ::
  "bool \<Rightarrow> u32 \<Rightarrow> (string, common_datum) hashtab option \<Rightarrow> (string, class_datum) hashtab option \<Rightarrow> (string, class_datum) hashtab option reader" where
  "class_read mok vers commons h = rbind (class_entry mok vers commons) (insert_entry mok h)"

definition class_write :: "u32 \<Rightarrow> string \<Rightarrow> class_datum \<Rightarrow> writer" where
  "class_write vers key d =
     wseq (put_words [strlen32 key, (case cl_comkey d of None \<Rightarrow> 0 | Some ck \<Rightarrow> strlen32 ck), cl_value d,
             nprim (cl_permissions d), table_nel (table (cl_permissions d)), of_nat (length (cl_constraints d))])
    (wseq (put_string key)
    (wseq (case cl_comkey d of None \<Rightarrow> wskip | Some ck \<Rightarrow> put_string ck)
    (wseq (hashtab_map perm_write (table (cl_permissions d)))
    (wseq (write_cons_helper vers (cl_constraints d) False)
    (wseq (if vers \<ge> POLICYDB_VERSION_VALIDATETRANS
           then wseq (put_words [of_nat (length (cl_validatetrans d))]) (write_cons_helper vers (cl_validatetrans d) True) else wskip)
    (wseq (if vers \<ge> POLICYDB_VERSION_NEW_OBJECT_DEFAULTS
           then put_words [cl_default_user d, cl_default_role d, cl_default_range d] else wskip)
          (if vers \<ge> POLICYDB_VERSION_DEFAULT_TYPE then put_words [cl_default_type d] else wskip)))))))"

subsection \<open>Roles and types\<close>

definition role_entry :: "bool \<Rightarrow> u32 \<Rightarrow> (string \<times> role_datum) reader" where
  "role_entry mok vers =
     rbind (read_words (if policydb_has_boundary_feature vers then 3 else 2)) (\<lambda>buf.
       rbind (str_read mok (buf ! 0)) (\<lambda>key. rbind (read_ebitmap mok) (\<lambda>dm. rbind (read_ebitmap mok) (\<lambda>ty.
         rreturn (key, \<lparr>r_value = buf ! 1, r_dominates = dm, r_types = type_set_init\<lparr>ts_types := ty\<rparr>, r_cache = ebitmap_init,
           r_bounds = (if policydb_has_boundary_feature vers then buf ! 2 else 0), r_flavor = 0, r_roles = ebitmap_init\<rparr>)))))"

text \<open>\<^verbatim>\<open>object_r\<close> is in the table already: its entry is checked and dropped.\<close>

definition role_read :: "bool \<Rightarrow> u32 \<Rightarrow> (string, role_datum) hashtab option \<Rightarrow> (string, role_datum) hashtab option reader" where
  "role_read mok vers h =
     rbind (role_entry mok vers) (\<lambda>kd.
       if fst kd = OBJECT_R then (if r_value (snd kd) \<noteq> OBJECT_R_VAL then rfail else rreturn h)
       else insert_entry mok h kd)"

definition role_write :: "u32 \<Rightarrow> string \<Rightarrow> role_datum \<Rightarrow> writer" where
  "role_write vers key d =
     (if r_flavor d = ROLE_ATTRIB then wskip
      else wseq (put_words (strlen32 key # r_value d # (if policydb_has_boundary_feature vers then [r_bounds d] else [])))
        (wseq (put_string key)
        (wseq (ebitmap_write (r_dominates d))
              (ebitmap_write (if r_value d = OBJECT_R_VAL then ebitmap_init else ts_types (r_types d))))))"

definition type_entry :: "bool \<Rightarrow> u32 \<Rightarrow> (string \<times> type_datum) reader" where
  "type_entry mok vers =
     rbind (read_words (if policydb_has_boundary_feature vers then 4 else 3)) (\<lambda>buf.
       rbind (str_read mok (buf ! 0)) (\<lambda>key.
         rreturn (key,
           (if policydb_has_boundary_feature vers then
              type_datum_init\<lparr>t_value := buf ! 1, t_primary := (if buf ! 2 AND TYPEDATUM_PROPERTY_PRIMARY \<noteq> 0 then 1 else 0),
                t_flavor := (if buf ! 2 AND TYPEDATUM_PROPERTY_ATTRIBUTE \<noteq> 0 then TYPE_ATTRIB else TYPE_TYPE), t_bounds := buf ! 3\<rparr>
            else type_datum_init\<lparr>t_value := buf ! 1, t_primary := buf ! 2\<rparr>))))"

definition type_read :: "bool \<Rightarrow> u32 \<Rightarrow> (string, type_datum) hashtab option \<Rightarrow> (string, type_datum) hashtab option reader" where
  "type_read mok vers h = rbind (type_entry mok vers) (insert_entry mok h)"

definition type_properties :: "type_datum \<Rightarrow> u32" where
  "type_properties d = (if t_primary d \<noteq> 0 then TYPEDATUM_PROPERTY_PRIMARY else 0) OR
     (if t_flavor d = TYPE_ATTRIB then TYPEDATUM_PROPERTY_ATTRIBUTE else 0)"

definition type_write :: "u32 \<Rightarrow> string \<Rightarrow> type_datum \<Rightarrow> writer" where
  "type_write vers key d =
     (if \<not> policydb_has_boundary_feature vers \<and> t_flavor d = TYPE_ATTRIB then wskip
      else wseq (put_words (strlen32 key # t_value d #
                   (if policydb_has_boundary_feature vers then [type_properties d, t_bounds d] else [t_primary d])))
             (put_string key))"

subsection \<open>Users, booleans, levels and categories\<close>

definition user_entry :: "bool \<Rightarrow> u32 \<Rightarrow> (string \<times> user_datum) reader" where
  "user_entry mok vers =
     rbind (read_words (if policydb_has_boundary_feature vers then 3 else 2)) (\<lambda>buf.
       rbind (str_read mok (buf ! 0)) (\<lambda>key. rbind (read_ebitmap mok) (\<lambda>rs.
       rbind (if vers \<ge> POLICYDB_VERSION_MLS
              then rbind (mls_read_range_helper mok) (\<lambda>r. rbind (mls_read_level mok) (\<lambda>l. rreturn (r, l)))
              else rreturn (mls_range_init, mls_level_init)) (\<lambda>rl.
         rreturn (key, \<lparr>u_value = buf ! 1, u_roles = rs, u_exp_range = fst rl, u_exp_dfltlevel = snd rl,
           u_bounds = (if policydb_has_boundary_feature vers then buf ! 2 else 0)\<rparr>)))))"

definition user_read :: "bool \<Rightarrow> u32 \<Rightarrow> (string, user_datum) hashtab option \<Rightarrow> (string, user_datum) hashtab option reader" where
  "user_read mok vers h = rbind (user_entry mok vers) (insert_entry mok h)"

definition user_write :: "u32 \<Rightarrow> string \<Rightarrow> user_datum \<Rightarrow> writer" where
  "user_write vers key d =
     wseq (put_words (strlen32 key # u_value d # (if policydb_has_boundary_feature vers then [u_bounds d] else [])))
    (wseq (put_string key)
    (wseq (ebitmap_write (u_roles d))
          (if vers \<ge> POLICYDB_VERSION_MLS
           then wseq (mls_write_range_helper (u_exp_range d)) (mls_write_level (u_exp_dfltlevel d)) else wskip)))"

definition cond_bool_entry :: "bool \<Rightarrow> (string \<times> cond_bool_datum) reader" where
  "cond_bool_entry mok =
     rbind (read_words 3) (\<lambda>buf.
       if buf ! 1 \<noteq> 0 \<and> buf ! 1 \<noteq> 1 then rfail
       else rbind (str_read mok (buf ! 2)) (\<lambda>key. rreturn (key, \<lparr>b_value = buf ! 0, b_state = buf ! 1\<rparr>)))"

definition cond_read_bool :: "bool \<Rightarrow> (string, cond_bool_datum) hashtab option \<Rightarrow> (string, cond_bool_datum) hashtab option reader" where
  "cond_read_bool mok h = rbind (cond_bool_entry mok) (insert_entry mok h)"

definition cond_write_bool :: "string \<Rightarrow> cond_bool_datum \<Rightarrow> writer" where
  "cond_write_bool key d = wseq (put_words [b_value d, b_state d, strlen32 key]) (put_string key)"

definition sens_entry :: "bool \<Rightarrow> (string \<times> level_datum) reader" where
  "sens_entry mok =
     rbind (read_words 2) (\<lambda>buf. rbind (str_read mok (buf ! 0)) (\<lambda>key. rbind (mls_read_level mok) (\<lambda>l.
       rreturn (key, \<lparr>ld_level = l, ld_isalias = ucast (buf ! 1)\<rparr>))))"

definition sens_read :: "bool \<Rightarrow> (string, level_datum) hashtab option \<Rightarrow> (string, level_datum) hashtab option reader" where
  "sens_read mok h = rbind (sens_entry mok) (insert_entry mok h)"

definition sens_write :: "string \<Rightarrow> level_datum \<Rightarrow> writer" where
  "sens_write key d = wseq (put_words [strlen32 key, ucast (ld_isalias d)]) (wseq (put_string key) (mls_write_level (ld_level d)))"

definition cat_entry :: "bool \<Rightarrow> (string \<times> cat_datum) reader" where
  "cat_entry mok =
     rbind (read_words 3) (\<lambda>buf. rbind (str_read mok (buf ! 0)) (\<lambda>key.
       rreturn (key, \<lparr>cd_value = buf ! 1, cd_isalias = ucast (buf ! 2)\<rparr>)))"

definition cat_read :: "bool \<Rightarrow> (string, cat_datum) hashtab option \<Rightarrow> (string, cat_datum) hashtab option reader" where
  "cat_read mok h = rbind (cat_entry mok) (insert_entry mok h)"

definition cat_write :: "string \<Rightarrow> cat_datum \<Rightarrow> writer" where
  "cat_write key d = wseq (put_words [strlen32 key, cd_value d, ucast (cd_isalias d)]) (put_string key)"

section \<open>Images of symbols\<close>

subsection \<open>Type sets, levels and ranges\<close>

definition type_set_wf :: "type_set \<Rightarrow> bool" where
  "type_set_wf x \<longleftrightarrow> ebitmap_wf (ts_types x) \<and> ebitmap_wf (ts_negset x)"

definition type_set_image :: "type_set \<Rightarrow> u8 list" where
  "type_set_image x = ebitmap_bytes (ts_types x) @ ebitmap_bytes (ts_negset x) @ words_image [ts_flags x]"

interpretation type_set_file: codec type_set_wf type_set_image type_set_write "type_set_read True"
proof
  fix x
  show "emits (type_set_write x) (type_set_image x)" unfolding type_set_write_def type_set_image_def by (intro emits_intros)
  show "reads (type_set_read True) (type_set_image x) x" if "type_set_wf x"
    using that by (simp add: reads_def type_set_wf_def type_set_read_def type_set_image_def read_simps)
  show "extends (type_set_read True)" unfolding type_set_read_def by (intro extends_intros)
qed

definition level_image :: "mls_level \<Rightarrow> u8 list" where
  "level_image l = words_image [sens l] @ ebitmap_bytes (cat l)"

interpretation level_file: codec level_wf level_image mls_write_level "mls_read_level True"
proof
  fix l
  show "emits (mls_write_level l) (level_image l)" unfolding mls_write_level_def level_image_def by (intro emits_intros)
  show "reads (mls_read_level True) (level_image l) l" if "level_wf l"
    using that by (simp add: reads_def level_wf_def mls_read_level_def level_image_def read_simps)
  show "extends (mls_read_level True)" unfolding mls_read_level_def by (intro extends_intros)
qed

definition range_image :: "mls_range \<Rightarrow> u8 list" where
  "range_image r =
     (if mls_level_eq (level1 r) (level0 r) then words_image [1, sens (level0 r)] @ ebitmap_bytes (cat (level0 r))
      else words_image [2, sens (level0 r), sens (level1 r)] @ ebitmap_bytes (cat (level0 r)) @ ebitmap_bytes (cat (level1 r)))"

lemma level_eq_same: "level_wf a \<Longrightarrow> level_wf b \<Longrightarrow> mls_level_eq a b \<longleftrightarrow> a = b"
proof -
  assume wf: "level_wf a" "level_wf b"
  have "cat a = cat b" if "ebitmap_set (cat a) = ebitmap_set (cat b)"
    using wf that nodes_canonical[of "enode (cat a)" "enode (cat b)"]
    by (cases "cat a"; cases "cat b") (simp add: level_wf_def ebitmap_wf_def ebitmap_set_def)
  with wf show ?thesis by (cases a; cases b) (auto simp: level_eq_iff)
qed

lemma words_image_Cons: "ws \<noteq> [] \<Longrightarrow> words_image (w # ws) = words_image [w] @ words_image ws"
  by (simp add: words_image_def)

interpretation range_file: codec range_wf range_image mls_write_range_helper "mls_read_range_helper True"
proof
  fix r
  show "emits (mls_write_range_helper r) (range_image r)"
    by (cases "mls_level_eq (level1 r) (level0 r)")
      (simp_all add: mls_write_range_helper_def range_image_def Let_def emits_seq emits_words emits_ebitmap
        emits_seq_skip)
  show "reads (mls_read_range_helper True) (range_image r) r" if "range_wf r"
  proof (cases "mls_level_eq (level1 r) (level0 r)")
    case True
    with that have "level1 r = level0 r" by (simp add: level_eq_same range_wf_def)
    with that True show ?thesis
      by (cases r) (simp add: reads_def range_wf_def level_wf_def mls_read_range_helper_def range_image_def words_image_Cons read_simps Let_def)
  next
    case False
    with that show ?thesis
      by (simp add: reads_def range_wf_def level_wf_def mls_read_range_helper_def range_image_def words_image_Cons[of _ "1::u32"] words_image_Cons[of "[_, _]" 2] read_simps Let_def)
  qed
  show "extends (mls_read_range_helper True)"
    unfolding mls_read_range_helper_def Let_def by (auto intro!: extends_intros)
qed

subsection \<open>Permissions and commons\<close>

definition perm_ok :: "string \<times> perm_datum \<Rightarrow> bool" where
  "perm_ok kd \<longleftrightarrow> symbol_name (fst kd)"

definition perm_image :: "string \<times> perm_datum \<Rightarrow> u8 list" where
  "perm_image kd = words_image [strlen32 (fst kd), pm_value (snd kd)] @ string_image (fst kd)"

interpretation perm_file: codec perm_ok perm_image "\<lambda>kd. perm_write (fst kd) (snd kd)" "perm_entry True"
proof
  fix kd
  show "emits (perm_write (fst kd) (snd kd)) (perm_image kd)" unfolding perm_write_def perm_image_def by (intro emits_intros)
  show "reads (perm_entry True) (perm_image kd) kd" if "perm_ok kd"
    using that by (simp add: reads_def perm_ok_def perm_entry_def perm_image_def read_simps prod_eq_iff)
  show "extends (perm_entry True)" unfolding perm_entry_def by (intro extends_intros)
qed

text \<open>A symbol table of permissions inside a common or a class.\<close>

definition perm_table_ok :: "perm_datum symtab \<Rightarrow> bool" where
  "perm_table_ok st \<longleftrightarrow> (\<exists>h. table st = Some h \<and> table_form PERM_SYMTAB_SIZE h \<and> (\<forall>kd \<in> set (hashtab_nodes h). perm_ok kd))"

definition perms_image :: "perm_datum symtab \<Rightarrow> u8 list" where
  "perms_image st = (case table st of None \<Rightarrow> [] | Some h \<Rightarrow> concat (map perm_image (hashtab_nodes h)))"

lemma emits_perms: "perm_table_ok st \<Longrightarrow> emits (hashtab_map perm_write (table st)) (perms_image st)"
  using perm_file.write_image by (fastforce simp: perm_table_ok_def perms_image_def intro!: emits_table)

lemma reads_perms:
  assumes "perm_table_ok st"
  obtains st0 where "symtab_init True \<lparr>table = None, nprim = 0\<rparr> PERM_SYMTAB_SIZE = (0, st0)"
    and "reads (read_loop (unat (table_nel (table st))) (perm_read True) (table st0)) (perms_image st) (table st)"
proof -
  obtain h where h: "table st = Some h" "table_form PERM_SYMTAB_SIZE h" "\<forall>kd \<in> set (hashtab_nodes h). perm_ok kd"
    using assms by (auto simp: perm_table_ok_def)
  obtain st0 :: "perm_datum symtab" where st0: "symtab_init True \<lparr>table = None, nprim = 0\<rparr> PERM_SYMTAB_SIZE = (0, st0)"
    by (simp add: symtab_init_def hashtab_create_def)
  have "reads (read_loop (unat (nel h)) (perm_read True) (table st0)) (concat (map perm_image (hashtab_nodes h))) (Some h)"
    unfolding perm_read_def[abs_def] using h perm_file.read_image by (intro table_reads[OF h(2) _ _ st0]) simp_all
  then show thesis using that[OF st0] h by (simp add: table_nel_def perms_image_def)
qed

definition common_ok :: "string \<times> common_datum \<Rightarrow> bool" where
  "common_ok kd \<longleftrightarrow> symbol_name (fst kd) \<and> perm_table_ok (com_permissions (snd kd))"

definition common_image :: "string \<times> common_datum \<Rightarrow> u8 list" where
  "common_image kd =
     words_image [strlen32 (fst kd), com_value (snd kd), nprim (com_permissions (snd kd)), table_nel (table (com_permissions (snd kd)))] @
     string_image (fst kd) @ perms_image (com_permissions (snd kd))"

interpretation common_file: codec common_ok common_image "\<lambda>kd. common_write (fst kd) (snd kd)" "common_entry True"
proof
  fix kd
  show "emits (common_write (fst kd) (snd kd)) (common_image kd)" if "common_ok kd"
    unfolding common_write_def common_image_def using that by (intro emits_intros emits_perms) (simp add: common_ok_def)
  show "reads (common_entry True) (common_image kd) kd" if ok: "common_ok kd"
  proof -
    obtain st0 where st0: "symtab_init True \<lparr>table = None, nprim = 0\<rparr> PERM_SYMTAB_SIZE = (0, st0)"
      and loop: "reads (read_loop (unat (table_nel (table (com_permissions (snd kd))))) (perm_read True) (table st0))
        (perms_image (com_permissions (snd kd))) (table (com_permissions (snd kd)))"
      using ok reads_perms by (metis common_ok_def)
    show ?thesis
      using ok name_len[of "fst kd"]
      by (simp add: reads_def common_ok_def symbol_name_def common_entry_def common_image_def read_simps st0 readsD[OF loop] prod_eq_iff)
  qed
  show "extends (common_entry True)"
    unfolding common_entry_def perm_read_def[abs_def] perm_entry_def by (auto intro!: extends_intros split: prod.splits)
qed

subsection \<open>Constraints\<close>

text \<open>The depth after a list of expressions that the checks accept.\<close>

primrec exprs_depth :: "bool \<Rightarrow> constraint_expr list \<Rightarrow> int \<Rightarrow> int option" where
  "exprs_depth allowxtarget [] depth = Some depth"
| "exprs_depth allowxtarget (e # es) depth =
     (case cons_depth allowxtarget (ce_expr_type e) (ce_attr e) depth of None \<Rightarrow> None
      | Some depth \<Rightarrow> exprs_depth allowxtarget es depth)"

definition cons_expr_ok :: "u32 \<Rightarrow> constraint_expr \<Rightarrow> bool" where
  "cons_expr_ok vers e \<longleftrightarrow> (\<exists>ts. ce_type_names e = Some ts \<and>
     (if ce_expr_type e = CEXPR_NAMES
      then ebitmap_wf (ce_names e) \<and> (if vers \<ge> POLICYDB_VERSION_CONSTRAINT_NAMES then type_set_wf ts else ts = type_set_init)
      else ce_names e = ebitmap_init \<and> ts = type_set_init))"

definition cons_ok :: "u32 \<Rightarrow> bool \<Rightarrow> constraint_node \<Rightarrow> bool" where
  "cons_ok vers allowxtarget c \<longleftrightarrow> (\<forall>e \<in> set (cn_expr c). cons_expr_ok vers e) \<and>
     exprs_depth allowxtarget (cn_expr c) (-1) = Some 0 \<and> length (cn_expr c) < 4294967296"

definition names_image :: "u32 \<Rightarrow> constraint_expr \<Rightarrow> u8 list" where
  "names_image vers e =
     (if ce_expr_type e = CEXPR_NAMES
      then ebitmap_bytes (ce_names e) @
        (if vers \<ge> POLICYDB_VERSION_CONSTRAINT_NAMES then type_set_image (the (ce_type_names e)) else [])
      else [])"

definition cons_expr_image :: "u32 \<Rightarrow> constraint_expr \<Rightarrow> u8 list" where
  "cons_expr_image vers e = words_image [ce_expr_type e, ce_attr e, ce_op e] @ names_image vers e"

definition cons_image :: "u32 \<Rightarrow> constraint_node \<Rightarrow> u8 list" where
  "cons_image vers c = words_image [cn_permissions c, of_nat (length (cn_expr c))] @ concat (map (cons_expr_image vers) (cn_expr c))"

lemma reads_names:
  "cons_expr_ok vers e \<Longrightarrow> reads (read_cons_names True vers (ce_expr_type e)) (names_image vers e) (ce_names e, the (ce_type_names e))"
  by (auto simp: reads_def cons_expr_ok_def read_cons_names_def names_image_def read_simps readsD[OF type_set_file.read_image])

lemma extends_names [extends_intros]: "extends (read_cons_names mok vers ty)"
  unfolding read_cons_names_def type_set_read_def by (intro extends_intros)

lemma reads_cons_exprs:
  "\<forall>e \<in> set es. cons_expr_ok vers e \<Longrightarrow> exprs_depth xt es depth = Some d \<Longrightarrow>
     reads (read_cons_exprs True vers xt (length es) depth) (concat (map (cons_expr_image vers) es)) (es, d)"
proof (induction es arbitrary: depth)
  case (Cons e es)
  obtain d1 where d1: "cons_depth xt (ce_expr_type e) (ce_attr e) depth = Some d1" "exprs_depth xt es d1 = Some d"
    using Cons.prems(2) by (auto split: option.splits)
  have e: "cons_expr_ok vers e" using Cons.prems(1) by simp
  then have "\<lparr>ce_expr_type = ce_expr_type e, ce_attr = ce_attr e, ce_op = ce_op e, ce_names = ce_names e,
      ce_type_names = Some (the (ce_type_names e))\<rparr> = e" by (auto simp: cons_expr_ok_def)
  moreover have "reads (read_cons_exprs True vers xt (length es) d1) (concat (map (cons_expr_image vers) es)) (es, d)"
    using Cons d1(2) by simp
  ultimately show ?case
    using d1(1) by (simp add: reads_def cons_expr_image_def[of vers e] read_simps readsD[OF reads_names[OF e]])
qed (simp add: reads_return)

lemma extends_cons_exprs [extends_intros]: "extends (read_cons_exprs mok vers xt n depth)"
  by (induction n arbitrary: depth) (auto intro!: extends_intros split: option.splits)

lemma write_expr_emits:
  assumes "cons_expr_ok vers e" and "cons_depth xt (ce_expr_type e) (ce_attr e) depth \<noteq> None"
  shows "emits (write_cons_expr vers xt e) (cons_expr_image vers e)"
proof -
  obtain ts where ts: "ce_type_names e = Some ts" using assms(1) by (auto simp: cons_expr_ok_def)
  have xt: "\<not> (\<not> xt \<and> ce_attr e AND CEXPR_XTARGET \<noteq> 0)" if "ce_expr_type e = CEXPR_NAMES"
    using assms(2) that by (auto simp: cons_depth_def split: if_splits)
  have "emits (type_set_write ts) (type_set_image ts)" unfolding type_set_write_def type_set_image_def by (intro emits_intros)
  then show ?thesis
    unfolding write_cons_expr_def cons_expr_image_def names_image_def using ts xt
    by (auto intro!: emits_seq emits_words emits_ebitmap emits_skip emits_seq_skip)
qed

lemma write_exprs_emits:
  "\<forall>e \<in> set es. cons_expr_ok vers e \<Longrightarrow> exprs_depth xt es depth = Some d \<Longrightarrow>
     emits (wlist (write_cons_expr vers xt) es) (concat (map (cons_expr_image vers) es))"
proof (induction es arbitrary: depth)
  case (Cons e es)
  then obtain d1 where "cons_depth xt (ce_expr_type e) (ce_attr e) depth = Some d1" "exprs_depth xt es d1 = Some d"
    by (auto split: option.splits)
  with Cons show ?case by (auto intro!: emits_seq write_expr_emits)
qed (simp add: emits_skip)

interpretation cons_file: codec "cons_ok vers xt" "cons_image vers" "write_cons_node vers xt" "read_cons_node True vers xt"
proof
  fix c
  show "emits (write_cons_node vers xt c) (cons_image vers c)" if "cons_ok vers xt c"
    unfolding write_cons_node_def cons_image_def using that
    by (intro emits_seq emits_words write_exprs_emits[where depth = "-1" and d = 0]) (simp_all add: cons_ok_def)
  show "reads (read_cons_node True vers xt) (cons_image vers c) c" if ok: "cons_ok vers xt c"
  proof -
    have "reads (read_cons_exprs True vers xt (length (cn_expr c)) (-1)) (concat (map (cons_expr_image vers) (cn_expr c))) (cn_expr c, 0)"
      using ok by (intro reads_cons_exprs) (simp_all add: cons_ok_def)
    with ok show ?thesis
      by (simp add: reads_def read_cons_node_def cons_image_def cons_ok_def unat_of_nat32 read_simps)
  qed
  show "extends (read_cons_node True vers xt)"
    unfolding read_cons_node_def by (auto intro!: extends_intros)
qed

subsection \<open>Classes\<close>

definition comkey_len :: "class_datum \<Rightarrow> u32" where
  "comkey_len d = (case cl_comkey d of None \<Rightarrow> 0 | Some ck \<Rightarrow> strlen32 ck)"

definition comkey_ok :: "(string, common_datum) hashtab option \<Rightarrow> class_datum \<Rightarrow> bool" where
  "comkey_ok commons d \<longleftrightarrow>
     (case cl_comkey d of None \<Rightarrow> cl_comdatum d = None
      | Some ck \<Rightarrow> symbol_name ck \<and> cl_comdatum d \<noteq> None \<and> hashtab_search commons ck = cl_comdatum d)"

definition defaults_ok :: "u32 \<Rightarrow> class_datum \<Rightarrow> bool" where
  "defaults_ok vers d \<longleftrightarrow>
     (vers < POLICYDB_VERSION_VALIDATETRANS \<longrightarrow> cl_validatetrans d = []) \<and>
     (vers < POLICYDB_VERSION_NEW_OBJECT_DEFAULTS \<longrightarrow> cl_default_user d = 0 \<and> cl_default_role d = 0 \<and> cl_default_range d = 0) \<and>
     (vers < POLICYDB_VERSION_DEFAULT_TYPE \<longrightarrow> cl_default_type d = 0)"

definition cons_list_ok :: "u32 \<Rightarrow> bool \<Rightarrow> constraint_node list \<Rightarrow> bool" where
  "cons_list_ok vers xt cs \<longleftrightarrow> list_all (cons_ok vers xt) cs \<and> length cs < 4294967296"

text \<open>A class whose common, if any, is the one of that name; fields that the version does not have are 0.\<close>

definition class_ok :: "u32 \<Rightarrow> (string, common_datum) hashtab option \<Rightarrow> string \<times> class_datum \<Rightarrow> bool" where
  "class_ok vers commons kd \<longleftrightarrow> symbol_name (fst kd) \<and> perm_table_ok (cl_permissions (snd kd)) \<and> comkey_ok commons (snd kd) \<and>
     cons_list_ok vers False (cl_constraints (snd kd)) \<and> cons_list_ok vers True (cl_validatetrans (snd kd)) \<and> defaults_ok vers (snd kd)"

definition comkey_image :: "class_datum \<Rightarrow> u8 list" where
  "comkey_image d = (case cl_comkey d of None \<Rightarrow> [] | Some ck \<Rightarrow> string_image ck)"

definition cons_list_image :: "u32 \<Rightarrow> constraint_node list \<Rightarrow> u8 list" where
  "cons_list_image vers cs = concat (map (cons_image vers) cs)"

definition validatetrans_image :: "u32 \<Rightarrow> class_datum \<Rightarrow> u8 list" where
  "validatetrans_image vers d =
     (if vers \<ge> POLICYDB_VERSION_VALIDATETRANS
      then words_image [of_nat (length (cl_validatetrans d))] @ cons_list_image vers (cl_validatetrans d) else [])"

definition defaults_image :: "u32 \<Rightarrow> class_datum \<Rightarrow> u8 list" where
  "defaults_image vers d =
     (if vers \<ge> POLICYDB_VERSION_NEW_OBJECT_DEFAULTS
      then words_image [cl_default_user d, cl_default_role d, cl_default_range d] else []) @
     (if vers \<ge> POLICYDB_VERSION_DEFAULT_TYPE then words_image [cl_default_type d] else [])"

definition class_image :: "u32 \<Rightarrow> string \<times> class_datum \<Rightarrow> u8 list" where
  "class_image vers kd =
     words_image [strlen32 (fst kd), comkey_len (snd kd), cl_value (snd kd), nprim (cl_permissions (snd kd)),
       table_nel (table (cl_permissions (snd kd))), of_nat (length (cl_constraints (snd kd)))] @
     string_image (fst kd) @ comkey_image (snd kd) @ perms_image (cl_permissions (snd kd)) @
     cons_list_image vers (cl_constraints (snd kd)) @ validatetrans_image vers (snd kd) @ defaults_image vers (snd kd)"

lemma cons_list_emits: "cons_list_ok vers xt cs \<Longrightarrow> emits (write_cons_helper vers cs xt) (cons_list_image vers cs)"
  unfolding write_cons_helper_def cons_list_image_def
  by (intro cons_file.list_emits) (simp add: cons_list_ok_def list_all_iff)

lemma cons_list_reads:
  "cons_list_ok vers xt cs \<Longrightarrow> reads (read_cons_helper True vers (unat (of_nat (length cs) :: u32)) xt) (cons_list_image vers cs) cs"
  unfolding read_cons_helper_def cons_list_image_def
  by (intro cons_file.list_reads) (simp_all add: cons_list_ok_def list_all_iff unat_of_nat32)

lemma extends_cons [extends_intros]: "extends (read_cons_helper mok vers n xt)"
  unfolding read_cons_helper_def read_cons_node_def by (auto intro!: extends_intros)

lemma comkey_reads:
  assumes "comkey_ok commons d"
  shows "reads (read_comkey True commons (comkey_len d)) (comkey_image d) (cl_comkey d, cl_comdatum d)" and "comkey_len d \<noteq> -1"
proof -
  have "reads (read_comkey True commons (comkey_len d)) (comkey_image d) (cl_comkey d, cl_comdatum d) \<and> comkey_len d \<noteq> -1"
  proof (cases "cl_comkey d")
    case None
    with assms show ?thesis by (simp add: comkey_ok_def comkey_len_def comkey_image_def read_comkey_def reads_return)
  next
    case (Some ck)
    with assms obtain com where com: "symbol_name ck" "cl_comdatum d = Some com" "hashtab_search commons ck = Some com"
      by (auto simp: comkey_ok_def)
    have "cstr ck" using com(1) by (simp add: symbol_name_def)
    then show ?thesis
      using Some com name_len[OF com(1)]
      by (simp add: reads_def comkey_len_def comkey_image_def read_comkey_def zero_or_saturated_def read_simps)
  qed
  then show "reads (read_comkey True commons (comkey_len d)) (comkey_image d) (cl_comkey d, cl_comdatum d)" "comkey_len d \<noteq> -1" by simp_all
qed

lemma validatetrans_reads:
  "cons_list_ok vers True (cl_validatetrans d) \<Longrightarrow> defaults_ok vers d \<Longrightarrow>
     reads (read_validatetrans True vers) (validatetrans_image vers d) (cl_validatetrans d)"
  unfolding read_validatetrans_def validatetrans_image_def
  by (intro reads_when reads_bind[OF reads_words]) (simp_all add: cons_list_reads defaults_ok_def)

lemma defaults_reads:
  assumes "defaults_ok vers d"
  shows "reads (read_defaults vers) (defaults_image vers d) ([cl_default_user d, cl_default_role d, cl_default_range d], [cl_default_type d])"
  using assms by (auto simp: reads_def defaults_ok_def read_defaults_def defaults_image_def read_simps)

lemma extends_class [extends_intros]: "extends (class_entry mok vers commons)"
  unfolding class_entry_def read_comkey_def read_validatetrans_def read_defaults_def perm_read_def[abs_def] perm_entry_def
  by (auto intro!: extends_intros split: prod.splits option.splits)

interpretation class_file: codec "class_ok vers commons" "class_image vers" "\<lambda>kd. class_write vers (fst kd) (snd kd)" "class_entry True vers commons"
proof
  fix kd
  show "emits (class_write vers (fst kd) (snd kd)) (class_image vers kd)" if "class_ok vers commons kd"
    unfolding class_write_def class_image_def comkey_len_def validatetrans_image_def defaults_image_def using that
    by (intro emits_seq emits_words emits_string emits_perms cons_list_emits emits_when)
      (auto simp: class_ok_def comkey_image_def emits_skip emits_string split: option.splits)
  show "reads (class_entry True vers commons) (class_image vers kd) kd" if ok: "class_ok vers commons kd"
  proof -
    let ?d = "snd kd"
    have perms: "perm_table_ok (cl_permissions ?d)" and name: "symbol_name (fst kd)" using ok by (simp_all add: class_ok_def)
    obtain st0 where st0: "symtab_init True \<lparr>table = None, nprim = 0\<rparr> PERM_SYMTAB_SIZE = (0, st0)"
      and loop: "reads (read_loop (unat (table_nel (table (cl_permissions ?d)))) (perm_read True) (table st0))
        (perms_image (cl_permissions ?d)) (table (cl_permissions ?d))"
      by (rule reads_perms[OF perms])
    have "cstr (fst kd)" using name by (simp add: symbol_name_def)
    with ok show ?thesis
      using name_len[OF name]
      by (simp add: reads_def class_ok_def class_entry_def class_image_def read_simps st0 readsD[OF loop] comkey_reads(2)[of commons]
          readsD[OF comkey_reads(1)] readsD[OF cons_list_reads] readsD[OF validatetrans_reads] readsD[OF defaults_reads] prod_eq_iff)
  qed
  show "extends (class_entry True vers commons)" by (rule extends_class)
qed

subsection \<open>Roles and types\<close>

definition role_ok :: "u32 \<Rightarrow> string \<times> role_datum \<Rightarrow> bool" where
  "role_ok vers kd \<longleftrightarrow> symbol_name (fst kd) \<and> ebitmap_wf (r_dominates (snd kd)) \<and> ebitmap_wf (ts_types (r_types (snd kd))) \<and>
     r_types (snd kd) = type_set_init\<lparr>ts_types := ts_types (r_types (snd kd))\<rparr> \<and> r_cache (snd kd) = ebitmap_init \<and>
     r_roles (snd kd) = ebitmap_init \<and> r_flavor (snd kd) = 0 \<and>
     (r_value (snd kd) = OBJECT_R_VAL \<longrightarrow> ts_types (r_types (snd kd)) = ebitmap_init) \<and>
     (\<not> policydb_has_boundary_feature vers \<longrightarrow> r_bounds (snd kd) = 0)"

definition role_image :: "u32 \<Rightarrow> string \<times> role_datum \<Rightarrow> u8 list" where
  "role_image vers kd =
     words_image (strlen32 (fst kd) # r_value (snd kd) # (if policydb_has_boundary_feature vers then [r_bounds (snd kd)] else [])) @
     string_image (fst kd) @ ebitmap_bytes (r_dominates (snd kd)) @ ebitmap_bytes (ts_types (r_types (snd kd)))"

interpretation role_file: codec "role_ok vers" "role_image vers" "\<lambda>kd. role_write vers (fst kd) (snd kd)" "role_entry True vers"
proof
  fix kd
  show "emits (role_write vers (fst kd) (snd kd)) (role_image vers kd)" if "role_ok vers kd"
  proof -
    have "r_flavor (snd kd) \<noteq> ROLE_ATTRIB" and "(if r_value (snd kd) = OBJECT_R_VAL then ebitmap_init else ts_types (r_types (snd kd))) = ts_types (r_types (snd kd))"
      using that by (auto simp: role_ok_def)
    then show ?thesis unfolding role_write_def role_image_def by (simp only: if_False) (intro emits_intros)
  qed
  show "reads (role_entry True vers) (role_image vers kd) kd" if "role_ok vers kd"
    using that by (auto simp: reads_def role_ok_def role_entry_def role_image_def read_simps prod_eq_iff)
  show "extends (role_entry True vers)" unfolding role_entry_def by (intro extends_intros)
qed

text \<open>Types of a kernel policy. Before version 24 attributes are not written.\<close>

definition type_ok :: "u32 \<Rightarrow> string \<times> type_datum \<Rightarrow> bool" where
  "type_ok vers kd \<longleftrightarrow> symbol_name (fst kd) \<and> t_types (snd kd) = ebitmap_init \<and> t_flags (snd kd) = 0 \<and>
     (if policydb_has_boundary_feature vers then t_primary (snd kd) \<in> {0, 1} \<and> t_flavor (snd kd) \<in> {TYPE_TYPE, TYPE_ATTRIB}
      else t_flavor (snd kd) = TYPE_TYPE \<and> t_bounds (snd kd) = 0)"

definition type_image :: "u32 \<Rightarrow> string \<times> type_datum \<Rightarrow> u8 list" where
  "type_image vers kd =
     words_image (strlen32 (fst kd) # t_value (snd kd) #
       (if policydb_has_boundary_feature vers then [type_properties (snd kd), t_bounds (snd kd)] else [t_primary (snd kd)])) @
     string_image (fst kd)"

interpretation type_file: codec "type_ok vers" "type_image vers" "\<lambda>kd. type_write vers (fst kd) (snd kd)" "type_entry True vers"
proof
  fix kd
  show "emits (type_write vers (fst kd) (snd kd)) (type_image vers kd)" if "type_ok vers kd"
  proof -
    have "\<not> (\<not> policydb_has_boundary_feature vers \<and> t_flavor (snd kd) = TYPE_ATTRIB)"
      using that by (auto simp: type_ok_def split: if_splits)
    then show ?thesis unfolding type_write_def type_image_def by (simp only: if_False) (intro emits_intros)
  qed
  show "reads (type_entry True vers) (type_image vers kd) kd" if "type_ok vers kd"
    using that by (auto simp: reads_def type_ok_def type_entry_def type_image_def type_properties_def type_datum_init_def read_simps prod_eq_iff
        split: if_splits)
  show "extends (type_entry True vers)" unfolding type_entry_def by (intro extends_intros)
qed

subsection \<open>Users, booleans, levels and categories\<close>

definition user_ok :: "u32 \<Rightarrow> string \<times> user_datum \<Rightarrow> bool" where
  "user_ok vers kd \<longleftrightarrow> symbol_name (fst kd) \<and> ebitmap_wf (u_roles (snd kd)) \<and>
     (if vers \<ge> POLICYDB_VERSION_MLS then range_wf (u_exp_range (snd kd)) \<and> level_wf (u_exp_dfltlevel (snd kd))
      else u_exp_range (snd kd) = mls_range_init \<and> u_exp_dfltlevel (snd kd) = mls_level_init) \<and>
     (\<not> policydb_has_boundary_feature vers \<longrightarrow> u_bounds (snd kd) = 0)"

definition user_image :: "u32 \<Rightarrow> string \<times> user_datum \<Rightarrow> u8 list" where
  "user_image vers kd =
     words_image (strlen32 (fst kd) # u_value (snd kd) # (if policydb_has_boundary_feature vers then [u_bounds (snd kd)] else [])) @
     string_image (fst kd) @ ebitmap_bytes (u_roles (snd kd)) @
     (if vers \<ge> POLICYDB_VERSION_MLS then range_image (u_exp_range (snd kd)) @ level_image (u_exp_dfltlevel (snd kd)) else [])"

interpretation user_file: codec "user_ok vers" "user_image vers" "\<lambda>kd. user_write vers (fst kd) (snd kd)" "user_entry True vers"
proof
  fix kd
  show "emits (user_write vers (fst kd) (snd kd)) (user_image vers kd)" if "user_ok vers kd"
    unfolding user_write_def user_image_def using that
    by (intro emits_seq emits_words emits_string emits_ebitmap emits_when range_file.write_image level_file.write_image)
      (simp_all add: user_ok_def)
  show "reads (user_entry True vers) (user_image vers kd) kd" if "user_ok vers kd"
    using that by (auto simp: reads_def user_ok_def user_entry_def user_image_def read_simps prod_eq_iff
        readsD[OF range_file.read_image] readsD[OF level_file.read_image] split: if_splits)
  show "extends (user_entry True vers)"
    unfolding user_entry_def by (intro extends_intros range_file.read_extends level_file.read_extends)
qed

definition bool_ok :: "string \<times> cond_bool_datum \<Rightarrow> bool" where
  "bool_ok kd \<longleftrightarrow> symbol_name (fst kd) \<and> b_state (snd kd) \<in> {0, 1}"

definition bool_image :: "string \<times> cond_bool_datum \<Rightarrow> u8 list" where
  "bool_image kd = words_image [b_value (snd kd), b_state (snd kd), strlen32 (fst kd)] @ string_image (fst kd)"

interpretation bool_file: codec bool_ok bool_image "\<lambda>kd. cond_write_bool (fst kd) (snd kd)" "cond_bool_entry True"
proof
  fix kd
  show "emits (cond_write_bool (fst kd) (snd kd)) (bool_image kd)" unfolding cond_write_bool_def bool_image_def by (intro emits_intros)
  show "reads (cond_bool_entry True) (bool_image kd) kd" if "bool_ok kd"
    using that by (auto simp: reads_def bool_ok_def cond_bool_entry_def bool_image_def read_simps prod_eq_iff)
  show "extends (cond_bool_entry True)" unfolding cond_bool_entry_def by (intro extends_intros)
qed

lemma ucast_back: "ucast (ucast (b :: u8) :: u32) = b"
  by (rule bit_word_eqI) (simp add: bit_simps)

definition sens_ok :: "string \<times> level_datum \<Rightarrow> bool" where
  "sens_ok kd \<longleftrightarrow> symbol_name (fst kd) \<and> level_wf (ld_level (snd kd))"

definition sens_image :: "string \<times> level_datum \<Rightarrow> u8 list" where
  "sens_image kd = words_image [strlen32 (fst kd), ucast (ld_isalias (snd kd))] @ string_image (fst kd) @ level_image (ld_level (snd kd))"

interpretation sens_file: codec sens_ok sens_image "\<lambda>kd. sens_write (fst kd) (snd kd)" "sens_entry True"
proof
  fix kd
  show "emits (sens_write (fst kd) (snd kd)) (sens_image kd)" if "sens_ok kd"
    unfolding sens_write_def sens_image_def using that by (intro emits_intros level_file.write_image) (simp add: sens_ok_def)
  show "reads (sens_entry True) (sens_image kd) kd" if "sens_ok kd"
    using that by (simp add: reads_def sens_ok_def sens_entry_def sens_image_def read_simps readsD[OF level_file.read_image] prod_eq_iff ucast_back)
  show "extends (sens_entry True)" unfolding sens_entry_def by (intro extends_intros level_file.read_extends)
qed

definition cat_ok :: "string \<times> cat_datum \<Rightarrow> bool" where
  "cat_ok kd \<longleftrightarrow> symbol_name (fst kd)"

definition cat_image :: "string \<times> cat_datum \<Rightarrow> u8 list" where
  "cat_image kd = words_image [strlen32 (fst kd), cd_value (snd kd), ucast (cd_isalias (snd kd))] @ string_image (fst kd)"

interpretation cat_file: codec cat_ok cat_image "\<lambda>kd. cat_write (fst kd) (snd kd)" "cat_entry True"
proof
  fix kd
  show "emits (cat_write (fst kd) (snd kd)) (cat_image kd)" unfolding cat_write_def cat_image_def by (intro emits_intros)
  show "reads (cat_entry True) (cat_image kd) kd" if "cat_ok kd"
    using that by (simp add: reads_def cat_ok_def cat_entry_def cat_image_def read_simps prod_eq_iff ucast_back)
  show "extends (cat_entry True)" unfolding cat_entry_def by (intro extends_intros)
qed

section \<open>The evaluation of constraints that were read\<close>

text \<open>
  The reader keeps the depth of the stack; a constraint it accepts never takes the evaluation below the start of the
  stack or beyond its end, whatever the bytes of the file are. What is compared, and how, the reader does not check.
\<close>

lemma read_exprs_depth:
  "read_cons_exprs mok vers xt n depth fp = Some ((es, d), fp') \<Longrightarrow> exprs_depth xt es depth = Some d \<and> length es = n"
  by (induction n arbitrary: depth fp es d fp') (auto simp: rbind_def rreturn_def rfail_def split: if_splits option.splits)

lemma read_node_depth:
  "read_cons_node mok vers xt fp = Some (c, fp') \<Longrightarrow> exprs_depth xt (cn_expr c) (-1) = Some 0"
  using read_exprs_depth[of True vers xt _ "-1"]
  by (fastforce simp: read_cons_node_def rbind_def rreturn_def rfail_def split: if_splits option.splits)

text \<open>What the evaluation needs of a comparison: a known attribute, an operator it has, names of the policy.\<close>

abbreviation is_comparison :: "constraint_expr \<Rightarrow> bool" where
  "is_comparison e \<equiv> ce_expr_type e = CEXPR_ATTR \<or> ce_expr_type e = CEXPR_NAMES"

definition names_kind :: "constraint_expr \<Rightarrow> u32 option" where
  "names_kind e =
     (if ce_attr e AND CEXPR_USER \<noteq> 0 then Some CEXPR_USER else if ce_attr e AND CEXPR_ROLE \<noteq> 0 then Some CEXPR_ROLE
      else if ce_attr e AND CEXPR_TYPE \<noteq> 0 then Some CEXPR_TYPE else None)"

definition comparison_known :: "policydb \<Rightarrow> constraint_expr \<Rightarrow> bool" where
  "comparison_known p e \<longleftrightarrow>
     (ce_expr_type e = CEXPR_ATTR \<longrightarrow>
        ce_attr e \<in> {CEXPR_USER, CEXPR_TYPE} \<and> ce_op e \<in> {CEXPR_EQ, CEXPR_NEQ} \<or>
        ce_attr e \<in> {CEXPR_ROLE, CEXPR_L1L2, CEXPR_L1H2, CEXPR_H1L2, CEXPR_H1H2, CEXPR_L1H1, CEXPR_L2H2} \<and>
        ce_op e \<in> {CEXPR_EQ, CEXPR_NEQ, CEXPR_DOM, CEXPR_DOMBY, CEXPR_INCOMP}) \<and>
     (ce_expr_type e = CEXPR_NAMES \<longrightarrow>
        ce_op e \<in> {CEXPR_EQ, CEXPR_NEQ} \<and> (\<exists>k. names_kind e = Some k \<and> get_name_list p e k = Ret ()))"

lemma attr_known:
  assumes "comparison_known p e" and "ce_expr_type e = CEXPR_ATTR"
    and "role_at p (c_role sc - 1) = Ret (Some r1)" and "role_at p (c_role tc - 1) = Ret (Some r2)"
  shows "\<exists>b. constraint_attr p sc tc e = Ret (Some b)"
proof (cases "ce_attr e = CEXPR_ROLE")
  case True
  with assms show ?thesis
    by (auto simp: comparison_known_def constraint_attr_def role_op_def role_dominates_def value_op_def)
next
  case False
  with assms(1,2) consider (number) "ce_attr e \<in> {CEXPR_USER, CEXPR_TYPE}" "ce_op e \<in> {CEXPR_EQ, CEXPR_NEQ}"
    | (levels) l1 l2 where "attr_levels (c_range sc) (c_range tc) (ce_attr e) = Some (l1, l2)" "ce_attr e \<notin> {CEXPR_USER, CEXPR_TYPE, CEXPR_ROLE}"
      "ce_op e \<in> {CEXPR_EQ, CEXPR_NEQ, CEXPR_DOM, CEXPR_DOMBY, CEXPR_INCOMP}"
    unfolding comparison_known_def by (auto simp: attr_levels_def)
  then show ?thesis
  proof cases
    case number
    then show ?thesis by (auto simp: constraint_attr_def value_op_def)
  next
    case levels
    then show ?thesis by (auto simp: constraint_attr_def mls_op_def)
  qed
qed

lemma names_known:
  assumes "comparison_known p e" and "ce_expr_type e = CEXPR_NAMES" and "ce_attr e AND CEXPR_XTARGET = 0"
  shows "\<exists>b. constraint_names p sc tc xc e = Ret (Some b)"
  using assms by (auto simp: comparison_known_def constraint_names_def names_kind_def split: if_splits)

text \<open>Up to the first comparison that is not known, the stack has the depth the reader has computed.\<close>

lemma constraint_loop_prefix:
  assumes "exprs_depth xt (es @ es') depth = Some 0" and "int (length s) = depth + 1"
    and "\<forall>e \<in> set es. is_comparison e \<longrightarrow> (\<exists>b. comparison_value p sc tc xc e = Ret (Some b))"
  shows "\<exists>s' d. constraint_loop p sc tc xc n (es @ es') s = constraint_loop p sc tc xc (n + length es) es' s' \<and>
    int (length s') = d + 1 \<and> exprs_depth xt es' d = Some 0"
  using assms
proof (induction es arbitrary: depth s n)
  case Nil
  then show ?case by auto
next
  case (Cons e es)
  obtain d where d: "cons_depth xt (ce_expr_type e) (ce_attr e) depth = Some d" and rest: "exprs_depth xt (es @ es') d = Some 0"
    using Cons.prems(1) by (auto split: option.splits)
  have IH: "\<exists>s'' d'. constraint_loop p sc tc xc (Suc n) (es @ es') s' = constraint_loop p sc tc xc (n + length (e # es)) es' s'' \<and>
      int (length s'') = d' + 1 \<and> exprs_depth xt es' d' = Some 0" if "int (length s') = d + 1" for s'
    using Cons.IH[OF rest that, of "Suc n"] Cons.prems(3) by simp
  from d consider (negation) "ce_expr_type e = CEXPR_NOT" "depth \<ge> 0" "d = depth"
    | (both) "ce_expr_type e = CEXPR_AND \<or> ce_expr_type e = CEXPR_OR" "depth \<ge> 1" "d = depth - 1"
    | (comparison) "is_comparison e" "depth \<noteq> 4" "d = depth + 1"
    by (auto simp: cons_depth_def split: if_splits)
  then show ?case
  proof cases
    case negation
    then obtain x s' where "s = x # s'" using Cons.prems(2) by (cases s) auto
    then show ?thesis using negation IH[of "(\<not> x) # s'"] Cons.prems(2) by simp
  next
    case both
    then obtain y x s' where s: "s = y # x # s'" using Cons.prems(2) by (cases s; cases "tl s") auto
    then show ?thesis using both IH[of "(x \<and> y) # s'"] IH[of "(x \<or> y) # s'"] Cons.prems(2) by auto
  next
    case comparison
    then obtain b where "comparison_value p sc tc xc e = Ret (Some b)" "length s \<noteq> 5" using Cons.prems(2,3) by auto
    then have "constraint_loop p sc tc xc n (e # es @ es') s = constraint_loop p sc tc xc (Suc n) (es @ es') (b # s)"
      using comparison(1) by auto
    then show ?thesis using IH[of "b # s"] comparison(3) Cons.prems(2) by simp
  qed
qed

lemma constraint_loop_checked:
  assumes "exprs_depth xt es (-1) = Some 0" and "\<forall>e \<in> set es. is_comparison e \<longrightarrow> (\<exists>b. comparison_value p sc tc xc e = Ret (Some b))"
  shows "\<exists>v \<in> {0, 1}. constraint_loop p sc tc xc 0 es [] = Ret v"
proof -
  obtain s' where "constraint_loop p sc tc xc 0 es [] = constraint_loop p sc tc xc (length es) [] s'" "length s' = 1"
    using constraint_loop_prefix[of xt es "[]" "-1" "[]" p sc tc xc 0] assms by auto
  then show ?thesis by (auto simp: length_Suc_conv)
qed

text \<open>A comparison that is not known stops the evaluation, and unless it is the first expression that is fatal.\<close>

lemma constraint_loop_unknown:
  assumes "exprs_depth xt (es @ e # es') (-1) = Some 0" and "is_comparison e"
    and "\<forall>e \<in> set es. is_comparison e \<longrightarrow> (\<exists>b. comparison_value p sc tc xc e = Ret (Some b))"
  shows "comparison_value p sc tc xc e = Ret None \<Longrightarrow> constraint_loop p sc tc xc 0 (es @ e # es') [] = give_up (length es)"
    and "comparison_value p sc tc xc e = UB u \<Longrightarrow> constraint_loop p sc tc xc 0 (es @ e # es') [] = UB u"
proof -
  obtain s' d where l: "constraint_loop p sc tc xc 0 (es @ e # es') [] = constraint_loop p sc tc xc (length es) (e # es') s'"
    "int (length s') = d + 1" "exprs_depth xt (e # es') d = Some 0"
    using constraint_loop_prefix[of xt es "e # es'" "-1" "[]" p sc tc xc 0] assms(1,3) by auto
  have "d \<noteq> 4" using l(3) assms(2) by (auto simp: cons_depth_def split: if_splits option.splits)
  then have "length s' \<noteq> 5" using l(2) by auto
  then have "constraint_loop p sc tc xc (length es) (e # es') s' = obind (comparison_value p sc tc xc e) (\<lambda>r.
      case r of None \<Rightarrow> give_up (length es) | Some b \<Rightarrow> constraint_loop p sc tc xc (Suc (length es)) es' (b # s'))"
    using assms(2) by auto
  with l(1) show "comparison_value p sc tc xc e = Ret None \<Longrightarrow> constraint_loop p sc tc xc 0 (es @ e # es') [] = give_up (length es)"
    and "comparison_value p sc tc xc e = UB u \<Longrightarrow> constraint_loop p sc tc xc 0 (es @ e # es') [] = UB u" by simp_all
qed

lemma exprs_no_xtarget:
  assumes "exprs_depth False es depth = Some d" and "e \<in> set es" and "ce_expr_type e = CEXPR_NAMES"
  shows "ce_attr e AND CEXPR_XTARGET = 0"
  using assms by (induction es arbitrary: depth) (auto simp: cons_depth_def split: if_splits option.splits)

lemma known_comparisons_evaluate:
  assumes "\<forall>e \<in> set es. comparison_known p e" and "exprs_depth False (es @ es') depth = Some d"
    and "role_at p (c_role sc - 1) = Ret (Some r1)" and "role_at p (c_role tc - 1) = Ret (Some r2)"
  shows "\<forall>e \<in> set es. is_comparison e \<longrightarrow> (\<exists>b. comparison_value p sc tc xc e = Ret (Some b))"
proof (intro ballI impI)
  fix e
  assume e: "e \<in> set es" "is_comparison e"
  show "\<exists>b. comparison_value p sc tc xc e = Ret (Some b)"
  proof (cases "ce_expr_type e = CEXPR_ATTR")
    case True
    then show ?thesis using attr_known[OF _ _ assms(3,4)] assms(1) e by (simp add: comparison_value_def)
  next
    case False
    then show ?thesis using names_known exprs_no_xtarget[OF assms(2), of e] assms(1) e by (simp add: comparison_value_def)
  qed
qed

end
