(* ===== verification/PolicyImage.thy ===== *)
theory PolicyImage
  imports SymbolFile SepolicyTypes
begin

unbundle bit_operations_syntax

text \<open>
  Sections of the image of a kernel policy: the symbol tables as \<open>policydb_read\<close> (\<^verbatim>\<open>libsepol/src/policydb.c\<close>)
  and \<open>policydb_write\<close> (\<^verbatim>\<open>libsepol/src/write.c\<close>) loop over them, role transitions, role allow rules and file name
  transitions. Reading starts from the tables of \<open>policydb_init\<close>, in which the role \<^verbatim>\<open>object_r\<close> is already declared.
\<close>

section \<open>Definitions\<close>

abbreviation (input) POLICYDB_VERSION_BOOL :: u32 where "POLICYDB_VERSION_BOOL \<equiv> 16"
abbreviation (input) POLICYDB_VERSION_FILENAME_TRANS :: u32 where "POLICYDB_VERSION_FILENAME_TRANS \<equiv> 25"
abbreviation (input) POLICYDB_VERSION_ROLETRANS :: u32 where "POLICYDB_VERSION_ROLETRANS \<equiv> 26"

subsection \<open>Role transitions and role allow rules\<close>

record role_trans =
  rt_role :: u32
  rt_type :: u32
  rt_tclass :: u32
  rt_new_role :: u32

definition role_trans_entry :: "bool \<Rightarrow> u32 \<Rightarrow> role_trans reader" where
  "role_trans_entry mok vers =
     (if \<not> mok then rfail
      else rbind (read_words 3) (\<lambda>buf.
        rbind (if vers \<ge> POLICYDB_VERSION_ROLETRANS then read_words 1 else rreturn [SECCLASS_PROCESS]) (\<lambda>c.
          rreturn \<lparr>rt_role = buf ! 0, rt_type = buf ! 1, rt_tclass = c ! 0, rt_new_role = buf ! 2\<rparr>)))"

definition role_trans_read :: "bool \<Rightarrow> u32 \<Rightarrow> role_trans list reader" where
  "role_trans_read mok vers = rbind (read_words 1) (\<lambda>buf. rrepeat (unat (buf ! 0)) (role_trans_entry mok vers))"

definition write_role_trans :: "u32 \<Rightarrow> role_trans \<Rightarrow> writer" where
  "write_role_trans vers tr =
     wseq (put_words [rt_role tr, rt_type tr, rt_new_role tr])
       (if vers \<ge> POLICYDB_VERSION_ROLETRANS then put_words [rt_tclass tr] else wskip)"

text \<open>Versions without a class in the rule only keep those for processes.\<close>

definition role_trans_write :: "u32 \<Rightarrow> role_trans list \<Rightarrow> writer" where
  "role_trans_write vers r =
     (let kept = filter (\<lambda>tr. vers \<ge> POLICYDB_VERSION_ROLETRANS \<or> rt_tclass tr = SECCLASS_PROCESS) r in
      wseq (put_words [of_nat (length kept)]) (wlist (write_role_trans vers) kept))"

definition role_allow_entry :: "bool \<Rightarrow> (u32 \<times> u32) reader" where
  "role_allow_entry mok = (if \<not> mok then rfail else rbind (read_words 2) (\<lambda>buf. rreturn (buf ! 0, buf ! 1)))"

definition role_allow_read :: "bool \<Rightarrow> (u32 \<times> u32) list reader" where
  "role_allow_read mok = rbind (read_words 1) (\<lambda>buf. rrepeat (unat (buf ! 0)) (role_allow_entry mok))"

definition role_allow_write :: "(u32 \<times> u32) list \<Rightarrow> writer" where
  "role_allow_write r = wseq (put_words [of_nat (length r)]) (wlist (\<lambda>ra. put_words [fst ra, snd ra]) r)"

subsection \<open>File name transitions\<close>

definition filename_trans_entry :: "bool \<Rightarrow> (filename_trans \<times> u32) reader" where
  "filename_trans_entry mok =
     rbind (read_words 1) (\<lambda>b. rbind (str_read mok (b ! 0)) (\<lambda>name. rbind (read_words 4) (\<lambda>buf.
       rreturn (\<lparr>ft_stype = buf ! 0, ft_ttype = buf ! 1, ft_tclass = buf ! 2, ft_name = name\<rparr>, buf ! 3))))"

text \<open>
  The loop over the rules. For a duplicate a warning is composed from the arrays \<^verbatim>\<open>p_type_val_to_name\<close>,
  which \<open>policydb_read\<close> only builds after this section: they are still NULL.
\<close>

primrec filename_trans_loop ::
  "bool \<Rightarrow> nat \<Rightarrow> (filename_trans, u32) hashtab option \<Rightarrow> u8 list \<Rightarrow> ((filename_trans, u32) hashtab option \<times> u8 list) option outcome" where
  "filename_trans_loop mok 0 h fp = Ret (Some (h, fp))"
| "filename_trans_loop mok (Suc n) h fp =
     (case filename_trans_entry mok fp of None \<Rightarrow> Ret None
      | Some (kd, fp) \<Rightarrow>
          (case hashtab_insert mok h (fst kd) (snd kd) of (rc, h') \<Rightarrow>
             if rc = 0 then filename_trans_loop mok n h' fp
             else if rc \<noteq> SEPOL_EEXIST then Ret None
             else UB NullDeref))"

definition filename_trans_read ::
  "bool \<Rightarrow> (filename_trans, u32) hashtab option \<Rightarrow> u8 list \<Rightarrow> ((filename_trans, u32) hashtab option \<times> u8 list) option outcome" where
  "filename_trans_read mok h fp =
     (case read_words 1 fp of None \<Rightarrow> Ret None | Some (buf, fp) \<Rightarrow> filename_trans_loop mok (unat (buf ! 0)) h fp)"

definition filename_write_helper :: "filename_trans \<Rightarrow> u32 \<Rightarrow> writer" where
  "filename_write_helper ft otype =
     wseq (put_words [strlen32 (ft_name ft)])
    (wseq (put_string (ft_name ft)) (put_words [ft_stype ft, ft_ttype ft, ft_tclass ft, otype]))"

definition filename_trans_write :: "u32 \<Rightarrow> (filename_trans, u32) hashtab option \<Rightarrow> writer" where
  "filename_trans_write vers h =
     (if vers < POLICYDB_VERSION_FILENAME_TRANS then wskip
      else wseq (put_words [table_nel h]) (hashtab_map filename_write_helper h))"

subsection \<open>The symbol tables\<close>

record symbol_tables =
  sy_commons :: "common_datum symtab"
  sy_classes :: "class_datum symtab"
  sy_roles :: "role_datum symtab"
  sy_types :: "type_datum symtab"
  sy_users :: "user_datum symtab"
  sy_bools :: "cond_bool_datum symtab"
  sy_levels :: "level_datum symtab"
  sy_cats :: "cat_datum symtab"

text \<open>One round of the loop in \<open>policydb_read\<close>, with the reader of the kind of symbol.\<close>

definition read_symtab :: "((string, 'd) hashtab option \<Rightarrow> (string, 'd) hashtab option reader) \<Rightarrow> 'd symtab \<Rightarrow> 'd symtab reader" where
  "read_symtab rd st =
     rbind (read_words 2) (\<lambda>buf.
       if buf ! 1 \<noteq> 0 \<and> buf ! 0 = 0 then rfail
       else rbind (read_loop (unat (buf ! 1)) rd (table st)) (\<lambda>tab. rreturn \<lparr>table = tab, nprim = buf ! 0\<rparr>))"

text \<open>The number of symbol tables of a version (\<^verbatim>\<open>policydb_compat\<close>): booleans came with 16, levels with 19.\<close>

definition sym_num :: "u32 \<Rightarrow> nat" where
  "sym_num vers = (if vers < POLICYDB_VERSION_BOOL then 5 else if vers < POLICYDB_VERSION_MLS then 6 else 8)"

definition read_symtabs :: "bool \<Rightarrow> u32 \<Rightarrow> symbol_tables \<Rightarrow> symbol_tables reader" where
  "read_symtabs mok vers s =
     rbind (read_symtab (common_read mok) (sy_commons s)) (\<lambda>commons.
     rbind (read_symtab (class_read mok vers (table commons)) (sy_classes s)) (\<lambda>classes.
     rbind (read_symtab (role_read mok vers) (sy_roles s)) (\<lambda>roles.
     rbind (read_symtab (type_read mok vers) (sy_types s)) (\<lambda>types.
     rbind (read_symtab (user_read mok vers) (sy_users s)) (\<lambda>users.
     rbind (if 5 < sym_num vers then read_symtab (cond_read_bool mok) (sy_bools s) else rreturn (sy_bools s)) (\<lambda>bools.
     rbind (if 6 < sym_num vers then read_symtab (sens_read mok) (sy_levels s) else rreturn (sy_levels s)) (\<lambda>levels.
     rbind (if 7 < sym_num vers then read_symtab (cat_read mok) (sy_cats s) else rreturn (sy_cats s)) (\<lambda>cats.
       rreturn \<lparr>sy_commons = commons, sy_classes = classes, sy_roles = roles, sy_types = types, sy_users = users,
         sy_bools = bools, sy_levels = levels, sy_cats = cats\<rparr>))))))))"

text \<open>One round of the loop in \<open>policydb_write\<close>; the entries that are not written are not counted.\<close>

definition write_symtab :: "('d \<Rightarrow> bool) \<Rightarrow> (string \<Rightarrow> 'd \<Rightarrow> writer) \<Rightarrow> 'd symtab \<Rightarrow> writer" where
  "write_symtab uncounted w st =
     wseq (put_words [nprim st, table_nel (table st) -
             of_nat (length (filter (uncounted \<circ> snd) (case table st of None \<Rightarrow> [] | Some h \<Rightarrow> hashtab_nodes h)))])
       (hashtab_map w (table st))"

definition write_symtabs :: "u32 \<Rightarrow> symbol_tables \<Rightarrow> writer" where
  "write_symtabs vers s =
     wseq (write_symtab (\<lambda>_. False) common_write (sy_commons s))
    (wseq (write_symtab (\<lambda>_. False) (class_write vers) (sy_classes s))
    (wseq (write_symtab (\<lambda>d. r_flavor d = ROLE_ATTRIB) (role_write vers) (sy_roles s))
    (wseq (write_symtab (\<lambda>d. \<not> policydb_has_boundary_feature vers \<and> t_flavor d = TYPE_ATTRIB) (type_write vers) (sy_types s))
    (wseq (write_symtab (\<lambda>_. False) (user_write vers) (sy_users s))
    (wseq (if 5 < sym_num vers then write_symtab (\<lambda>_. False) cond_write_bool (sy_bools s) else wskip)
    (wseq (if 6 < sym_num vers then write_symtab (\<lambda>_. False) sens_write (sy_levels s) else wskip)
          (if 7 < sym_num vers then write_symtab (\<lambda>_. False) cat_write (sy_cats s) else wskip)))))))"

text \<open>\<open>policydb_init\<close>: empty tables of the sizes \<^verbatim>\<open>symtab_sizes\<close>, and \<open>roles_init\<close>, which declares \<^verbatim>\<open>object_r\<close>.\<close>

definition object_r :: role_datum where
  "object_r = \<lparr>r_value = OBJECT_R_VAL, r_dominates = ebitmap_init, r_types = type_set_init, r_cache = ebitmap_init, r_bounds = 0,
     r_flavor = 0, r_roles = ebitmap_init\<rparr>"

definition roles_init :: "bool \<Rightarrow> role_datum symtab \<Rightarrow> scope_datum symtab \<Rightarrow> int \<times> role_datum symtab \<times> scope_datum symtab" where
  "roles_init mok st sc =
     (if \<not> mok then (- ENOMEM, st, sc)
      else case symtab_insert mok True True (\<lambda>d. r_flavor d = ROLE_ATTRIB) st sc OBJECT_R (object_r\<lparr>r_value := 0\<rparr>) SCOPE_DECL 1 of
        (rc, st, sc, v) \<Rightarrow>
          if rc \<noteq> 0 then (rc, st, sc)
          else let value = (case v of Some x \<Rightarrow> x | None \<Rightarrow> 0);
                   st = st\<lparr>table := hashtab_assign (table st) OBJECT_R (\<lambda>d. d\<lparr>r_value := value\<rparr>)\<rparr>
          in if value \<noteq> OBJECT_R_VAL then (- EINVAL, st, sc) else (0, st, sc))"

definition empty_symtab :: "u32 \<Rightarrow> 'd symtab" where
  "empty_symtab sz = snd (symtab_init True \<lparr>table = None, nprim = 0\<rparr> sz)"

definition init_symtabs :: symbol_tables where
  "init_symtabs =
     \<lparr>sy_commons = empty_symtab 2, sy_classes = empty_symtab 32,
      sy_roles = fst (snd (roles_init True (empty_symtab 16) (empty_symtab 16))), sy_types = empty_symtab 512,
      sy_users = empty_symtab 128, sy_bools = empty_symtab 16, sy_levels = empty_symtab 16, sy_cats = empty_symtab 16\<rparr>"

section \<open>Role transitions, role allow rules, file name transitions\<close>

definition role_trans_ok :: "u32 \<Rightarrow> role_trans \<Rightarrow> bool" where
  "role_trans_ok vers tr \<longleftrightarrow> vers \<ge> POLICYDB_VERSION_ROLETRANS \<or> rt_tclass tr = SECCLASS_PROCESS"

definition role_trans_image :: "u32 \<Rightarrow> role_trans \<Rightarrow> u8 list" where
  "role_trans_image vers tr =
     words_image [rt_role tr, rt_type tr, rt_new_role tr] @ (if vers \<ge> POLICYDB_VERSION_ROLETRANS then words_image [rt_tclass tr] else [])"

interpretation role_trans_file: codec "role_trans_ok vers" "role_trans_image vers" "write_role_trans vers" "role_trans_entry True vers"
proof
  fix tr
  show "emits (write_role_trans vers tr) (role_trans_image vers tr)"
    unfolding write_role_trans_def role_trans_image_def by (intro emits_seq emits_words emits_when)
  show "reads (role_trans_entry True vers) (role_trans_image vers tr) tr" if "role_trans_ok vers tr"
    using that by (auto simp: reads_def role_trans_ok_def role_trans_entry_def role_trans_image_def read_simps)
  show "extends (role_trans_entry True vers)" unfolding role_trans_entry_def by (intro extends_intros)
qed

text \<open>What a version can express of the role transitions is what is read back.\<close>

lemma role_trans_roundtrip:
  fixes vers :: u32
  assumes "length r < 4294967296"
  defines "kept \<equiv> filter (role_trans_ok vers) r"
  defines "img \<equiv> words_image [of_nat (length kept)] @ concat (map (role_trans_image vers) kept)"
  shows "emits (role_trans_write vers r) img" and "reads (role_trans_read True vers) img kept"
proof -
  have ok: "\<forall>tr \<in> set kept. role_trans_ok vers tr" by (simp add: kept_def)
  have len: "length kept < 4294967296" unfolding kept_def by (rule le_less_trans[OF length_filter_le assms(1)])
  show "emits (role_trans_write vers r) img"
    unfolding role_trans_write_def img_def kept_def role_trans_ok_def[abs_def] Let_def
    using role_trans_file.list_emits[of kept vers] ok by (intro emits_seq emits_words) (simp add: kept_def role_trans_ok_def[abs_def])
  have "reads (rrepeat (unat (of_nat (length kept) :: u32)) (role_trans_entry True vers)) (concat (map (role_trans_image vers) kept)) kept"
    using ok len by (intro role_trans_file.list_reads) (simp_all add: unat_of_nat32)
  then show "reads (role_trans_read True vers) img kept"
    unfolding role_trans_read_def img_def by (intro reads_bind[OF reads_words]) simp_all
qed

interpretation role_allow_file: codec "\<lambda>_. True" "\<lambda>ra. words_image [fst ra, snd ra]" "\<lambda>ra. put_words [fst ra, snd ra]" "role_allow_entry True"
proof
  fix ra
  show "emits (put_words [fst ra, snd ra]) (words_image [fst ra, snd ra])" by (rule emits_words)
  show "reads (role_allow_entry True) (words_image [fst ra, snd ra]) ra" by (simp add: reads_def role_allow_entry_def read_simps)
  show "extends (role_allow_entry True)" unfolding role_allow_entry_def by (intro extends_intros)
qed

lemma role_allow_roundtrip:
  fixes r :: "(u32 \<times> u32) list"
  assumes "length r < 4294967296"
  defines "img \<equiv> words_image [of_nat (length r)] @ concat (map (\<lambda>ra. words_image [fst ra, snd ra]) r)"
  shows "emits (role_allow_write r) img" and "reads (role_allow_read True) img r"
proof -
  show "emits (role_allow_write r) img"
    unfolding role_allow_write_def img_def using role_allow_file.list_emits[of r] by (intro emits_seq emits_words) simp
  have "reads (rrepeat (unat (of_nat (length r) :: u32)) (role_allow_entry True)) (concat (map (\<lambda>ra. words_image [fst ra, snd ra]) r)) r"
    using assms(1) by (intro role_allow_file.list_reads) (simp_all add: unat_of_nat32)
  then show "reads (role_allow_read True) img r"
    unfolding role_allow_read_def img_def by (intro reads_bind[OF reads_words]) simp_all
qed

definition filename_ok :: "filename_trans \<times> u32 \<Rightarrow> bool" where
  "filename_ok kd \<longleftrightarrow> symbol_name (ft_name (fst kd))"

definition filename_image :: "filename_trans \<times> u32 \<Rightarrow> u8 list" where
  "filename_image kd = words_image [strlen32 (ft_name (fst kd))] @ string_image (ft_name (fst kd)) @
     words_image [ft_stype (fst kd), ft_ttype (fst kd), ft_tclass (fst kd), snd kd]"

interpretation filename_file: codec filename_ok filename_image "\<lambda>kd. filename_write_helper (fst kd) (snd kd)" "filename_trans_entry True"
proof
  fix kd
  show "emits (filename_write_helper (fst kd) (snd kd)) (filename_image kd)"
    unfolding filename_write_helper_def filename_image_def by (intro emits_intros)
  show "reads (filename_trans_entry True) (filename_image kd) kd" if "filename_ok kd"
    using that by (simp add: reads_def filename_ok_def filename_trans_entry_def filename_image_def read_simps prod_eq_iff)
  show "extends (filename_trans_entry True)" unfolding filename_trans_entry_def by (intro extends_intros)
qed

text \<open>A rule whose key the table has already is not ignored: composing the warning dereferences NULL.\<close>

lemma duplicate_filename_crashes:
  assumes "filename_ok (k, v)" and "hashtab_insert True h k v = (SEPOL_EEXIST, h')"
  shows "filename_trans_loop True (Suc n) h (filename_image (k, v) @ rest) = UB NullDeref"
  using assms by (simp add: readsD[OF filename_file.read_image])

lemma filename_slot: "unat (filenametr_hash 1024 k) < 1024"
proof -
  have "unat (x AND 1023) < 1024" for x :: u32
  proof -
    have "x AND 1023 = take_bit 10 x" by (simp add: take_bit_eq_mask mask_eq_exp_minus_1)
    then show ?thesis by (simp add: take_bit_eq_mod unat_mod_distrib)
  qed
  then show ?thesis by (simp add: filenametr_hash_def)
qed

text \<open>A key that was just inserted into the empty table is refused the second time.\<close>

lemma insert_twice:
  fixes v w :: u32
  obtains h h1 where "hashtab_create True filenametr_hash filenametr_cmp 1024 = Some h" and "hashtab_insert True (Some h) k v = (0, Some h1)"
    and "hashtab_insert True (Some h1) k w = (SEPOL_EEXIST, Some h1)"
proof -
  let ?h = "\<lparr>htable = replicate 1024 [], hsize = 1024, nel = 0, hash_value = filenametr_hash, keycmp = filenametr_cmp\<rparr> :: (filename_trans, u32) hashtab"
  let ?hv = "unat (filenametr_hash 1024 k)"
  have same: "strcmp (ft_name k) (ft_name k) = 0" by simp
  show thesis
    by (rule that[of ?h "?h\<lparr>htable := (replicate 1024 [])[?hv := [(k, v)]], nel := 1\<rparr>"])
      (simp_all add: hashtab_create_def hashtab_insert_def hvalue_def filename_slot filenametr_cmp_def same del: strcmp_eq_0)
qed

section \<open>Symbol tables\<close>

definition symtab_ok :: "u32 \<Rightarrow> (string \<times> 'd \<Rightarrow> bool) \<Rightarrow> 'd symtab \<Rightarrow> bool" where
  "symtab_ok sz entry_ok st \<longleftrightarrow> (\<exists>h. table st = Some h \<and> table_form sz h \<and> (\<forall>kd \<in> set (hashtab_nodes h). entry_ok kd) \<and>
     (nprim st = 0 \<longrightarrow> hashtab_nodes h = []))"

definition symtab_image :: "(string \<times> 'd \<Rightarrow> u8 list) \<Rightarrow> 'd symtab \<Rightarrow> u8 list" where
  "symtab_image f st = words_image [nprim st, table_nel (table st)] @
     (case table st of None \<Rightarrow> [] | Some h \<Rightarrow> concat (map f (hashtab_nodes h)))"

lemma symtab_emits:
  assumes "symtab_ok sz entry_ok st" and "\<And>k d. entry_ok (k, d) \<Longrightarrow> emits (w k d) (f (k, d)) \<and> \<not> uncounted d"
  shows "emits (write_symtab uncounted w st) (symtab_image f st)"
proof -
  obtain h where h: "table st = Some h" "\<forall>kd \<in> set (hashtab_nodes h). entry_ok kd" using assms(1) by (auto simp: symtab_ok_def)
  then have "filter (uncounted \<circ> snd) (hashtab_nodes h) = []" using assms(2) by (force simp: filter_empty_conv)
  moreover have "emits (hashtab_map w (Some h)) (concat (map f (hashtab_nodes h)))"
    using h assms(2) by (intro emits_table) auto
  ultimately show ?thesis
    using h unfolding write_symtab_def symtab_image_def by (simp add: emits_seq emits_words)
qed

lemma symtab_reads:
  assumes "symtab_ok sz entry_ok st" and "0 < sz" and "\<And>kd. entry_ok kd \<Longrightarrow> reads r (f kd) kd"
  shows "reads (read_symtab (\<lambda>h. rbind r (insert_entry True h)) (empty_symtab sz)) (symtab_image f st) st"
proof -
  obtain h where h: "table st = Some h" "table_form sz h" "\<forall>kd \<in> set (hashtab_nodes h). entry_ok kd" "nprim st = 0 \<longrightarrow> hashtab_nodes h = []"
    using assms(1) by (auto simp: symtab_ok_def)
  have init: "symtab_init True \<lparr>table = None, nprim = 0\<rparr> sz = (0, empty_symtab sz)"
    by (simp add: empty_symtab_def symtab_init_def hashtab_create_def)
  have "reads (read_loop (unat (nel h)) (\<lambda>h. rbind r (insert_entry True h)) (table (empty_symtab sz))) (concat (map f (hashtab_nodes h))) (Some h)"
    using h assms(3) by (intro table_reads[OF h(2) assms(2) _ init]) simp_all
  moreover have "nprim st = 0 \<longrightarrow> nel h = 0"
    using h(2,4) by (simp add: table_form_def hashtab_counted_def)
  ultimately show ?thesis
    using h(1) by (auto simp: reads_def read_symtab_def symtab_image_def table_nel_def read_simps)
qed

subsection \<open>Roles\<close>

text \<open>What the image keeps of a role: not the cache of its types.\<close>

definition kernel_role :: "role_datum \<Rightarrow> role_datum" where
  "kernel_role d = d\<lparr>r_cache := ebitmap_init\<rparr>"

definition map_table :: "('d \<Rightarrow> 'd) \<Rightarrow> ('k, 'd) hashtab \<Rightarrow> ('k, 'd) hashtab" where
  "map_table g h = h\<lparr>htable := map (map (map_prod id g)) (htable h)\<rparr>"

lemma map_table_simps [simp]:
  "hashtab_nodes (map_table g h) = map (map_prod id g) (hashtab_nodes h)" "nel (map_table g h) = nel h"
  by (simp_all add: map_table_def hashtab_nodes_def map_concat)

lemma table_form_map: "table_form sz (map_table g h) \<longleftrightarrow> table_form sz h"
proof -
  have hv: "hvalue (map_table g h) = hvalue h" by (simp add: map_table_def)
  have ok: "chain_ok c (map (map_prod id g) ch) \<longleftrightarrow> chain_ok c ch" for c ch
    by (simp add: chain_ok_def sorted_wrt_map)
  have "hashtab_wf (map_table g h) \<longleftrightarrow> hashtab_wf h"
    unfolding hashtab_wf_def hv by (simp add: map_table_def ok)
  then show ?thesis by (simp add: table_form_def hashtab_on_def hashtab_counted_def) (simp add: map_table_def)
qed

lemma role_write_kernel: "role_write vers k (kernel_role d) = role_write vers k d"
  by (simp add: role_write_def kernel_role_def)

lemma map_nodes_map: "(\<And>k d. w k (g d) = w k d) \<Longrightarrow> map_nodes w (map (map_prod id g) xs) s = map_nodes w xs s"
  by (induction w xs s rule: map_nodes.induct) (simp_all split: prod.splits)

text \<open>A table of roles with \<^verbatim>\<open>object_r\<close> as it is declared, as the image can hold it.\<close>

definition kernel_roles :: "role_datum symtab \<Rightarrow> role_datum symtab" where
  "kernel_roles st = st\<lparr>table := map_option (map_table kernel_role) (table st)\<rparr>"

lemma kernel_roles_idem [simp]: "kernel_roles (kernel_roles st) = kernel_roles st"
  by (cases "table st") (auto simp: kernel_roles_def map_table_def kernel_role_def map_prod_def comp_def case_prod_beta)

definition roles_ok :: "u32 \<Rightarrow> role_datum symtab \<Rightarrow> bool" where
  "roles_ok vers st \<longleftrightarrow> symtab_ok 16 (role_ok vers) st \<and> nprim st \<noteq> 0 \<and> hashtab_search (table st) OBJECT_R = Some object_r"

lemma init_roles:
  obtains h0 where "sy_roles init_symtabs = \<lparr>table = Some h0, nprim = 1\<rparr>" and "hashtab_on symcmp h0" and "hashtab_abs h0 = [OBJECT_R \<mapsto> object_r]"
    and "nel h0 = 1" and "hash_value h0 = symhash" and "hsize h0 = 16"
proof -
  have pos: "(0 :: u32) < 16" by simp
  obtain e :: "(string, role_datum) hashtab" where e: "hashtab_create True symhash symcmp 16 = Some e" "hashtab_on symcmp e" "hashtab_abs e = Map.empty"
    using create_correct[OF pos, of symhash symcmp] symhash_less[OF pos] by blast
  obtain c :: "(string, scope_datum) hashtab" where c: "hashtab_create True symhash symcmp 16 = Some c" "hashtab_on symcmp c" "hashtab_abs c = Map.empty"
    using create_correct[OF pos, of symhash symcmp] symhash_less[OF pos] by blast
  have st: "empty_symtab 16 = \<lparr>table = Some e, nprim = 0\<rparr>" "empty_symtab 16 = \<lparr>table = Some c, nprim = 0\<rparr>"
    using e(1) c(1) by (simp_all add: empty_symtab_def symtab_init_def)
  obtain h where h: "hashtab_insert True (Some e) OBJECT_R (object_r\<lparr>r_value := 0\<rparr>) = (0, Some h)" "hashtab_on symcmp h"
    "hashtab_abs h = [OBJECT_R \<mapsto> object_r\<lparr>r_value := 0\<rparr>]" "nel h = nel e + 1"
    using sym.insert_correct[OF e(2), of OBJECT_R "object_r\<lparr>r_value := 0\<rparr>"] e(3) by auto
  obtain c' where c': "hashtab_insert True (Some c) OBJECT_R \<lparr>sc_scope = SCOPE_DECL, sc_decl_ids = [1]\<rparr> = (0, Some c')"
    using sym.insert_correct[OF c(2), of OBJECT_R "\<lparr>sc_scope = SCOPE_DECL, sc_decl_ids = [1]\<rparr>"] c(3) by auto
  have cs: "hashtab_search (Some c) OBJECT_R = None" using sym.search_correct[OF c(2)] c(3) by simp
  obtain h0 where h0: "hashtab_assign (Some h) OBJECT_R (\<lambda>d. d\<lparr>r_value := 1\<rparr>) = Some h0" "hashtab_on symcmp h0"
    "hashtab_abs h0 = [OBJECT_R \<mapsto> object_r]" "nel h0 = nel h"
    using sym.assign_correct[OF h(2), of OBJECT_R "\<lambda>d. d\<lparr>r_value := 1\<rparr>"] h(3) by (force simp: object_r_def)
  have keep: "hash_value h0 = hash_value h" "hsize h0 = hsize h" using h0(1) by (auto simp: hashtab_assign_def)
  have e0: "nel e = 0" "hash_value e = symhash" "hsize e = 16" using e(1) by (auto simp: hashtab_create_def)
  have "symtab_insert True True True (\<lambda>d. r_flavor d = ROLE_ATTRIB) \<lparr>table = Some e, nprim = 0\<rparr> \<lparr>table = Some c, nprim = 0\<rparr> OBJECT_R
      (object_r\<lparr>r_value := 0\<rparr>) SCOPE_DECL 1 = (0, \<lparr>table = Some h, nprim = 1\<rparr>, \<lparr>table = Some c', nprim = 0\<rparr>, Some 1)"
    using h(1) c' cs by (simp add: symtab_insert_def)
  then have "sy_roles init_symtabs = \<lparr>table = Some h0, nprim = 1\<rparr>"
    using h0(1) by (simp add: init_symtabs_def st roles_init_def)
  then show thesis using that h0 h(4) e0 keep insert_keeps[OF h(1)] by simp
qed

lemma map_of_without: "map_of (filter (\<lambda>x. fst x \<noteq> a) xs) = (map_of xs)(a := None)"
  by (induction xs) auto

lemma map_of_others: "map_of xs a = Some v \<Longrightarrow> [a \<mapsto> v] ++ map_of (filter (\<lambda>x. fst x \<noteq> a) xs) = map_of xs"
  by (auto simp: map_of_without map_add_def split: option.splits)

lemma length_others: "distinct (map fst xs) \<Longrightarrow> map_of xs a = Some v \<Longrightarrow> Suc (length (filter (\<lambda>x. fst x \<noteq> a) xs)) = length xs"
proof (induction xs)
  case (Cons x xs)
  show ?case
  proof (cases "fst x = a")
    case True
    then have "filter (\<lambda>x. fst x \<noteq> a) xs = xs" using Cons.prems(1) by (auto simp: filter_id_conv intro: rev_image_eqI)
    with True show ?thesis by simp
  qed (use Cons in auto)
qed simp

lemma roles_read:
  assumes "roles_ok vers st"
  shows "reads (read_symtab (role_read True vers) (sy_roles init_symtabs)) (symtab_image (role_image vers) st) st"
proof -
  obtain h where h: "table st = Some h" "table_form 16 h" "\<forall>kd \<in> set (hashtab_nodes h). role_ok vers kd"
    and np: "nprim st \<noteq> 0" and obj: "hashtab_search (Some h) OBJECT_R = Some object_r"
    using assms by (auto simp: roles_ok_def symtab_ok_def)
  obtain h0 where h0: "sy_roles init_symtabs = \<lparr>table = Some h0, nprim = 1\<rparr>" "hashtab_on symcmp h0" "hashtab_abs h0 = [OBJECT_R \<mapsto> object_r]"
    "nel h0 = 1" "hash_value h0 = symhash" "hsize h0 = 16" by (rule init_roles)
  let ?xs = "hashtab_nodes h" and ?skip = "\<lambda>x :: string \<times> role_datum. fst x = OBJECT_R"
  have on: "hashtab_on symcmp h" using h(2) by (simp add: table_form_def)
  have abs: "hashtab_abs h OBJECT_R = Some object_r" using sym.search_correct[OF on] obj by simp
  have dist: "distinct (map fst ?xs)" by (rule sym.nodes_distinct[OF on])
  have step: "reads (role_read True vers (Some g)) (role_image vers x) (Some g')"
    if "x \<in> set ?xs" "\<not> ?skip x" "hashtab_insert True (Some g) (fst x) (snd x) = (0, Some g')" for x g g'
    unfolding role_read_def using that h(3)
    by (intro reads_bind_last[where x = x]) (simp_all add: role_file.read_image insert_entry_def reads_return)
  have skip: "reads (role_read True vers (Some g)) (role_image vers x) (Some g)" if "x \<in> set ?xs" "?skip x" for x g
  proof -
    have "snd x = object_r" using that dist abs by (metis hashtab_abs_def map_of_is_SomeI option.inject prod.collapse)
    with that h(3) show ?thesis
      unfolding role_read_def by (intro reads_bind_last[where x = x]) (simp_all add: role_file.read_image reads_return object_r_def)
  qed
  obtain h' where h': "reads (read_loop (length ?xs) (role_read True vers) (Some h0)) (concat (map (role_image vers) ?xs)) (Some h')"
    "hashtab_on symcmp h'" "hashtab_abs h' = hashtab_abs h0 ++ map_of (filter (\<lambda>x. \<not> ?skip x) ?xs)"
    "nel h' = nel h0 + of_nat (length (filter (\<lambda>x. \<not> ?skip x) ?xs))" "hash_value h' = hash_value h0" "hsize h' = hsize h0"
    using sym.loop_reads[where skip = ?skip and f = "role_image vers" and r = "role_read True vers", OF h0(2) step skip dist] h0(3) by fastforce
  have "hashtab_abs h' = hashtab_abs h"
    unfolding h'(3) h0(3) using map_of_others[of ?xs OBJECT_R object_r] abs by (simp add: hashtab_abs_def)
  moreover have "nel h' = nel h"
    using length_others[OF dist, of OBJECT_R object_r] abs table_form_nel[OF h(2)] unfolding h'(4) h0(4) hashtab_abs_def
    by (metis of_nat_Suc of_nat_unat ucast_id)
  ultimately have "h' = h"
    using h(2) h'(2,5,6) h0(5,6) on by (intro sym.table_unique) (simp_all add: table_form_def)
  then have "reads (read_loop (unat (nel h)) (role_read True vers) (Some h0)) (concat (map (role_image vers) ?xs)) (Some h)"
    using h'(1) table_form_nel[OF h(2)] by simp
  then show ?thesis using h(1) np h0(1) by (simp add: reads_def read_symtab_def symtab_image_def table_nel_def read_simps)
qed

lemma roles_emit:
  assumes "roles_ok vers (kernel_roles st)"
  shows "emits (write_symtab (\<lambda>d. r_flavor d = ROLE_ATTRIB) (role_write vers) st) (symtab_image (role_image vers) (kernel_roles st))"
proof -
  have same: "hashtab_map (role_write vers) (map_option (map_table kernel_role) h) = hashtab_map (role_write vers) h" for h
    by (cases h) (simp_all add: hashtab_map_def fun_eq_iff map_nodes_map[where w = "role_write vers" and g = kernel_role, OF role_write_kernel])
  have "write_symtab (\<lambda>d. r_flavor d = ROLE_ATTRIB) (role_write vers) st =
      write_symtab (\<lambda>d. r_flavor d = ROLE_ATTRIB) (role_write vers) (kernel_roles st)"
    using same[of "table st"]
    by (cases "table st") (simp_all add: write_symtab_def kernel_roles_def table_nel_def filter_map comp_def, simp add: kernel_role_def)
  moreover have "emits (write_symtab (\<lambda>d. r_flavor d = ROLE_ATTRIB) (role_write vers) (kernel_roles st)) (symtab_image (role_image vers) (kernel_roles st))"
    using assms role_file.write_image by (intro symtab_emits[where entry_ok = "role_ok vers"]) (fastforce simp: roles_ok_def role_ok_def)+
  ultimately show ?thesis by simp
qed

subsection \<open>The section of all symbol tables\<close>

definition symtabs_ok :: "u32 \<Rightarrow> symbol_tables \<Rightarrow> bool" where
  "symtabs_ok vers s \<longleftrightarrow> symtab_ok 2 common_ok (sy_commons s) \<and> symtab_ok 32 (class_ok vers (table (sy_commons s))) (sy_classes s) \<and>
     roles_ok vers (kernel_roles (sy_roles s)) \<and> symtab_ok 512 (type_ok vers) (sy_types s) \<and> symtab_ok 128 (user_ok vers) (sy_users s) \<and>
     (if 5 < sym_num vers then symtab_ok 16 bool_ok (sy_bools s) else sy_bools s = empty_symtab 16) \<and>
     (if 6 < sym_num vers then symtab_ok 16 sens_ok (sy_levels s) else sy_levels s = empty_symtab 16) \<and>
     (if 7 < sym_num vers then symtab_ok 16 cat_ok (sy_cats s) else sy_cats s = empty_symtab 16)"

definition symtabs_image :: "u32 \<Rightarrow> symbol_tables \<Rightarrow> u8 list" where
  "symtabs_image vers s =
     symtab_image common_image (sy_commons s) @ symtab_image (class_image vers) (sy_classes s) @
     symtab_image (role_image vers) (kernel_roles (sy_roles s)) @ symtab_image (type_image vers) (sy_types s) @
     symtab_image (user_image vers) (sy_users s) @
     (if 5 < sym_num vers then symtab_image bool_image (sy_bools s) else []) @
     (if 6 < sym_num vers then symtab_image sens_image (sy_levels s) else []) @
     (if 7 < sym_num vers then symtab_image cat_image (sy_cats s) else [])"

lemma codec_symtab:
  assumes "codec entry_ok f (\<lambda>kd. w (fst kd) (snd kd)) r" and "symtab_ok sz entry_ok st"
  shows "(\<And>k d. entry_ok (k, d) \<Longrightarrow> \<not> uncounted d) \<Longrightarrow> emits (write_symtab uncounted w st) (symtab_image f st)"
    and "0 < sz \<Longrightarrow> rd = (\<lambda>h. rbind r (insert_entry True h)) \<Longrightarrow> reads (read_symtab rd (empty_symtab sz)) (symtab_image f st) st"
  using assms(2) codec.write_image[OF assms(1)] codec.read_image[OF assms(1)]
  by (force intro!: symtab_emits[where entry_ok = entry_ok]) (simp add: symtab_reads[OF assms(2)] codec.read_image[OF assms(1)])

lemma init_tables:
  "sy_commons init_symtabs = empty_symtab 2" "sy_classes init_symtabs = empty_symtab 32" "sy_types init_symtabs = empty_symtab 512"
  "sy_users init_symtabs = empty_symtab 128" "sy_bools init_symtabs = empty_symtab 16" "sy_levels init_symtabs = empty_symtab 16"
  "sy_cats init_symtabs = empty_symtab 16"
  by (simp_all add: init_symtabs_def)

lemma symtabs_emit: "symtabs_ok vers s \<Longrightarrow> emits (write_symtabs vers s) (symtabs_image vers s)"
  unfolding write_symtabs_def symtabs_image_def symtabs_ok_def
  by (intro emits_seq emits_when roles_emit codec_symtab(1)[OF common_file.codec_axioms] codec_symtab(1)[OF class_file.codec_axioms]
      codec_symtab(1)[OF type_file.codec_axioms] codec_symtab(1)[OF user_file.codec_axioms] codec_symtab(1)[OF bool_file.codec_axioms]
      codec_symtab(1)[OF sens_file.codec_axioms] codec_symtab(1)[OF cat_file.codec_axioms]) (auto simp: type_ok_def[of _ "(_, _)"])

lemma symtabs_read:
  assumes "symtabs_ok vers s"
  shows "reads (read_symtabs True vers init_symtabs) (symtabs_image vers s) (s\<lparr>sy_roles := kernel_roles (sy_roles s)\<rparr>)"
proof -
  note tables = assms[unfolded symtabs_ok_def]
  have commons: "reads (read_symtab (common_read True) (empty_symtab 2)) (symtab_image common_image (sy_commons s)) (sy_commons s)"
    using tables by (intro codec_symtab(2)[OF common_file.codec_axioms]) (auto simp: common_read_def)
  have classes: "reads (read_symtab (class_read True vers (table (sy_commons s))) (empty_symtab 32)) (symtab_image (class_image vers) (sy_classes s)) (sy_classes s)"
    using tables by (intro codec_symtab(2)[OF class_file.codec_axioms]) (auto simp: class_read_def)
  have types: "reads (read_symtab (type_read True vers) (empty_symtab 512)) (symtab_image (type_image vers) (sy_types s)) (sy_types s)"
    using tables by (intro codec_symtab(2)[OF type_file.codec_axioms]) (auto simp: type_read_def)
  have users: "reads (read_symtab (user_read True vers) (empty_symtab 128)) (symtab_image (user_image vers) (sy_users s)) (sy_users s)"
    using tables by (intro codec_symtab(2)[OF user_file.codec_axioms]) (auto simp: user_read_def)
  have bools: "reads (if 5 < sym_num vers then read_symtab (cond_read_bool True) (empty_symtab 16) else rreturn (empty_symtab 16))
      (if 5 < sym_num vers then symtab_image bool_image (sy_bools s) else []) (sy_bools s)"
    using tables by (intro reads_when codec_symtab(2)[OF bool_file.codec_axioms]) (auto simp: cond_read_bool_def)
  have levels: "reads (if 6 < sym_num vers then read_symtab (sens_read True) (empty_symtab 16) else rreturn (empty_symtab 16))
      (if 6 < sym_num vers then symtab_image sens_image (sy_levels s) else []) (sy_levels s)"
    using tables by (intro reads_when codec_symtab(2)[OF sens_file.codec_axioms]) (auto simp: sens_read_def)
  have cats: "reads (if 7 < sym_num vers then read_symtab (cat_read True) (empty_symtab 16) else rreturn (empty_symtab 16))
      (if 7 < sym_num vers then symtab_image cat_image (sy_cats s) else []) (sy_cats s)"
    using tables by (intro reads_when codec_symtab(2)[OF cat_file.codec_axioms]) (auto simp: cat_read_def)
  have whole: "reads (rreturn \<lparr>sy_commons = sy_commons s, sy_classes = sy_classes s, sy_roles = kernel_roles (sy_roles s), sy_types = sy_types s,
      sy_users = sy_users s, sy_bools = sy_bools s, sy_levels = sy_levels s, sy_cats = sy_cats s\<rparr>) [] (s\<lparr>sy_roles := kernel_roles (sy_roles s)\<rparr>)"
    by (cases s) (simp add: reads_return)
  have roles: "roles_ok vers (kernel_roles (sy_roles s))" using tables by simp
  show ?thesis
    unfolding read_symtabs_def symtabs_image_def init_tables
    by (intro reads_bind[OF commons] reads_bind[OF classes] reads_bind[OF roles_read[OF roles]] reads_bind[OF types] reads_bind[OF users]
        reads_bind[OF bools] reads_bind[OF levels] reads_bind_last[OF cats] whole)
qed

text \<open>The reader reads the same from a longer image, so a shorter one is refused.\<close>

lemma extends_symtab [extends_intros]: "(\<And>h. extends (rd h)) \<Longrightarrow> extends (read_symtab rd st)"
  unfolding read_symtab_def by (intro extends_intros)

lemma extends_symtabs: "extends (read_symtabs True vers s)"
proof -
  have "extends (role_read True vers h)" for h
    unfolding role_read_def by (intro extends_intros role_file.read_extends)
  moreover have "extends (common_read True h)" "extends (class_read True vers cs h')" "extends (type_read True vers ty)" "extends (user_read True vers us)"
      "extends (cond_read_bool True bo)" "extends (sens_read True le)" "extends (cat_read True ca)" for h cs h' ty us bo le ca
    unfolding common_read_def class_read_def type_read_def user_read_def cond_read_bool_def sens_read_def cat_read_def
    by (intro extends_intros common_file.read_extends class_file.read_extends type_file.read_extends user_file.read_extends bool_file.read_extends
        sens_file.read_extends cat_file.read_extends)+
  ultimately show ?thesis unfolding read_symtabs_def by (intro extends_intros)
qed

interpretation symtabs_file: codec "\<lambda>s. symtabs_ok vers s \<and> kernel_roles (sy_roles s) = sy_roles s" "symtabs_image vers" "write_symtabs vers"
  "read_symtabs True vers init_symtabs"
proof
  fix s
  assume "symtabs_ok vers s \<and> kernel_roles (sy_roles s) = sy_roles s"
  then show "emits (write_symtabs vers s) (symtabs_image vers s)" "reads (read_symtabs True vers init_symtabs) (symtabs_image vers s) s"
    using symtabs_emit symtabs_read[of vers s] by auto
qed (rule extends_symtabs)

end
