(* ===== verification/SymbolTypes.thy ===== *)
theory SymbolTypes
  imports PolicyImage
begin

unbundle bit_operations_syntax

text \<open>
  What holds of symbol tables that were read from a file, whatever the file contains: the readers of \<^verbatim>\<open>policydb.c\<close>
  check enough for the tables to be well-formed. \<open>yields r P\<close> says so of a reader; the rules for the combinators follow
  the structure of the readers.
\<close>

section \<open>What a reader yields\<close>

definition yields :: "'a reader \<Rightarrow> ('a \<Rightarrow> bool) \<Rightarrow> bool" where
  "yields r P \<longleftrightarrow> (\<forall>fp x fp'. r fp = Some (x, fp') \<longrightarrow> P x)"

named_theorems yields_intros \<open>rules for yields\<close>

lemma yieldsD: "yields r P \<Longrightarrow> r fp = Some (x, fp') \<Longrightarrow> P x"
  unfolding yields_def by blast

lemma yields_return: "P x \<Longrightarrow> yields (rreturn x) P"
  by (simp add: yields_def rreturn_def)

lemma yields_fail [yields_intros]: "yields rfail P"
  by (simp add: yields_def rfail_def)

lemma yields_bind: "yields r P \<Longrightarrow> (\<And>x. P x \<Longrightarrow> yields (f x) Q) \<Longrightarrow> yields (rbind r f) Q"
  by (fastforce simp: yields_def rbind_def split: option.splits)

lemma yields_any: "(\<And>x. yields (f x) Q) \<Longrightarrow> yields (rbind r f) Q"
  by (rule yields_bind[where P = "\<lambda>_. True"]) (simp_all add: yields_def)

lemma yields_if [yields_intros]: "(b \<Longrightarrow> yields r P) \<Longrightarrow> (\<not> b \<Longrightarrow> yields r' P) \<Longrightarrow> yields (if b then r else r') P"
  by simp

lemma yields_mono: "yields r P \<Longrightarrow> (\<And>x. P x \<Longrightarrow> Q x) \<Longrightarrow> yields r Q"
  by (auto simp: yields_def)

lemma yields_repeat: "yields r P \<Longrightarrow> yields (rrepeat n r) (list_all P)"
proof (induction n)
  case (Suc n)
  show ?case using Suc by (auto intro!: yields_return yields_bind[OF Suc.prems] yields_bind[OF Suc.IH])
qed (simp add: yields_return)

lemma yields_loop: "(\<And>h. I h \<Longrightarrow> yields (r h) I) \<Longrightarrow> I h \<Longrightarrow> yields (read_loop n r h) I"
  by (induction n arbitrary: h) (auto intro: yields_return yields_bind)

lemma yields_chars: "yields (read_chars mok len) cstr"
  by (auto simp: yields_def read_chars_def split: prod.splits if_splits)

lemma yields_str: "yields (str_read mok len) cstr"
  unfolding str_read_def by (intro yields_intros yields_chars)

subsection \<open>Bitmaps\<close>

lemma aligned_mod: "(x :: u32) AND 63 = 0 \<longleftrightarrow> unat x mod 64 = 0"
proof -
  have "x AND 63 = take_bit 6 x" by (simp add: take_bit_eq_mask mask_eq_exp_minus_1)
  then show ?thesis by (simp add: take_bit_eq_mod word_unat_eq_iff unat_mod_distrib)
qed

lemma read_nodes_wf:
  assumes "ebitmap_read_nodes mok n hb l fp = (0, ns, fp')" and "hb AND 63 = 0" and "hb \<noteq> 0"
  shows "(\<forall>m \<in> set ns. ebitmap_node_ok m \<and> (\<forall>p. l = Some p \<longrightarrow> startbit p < startbit m)) \<and>
    sorted_wrt (\<lambda>n m. startbit n < startbit m) ns \<and> length ns = n \<and>
    (ns = [] \<longrightarrow> (\<forall>p. l = Some p \<longrightarrow> startbit p + MAPSIZE = hb)) \<and> (ns \<noteq> [] \<longrightarrow> startbit (last ns) + MAPSIZE = hb)"
  using assms(1)
proof (induction n arbitrary: l fp ns)
  case 0
  then show ?case by (auto split: option.splits if_splits)
next
  case (Suc n)
  obtain start map fp2 ns' where n: "start AND 63 = 0" "start \<le> hb - MAPSIZE" "map \<noteq> 0" "\<forall>p. l = Some p \<longrightarrow> startbit p < start"
    and rest: "ebitmap_read_nodes mok n hb (Some \<lparr>startbit = start, emap = map\<rparr>) fp2 = (0, ns', fp')" and ns: "ns = \<lparr>startbit = start, emap = map\<rparr> # ns'"
    using Suc.prems by (fastforce simp: Let_def not_le not_less split: prod.splits if_splits option.splits)
  have "unat hb \<noteq> 0" using assms(3) by (simp add: word_unat_eq_iff)
  then have "64 \<le> unat hb" using assms(2)[unfolded aligned_mod] by presburger
  then have "unat (hb - 64) = unat hb - 64" by (simp add: unat_sub_if')
  then have "unat start + 64 < 2 ^ 32" using n(2) \<open>64 \<le> unat hb\<close> by (simp add: word_le_nat_alt) (use unat_lt32[of hb] in linarith)
  then have "ebitmap_node_ok \<lparr>startbit = start, emap = map\<rparr>" using n by (simp add: ebitmap_node_ok_def aligned_mod)
  then show ?case using Suc.IH[OF rest] n(4) ns by (auto dest: less_trans)
qed

lemma yields_ebitmap [yields_intros]: "yields (read_ebitmap mok) ebitmap_wf"
proof -
  have "ebitmap_wf e" if read: "ebitmap_read mok fp = (0, e, fp')" for fp e fp'
  proof -
    obtain rc buf fp1 where h: "next_entry fp 12 = (rc, buf, fp1)" by (metis surj_pair)
    let ?hb = "le_word (take 4 (drop 4 buf)) :: u32" and ?n = "le_word (drop 8 buf) :: u32"
    obtain rc2 ns fp2 where n: "ebitmap_read_nodes mok (unat ?n) ?hb None fp1 = (rc2, ns, fp2)" by (metis surj_pair)
    from read consider "e = \<lparr>enode = [], highbit = 0\<rparr>"
      | "rc2 = 0" "?hb \<noteq> 0" "?hb AND 63 = 0" "?n \<noteq> 0" "e = \<lparr>enode = ns, highbit = ?hb\<rparr>"
      by (auto simp: ebitmap_read_def h n Let_def split: if_splits)
    then show ?thesis
    proof cases
      case 1
      then show ?thesis by (simp add: ebitmap_wf_def ebitmap_nodes_wf_def ebitmap_high_def)
    next
      case 2
      note wf = read_nodes_wf[OF n[unfolded 2(1)] 2(3,2)]
      have "ns \<noteq> []" using wf 2(4) by (auto simp: word_unat_eq_iff)
      with wf 2(5) show ?thesis by (simp add: ebitmap_wf_def ebitmap_nodes_wf_def ebitmap_high_def)
    qed
  qed
  then show ?thesis by (auto simp: yields_def read_ebitmap_def split: prod.splits if_splits)
qed

section \<open>Tables\<close>

text \<open>A table that every entry was inserted into: in order, counted, of the given size, with entries of a kind.\<close>

definition typed_table :: "u32 \<Rightarrow> (string \<times> 'd \<Rightarrow> bool) \<Rightarrow> (string, 'd) hashtab option \<Rightarrow> bool" where
  "typed_table sz P t \<longleftrightarrow> (\<exists>h. t = Some h \<and> hashtab_on symcmp h \<and> hash_value h = symhash \<and> hsize h = sz \<and> hashtab_counted h \<and>
     (\<forall>kd \<in> set (hashtab_nodes h). P kd))"

definition typed_symtab :: "u32 \<Rightarrow> (string \<times> 'd \<Rightarrow> bool) \<Rightarrow> 'd symtab \<Rightarrow> bool" where
  "typed_symtab sz P st \<longleftrightarrow> typed_table sz P (table st) \<and> (nprim st = 0 \<longrightarrow> (\<forall>h. table st = Some h \<longrightarrow> hashtab_nodes h = []))"

lemma nodes_in_abs:
  assumes "hashtab_on symcmp h"
  shows "kd \<in> set (hashtab_nodes h) \<longleftrightarrow> hashtab_abs h (fst kd) = Some (snd kd)"
  using sym.nodes_distinct[OF assms] by (cases kd) (simp add: hashtab_abs_def)

lemma single_node:
  assumes "hashtab_on symcmp h" and "hashtab_abs h = [k \<mapsto> d]"
  shows "set (hashtab_nodes h) = {(k, d)}" and "length (hashtab_nodes h) = 1"
proof -
  show nodes: "set (hashtab_nodes h) = {(k, d)}"
    using assms(2) by (auto simp: nodes_in_abs[OF assms(1)] split: if_splits)
  then show "length (hashtab_nodes h) = 1"
    using distinct_card[of "hashtab_nodes h"] sym.nodes_distinct[OF assms(1)] by (simp add: distinct_map)
qed

lemma typed_insert:
  assumes "typed_table sz P t" and "P kd"
  shows "yields (insert_entry mok t kd) (typed_table sz P)"
proof -
  obtain h where h: "t = Some h" "hashtab_on symcmp h" "hash_value h = symhash" "hsize h = sz" "hashtab_counted h"
    "\<forall>kd \<in> set (hashtab_nodes h). P kd" using assms(1) by (auto simp: typed_table_def)
  have "typed_table sz P t'" if ins: "hashtab_insert True (Some h) (fst kd) (snd kd) = (0, t')" for t'
  proof -
    obtain h' where h': "t' = Some h'" "hashtab_on symcmp h'" "hashtab_abs h' = (hashtab_abs h)(fst kd \<mapsto> snd kd)" "hashtab_counted h'"
      using sym.insert_correct[OF h(2), of "fst kd" "snd kd"] ins h(5) by (cases "hashtab_abs h (fst kd)") auto
    moreover have "\<forall>x \<in> set (hashtab_nodes h'). P x"
      using h(6) assms(2) by (auto simp: nodes_in_abs[OF h'(2)] nodes_in_abs[OF h(2)] h'(3) split: if_splits)
    ultimately show ?thesis using insert_keeps[OF ins[unfolded h'(1)]] h(3,4) by (simp add: typed_table_def)
  qed
  moreover have "mok" if "hashtab_insert mok (Some h) (fst kd) (snd kd) = (0, t')" for t'
    using that by (cases mok) (auto simp: hashtab_insert_def Let_def split: option.splits)
  ultimately show ?thesis
    unfolding insert_entry_def h(1) by (auto simp: yields_return yields_fail split: prod.splits)
qed

lemma typed_empty: "0 < sz \<Longrightarrow> typed_table sz P (table (empty_symtab sz))"
proof -
  assume "0 < sz"
  then obtain h :: "(string, 'a) hashtab" where "hashtab_create True symhash symcmp sz = Some h" "hashtab_on symcmp h" "hashtab_abs h = Map.empty"
    using create_correct[of sz symhash symcmp] symhash_less[of sz] by blast
  then show ?thesis
    by (auto simp: typed_table_def empty_symtab_def symtab_init_def hashtab_counted_def hashtab_create_def nodes_in_abs hashtab_nodes_def)
qed

lemma typed_loop:
  assumes "\<And>h. rd h = rbind r (insert_entry mok h)" and "yields r P" and "typed_table sz P t"
  shows "yields (read_loop n rd t) (typed_table sz P)"
  using assms(3) unfolding assms(1)[abs_def] by (intro yields_loop yields_bind[OF assms(2)] typed_insert)

lemma typed_read:
  assumes "\<And>h. rd h = rbind r (insert_entry mok h)" and "yields r P" and "0 < sz"
  shows "yields (read_symtab rd (empty_symtab sz)) (typed_symtab sz P)"
proof -
  have none: "hashtab_nodes h = []" if "table (empty_symtab sz) = Some h" for h :: "(string, 'd) hashtab"
    using that by (auto simp: empty_symtab_def symtab_init_def hashtab_create_def hashtab_nodes_def)
  show ?thesis
    unfolding read_symtab_def
  proof (rule yields_any, rule yields_if)
    fix buf :: "u32 list"
    assume ok: "\<not> (buf ! 1 \<noteq> 0 \<and> buf ! 0 = 0)"
    show "yields (rbind (read_loop (unat (buf ! 1)) rd (table (empty_symtab sz))) (\<lambda>tab. rreturn \<lparr>table = tab, nprim = buf ! 0\<rparr>)) (typed_symtab sz P)"
    proof (cases "buf ! 1 = 0")
      case True
      then show ?thesis using typed_empty[OF assms(3)] none
        by (auto simp: yields_def rbind_def rreturn_def typed_symtab_def)
    next
      case False
      with ok show ?thesis
        by (intro yields_bind[OF typed_loop[OF assms(1,2) typed_empty[OF assms(3)]]] yields_return) (simp add: typed_symtab_def)
    qed
  qed (rule yields_fail)
qed

section \<open>Entries\<close>

definition perms_typed :: "perm_datum symtab \<Rightarrow> bool" where
  "perms_typed st \<longleftrightarrow> typed_table PERM_SYMTAB_SIZE (cstr \<circ> fst) (table st)"

definition common_typed :: "string \<times> common_datum \<Rightarrow> bool" where
  "common_typed kd \<longleftrightarrow> cstr (fst kd) \<and> perms_typed (com_permissions (snd kd))"

text \<open>A constraint whose evaluation stays on its stack, and whose bitmaps are well-formed.\<close>

definition type_set_wf :: "type_set \<Rightarrow> bool" where
  "type_set_wf ts \<longleftrightarrow> ebitmap_wf (ts_types ts) \<and> ebitmap_wf (ts_negset ts)"

definition cons_typed :: "bool \<Rightarrow> constraint_node \<Rightarrow> bool" where
  "cons_typed xt c \<longleftrightarrow> exprs_depth xt (cn_expr c) (-1) = Some 0 \<and>
     (\<forall>e \<in> set (cn_expr c). ebitmap_wf (ce_names e) \<and> (\<exists>ts. ce_type_names e = Some ts \<and> type_set_wf ts))"

definition class_typed :: "(string, common_datum) hashtab option \<Rightarrow> string \<times> class_datum \<Rightarrow> bool" where
  "class_typed commons kd \<longleftrightarrow> cstr (fst kd) \<and> perms_typed (cl_permissions (snd kd)) \<and>
     (case cl_comkey (snd kd) of None \<Rightarrow> cl_comdatum (snd kd) = None
      | Some ck \<Rightarrow> cl_comdatum (snd kd) \<noteq> None \<and> hashtab_search commons ck = cl_comdatum (snd kd)) \<and>
     list_all (cons_typed False) (cl_constraints (snd kd)) \<and> list_all (cons_typed True) (cl_validatetrans (snd kd))"

definition role_typed :: "string \<times> role_datum \<Rightarrow> bool" where
  "role_typed kd \<longleftrightarrow> cstr (fst kd) \<and> ebitmap_wf (r_dominates (snd kd)) \<and> ebitmap_wf (ts_types (r_types (snd kd)))"

definition type_typed :: "string \<times> type_datum \<Rightarrow> bool" where
  "type_typed kd \<longleftrightarrow> cstr (fst kd) \<and> t_flavor (snd kd) \<in> {TYPE_TYPE, TYPE_ATTRIB} \<and> t_types (snd kd) = ebitmap_init"

definition user_typed :: "string \<times> user_datum \<Rightarrow> bool" where
  "user_typed kd \<longleftrightarrow> cstr (fst kd) \<and> ebitmap_wf (u_roles (snd kd)) \<and> range_wf (u_exp_range (snd kd)) \<and> level_wf (u_exp_dfltlevel (snd kd))"

definition bool_typed :: "string \<times> cond_bool_datum \<Rightarrow> bool" where
  "bool_typed kd \<longleftrightarrow> cstr (fst kd) \<and> b_state (snd kd) \<in> {0, 1}"

definition sens_typed :: "string \<times> level_datum \<Rightarrow> bool" where
  "sens_typed kd \<longleftrightarrow> cstr (fst kd) \<and> level_wf (ld_level (snd kd))"

lemma yields_perms:
  "symtab_init mok \<lparr>table = None, nprim = 0\<rparr> PERM_SYMTAB_SIZE = (0, st) \<Longrightarrow> yields (read_loop n (perm_read mok) (table st)) (typed_table PERM_SYMTAB_SIZE (cstr \<circ> fst))"
proof (rule typed_loop[where r = "perm_entry mok" and mok = mok])
  show "yields (perm_entry mok) (cstr \<circ> fst)"
    unfolding perm_entry_def by (intro yields_any yields_bind[OF yields_str] yields_return) simp
  assume "symtab_init mok \<lparr>table = None, nprim = 0\<rparr> PERM_SYMTAB_SIZE = (0, st)"
  then have "st = empty_symtab PERM_SYMTAB_SIZE"
    by (cases mok) (auto simp: empty_symtab_def symtab_init_def hashtab_create_def)
  then show "typed_table PERM_SYMTAB_SIZE (cstr \<circ> fst) (table st)" by (simp add: typed_empty)
qed (simp add: perm_read_def)

lemma yields_common: "yields (common_entry mok) common_typed"
  unfolding common_entry_def
proof (rule yields_any, intro yields_if)
  fix buf :: "u32 list"
  show "yields (case symtab_init mok \<lparr>table = None, nprim = 0\<rparr> PERM_SYMTAB_SIZE of (rc, st) \<Rightarrow>
      if rc \<noteq> 0 then rfail
      else rbind (read_chars mok (buf ! 0)) (\<lambda>key. rbind (read_loop (unat (buf ! 3)) (perm_read mok) (table st)) (\<lambda>tab.
        rreturn (key, \<lparr>com_value = buf ! 1, com_permissions = \<lparr>table = tab, nprim = buf ! 2\<rparr>\<rparr>)))) common_typed"
    by (auto intro!: yields_fail yields_bind[OF yields_chars] yields_bind[OF yields_perms] yields_return
      simp: common_typed_def perms_typed_def split: prod.splits)
qed (rule yields_fail)

lemma yields_type_set: "yields (type_set_read mok) type_set_wf"
  unfolding type_set_read_def
  by (intro yields_bind[OF yields_ebitmap] yields_any yields_return) (simp_all add: type_set_wf_def)

lemma type_set_init_wf: "type_set_wf type_set_init"
  by (simp add: type_set_wf_def type_set_init_def)

lemma yields_cons_names: "yields (read_cons_names mok vers ty) (\<lambda>nt. ebitmap_wf (fst nt) \<and> type_set_wf (snd nt))"
proof -
  have "yields (if vers \<ge> POLICYDB_VERSION_CONSTRAINT_NAMES then type_set_read mok else rreturn type_set_init) type_set_wf"
    by (intro yields_if yields_type_set yields_return) (rule type_set_init_wf)
  then show ?thesis
    unfolding read_cons_names_def
    by (intro yields_if yields_bind[OF yields_ebitmap] yields_bind[where P = type_set_wf] yields_return) (simp_all add: type_set_init_wf)
qed

lemma yields_cons_exprs:
  "yields (read_cons_exprs mok vers xt n depth) (\<lambda>ed. exprs_depth xt (fst ed) depth = Some (snd ed) \<and>
     (\<forall>e \<in> set (fst ed). ebitmap_wf (ce_names e) \<and> (\<exists>ts. ce_type_names e = Some ts \<and> type_set_wf ts)))"
proof (induction n arbitrary: depth mok)
  case (Suc n)
  show ?case
    by (auto intro!: yields_fail yields_any[where r = "read_words 3"] yields_bind[OF yields_cons_names] yields_bind[OF Suc.IH] yields_return
      split: option.splits)
qed (simp add: yields_return)

lemma yields_cons: "yields (read_cons_node mok vers xt) (cons_typed xt)"
  unfolding read_cons_node_def
  by (auto intro!: yields_fail yields_any[where r = "read_words 2"] yields_bind[OF yields_cons_exprs] yields_return simp: cons_typed_def)

lemma yields_class: "yields (class_entry mok vers commons) (class_typed commons)"
proof -
  have com: "yields (read_comkey mok commons n) (\<lambda>c. case fst c of None \<Rightarrow> snd c = None | Some ck \<Rightarrow> snd c \<noteq> None \<and> hashtab_search commons ck = snd c)" for n
    unfolding read_comkey_def by (auto intro!: yields_any[where r = "read_chars _ _"] yields_return yields_fail split: option.splits)
  have vt: "yields (read_validatetrans mok vers) (list_all (cons_typed True))"
    unfolding read_validatetrans_def read_cons_helper_def by (auto intro!: yields_any[where r = "read_words _"] yields_repeat yields_cons yields_return)
  have cs: "yields (read_cons_helper mok vers n False) (list_all (cons_typed False))" for n
    unfolding read_cons_helper_def by (intro yields_repeat yields_cons)
  show ?thesis
    unfolding class_entry_def
    by (auto intro!: yields_any[where r = "read_words _"] yields_fail yields_bind[OF yields_chars] yields_bind[OF com] yields_bind[OF yields_perms]
      yields_bind[OF cs] yields_bind[OF vt] yields_any[where r = "read_defaults _"] yields_return simp: class_typed_def perms_typed_def split: prod.splits)
      (auto split: option.splits)
qed

lemma yields_role: "yields (role_entry mok vers) role_typed"
  unfolding role_entry_def
  by (intro yields_any[where r = "read_words _"] yields_bind[OF yields_str] yields_bind[OF yields_ebitmap] yields_return) (simp add: role_typed_def)

lemma yields_type: "yields (type_entry mok vers) type_typed"
  unfolding type_entry_def
  by (intro yields_any[where r = "read_words _"] yields_bind[OF yields_str] yields_return) (simp add: type_typed_def type_datum_init_def)

lemma range_init_wf [simp]: "level_wf mls_level_init" "range_wf mls_range_init"
  by (simp_all add: level_wf_def mls_level_init_def range_wf_def mls_range_init_def)

lemma cpy_same: "ebitmap_cpy mok e = (0, e') \<Longrightarrow> e' = e"
  by (cases e) (auto simp: ebitmap_cpy_def node_eta split: if_splits)

lemma yields_level: "yields (mls_read_level mok) level_wf"
  unfolding mls_read_level_def
  by (intro yields_any[where r = "read_words _"] yields_bind[OF yields_ebitmap] yields_return) (simp add: level_wf_def)

lemma yields_range: "yields (mls_read_range_helper mok) range_wf"
  unfolding mls_read_range_helper_def Let_def
  by (auto intro!: yields_any[where r = "read_words _"] yields_fail yields_bind[OF yields_ebitmap] yields_return
    simp: range_wf_def level_wf_def dest!: cpy_same split: prod.splits)

lemma yields_user: "yields (user_entry mok vers) user_typed"
proof -
  have "yields (if vers \<ge> POLICYDB_VERSION_MLS then rbind (mls_read_range_helper mok) (\<lambda>r. rbind (mls_read_level mok) (\<lambda>l. rreturn (r, l)))
      else rreturn (mls_range_init, mls_level_init)) (\<lambda>rl. range_wf (fst rl) \<and> level_wf (snd rl))"
    by (intro yields_if yields_bind[OF yields_range] yields_bind[OF yields_level] yields_return) simp_all
  then show ?thesis
    unfolding user_entry_def
    by (intro yields_any[where r = "read_words _"] yields_bind[OF yields_str] yields_bind[OF yields_ebitmap] yields_bind[where r = "if _ then _ else _"] yields_return)
      (auto simp: user_typed_def)
qed

lemma yields_bool: "yields (cond_bool_entry mok) bool_typed"
  unfolding cond_bool_entry_def
  by (intro yields_any[where r = "read_words _"] yields_if yields_fail yields_bind[OF yields_str] yields_return) (auto simp: bool_typed_def)

lemma yields_sens: "yields (sens_entry mok) sens_typed"
  unfolding sens_entry_def
  by (intro yields_any[where r = "read_words _"] yields_bind[OF yields_str] yields_bind[OF yields_level] yields_return) (simp add: sens_typed_def)

lemma yields_cat: "yields (cat_entry mok) (cstr \<circ> fst)"
  unfolding cat_entry_def by (intro yields_any[where r = "read_words _"] yields_bind[OF yields_str] yields_return) simp

section \<open>All symbol tables\<close>

lemma yields_roles: "yields (read_symtab (role_read mok vers) (sy_roles init_symtabs)) (\<lambda>st. typed_table 16 role_typed (table st))"
proof -
  obtain h0 where h0: "sy_roles init_symtabs = \<lparr>table = Some h0, nprim = 1\<rparr>" "hashtab_on symcmp h0" "hashtab_abs h0 = [OBJECT_R \<mapsto> object_r]"
    "nel h0 = 1" "hash_value h0 = symhash" "hsize h0 = 16" by (rule init_roles)
  have "typed_table 16 role_typed (Some h0)"
    using h0 single_node[OF h0(2,3)] by (simp add: typed_table_def hashtab_counted_def role_typed_def object_r_def OBJECT_R_def cstr_def type_set_init_def)
  moreover have "yields (role_read mok vers h) (typed_table 16 role_typed)" if "typed_table 16 role_typed h" for h
    unfolding role_read_def using that by (intro yields_bind[OF yields_role] yields_if yields_fail yields_return typed_insert)
  ultimately show ?thesis
    unfolding read_symtab_def h0(1)
    by (intro yields_any[where r = "read_words _"] yields_if yields_fail yields_bind[OF yields_loop] yields_return) auto
qed

definition typed_symtabs :: "u32 \<Rightarrow> symbol_tables \<Rightarrow> bool" where
  "typed_symtabs vers s \<longleftrightarrow> typed_symtab 2 common_typed (sy_commons s) \<and> typed_symtab 32 (class_typed (table (sy_commons s))) (sy_classes s) \<and>
     typed_table 16 role_typed (table (sy_roles s)) \<and> typed_symtab 512 type_typed (sy_types s) \<and> typed_symtab 128 user_typed (sy_users s) \<and>
     typed_symtab 16 bool_typed (sy_bools s) \<and> typed_symtab 16 sens_typed (sy_levels s) \<and> typed_symtab 16 (cstr \<circ> fst) (sy_cats s)"

lemma typed_init: "0 < sz \<Longrightarrow> typed_symtab sz P (empty_symtab sz)"
  by (auto simp: typed_symtab_def typed_empty) (auto simp: empty_symtab_def symtab_init_def hashtab_create_def hashtab_nodes_def)

lemma yields_symtabs: "yields (read_symtabs mok vers init_symtabs) (typed_symtabs vers)"
proof -
  note rd = typed_read[where mok = mok]
  have c: "yields (read_symtab (common_read mok) (empty_symtab 2)) (typed_symtab 2 common_typed)"
    by (rule rd[OF common_read_def yields_common]) simp
  show ?thesis
    unfolding read_symtabs_def init_tables
    by (intro yields_bind[OF c] yields_bind[OF rd[OF class_read_def yields_class]] yields_bind[OF yields_roles]
        yields_bind[OF rd[OF type_read_def yields_type]] yields_bind[OF rd[OF user_read_def yields_user]]
        yields_bind[OF yields_if[OF rd[OF cond_read_bool_def yields_bool] yields_return[where P = "typed_symtab 16 bool_typed"]]]
        yields_bind[OF yields_if[OF rd[OF sens_read_def yields_sens] yields_return[where P = "typed_symtab 16 sens_typed"]]]
        yields_bind[OF yields_if[OF rd[OF cat_read_def yields_cat] yields_return[where P = "typed_symtab 16 (cstr \<circ> fst)"]]] yields_return)
      (simp_all add: typed_symtabs_def typed_init)
qed

lemma typed_search:
  assumes "typed_table sz P t" and "hashtab_search t k = Some d"
  shows "P (k, d)"
  using assms sym.search_correct nodes_in_abs by (fastforce simp: typed_table_def)

lemma class_cons_typed:
  assumes "typed_symtabs vers s" and "hashtab_search (table (sy_classes s)) k = Some cl" and "c \<in> set (cl_constraints cl)"
  shows "cons_typed False c"
  using typed_search[OF _ assms(2), of 32 "class_typed (table (sy_commons s))"] assms(1,3)
  by (simp add: typed_symtabs_def typed_symtab_def class_typed_def list_all_iff)

end
