(* ===== verification/ContextFile.thy ===== *)
theory ContextFile
  imports SymbolTypes
begin

unbundle bit_operations_syntax

text \<open>
  The sections of the image that hold security contexts: object contexts, contexts of generated file systems, and range
  transitions (\<^verbatim>\<open>libsepol/src/policydb.c\<close>, \<^verbatim>\<open>write.c\<close>), with the validity of contexts (\<^verbatim>\<open>context.c\<close>, \<^verbatim>\<open>mls.c\<close>) that
  reading checks. The platform is SELinux.
\<close>

section \<open>Definitions\<close>

abbreviation (input) POLICYDB_VERSION_IPV6 :: u32 where "POLICYDB_VERSION_IPV6 \<equiv> 17"
abbreviation (input) POLICYDB_VERSION_RANGETRANS :: u32 where "POLICYDB_VERSION_RANGETRANS \<equiv> 21"
abbreviation (input) POLICYDB_VERSION_INFINIBAND :: u32 where "POLICYDB_VERSION_INFINIBAND \<equiv> 31"

subsection \<open>Valid contexts\<close>

text \<open>
  What the checks read of the policy: the arrays \<^verbatim>\<open>role_val_to_struct\<close> and \<^verbatim>\<open>user_val_to_struct\<close> (a user with its cache of
  roles), the number of types and categories, the levels by name and by value.
\<close>

record context_db =
  cx_mls :: bool
  cx_roles :: "role_datum option list"
  cx_users :: "(user_datum \<times> ebitmap) option list"
  cx_types :: u32
  cx_levels :: "level_datum symtab"
  cx_sens_names :: "string option list"
  cx_cats :: u32

text \<open>The categories of one of the levels: each bit must be one of the sensitivity.\<close>

definition level_isvalid :: "context_db \<Rightarrow> mls_level \<Rightarrow> bool" where
  "level_isvalid p l =
     (if sens l = 0 \<or> unat (sens l) > length (cx_sens_names p) then False
      else case cx_sens_names p ! unat (sens l - 1) of None \<Rightarrow> False
      | Some key \<Rightarrow>
          (case hashtab_search (table (cx_levels p)) key of None \<Rightarrow> False
           | Some d \<Rightarrow> list_all (\<lambda>i. \<not> i > cx_cats p \<and> ebitmap_get_bit (cat (ld_level d)) i) (ebitmap_for_each_bit (cat l))))"

definition mls_context_isvalid :: "context_db \<Rightarrow> context_struct \<Rightarrow> bool" where
  "mls_context_isvalid p c =
     (if \<not> cx_mls p then True
      else if \<not> mls_level_dom (level1 (c_range c)) (level0 (c_range c)) then False
      else if \<not> level_isvalid p (level0 (c_range c)) \<or> \<not> level_isvalid p (level1 (c_range c)) then False
      else if c_role c = OBJECT_R_VAL then True
      else if c_user c = 0 \<or> unat (c_user c) > length (cx_users p) then False
      else case cx_users p ! unat (c_user c - 1) of None \<Rightarrow> False
           | Some (d, _) \<Rightarrow> mls_range_contains (u_exp_range d) (c_range c))"

definition context_is_valid :: "context_db \<Rightarrow> context_struct \<Rightarrow> bool" where
  "context_is_valid p c =
     (if c_role c = 0 \<or> unat (c_role c) > length (cx_roles p) then False
      else if c_user c = 0 \<or> unat (c_user c) > length (cx_users p) then False
      else if c_type c = 0 \<or> c_type c > cx_types p then False
      else if c_role c \<noteq> OBJECT_R_VAL \<and>
        (case cx_roles p ! unat (c_role c - 1) of None \<Rightarrow> True | Some r \<Rightarrow> \<not> ebitmap_get_bit (r_cache r) (c_type c - 1)) then False
      else if c_role c \<noteq> OBJECT_R_VAL \<and>
        (case cx_users p ! unat (c_user c - 1) of None \<Rightarrow> True | Some (_, rs) \<Rightarrow> \<not> ebitmap_get_bit rs (c_role c - 1)) then False
      else mls_context_isvalid p c)"

definition context_read_and_validate :: "bool \<Rightarrow> u32 \<Rightarrow> context_db \<Rightarrow> context_struct reader" where
  "context_read_and_validate mok vers p =
     rbind (read_words 3) (\<lambda>buf.
     rbind (if vers \<ge> POLICYDB_VERSION_MLS then mls_read_range_helper mok else rreturn mls_range_init) (\<lambda>r.
       let c = \<lparr>c_user = buf ! 0, c_role = buf ! 1, c_type = buf ! 2, c_range = r\<rparr> in
       if \<not> context_is_valid p c then rfail else rreturn c))"

definition context_write :: "u32 \<Rightarrow> context_struct \<Rightarrow> writer" where
  "context_write vers c =
     wseq (put_words [c_user c, c_role c, c_type c])
       (if vers \<ge> POLICYDB_VERSION_MLS then mls_write_range_helper (c_range c) else wskip)"

subsection \<open>Object contexts\<close>

text \<open>
  \<^verbatim>\<open>ocontext_t\<close>: the members of its unions that the kinds use. Addresses and the subnet prefix are kept in network order,
  as the words they occupy.
\<close>

datatype ocontext =
    OconIsid (ocon_sid: u32) (ocon_ctx: context_struct)
  | OconName (ocon_name: string) (ocon_ctx: context_struct) (ocon_ctx1: context_struct)
  | OconPort (ocon_protocol: u8) (ocon_low: "16 word") (ocon_high: "16 word") (ocon_ctx: context_struct)
  | OconNode (ocon_addr: "u32 list") (ocon_mask: "u32 list") (ocon_ctx: context_struct)
  | OconFsuse (ocon_behavior: u32) (ocon_name: string) (ocon_ctx: context_struct)
  | OconIbpkey (ocon_subnet: "u32 list") (ocon_low: "16 word") (ocon_high: "16 word") (ocon_ctx: context_struct)
  | OconIbendport (ocon_name: string) (ocon_port: u8) (ocon_ctx: context_struct)

definition ocontext_entry :: "bool \<Rightarrow> u32 \<Rightarrow> context_db \<Rightarrow> nat \<Rightarrow> ocontext reader" where
  "ocontext_entry mok vers p i =
     (let ctx = context_read_and_validate mok vers p in
      if \<not> mok then rfail
      else if i = 0 then rbind (read_words 1) (\<lambda>buf. rbind ctx (\<lambda>c. rreturn (OconIsid (buf ! 0) c)))
      else if i = 1 \<or> i = 3 then
        rbind (read_words 1) (\<lambda>buf.
          if zero_or_saturated (buf ! 0) \<or> buf ! 0 > 63 then rfail
          else rbind (read_chars mok (buf ! 0)) (\<lambda>name. rbind ctx (\<lambda>c0. rbind ctx (\<lambda>c1. rreturn (OconName name c0 c1)))))
      else if i = 2 then
        rbind (read_words 3) (\<lambda>buf. rbind ctx (\<lambda>c. rreturn (OconPort (ucast (buf ! 0)) (ucast (buf ! 1)) (ucast (buf ! 2)) c)))
      else if i = 4 then
        rbind (read_words 2) (\<lambda>buf. rbind ctx (\<lambda>c. rreturn (OconNode [buf ! 0] [buf ! 1] c)))
      else if i = 5 then
        rbind (read_words 2) (\<lambda>buf.
          if zero_or_saturated (buf ! 1) then rfail
          else rbind (read_chars mok (buf ! 1)) (\<lambda>name. rbind ctx (\<lambda>c. rreturn (OconFsuse (buf ! 0) name c))))
      else if i = 6 then
        rbind (read_words 8) (\<lambda>buf. rbind ctx (\<lambda>c. rreturn (OconNode (take 4 buf) (drop 4 buf) c)))
      else if i = 7 then
        rbind (read_words 4) (\<lambda>buf.
          if buf ! 2 > 0xFFFF \<or> buf ! 3 > 0xFFFF then rfail
          else rbind ctx (\<lambda>c. rreturn (OconIbpkey (take 2 buf) (ucast (buf ! 2)) (ucast (buf ! 3)) c)))
      else if i = 8 then
        rbind (read_words 2) (\<lambda>buf.
          if buf ! 0 = 0 \<or> buf ! 0 > 63 then rfail
          else rbind (read_chars mok (buf ! 0)) (\<lambda>name. rbind ctx (\<lambda>c. rreturn (OconIbendport name (ucast (buf ! 1)) c))))
      else rfail)"

text \<open>The number of kinds a version has: \<^verbatim>\<open>ocon_num\<close> of \<^verbatim>\<open>policydb_compat\<close>.\<close>

definition ocon_num :: "u32 \<Rightarrow> nat" where
  "ocon_num vers = (if vers < POLICYDB_VERSION_IPV6 then 6 else if vers < POLICYDB_VERSION_INFINIBAND then 7 else 9)"

primrec ocontext_kinds :: "bool \<Rightarrow> u32 \<Rightarrow> context_db \<Rightarrow> nat list \<Rightarrow> ocontext list list reader" where
  "ocontext_kinds mok vers p [] = rreturn []"
| "ocontext_kinds mok vers p (i # is) =
     rbind (read_words 1) (\<lambda>buf. rbind (rrepeat (unat (buf ! 0)) (ocontext_entry mok vers p i)) (\<lambda>cs.
       rbind (ocontext_kinds mok vers p is) (\<lambda>rest. rreturn (cs # rest))))"

definition ocontext_read_selinux :: "bool \<Rightarrow> u32 \<Rightarrow> context_db \<Rightarrow> ocontext list list reader" where
  "ocontext_read_selinux mok vers p = ocontext_kinds mok vers p [0..<ocon_num vers]"

definition write_ocontext :: "u32 \<Rightarrow> ocontext \<Rightarrow> writer" where
  "write_ocontext vers oc =
     (case oc of
        OconIsid s c \<Rightarrow> wseq (put_words [s]) (context_write vers c)
      | OconName n c0 c1 \<Rightarrow> wseq (put_words [strlen32 n]) (wseq (put_string n) (wseq (context_write vers c0) (context_write vers c1)))
      | OconPort pr lo hi c \<Rightarrow> wseq (put_words [ucast pr, ucast lo, ucast hi]) (context_write vers c)
      | OconNode a m c \<Rightarrow> wseq (put_words (a @ m)) (context_write vers c)
      | OconFsuse b n c \<Rightarrow> wseq (put_words [b, strlen32 n]) (wseq (put_string n) (context_write vers c))
      | OconIbpkey s lo hi c \<Rightarrow> wseq (put_words (s @ [ucast lo, ucast hi])) (context_write vers c)
      | OconIbendport n pt c \<Rightarrow> wseq (put_words [strlen32 n, ucast pt]) (wseq (put_string n) (context_write vers c)))"

definition ocontext_write_selinux :: "u32 \<Rightarrow> ocontext list list \<Rightarrow> writer" where
  "ocontext_write_selinux vers ocs =
     wlist (\<lambda>cs. wseq (put_words [of_nat (length cs)]) (wlist (write_ocontext vers) cs)) (take (ocon_num vers) ocs)"

subsection \<open>Generated file systems\<close>

record genfs_context =
  gc_name :: string
  gc_sclass :: u32
  gc_context :: context_struct

record genfs =
  fstype :: string
  genfs_head :: "genfs_context list"

text \<open>The list of file systems is in the order of their names.\<close>

fun genfs_insert :: "genfs \<Rightarrow> genfs list \<Rightarrow> genfs list option" where
  "genfs_insert new [] = Some [new]"
| "genfs_insert new (g # gs) =
     (if strcmp (fstype new) (fstype g) = 0 then None
      else if strcmp (fstype new) (fstype g) < 0 then Some (new # g # gs)
      else map_option ((#) g) (genfs_insert new gs))"

text \<open>Longer paths come first; a path may not occur twice for the same class, or for any class.\<close>

definition genfs_clash :: "genfs_context \<Rightarrow> genfs_context \<Rightarrow> bool" where
  "genfs_clash new c \<longleftrightarrow> gc_name new = gc_name c \<and> (gc_sclass c = 0 \<or> gc_sclass new = 0 \<or> gc_sclass new = gc_sclass c)"

fun genfs_place :: "genfs_context \<Rightarrow> genfs_context list \<Rightarrow> genfs_context list option" where
  "genfs_place new [] = Some [new]"
| "genfs_place new (c # cs) =
     (if genfs_clash new c then None
      else if length (gc_name new) > length (gc_name c) then Some (new # c # cs)
      else map_option ((#) c) (genfs_place new cs))"

definition genfs_context_read :: "bool \<Rightarrow> u32 \<Rightarrow> context_db \<Rightarrow> genfs_context reader" where
  "genfs_context_read mok vers p =
     (if \<not> mok then rfail
      else rbind (read_words 1) (\<lambda>buf. rbind (str_read mok (buf ! 0)) (\<lambda>name.
        rbind (read_words 1) (\<lambda>buf. rbind (context_read_and_validate mok vers p) (\<lambda>c.
          rreturn \<lparr>gc_name = name, gc_sclass = buf ! 0, gc_context = c\<rparr>)))))"

definition genfs_contexts_read :: "bool \<Rightarrow> u32 \<Rightarrow> context_db \<Rightarrow> nat \<Rightarrow> genfs_context list reader" where
  "genfs_contexts_read mok vers p n =
     read_loop n (\<lambda>cs. rbind (genfs_context_read mok vers p) (\<lambda>new. case genfs_place new cs of None \<Rightarrow> rfail | Some cs \<Rightarrow> rreturn cs)) []"

definition genfs_entry_read :: "bool \<Rightarrow> u32 \<Rightarrow> context_db \<Rightarrow> genfs list \<Rightarrow> genfs list reader" where
  "genfs_entry_read mok vers p gs =
     rbind (read_words 1) (\<lambda>buf. rbind (str_read mok (buf ! 0)) (\<lambda>name.
       if genfs_insert \<lparr>fstype = name, genfs_head = []\<rparr> gs = None then rfail
       else rbind (read_words 1) (\<lambda>buf. rbind (genfs_contexts_read mok vers p (unat (buf ! 0))) (\<lambda>cs.
         case genfs_insert \<lparr>fstype = name, genfs_head = cs\<rparr> gs of None \<Rightarrow> rfail | Some gs \<Rightarrow> rreturn gs))))"

definition genfs_read :: "bool \<Rightarrow> u32 \<Rightarrow> context_db \<Rightarrow> genfs list reader" where
  "genfs_read mok vers p = rbind (read_words 1) (\<lambda>buf. read_loop (unat (buf ! 0)) (genfs_entry_read mok vers p) [])"

definition write_genfs_context :: "u32 \<Rightarrow> genfs_context \<Rightarrow> writer" where
  "write_genfs_context vers c =
     wseq (put_words [strlen32 (gc_name c)]) (wseq (put_string (gc_name c)) (wseq (put_words [gc_sclass c]) (context_write vers (gc_context c))))"

definition write_genfs :: "u32 \<Rightarrow> genfs \<Rightarrow> writer" where
  "write_genfs vers g =
     wseq (put_words [strlen32 (fstype g)]) (wseq (put_string (fstype g))
       (wseq (put_words [of_nat (length (genfs_head g))]) (wlist (write_genfs_context vers) (genfs_head g))))"

definition genfs_write :: "u32 \<Rightarrow> genfs list \<Rightarrow> writer" where
  "genfs_write vers gs = wseq (put_words [of_nat (length gs)]) (wlist (write_genfs vers) gs)"

subsection \<open>Range transitions\<close>

record range_trans =
  rg_source :: u32
  rg_target :: u32
  rg_class :: u32

definition rangetr_hash :: "u32 \<Rightarrow> range_trans \<Rightarrow> u32" where
  "rangetr_hash sz k = (rg_source k + push_bit 3 (rg_target k) + push_bit 5 (rg_class k)) AND (sz - 1)"

definition rangetr_cmp :: "range_trans \<Rightarrow> range_trans \<Rightarrow> int" where
  "rangetr_cmp a b =
     (let v = sint (rg_source a - rg_source b) in if v \<noteq> 0 then v
      else let v = sint (rg_target a - rg_target b) in if v \<noteq> 0 then v
      else sint (rg_class a - rg_class b))"

definition range_entry :: "bool \<Rightarrow> u32 \<Rightarrow> (range_trans \<times> mls_range) reader" where
  "range_entry mok vers =
     (if \<not> mok then rfail
      else rbind (read_words 2) (\<lambda>buf.
        rbind (if vers \<ge> POLICYDB_VERSION_RANGETRANS then read_words 1 else rreturn [SECCLASS_PROCESS]) (\<lambda>c.
        rbind (mls_read_range_helper mok) (\<lambda>r. rreturn (\<lparr>rg_source = buf ! 0, rg_target = buf ! 1, rg_class = c ! 0\<rparr>, r)))))"

definition range_read :: "bool \<Rightarrow> u32 \<Rightarrow> (range_trans, mls_range) hashtab option \<Rightarrow> (range_trans, mls_range) hashtab option reader" where
  "range_read mok vers h =
     rbind (read_words 1) (\<lambda>buf. read_loop (unat (buf ! 0)) (\<lambda>h. rbind (range_entry mok vers) (insert_entry mok h)) h)"

text \<open>Versions without a class in the rule only keep those for processes.\<close>

definition range_kept :: "u32 \<Rightarrow> range_trans \<Rightarrow> bool" where
  "range_kept vers rt \<longleftrightarrow> vers \<ge> POLICYDB_VERSION_RANGETRANS \<or> rg_class rt = SECCLASS_PROCESS"

definition range_write_helper :: "u32 \<Rightarrow> range_trans \<Rightarrow> mls_range \<Rightarrow> writer" where
  "range_write_helper vers rt r =
     (if \<not> range_kept vers rt then wskip
      else wseq (put_words [rg_source rt, rg_target rt])
        (wseq (if vers \<ge> POLICYDB_VERSION_RANGETRANS then put_words [rg_class rt] else wskip) (mls_write_range_helper r)))"

definition range_write :: "u32 \<Rightarrow> (range_trans, mls_range) hashtab option \<Rightarrow> writer" where
  "range_write vers h =
     wseq (put_words [of_nat (length (filter (range_kept vers \<circ> fst) (case h of None \<Rightarrow> [] | Some h \<Rightarrow> hashtab_nodes h)))])
       (hashtab_map (range_write_helper vers) h)"

section \<open>Images of contexts\<close>

definition context_ok :: "u32 \<Rightarrow> context_db \<Rightarrow> context_struct \<Rightarrow> bool" where
  "context_ok vers p c \<longleftrightarrow> context_is_valid p c \<and>
     (if vers \<ge> POLICYDB_VERSION_MLS then range_wf (c_range c) else c_range c = mls_range_init)"

definition context_image :: "u32 \<Rightarrow> context_struct \<Rightarrow> u8 list" where
  "context_image vers c = words_image [c_user c, c_role c, c_type c] @ (if vers \<ge> POLICYDB_VERSION_MLS then range_image (c_range c) else [])"

lemma emits_context [emits_intros]: "context_ok vers p c \<Longrightarrow> emits (context_write vers c) (context_image vers c)"
  unfolding context_write_def context_image_def context_ok_def
  by (intro emits_intros range_file.write_image) auto

interpretation context_file: codec "context_ok vers p" "context_image vers" "context_write vers" "context_read_and_validate True vers p"
proof
  fix c
  assume c: "context_ok vers p c"
  then show "emits (context_write vers c) (context_image vers c)" by (rule emits_context)
  from c show "reads (context_read_and_validate True vers p) (context_image vers c) c"
    by (cases c) (auto simp: Let_def reads_def context_read_and_validate_def context_image_def context_ok_def read_simps readsD[OF range_file.read_image] split: if_splits)
next
  show "extends (context_read_and_validate True vers p)"
    unfolding context_read_and_validate_def Let_def by (intro extends_intros range_file.read_extends)
qed

text \<open>Whatever is read is valid.\<close>

lemma yields_context: "yields (context_read_and_validate mok vers p) (\<lambda>c. context_is_valid p c \<and> range_wf (c_range c))"
  unfolding context_read_and_validate_def Let_def
  by (intro yields_any[where r = "read_words _"] yields_bind[where P = range_wf] yields_if yields_range yields_return yields_fail) simp_all

subsection \<open>Object contexts\<close>

definition ocontext_ok :: "u32 \<Rightarrow> context_db \<Rightarrow> nat \<Rightarrow> ocontext \<Rightarrow> bool" where
  "ocontext_ok vers p i oc \<longleftrightarrow> context_ok vers p (ocon_ctx oc) \<and>
     (case oc of
        OconIsid _ _ \<Rightarrow> i = 0
      | OconName n _ c1 \<Rightarrow> (i = 1 \<or> i = 3) \<and> symbol_name n \<and> length n \<le> 63 \<and> context_ok vers p c1
      | OconPort _ _ _ _ \<Rightarrow> i = 2
      | OconNode a m _ \<Rightarrow> i = 4 \<and> length a = 1 \<and> length m = 1 \<or> i = 6 \<and> length a = 4 \<and> length m = 4
      | OconFsuse _ n _ \<Rightarrow> i = 5 \<and> symbol_name n
      | OconIbpkey s _ _ _ \<Rightarrow> i = 7 \<and> length s = 2
      | OconIbendport n _ _ \<Rightarrow> i = 8 \<and> symbol_name n \<and> length n \<le> 63)"

definition ocontext_image :: "u32 \<Rightarrow> ocontext \<Rightarrow> u8 list" where
  "ocontext_image vers oc =
     (case oc of
        OconIsid s c \<Rightarrow> words_image [s] @ context_image vers c
      | OconName n c0 c1 \<Rightarrow> words_image [strlen32 n] @ string_image n @ context_image vers c0 @ context_image vers c1
      | OconPort pr lo hi c \<Rightarrow> words_image [ucast pr, ucast lo, ucast hi] @ context_image vers c
      | OconNode a m c \<Rightarrow> words_image (a @ m) @ context_image vers c
      | OconFsuse b n c \<Rightarrow> words_image [b, strlen32 n] @ string_image n @ context_image vers c
      | OconIbpkey s lo hi c \<Rightarrow> words_image (s @ [ucast lo, ucast hi]) @ context_image vers c
      | OconIbendport n pt c \<Rightarrow> words_image [strlen32 n, ucast pt] @ string_image n @ context_image vers c)"

lemma short_len: "length n \<le> 63 \<Longrightarrow> \<not> (63 :: u32) < strlen32 n"
  by (simp add: word_less_nat_alt unat_of_nat32)

lemma narrow_bound: "\<not> (0xFFFF :: u32) < ucast (w :: u16)"
proof -
  have "unat (ucast w :: u32) < 2 ^ 16" using unsigned_less[of w, where ?'a = nat] by (simp add: unsigned_ucast_eq take_bit_eq_mod)
  then show ?thesis by (simp add: word_less_nat_alt)
qed

lemma narrow_back: "ucast (ucast (w :: u16) :: u32) = w" "ucast (ucast (b :: u8) :: u32) = b"
  by (simp_all add: ucast_back) (rule bit_word_eqI, simp add: bit_simps)

interpretation ocontext_file: codec "ocontext_ok vers p i" "ocontext_image vers" "write_ocontext vers" "ocontext_entry True vers p i"
proof
  fix oc
  assume ok: "ocontext_ok vers p i oc"
  then show "emits (write_ocontext vers oc) (ocontext_image vers oc)"
    by (cases oc) (auto simp: ocontext_ok_def write_ocontext_def ocontext_image_def intro!: emits_seq emits_words emits_string emits_context)
  have ctx: "context_read_and_validate True vers p (context_image vers c @ rest) = Some (c, rest)" if "context_ok vers p c" for c rest
    by (rule readsD[OF context_file.read_image[OF that]])
  show "reads (ocontext_entry True vers p i) (ocontext_image vers oc) oc"
  proof (cases oc)
    case (OconName n c0 c1)
    with ok show ?thesis
      using name_len[of n] short_len[of n]
      by (auto simp: reads_def ocontext_ok_def ocontext_entry_def ocontext_image_def Let_def symbol_name_def read_simps ctx)
  next
    case (OconNode a m c)
    with ok have "words_image (a @ m) = words_image (a @ m)" "length (a @ m) = (if i = 4 then 2 else 8)" by (auto simp: ocontext_ok_def)
    with OconNode ok show ?thesis
      by (auto simp: reads_def ocontext_ok_def ocontext_entry_def ocontext_image_def Let_def length_Suc_conv numeral_eq_Suc read_simps ctx)
  next
    case (OconFsuse b n c)
    with ok show ?thesis
      using name_len[of n]
      by (auto simp: reads_def ocontext_ok_def ocontext_entry_def ocontext_image_def Let_def symbol_name_def read_simps ctx)
  next
    case (OconIbendport n pt c)
    with ok show ?thesis
      using name_len[of n] short_len[of n]
      by (auto simp: reads_def ocontext_ok_def ocontext_entry_def ocontext_image_def Let_def symbol_name_def read_simps ctx narrow_back zero_or_saturated_def)
  next
    case (OconIbpkey s lo hi c)
    with ok show ?thesis
      by (auto simp: reads_def ocontext_ok_def ocontext_entry_def ocontext_image_def Let_def length_Suc_conv numeral_eq_Suc read_simps ctx narrow_back narrow_bound)
  qed (use ok in \<open>auto simp: reads_def ocontext_ok_def ocontext_entry_def ocontext_image_def Let_def read_simps ctx narrow_back\<close>)
next
  show "extends (ocontext_entry True vers p i)"
    unfolding ocontext_entry_def Let_def by (intro extends_intros context_file.read_extends)
qed

definition ocontexts_ok :: "u32 \<Rightarrow> context_db \<Rightarrow> ocontext list list \<Rightarrow> bool" where
  "ocontexts_ok vers p ocs \<longleftrightarrow> length ocs = ocon_num vers \<and>
     (\<forall>i < length ocs. length (ocs ! i) < 4294967296 \<and> (\<forall>oc \<in> set (ocs ! i). ocontext_ok vers p i oc))"

definition kind_image :: "u32 \<Rightarrow> ocontext list \<Rightarrow> u8 list" where
  "kind_image vers cs = words_image [of_nat (length cs)] @ concat (map (ocontext_image vers) cs)"

lemma kinds_read:
  "\<forall>i < length ocs. length (ocs ! i) < 4294967296 \<and> (\<forall>oc \<in> set (ocs ! i). ocontext_ok vers p (n + i) oc) \<Longrightarrow>
     reads (ocontext_kinds True vers p [n..<n + length ocs]) (concat (map (kind_image vers) ocs)) ocs"
proof (induction ocs arbitrary: n)
  case (Cons cs ocs)
  have cs: "length cs < 4294967296" "\<forall>oc \<in> set cs. ocontext_ok vers p n oc" using Cons.prems[rule_format, of 0] by auto
  have rest: "reads (ocontext_kinds True vers p [Suc n..<Suc n + length ocs]) (concat (map (kind_image vers) ocs)) ocs"
  proof (rule Cons.IH, intro allI impI)
    fix i assume "i < length ocs"
    then show "length (ocs ! i) < 4294967296 \<and> (\<forall>oc \<in> set (ocs ! i). ocontext_ok vers p (Suc n + i) oc)"
      using Cons.prems[rule_format, of "Suc i"] by simp
  qed
  have list: "reads (rrepeat (unat (of_nat (length cs) :: u32)) (ocontext_entry True vers p n)) (concat (map (ocontext_image vers) cs)) cs"
    using cs by (intro ocontext_file.list_reads) (simp_all add: unat_of_nat32)
  have "[n..<n + length (cs # ocs)] = n # [Suc n..<Suc n + length ocs]" by (simp add: upt_conv_Cons del: upt_Suc)
  with rest show ?case
    by (simp add: kind_image_def[of vers cs] reads_def read_simps readsD[OF list] readsD[OF rest] del: upt_Suc)
qed (simp add: reads_return)

lemma extends_kinds: "extends (ocontext_kinds True vers p is)"
  by (induction "is") (auto intro!: extends_intros ocontext_file.read_extends)

interpretation ocontexts_file: codec "ocontexts_ok vers p" "\<lambda>ocs. concat (map (kind_image vers) ocs)" "ocontext_write_selinux vers" "ocontext_read_selinux True vers p"
proof
  fix ocs
  assume ok: "ocontexts_ok vers p ocs"
  show "emits (ocontext_write_selinux vers ocs) (concat (map (kind_image vers) ocs))"
    unfolding ocontext_write_selinux_def
  proof (subst take_all)
    show "emits (wlist (\<lambda>cs. wseq (put_words [of_nat (length cs)]) (wlist (write_ocontext vers) cs)) ocs) (concat (map (kind_image vers) ocs))"
      unfolding kind_image_def
    proof (intro emits_list emits_seq emits_words)
      fix cs oc assume "cs \<in> set ocs" and oc: "oc \<in> set cs"
      then obtain i where "i < length ocs" "cs = ocs ! i" by (auto simp: in_set_conv_nth)
      then show "emits (write_ocontext vers oc) (ocontext_image vers oc)"
        using ok oc by (intro ocontext_file.write_image[where p = p and i = i]) (simp add: ocontexts_ok_def)
    qed
  qed (use ok in \<open>simp add: ocontexts_ok_def\<close>)
  show "reads (ocontext_read_selinux True vers p) (concat (map (kind_image vers) ocs)) ocs"
    unfolding ocontext_read_selinux_def using ok kinds_read[of ocs vers p 0] by (simp add: ocontexts_ok_def)
next
  show "extends (ocontext_read_selinux True vers p)" unfolding ocontext_read_selinux_def by (rule extends_kinds)
qed

subsection \<open>Generated file systems\<close>

definition genfs_context_ok :: "u32 \<Rightarrow> context_db \<Rightarrow> genfs_context \<Rightarrow> bool" where
  "genfs_context_ok vers p c \<longleftrightarrow> symbol_name (gc_name c) \<and> context_ok vers p (gc_context c)"

definition genfs_context_image :: "u32 \<Rightarrow> genfs_context \<Rightarrow> u8 list" where
  "genfs_context_image vers c = words_image [strlen32 (gc_name c)] @ string_image (gc_name c) @ words_image [gc_sclass c] @ context_image vers (gc_context c)"

interpretation genfs_context_file: codec "genfs_context_ok vers p" "genfs_context_image vers" "write_genfs_context vers" "genfs_context_read True vers p"
proof
  fix c
  assume ok: "genfs_context_ok vers p c"
  then show "emits (write_genfs_context vers c) (genfs_context_image vers c)"
    unfolding write_genfs_context_def genfs_context_image_def genfs_context_ok_def by (intro emits_intros) auto
  from ok show "reads (genfs_context_read True vers p) (genfs_context_image vers c) c"
    by (cases c) (simp add: reads_def genfs_context_read_def genfs_context_image_def genfs_context_ok_def read_simps readsD[OF context_file.read_image])
next
  show "extends (genfs_context_read True vers p)"
    unfolding genfs_context_read_def by (intro extends_intros context_file.read_extends)
qed

text \<open>The order that reading builds: longer paths first, and no clash.\<close>

definition genfs_after :: "genfs_context \<Rightarrow> genfs_context \<Rightarrow> bool" where
  "genfs_after a b \<longleftrightarrow> length (gc_name b) \<le> length (gc_name a) \<and> \<not> genfs_clash b a"

definition genfs_ok :: "u32 \<Rightarrow> context_db \<Rightarrow> genfs \<Rightarrow> bool" where
  "genfs_ok vers p g \<longleftrightarrow> symbol_name (fstype g) \<and> sorted_wrt genfs_after (genfs_head g) \<and> length (genfs_head g) < 4294967296 \<and>
     (\<forall>c \<in> set (genfs_head g). genfs_context_ok vers p c)"

definition genfs_image :: "u32 \<Rightarrow> genfs \<Rightarrow> u8 list" where
  "genfs_image vers g = words_image [strlen32 (fstype g)] @ string_image (fstype g) @ words_image [of_nat (length (genfs_head g))] @
     concat (map (genfs_context_image vers) (genfs_head g))"

lemma place_last: "\<forall>c \<in> set cs. genfs_after c new \<Longrightarrow> genfs_place new cs = Some (cs @ [new])"
  by (induction cs) (auto simp: genfs_after_def)

lemma strcmp_same [simp]: "strcmp s s = 0"
  by (simp only: strcmp_eq_0)

lemma insert_last: "\<forall>g \<in> set gs. strcmp (fstype new) (fstype g) > 0 \<Longrightarrow> genfs_insert new gs = Some (gs @ [new])"
  by (induction gs) auto

text \<open>A loop that adds each element behind the ones before builds the list in its order.\<close>

lemma append_loop:
  assumes "\<And>x xs. x \<in> set ys \<Longrightarrow> (\<forall>y \<in> set xs. R y x) \<Longrightarrow> reads (rd xs) (f x) (xs @ [x])" and "sorted_wrt R ys" and "\<forall>x \<in> set xs. \<forall>y \<in> set ys. R x y"
  shows "reads (read_loop (length ys) rd xs) (concat (map f ys)) (xs @ ys)"
  using assms
proof (induction ys arbitrary: xs)
  case (Cons y ys)
  have "reads (rd xs) (f y) (xs @ [y])" using Cons.prems by simp
  moreover have "reads (read_loop (length ys) rd (xs @ [y])) (concat (map f ys)) ((xs @ [y]) @ ys)"
    using Cons.prems by (intro Cons.IH) auto
  ultimately show ?case by (simp add: reads_bind)
qed (simp add: reads_return)

lemma contexts_read:
  assumes "sorted_wrt genfs_after cs" and "\<forall>c \<in> set cs. genfs_context_ok vers p c"
  shows "reads (genfs_contexts_read True vers p (length cs)) (concat (map (genfs_context_image vers) cs)) cs"
proof -
  have "reads (rbind (genfs_context_read True vers p) (\<lambda>new. case genfs_place new xs of None \<Rightarrow> rfail | Some cs \<Rightarrow> rreturn cs)) (genfs_context_image vers x) (xs @ [x])"
    if "x \<in> set cs" "\<forall>y \<in> set xs. genfs_after y x" for x xs
    using that assms(2) by (intro reads_bind_last[OF genfs_context_file.read_image]) (auto simp: place_last reads_return)
  then show ?thesis
    unfolding genfs_contexts_read_def using assms(1) append_loop[of cs genfs_after _ "genfs_context_image vers" "[]"] by simp
qed

definition genfs_list_ok :: "u32 \<Rightarrow> context_db \<Rightarrow> genfs list \<Rightarrow> bool" where
  "genfs_list_ok vers p gs \<longleftrightarrow> sorted_wrt (\<lambda>a b. strcmp (fstype b) (fstype a) > 0) gs \<and> length gs < 4294967296 \<and> (\<forall>g \<in> set gs. genfs_ok vers p g)"

definition genfs_list_image :: "u32 \<Rightarrow> genfs list \<Rightarrow> u8 list" where
  "genfs_list_image vers gs = words_image [of_nat (length gs)] @ concat (map (genfs_image vers) gs)"

lemma genfs_entry_reads:
  assumes "genfs_ok vers p g" and "\<forall>h \<in> set gs. strcmp (fstype g) (fstype h) > 0"
  shows "reads (genfs_entry_read True vers p gs) (genfs_image vers g) (gs @ [g])"
proof -
  have cs: "reads (genfs_contexts_read True vers p (length (genfs_head g))) (concat (map (genfs_context_image vers) (genfs_head g))) (genfs_head g)"
    using assms(1) by (intro contexts_read) (simp_all add: genfs_ok_def)
  have g: "\<lparr>fstype = fstype g, genfs_head = genfs_head g\<rparr> = g" by simp
  show ?thesis
    using assms insert_last[of gs "\<lparr>fstype = fstype g, genfs_head = []\<rparr>"] insert_last[of gs g]
    by (simp add: reads_def genfs_entry_read_def genfs_image_def genfs_ok_def read_simps unat_of_nat32 readsD[OF cs] g)
qed

interpretation genfs_file: codec "genfs_list_ok vers p" "genfs_list_image vers" "genfs_write vers" "genfs_read True vers p"
proof
  fix gs
  assume ok: "genfs_list_ok vers p gs"
  have "emits (write_genfs vers g) (genfs_image vers g)" if "g \<in> set gs" for g
    unfolding write_genfs_def genfs_image_def
    using ok that by (intro emits_seq emits_words emits_string genfs_context_file.list_emits[where p = p]) (auto simp: genfs_list_ok_def genfs_ok_def)
  then show "emits (genfs_write vers gs) (genfs_list_image vers gs)"
    unfolding genfs_write_def genfs_list_image_def by (intro emits_seq emits_words emits_list) auto
  have "reads (read_loop (length gs) (genfs_entry_read True vers p) []) (concat (map (genfs_image vers) gs)) ([] @ gs)"
    using ok by (intro append_loop[where R = "\<lambda>a b. strcmp (fstype b) (fstype a) > 0"] genfs_entry_reads) (auto simp: genfs_list_ok_def)
  then show "reads (genfs_read True vers p) (genfs_list_image vers gs) gs"
    using ok unfolding genfs_read_def genfs_list_image_def
    by (intro reads_bind[OF reads_words]) (simp_all add: genfs_list_ok_def unat_of_nat32)
next
  show "extends (genfs_read True vers p)"
    unfolding genfs_read_def genfs_entry_read_def genfs_contexts_read_def
    by (auto intro!: extends_intros genfs_context_file.read_extends split: option.splits)
qed

subsection \<open>Range transitions\<close>

definition range_ok :: "u32 \<Rightarrow> range_trans \<times> mls_range \<Rightarrow> bool" where
  "range_ok vers kd \<longleftrightarrow> range_kept vers (fst kd) \<and> range_wf (snd kd)"

definition range_trans_image :: "u32 \<Rightarrow> range_trans \<times> mls_range \<Rightarrow> u8 list" where
  "range_trans_image vers kd = words_image [rg_source (fst kd), rg_target (fst kd)] @
     (if vers \<ge> POLICYDB_VERSION_RANGETRANS then words_image [rg_class (fst kd)] else []) @ range_image (snd kd)"

interpretation range_entry_file: codec "range_ok vers" "range_trans_image vers" "\<lambda>kd. range_write_helper vers (fst kd) (snd kd)" "range_entry True vers"
proof
  fix kd
  assume ok: "range_ok vers kd"
  then show "emits (range_write_helper vers (fst kd) (snd kd)) (range_trans_image vers kd)"
    unfolding range_write_helper_def range_trans_image_def range_ok_def
    by (simp only: if_False not_True_eq_False) (intro emits_seq emits_words emits_when range_file.write_image, simp)
  from ok show "reads (range_entry True vers) (range_trans_image vers kd) kd"
    by (cases kd) (auto simp: reads_def range_ok_def range_kept_def range_entry_def range_trans_image_def read_simps readsD[OF range_file.read_image])
next
  show "extends (range_entry True vers)" unfolding range_entry_def by (intro extends_intros range_file.read_extends)
qed

text \<open>The table of range transitions, with 256 buckets in \<open>policydb_init\<close>.\<close>

definition range_table :: "(range_trans, mls_range) hashtab" where
  "range_table = the (hashtab_create True rangetr_hash rangetr_cmp 256)"

definition range_table_ok :: "u32 \<Rightarrow> (range_trans, mls_range) hashtab option \<Rightarrow> bool" where
  "range_table_ok vers t \<longleftrightarrow> (\<exists>h. t = Some h \<and> chains_ascend h \<and> emptied h = range_table \<and> length (hashtab_nodes h) < 4294967296 \<and>
     (\<forall>kd \<in> set (hashtab_nodes h). range_ok vers kd))"

definition range_table_image :: "u32 \<Rightarrow> (range_trans, mls_range) hashtab option \<Rightarrow> u8 list" where
  "range_table_image vers t = words_image [table_nel t] @ (case t of None \<Rightarrow> [] | Some h \<Rightarrow> concat (map (range_trans_image vers) (hashtab_nodes h)))"

interpretation range_table_file: codec "range_table_ok vers" "range_table_image vers" "range_write vers" "range_read True vers (Some range_table)"
proof
  fix t
  assume "range_table_ok vers t"
  then obtain h where h: "t = Some h" "chains_ascend h" "emptied h = range_table" "length (hashtab_nodes h) < 4294967296"
    "\<forall>kd \<in> set (hashtab_nodes h). range_ok vers kd" by (auto simp: range_table_ok_def)
  have nel: "nel h = of_nat (length (hashtab_nodes h))" using h(2) by (simp add: chains_ascend_def)
  have kept: "filter (range_kept vers \<circ> fst) (hashtab_nodes h) = hashtab_nodes h"
    using h(5) by (simp add: filter_id_conv range_ok_def)
  have "emits (hashtab_map (range_write_helper vers) (Some h)) (concat (map (range_trans_image vers) (hashtab_nodes h)))"
    using h(5) range_entry_file.write_image by (intro emits_table) fastforce
  then show "emits (range_write vers t) (range_table_image vers t)"
    unfolding range_write_def range_table_image_def table_nel_def h(1) by (simp add: kept nel emits_seq emits_words)
  have "reads (read_loop (unat (nel h)) (\<lambda>h. rbind (range_entry True vers) (insert_entry True h)) (Some (emptied h)))
      (concat (map (range_trans_image vers) (hashtab_nodes h))) (Some h)"
  proof (rule table_rebuilt[OF h(2)])
    show "unat (nel h) = length (hashtab_nodes h)" using nel h(4) by (simp add: unat_of_nat32)
    fix x g g' assume "x \<in> set (hashtab_nodes h)" and "hashtab_insert True (Some g) (fst x) (snd x) = (0, Some g')"
    then show "reads (rbind (range_entry True vers) (insert_entry True (Some g))) (range_trans_image vers x) (Some g')"
      using h(5) by (intro reads_bind_last[OF range_entry_file.read_image]) (simp_all add: insert_entry_def reads_return)
  qed
  then show "reads (range_read True vers (Some range_table)) (range_table_image vers t) t"
    unfolding range_read_def range_table_image_def h(1,3) table_nel_def by (intro reads_bind[OF reads_words]) (simp_all add: h(3))
next
  show "extends (range_read True vers (Some range_table))"
    unfolding range_read_def by (intro extends_intros range_entry_file.read_extends)
qed

section \<open>What is read is valid\<close>

text \<open>The contexts of an entry: file systems and network interfaces have two.\<close>

definition ocon_contexts :: "ocontext \<Rightarrow> context_struct list" where
  "ocon_contexts oc = (case oc of OconName _ c0 c1 \<Rightarrow> [c0, c1] | _ \<Rightarrow> [ocon_ctx oc])"

definition ocontext_valid :: "context_db \<Rightarrow> ocontext \<Rightarrow> bool" where
  "ocontext_valid p oc \<longleftrightarrow> (\<forall>c \<in> set (ocon_contexts oc). context_is_valid p c)"

lemma yields_ocontext: "yields (ocontext_entry mok vers p i) (ocontext_valid p)"
  unfolding ocontext_entry_def Let_def
  by (intro yields_if yields_fail yields_any[where r = "read_words _"] yields_any[where r = "read_chars _ _"] yields_bind[OF yields_context] yields_return)
    (simp_all add: ocontext_valid_def ocon_contexts_def)

lemma yields_ocontexts: "yields (ocontext_kinds mok vers p is) (\<lambda>ocs. length ocs = length is \<and> list_all (list_all (ocontext_valid p)) ocs)"
  by (induction "is") (auto intro!: yields_return yields_any[where r = "read_words _"] yields_bind[OF yields_repeat[OF yields_ocontext]] elim!: yields_bind)

text \<open>File systems in order, each with its paths in order and without clashes.\<close>

lemma place_sorted:
  "genfs_place new cs = Some cs' \<Longrightarrow> sorted_wrt genfs_after cs \<Longrightarrow> sorted_wrt genfs_after cs' \<and> set cs' = insert new (set cs)"
proof (induction new cs arbitrary: cs' rule: genfs_place.induct)
  case (2 new c cs)
  have new: "\<not> genfs_clash new c" using "2.prems"(1) by auto
  show ?case
  proof (cases "length (gc_name new) > length (gc_name c)")
    case True
    have "genfs_after new y" if "y \<in> set (c # cs)" for y
    proof -
      have "length (gc_name y) < length (gc_name new)" using True that "2.prems"(2) by (auto simp: genfs_after_def)
      then show ?thesis by (auto simp: genfs_after_def genfs_clash_def)
    qed
    then show ?thesis using "2.prems" new True by auto
  next
    case False
    then obtain cs2 where cs2: "genfs_place new cs = Some cs2" "cs' = c # cs2" using "2.prems"(1) new by auto
    have "sorted_wrt genfs_after cs2 \<and> set cs2 = insert new (set cs)" using "2.IH"[OF new False cs2(1)] "2.prems"(2) by simp
    moreover have "genfs_after c new" using False new by (simp add: genfs_after_def)
    ultimately show ?thesis using "2.prems"(2) cs2(2) by auto
  qed
qed auto

definition genfs_valid :: "context_db \<Rightarrow> genfs \<Rightarrow> bool" where
  "genfs_valid p g \<longleftrightarrow> sorted_wrt genfs_after (genfs_head g) \<and> (\<forall>c \<in> set (genfs_head g). context_is_valid p (gc_context c))"

lemma yields_genfs_contexts:
  "yields (genfs_contexts_read mok vers p n) (\<lambda>cs. sorted_wrt genfs_after cs \<and> (\<forall>c \<in> set cs. context_is_valid p (gc_context c)))"
proof -
  have one: "yields (genfs_context_read mok vers p) (\<lambda>c. context_is_valid p (gc_context c))"
    unfolding genfs_context_read_def
    by (intro yields_if yields_fail yields_any[where r = "read_words _"] yields_any[where r = "str_read _ _"] yields_bind[OF yields_context] yields_return) simp
  show ?thesis
    unfolding genfs_contexts_read_def
    by (intro yields_loop yields_bind[OF one]) (auto intro!: yields_fail yields_return dest!: place_sorted split: option.splits)
qed

lemma genfs_insert_sorted:
  "genfs_insert new gs = Some gs' \<Longrightarrow> sorted_wrt (\<lambda>a b. strcmp (fstype b) (fstype a) > 0) gs \<Longrightarrow>
     sorted_wrt (\<lambda>a b. strcmp (fstype b) (fstype a) > 0) gs' \<and> set gs' = insert new (set gs)"
proof (induction new gs arbitrary: gs' rule: genfs_insert.induct)
  case (2 new g gs)
  have ne: "strcmp (fstype new) (fstype g) \<noteq> 0" using "2.prems"(1) by (metis genfs_insert.simps(2) option.distinct(1))
  show ?case
  proof (cases "strcmp (fstype new) (fstype g) < 0")
    case True
    then have "strcmp (fstype g) (fstype new) > 0" using strcmp_antisym[of "fstype g" "fstype new"] by simp
    then have "strcmp (fstype y) (fstype new) > 0" if "y \<in> set (g # gs)" for y
      using that "2.prems"(2) strcmp_gt_trans[of "fstype y" "fstype g" "fstype new"] by auto
    then show ?thesis using "2.prems" ne True by (auto simp del: strcmp_eq_0)
  next
    case False
    then obtain gs2 where gs2: "genfs_insert new gs = Some gs2" "gs' = g # gs2" using "2.prems"(1) ne by (auto simp del: strcmp_eq_0)
    have "sorted_wrt (\<lambda>a b. strcmp (fstype b) (fstype a) > 0) gs2 \<and> set gs2 = insert new (set gs)"
      using "2.IH"[OF ne False gs2(1)] "2.prems"(2) by simp
    then show ?thesis using "2.prems"(2) gs2(2) ne False by (auto simp del: strcmp_eq_0)
  qed
qed auto

lemma yields_genfs:
  "yields (genfs_read mok vers p) (\<lambda>gs. sorted_wrt (\<lambda>a b. strcmp (fstype b) (fstype a) > 0) gs \<and> (\<forall>g \<in> set gs. genfs_valid p g))"
  unfolding genfs_read_def
proof (rule yields_any, rule yields_loop)
  fix gs
  assume gs: "sorted_wrt (\<lambda>a b. strcmp (fstype b) (fstype a) > 0) gs \<and> (\<forall>g \<in> set gs. genfs_valid p g)"
  show "yields (genfs_entry_read mok vers p gs) (\<lambda>gs. sorted_wrt (\<lambda>a b. strcmp (fstype b) (fstype a) > 0) gs \<and> (\<forall>g \<in> set gs. genfs_valid p g))"
    unfolding genfs_entry_read_def
  proof (intro yields_any[where r = "read_words _"] yields_any[where r = "str_read _ _"] yields_if yields_fail yields_bind[OF yields_genfs_contexts])
    fix name :: string and cs
    assume "sorted_wrt genfs_after cs \<and> (\<forall>c \<in> set cs. context_is_valid p (gc_context c))"
    then show "yields (case genfs_insert \<lparr>fstype = name, genfs_head = cs\<rparr> gs of None \<Rightarrow> rfail | Some gs \<Rightarrow> rreturn gs)
        (\<lambda>gs. sorted_wrt (\<lambda>a b. strcmp (fstype b) (fstype a) > 0) gs \<and> (\<forall>g \<in> set gs. genfs_valid p g))"
      using gs by (auto intro!: yields_fail yields_return dest!: genfs_insert_sorted simp: genfs_valid_def split: option.splits)
  qed
qed simp

end
