(* ===== verification/SampleImage.thy ===== *)
theory SampleImage
  imports SamplePolicy ContextFile
begin

text \<open>
  Symbol tables of the sizes of \<open>policydb_init\<close> on which the results on the policy image are instantiated: the type
  \<^verbatim>\<open>su\<close>, the class \<^verbatim>\<open>file\<close> with one permission and one constraint, the role \<^verbatim>\<open>object_r\<close>.
\<close>

definition add_symbol :: "'d symtab \<Rightarrow> string \<Rightarrow> 'd \<Rightarrow> 'd symtab" where
  "add_symbol st k d = \<lparr>table = snd (hashtab_insert True (table st) k d), nprim = 1\<rparr>"

definition sample_cons :: constraint_node where
  "sample_cons = \<lparr>cn_permissions = 1, cn_expr = [same_type\<lparr>ce_type_names := Some type_set_init\<rparr>]\<rparr>"

definition image_class :: class_datum where
  "image_class = sample_class\<lparr>cl_permissions := add_symbol (empty_symtab PERM_SYMTAB_SIZE) ''read'' \<lparr>pm_value = 1\<rparr>, cl_constraints := [sample_cons]\<rparr>"

definition sample_symtabs :: symbol_tables where
  "sample_symtabs = init_symtabs\<lparr>sy_classes := add_symbol (empty_symtab 32) ''file'' image_class,
     sy_types := add_symbol (empty_symtab 512) ''su'' (sample_type 1 TYPE_TYPE)\<rparr>"

text \<open>One user, the role \<^verbatim>\<open>object_r\<close>, one type and no levels; an initial SID and a path of \<^verbatim>\<open>proc\<close>.\<close>

definition sample_contexts :: context_db where
  "sample_contexts = \<lparr>cx_mls = False, cx_roles = [Some object_r],
     cx_users = [Some (\<lparr>u_value = 1, u_roles = ebitmap_init, u_exp_range = mls_range_init, u_exp_dfltlevel = mls_level_init, u_bounds = 0\<rparr>, ebitmap_init)],
     cx_types = 1, cx_levels = \<lparr>table = None, nprim = 0\<rparr>, cx_sens_names = [], cx_cats = 0\<rparr>"

definition sample_ocontexts :: "ocontext list list" where
  "sample_ocontexts = [[OconIsid 1 (sample_ctx 1)], [], [], [OconName ''wlan0'' (sample_ctx 1) (sample_ctx 1)], [], [], []]"

definition sample_genfs :: "genfs list" where
  "sample_genfs = [\<lparr>fstype = ''proc'', genfs_head = [\<lparr>gc_name = ''/'', gc_sclass = 0, gc_context = sample_ctx 1\<rparr>]\<rparr>]"

lemma empty_form:
  assumes "0 < sz"
  obtains h :: "(string, 'd) hashtab" where "table (empty_symtab sz) = Some h" and "hashtab_abs h = Map.empty" and "table_form sz h" and "hashtab_nodes h = []"
proof -
  obtain h :: "(string, 'd) hashtab" where h: "hashtab_create True symhash symcmp sz = Some h" "hashtab_on symcmp h" "hashtab_abs h = Map.empty"
    using create_correct[OF assms, of symhash symcmp] symhash_less[OF assms] by blast
  then have "hashtab_nodes h = []" by (auto simp: hashtab_create_def hashtab_nodes_def)
  then show thesis
    using that h by (auto simp: empty_symtab_def symtab_init_def table_form_def hashtab_counted_def hashtab_create_def)
qed

lemma add_form:
  assumes "0 < sz"
  obtains h where "table (add_symbol (empty_symtab sz) k d) = Some h" and "table_form sz h" and "set (hashtab_nodes h) = {(k, d)}"
proof -
  obtain e :: "(string, 'a) hashtab" where e: "table (empty_symtab sz) = Some e" "hashtab_abs e = Map.empty" "table_form sz e"
    using empty_form[OF assms] by blast
  have on: "hashtab_on symcmp e" using e(3) by (simp add: table_form_def)
  obtain h where h: "hashtab_insert True (Some e) k d = (0, Some h)" "hashtab_on symcmp h" "hashtab_abs h = [k \<mapsto> d]" "hashtab_counted h"
    using sym.insert_correct[OF on, of k d] e by (auto simp: table_form_def)
  show thesis
    using that[of h] h e single_node[OF h(2,3)] insert_keeps[OF h(1)] by (simp add: add_symbol_def table_form_def)
qed

lemma empty_ok: "0 < sz \<Longrightarrow> symtab_ok sz P (empty_symtab sz :: 'd symtab)"
  by (erule empty_form[where 'd = 'd]) (auto simp: symtab_ok_def)

lemma add_ok: "0 < sz \<Longrightarrow> P (k, d) \<Longrightarrow> symtab_ok sz P (add_symbol (empty_symtab sz) k d)"
  by (erule add_form[where k = k and d = d]) (auto simp: symtab_ok_def add_symbol_def)

lemma add_search: "0 < sz \<Longrightarrow> hashtab_search (table (add_symbol (empty_symtab sz) k d)) k = Some d"
  by (erule add_form[where k = k and d = d]) (use sym.search_correct nodes_in_abs in \<open>fastforce simp: table_form_def\<close>)

lemma image_class_ok: "class_ok 30 commons (''file'', image_class)"
proof -
  have "symtab_ok PERM_SYMTAB_SIZE perm_ok (add_symbol (empty_symtab PERM_SYMTAB_SIZE) ''read'' \<lparr>pm_value = 1\<rparr>)"
    by (rule add_ok) (simp_all add: perm_ok_def symbol_name_def cstr_def)
  then have "perm_table_ok (cl_permissions image_class)" by (auto simp: image_class_def perm_table_ok_def symtab_ok_def)
  then show ?thesis
    by (simp add: class_ok_def symbol_name_def cstr_def comkey_ok_def cons_list_ok_def cons_ok_def defaults_ok_def image_class_def sample_class_def
      sample_cons_def same_type_def cons_expr_ok_def cons_depth_def)
qed

lemma init_roles_ok: "roles_ok 30 (sy_roles init_symtabs)" and init_roles_kernel: "kernel_roles (sy_roles init_symtabs) = sy_roles init_symtabs"
proof -
  obtain h0 where h0: "sy_roles init_symtabs = \<lparr>table = Some h0, nprim = 1\<rparr>" "hashtab_on symcmp h0" "hashtab_abs h0 = [OBJECT_R \<mapsto> object_r]"
    "nel h0 = 1" "hash_value h0 = symhash" "hsize h0 = 16" by (rule init_roles)
  note nodes = single_node[OF h0(2,3)]
  have "role_ok 30 (OBJECT_R, object_r)"
    by (simp add: role_ok_def object_r_def type_set_init_def OBJECT_R_def symbol_name_def cstr_def policydb_has_boundary_feature_def)
  then show "roles_ok 30 (sy_roles init_symtabs)"
    using nodes h0 sym.search_correct[OF h0(2)] by (simp add: roles_ok_def symtab_ok_def table_form_def hashtab_counted_def)
  have "map (map (map_prod id kernel_role)) (htable h0) = htable h0"
  proof (intro map_idI)
    fix ch x assume "ch \<in> set (htable h0)" and "x \<in> set ch"
    then have "x = (OBJECT_R, object_r)" using nodes by (auto simp: hashtab_nodes_def)
    then show "map_prod id kernel_role x = x" by (simp add: kernel_role_def object_r_def)
  qed
  then show "kernel_roles (sy_roles init_symtabs) = sy_roles init_symtabs"
    by (simp add: h0(1) kernel_roles_def map_table_def)
qed

lemma sample_symtabs_roles: "kernel_roles (sy_roles sample_symtabs) = sy_roles sample_symtabs"
  by (simp add: sample_symtabs_def init_roles_kernel)

lemma sample_symtabs_ok: "symtabs_ok 30 sample_symtabs"
proof -
  have "symtab_ok 32 (class_ok 30 (table (empty_symtab 2))) (add_symbol (empty_symtab 32) ''file'' image_class)"
    by (intro add_ok image_class_ok) simp
  moreover have "symtab_ok 512 (type_ok 30) (add_symbol (empty_symtab 512) ''su'' (sample_type 1 TYPE_TYPE))"
    by (rule add_ok) (simp_all add: type_ok_def symbol_name_def cstr_def sample_type_def type_datum_init_def policydb_has_boundary_feature_def)
  ultimately show ?thesis
    using init_roles_ok
    by (simp add: symtabs_ok_def sample_symtabs_def init_tables init_roles_kernel sym_num_def empty_ok)
qed

lemma sample_context_ok: "context_ok 30 sample_contexts (sample_ctx 1)"
  by (simp add: context_ok_def context_is_valid_def mls_context_isvalid_def sample_contexts_def sample_ctx_def)

lemma sample_ocontexts_nth:
  "i < length sample_ocontexts \<Longrightarrow> sample_ocontexts ! i =
     (if i = 0 then [OconIsid 1 (sample_ctx 1)] else if i = 3 then [OconName ''wlan0'' (sample_ctx 1) (sample_ctx 1)] else [])"
  by (auto simp: sample_ocontexts_def less_Suc_eq numeral_3_eq_3)

lemma sample_ocontexts_ok: "ocontexts_ok 30 sample_contexts sample_ocontexts"
proof -
  have "length sample_ocontexts = ocon_num 30" by (simp add: sample_ocontexts_def ocon_num_def)
  then show ?thesis
    by (simp add: ocontexts_ok_def ocontext_ok_def sample_ocontexts_nth sample_context_ok symbol_name_def cstr_def)
qed

lemma sample_genfs_ok: "genfs_list_ok 30 sample_contexts sample_genfs"
  by (simp add: genfs_list_ok_def genfs_ok_def genfs_context_ok_def sample_genfs_def sample_context_ok symbol_name_def cstr_def)

lemma empty_ranges_ok: "range_table_ok vers (Some range_table)"
  by (simp add: range_table_ok_def range_table_def hashtab_create_def chains_ascend_def emptied_def hashtab_nodes_def)

end
