(* ===== verification/ConditionalFile.thy ===== *)
theory ConditionalFile
  imports Conditional AvtabFile Codec
begin

unbundle bit_operations_syntax

text \<open>
  Conditional rules in the binary policy: \<open>cond_read_list\<close> and its helpers (\<^verbatim>\<open>libsepol/src/conditional.c\<close>) and
  \<open>cond_write_list\<close> (\<^verbatim>\<open>libsepol/src/write.c\<close>), for kernel policies in the current format of rules.

  The lists of a block point to nodes of the table of conditional rules, and reading compares such
  pointers. An address is the position of a node in the order of allocation; the chains of the table are lists of addresses.
\<close>

section \<open>Definitions\<close>

subsection \<open>Readers with a flag\<close>

text \<open>
  Reading a rule may set the process-wide flag \<open>avtab_android_m_compat\<close> and, in the old format, read
  outside an array. A loader is a reader with both: it takes the flag and gives it back.
\<close>

type_synonym 'a loader = "bool \<Rightarrow> u8 list \<Rightarrow> ('a \<times> u8 list \<times> bool) option outcome"
type_synonym owriter = "pf_out \<Rightarrow> (int \<times> pf_out) outcome"

definition lreturn :: "'a \<Rightarrow> 'a loader" where
  "lreturn x amc fp = Ret (Some (x, fp, amc))"

definition lfail :: "'a loader" where
  "lfail amc fp = Ret None"

definition lbind :: "'a loader \<Rightarrow> ('a \<Rightarrow> 'b loader) \<Rightarrow> 'b loader" where
  "lbind l f amc fp = obind (l amc fp) (\<lambda>r. case r of None \<Rightarrow> Ret None | Some (x, fp, amc) \<Rightarrow> f x amc fp)"

definition lread :: "'a reader \<Rightarrow> 'a loader" where
  "lread r amc fp = Ret (case r fp of None \<Rightarrow> None | Some (x, fp) \<Rightarrow> Some (x, fp, amc))"

definition oput :: "writer \<Rightarrow> owriter" where
  "oput w fp = Ret (w fp)"

definition oseq :: "owriter \<Rightarrow> owriter \<Rightarrow> owriter" where
  "oseq w1 w2 fp = obind (w1 fp) (\<lambda>(rc, fp). if rc \<noteq> 0 then Ret (-1, fp) else w2 fp)"

primrec olist :: "('a \<Rightarrow> owriter) \<Rightarrow> 'a list \<Rightarrow> owriter" where
  "olist w [] = oput wskip"
| "olist w (x # xs) = oseq (w x) (olist w xs)"

subsection \<open>The table of conditional rules\<close>

text \<open>The nodes in the order of allocation, each with whether \<^verbatim>\<open>parse_context\<close> is set, and the chains.\<close>

record cond_tab =
  ct_nodes :: "(avtab_node \<times> bool) list"
  ct_chains :: "nat list list option"
  ct_nel :: u32
  ct_nslot :: u32
  ct_mask :: u32

definition ct_node :: "cond_tab \<Rightarrow> nat \<Rightarrow> avtab_node" where
  "ct_node ct a = fst (ct_nodes ct ! a)"

text \<open>The table without the identity of its nodes.\<close>

definition ct_table :: "cond_tab \<Rightarrow> avtab" where
  "ct_table ct = \<lparr>av_htable = map_option (map (map (ct_node ct))) (ct_chains ct), av_nel = ct_nel ct,
     av_nslot = ct_nslot ct, av_mask = ct_mask ct\<rparr>"

definition ct_init :: cond_tab where
  "ct_init = \<lparr>ct_nodes = [], ct_chains = None, ct_nel = 0, ct_nslot = 0, ct_mask = 0\<rparr>"

text \<open>\<open>avtab_alloc\<close> on a table without chains: the chains it makes are empty.\<close>

definition ct_alloc :: "bool \<Rightarrow> cond_tab \<Rightarrow> u32 \<Rightarrow> int \<times> cond_tab" where
  "ct_alloc mok ct nrules =
     (case avtab_alloc mok (ct_table ct) nrules of (rc, h) \<Rightarrow>
        (rc, ct\<lparr>ct_chains := map_option (\<lambda>bs. replicate (length bs) []) (av_htable h), ct_nel := av_nel h,
               ct_nslot := av_nslot h, ct_mask := av_mask h\<rparr>))"

text \<open>The last \<open>length ns\<close> addresses of a chain: the pointer to a node, given what follows it.\<close>

definition at_suffix :: "nat list \<Rightarrow> avtab_node list \<Rightarrow> nat list" where
  "at_suffix ch ns = drop (length ch - length ns) ch"

definition ct_search_node :: "cond_tab \<Rightarrow> avtab_key \<Rightarrow> nat list" where
  "ct_search_node ct key =
     (case ct_chains ct of None \<Rightarrow> []
      | Some cs \<Rightarrow> at_suffix (cs ! unat (avtab_hash key (ct_mask ct))) (avtab_search_node (Some (ct_table ct)) key))"

definition ct_search_node_next :: "cond_tab \<Rightarrow> nat list \<Rightarrow> u16 \<Rightarrow> nat list" where
  "ct_search_node_next ct node sp = at_suffix node (avtab_search_node_next (map (ct_node ct) node) sp)"

definition ct_insert_nonunique :: "bool \<Rightarrow> cond_tab \<Rightarrow> avtab_key \<Rightarrow> avtab_datum \<Rightarrow> nat option \<times> cond_tab" where
  "ct_insert_nonunique mok ct key datum =
     (case ct_chains ct of None \<Rightarrow> (None, ct)
      | Some cs \<Rightarrow>
          if \<not> mok then (None, ct)
          else
            let hv = unat (avtab_hash key (ct_mask ct)); ch = cs ! hv; new = length (ct_nodes ct);
                rest = at_suffix ch (snd (nonunique_stop key (mask_enabled (specified key)) [] (map (ct_node ct) ch)))
            in (Some new, ct\<lparr>ct_nodes := ct_nodes ct @ [((key, new_datum key datum), False)],
                  ct_chains := Some (cs[hv := take (length ch - length rest) ch @ new # rest]), ct_nel := ct_nel ct + 1\<rparr>))"

definition set_parse_context :: "nat \<Rightarrow> cond_tab \<Rightarrow> cond_tab" where
  "set_parse_context a ct = ct\<lparr>ct_nodes := (ct_nodes ct)[a := (ct_node ct a, True)]\<rparr>"

subsection \<open>Reading\<close>

text \<open>
  \<open>cond_insertf\<close>. Type rules may not conflict: not with the unconditional rules, and with conditional ones only
  with one rule of the true list while the false list is read. \<open>other\<close> is the true list then, and NULL while the true list is
  read (or when it is empty). The state is the table and the list built so far.
\<close>

definition type_conflict :: "avtab \<Rightarrow> nat list \<Rightarrow> cond_tab \<Rightarrow> avtab_key \<Rightarrow> bool" where
  "type_conflict te other ct k =
     (if avtab_search (Some te) k \<noteq> None then True
      else if other \<noteq> [] then
        (case ct_search_node ct k of [] \<Rightarrow> False
         | node # nxt \<Rightarrow>
             if ct_search_node_next ct (node # nxt) (specified k) \<noteq> [] then True else node \<notin> set other)
      else avtab_search (Some (ct_table ct)) k \<noteq> None)"

definition cond_insertf :: "bool \<Rightarrow> avtab \<Rightarrow> nat list \<Rightarrow> avtab_key \<Rightarrow> avtab_datum \<Rightarrow> cond_tab \<times> nat list \<Rightarrow> int \<times> cond_tab \<times> nat list" where
  "cond_insertf mok te other k d cl =
     (case cl of (ct, l) \<Rightarrow>
        if specified k AND AVTAB_TYPE \<noteq> 0 \<and> type_conflict te other ct k then (-1, ct, [])
        else case ct_insert_nonunique mok ct k d of
            (None, ct) \<Rightarrow> (-1, ct, [])
          | (Some a, ct) \<Rightarrow>
              let ct = set_parse_context a ct in
              if \<not> mok then (-1, ct, []) else (0, ct, l @ [a]))"

primrec cond_read_rules :: "bool \<Rightarrow> u32 \<Rightarrow> avtab \<Rightarrow> nat list \<Rightarrow> nat \<Rightarrow> cond_tab \<times> nat list \<Rightarrow> (cond_tab \<times> nat list) loader" where
  "cond_read_rules mok vers te other 0 cl = lreturn cl"
| "cond_read_rules mok vers te other (Suc n) cl =
     lbind (\<lambda>amc fp. obind (avtab_read_item (cond_insertf mok te other) vers amc fp cl)
              (\<lambda>(rc, cl, fp, amc). Ret (if rc \<noteq> 0 then None else Some (cl, fp, amc))))
       (cond_read_rules mok vers te other n)"

definition cond_read_av_list :: "bool \<Rightarrow> u32 \<Rightarrow> avtab \<Rightarrow> nat list \<Rightarrow> cond_tab \<Rightarrow> (cond_tab \<times> nat list) loader" where
  "cond_read_av_list mok vers te other ct =
     lbind (lread (read_words 1)) (\<lambda>buf. cond_read_rules mok vers te other (unat (buf ! 0)) (ct, []))"

text \<open>The lengths of expressions and of the list of blocks are read into an \<^verbatim>\<open>int\<close>: a negative one is an empty list.\<close>

definition cond_expr_reader :: "bool \<Rightarrow> u32 \<Rightarrow> cond_expr list reader" where
  "cond_expr_reader mok nb =
     rbind (read_words 1) (\<lambda>buf fp.
       case cond_read_exprs mok nb (nat (sint (buf ! 0))) fp of (rc, es, fp) \<Rightarrow> if rc \<noteq> 0 then None else Some (es, fp))"

definition cond_read_node :: "bool \<Rightarrow> u32 \<Rightarrow> u32 \<Rightarrow> avtab \<Rightarrow> cond_tab \<Rightarrow> (cond_tab \<times> cond_node) loader" where
  "cond_read_node mok vers nb te ct =
     lbind (lread (read_words 1)) (\<lambda>buf.
     lbind (lread (cond_expr_reader mok nb)) (\<lambda>es.
     lbind (cond_read_av_list mok vers te [] ct) (\<lambda>(ct, tl).
     lbind (cond_read_av_list mok vers te tl ct) (\<lambda>(ct, fl).
       lreturn (ct, zero_node\<lparr>cur_state := sint (buf ! 0), cexpr := es, true_list := tl, false_list := fl\<rparr>)))))"

primrec cond_read_nodes :: "bool \<Rightarrow> u32 \<Rightarrow> u32 \<Rightarrow> avtab \<Rightarrow> nat \<Rightarrow> cond_tab \<Rightarrow> (cond_tab \<times> cond_node list) loader" where
  "cond_read_nodes mok vers nb te 0 ct = lreturn (ct, [])"
| "cond_read_nodes mok vers nb te (Suc n) ct =
     (if \<not> mok then lfail
      else lbind (cond_read_node mok vers nb te ct) (\<lambda>(ct, node).
           lbind (cond_read_nodes mok vers nb te n ct) (\<lambda>(ct, nodes). lreturn (ct, node # nodes))))"

definition cond_read_list :: "bool \<Rightarrow> u32 \<Rightarrow> u32 \<Rightarrow> avtab \<Rightarrow> cond_tab \<Rightarrow> (cond_tab \<times> cond_node list) loader" where
  "cond_read_list mok vers nb te ct =
     lbind (lread (read_words 1)) (\<lambda>buf.
       case ct_alloc mok ct (av_nel te) of (rc, ct) \<Rightarrow>
         if rc \<noteq> 0 then lfail else cond_read_nodes mok vers nb te (nat (sint (buf ! 0))) ct)"

subsection \<open>Writing\<close>

text \<open>Versions from 20 on: the rules of the list that the parser or the reader made.\<close>

definition written_rules :: "cond_tab \<Rightarrow> nat list \<Rightarrow> avtab_node list" where
  "written_rules ct l = map (ct_node ct) (filter (\<lambda>a. snd (ct_nodes ct ! a)) l)"

definition cond_write_av_list :: "bool \<Rightarrow> u32 \<Rightarrow> bool \<Rightarrow> cond_tab \<Rightarrow> nat list \<Rightarrow> owriter" where
  "cond_write_av_list amc vers selinux ct l =
     (let rules = written_rules ct l in
      oseq (oput (put_words [of_nat (length rules)])) (olist (avtab_write_item amc vers selinux) rules))"

definition cond_write_node :: "bool \<Rightarrow> u32 \<Rightarrow> bool \<Rightarrow> cond_tab \<Rightarrow> cond_node \<Rightarrow> owriter" where
  "cond_write_node amc vers selinux ct node =
     oseq (oput (put_words [word_of_int (cur_state node)]))
    (oseq (oput (put_words [of_nat (length (cexpr node))]))
    (oseq (oput (wlist (\<lambda>e. put_words [expr_type e, expr_bool e]) (cexpr node)))
    (oseq (cond_write_av_list amc vers selinux ct (true_list node))
          (cond_write_av_list amc vers selinux ct (false_list node)))))"

definition cond_write_list :: "bool \<Rightarrow> u32 \<Rightarrow> bool \<Rightarrow> cond_tab \<Rightarrow> cond_node list \<Rightarrow> owriter" where
  "cond_write_list amc vers selinux ct cl =
     oseq (oput (put_words [of_nat (length cl)])) (olist (cond_write_node amc vers selinux ct) cl)"

section \<open>Composition\<close>

definition loads :: "bool \<Rightarrow> 'a loader \<Rightarrow> u8 list \<Rightarrow> 'a \<Rightarrow> bool" where
  "loads amc l bs x \<longleftrightarrow> (\<forall>rest. l amc (bs @ rest) = Ret (Some (x, rest, amc)))"

definition lextends :: "'a loader \<Rightarrow> bool" where
  "lextends l \<longleftrightarrow> (\<forall>amc fp x fp' amc' post. l amc fp = Ret (Some (x, fp', amc')) \<longrightarrow> l amc (fp @ post) = Ret (Some (x, fp' @ post, amc')))"

definition oemits :: "owriter \<Rightarrow> u8 list \<Rightarrow> bool" where
  "oemits w bs \<longleftrightarrow> (\<forall>fp. has_room (length bs) fp \<longrightarrow> w fp = Ret (0, after_put bs fp))"

named_theorems loads_intros \<open>what loaders find in images\<close>
named_theorems lextends_intros \<open>loaders that more bytes do not disturb\<close>
named_theorems oemits_intros \<open>what writers put\<close>

lemma loads_return [loads_intros]: "loads amc (lreturn x) [] x"
  by (simp add: loads_def lreturn_def)

lemma loads_bind [loads_intros]: "loads amc l bs x \<Longrightarrow> loads amc (f x) cs y \<Longrightarrow> loads amc (lbind l f) (bs @ cs) y"
  by (simp add: loads_def lbind_def)

lemma loads_bind_last: "loads amc l bs x \<Longrightarrow> loads amc (f x) [] y \<Longrightarrow> loads amc (lbind l f) bs y"
  using loads_bind[of amc l bs x f "[]" y] by simp

lemma loads_read [loads_intros]: "reads r bs x \<Longrightarrow> loads amc (lread r) bs x"
  by (simp add: loads_def lread_def reads_def)

lemma loads_when: "(b \<Longrightarrow> loads amc l bs x) \<Longrightarrow> (\<not> b \<Longrightarrow> x = x0) \<Longrightarrow> loads amc (if b then l else lreturn x0) (if b then bs else []) x"
  by (simp add: loads_return)

lemma lextends_return [lextends_intros]: "lextends (lreturn x)"
  by (simp add: lextends_def lreturn_def)

lemma lextends_fail [lextends_intros]: "lextends lfail"
  by (simp add: lextends_def lfail_def)

lemma lextends_bind [lextends_intros]: "lextends l \<Longrightarrow> (\<And>x. lextends (f x)) \<Longrightarrow> lextends (lbind l f)"
  by (fastforce simp: lextends_def lbind_def split: option.splits)

lemma lextends_read [lextends_intros]: "extends r \<Longrightarrow> lextends (lread r)"
  by (auto simp: lextends_def lread_def extends_def split: option.splits)

lemma lextends_if [lextends_intros]: "lextends l \<Longrightarrow> lextends l' \<Longrightarrow> lextends (if b then l else l')"
  by simp

text \<open>A proper prefix of an image is not accepted.\<close>

lemma loads_prefix:
  assumes "loads amc l bs x" and "lextends l" and "cs @ ds = bs" and "ds \<noteq> []"
  shows "l amc cs \<noteq> Ret (Some r)"
proof
  assume r: "l amc cs = Ret (Some r)"
  obtain y fp amc' where "r = (y, fp, amc')" by (metis surj_pair)
  with r assms(2) have "l amc (cs @ ds) = Ret (Some (y, fp @ ds, amc'))" by (simp add: lextends_def)
  moreover have "l amc (bs @ []) = Ret (Some (x, [], amc))" using assms(1) by (simp only: loads_def)
  ultimately show False using assms(3,4) by simp
qed

lemma oemits_put [oemits_intros]: "emits w bs \<Longrightarrow> oemits (oput w) bs"
  by (simp add: oemits_def oput_def emits_def)

lemma oemits_seq [oemits_intros]: "oemits w1 bs \<Longrightarrow> oemits w2 cs \<Longrightarrow> oemits (oseq w1 w2) (bs @ cs)"
  by (simp only: oemits_def has_room_append after_put_append oseq_def) simp

lemma oemits_list [oemits_intros]: "(\<And>x. x \<in> set xs \<Longrightarrow> oemits (w x) (f x)) \<Longrightarrow> oemits (olist w xs) (concat (map f xs))"
  by (induction xs) (simp_all add: oemits_put emits_skip oemits_seq)

lemma oemits_when: "(b \<Longrightarrow> oemits w bs) \<Longrightarrow> oemits (if b then w else oput wskip) (if b then bs else [])"
  by (simp add: oemits_put emits_skip)

section \<open>Rules\<close>

text \<open>The kinds a conditional rule has, switched on or off; extended permissions cannot be conditional.\<close>

definition cond_kinds :: "u16 list" where
  "cond_kinds = [0x0001, 0x0002, 0x0004, 0x0010, 0x0020, 0x0040, 0x8001, 0x8002, 0x8004, 0x8010, 0x8020, 0x8040]"

definition cond_rule :: "avtab_node \<Rightarrow> bool" where
  "cond_rule n \<longleftrightarrow> specified (fst n) \<in> set cond_kinds \<and> av_xperms (snd n) = None"

definition is_type_rule :: "avtab_node \<Rightarrow> bool" where
  "is_type_rule n \<longleftrightarrow> specified (fst n) AND AVTAB_TYPE \<noteq> 0"

definition rule_id_of :: "avtab_node \<Rightarrow> rule_id" where
  "rule_id_of n = av_id (fst n)"

lemma cond_kinds_facts:
  assumes "s \<in> set cond_kinds"
  shows "av_kind s \<in> set spec_order" "mask_enabled s = av_kind s" "s AND AVTAB_XPERMS = 0" "s AND AVTAB_OPTYPE = 0"
    "length (filter (\<lambda>t. s AND t \<noteq> 0) spec_order) = 1" "av_kind s AND AVTAB_TYPE = s AND AVTAB_TYPE"
  using assms unfolding cond_kinds_def by (auto simp: av_kind_def spec_order_def mask_enabled_def)

lemma cond_rule_key:
  assumes "cond_rule n"
  shows "single_kind (fst n)" "mask_enabled (specified (fst n)) = av_kind (specified (fst n))" "new_datum (fst n) (snd n) = snd n"
  using assms cond_kinds_facts[of "specified (fst n)"] by (simp_all add: cond_rule_def single_kind_def new_datum_def)

lemma cond_match:
  assumes "cond_rule n" and "single_kind cur"
  shows "key_match (fst n) (mask_enabled (specified (fst n))) cur \<longleftrightarrow> av_id cur = rule_id_of n"
proof -
  let ?k = "(fst n)\<lparr>specified := av_kind (specified (fst n))\<rparr>"
  have plain: "plain_key ?k" using cond_rule_key(1)[OF assms(1)] by (simp add: plain_key_def single_kind_def)
  then have "mask_enabled (av_kind (specified (fst n))) = av_kind (specified (fst n))"
    by (auto simp: plain_key_def spec_order_def mask_enabled_def)
  then have "key_match (fst n) (mask_enabled (specified (fst n))) cur \<longleftrightarrow> key_match ?k (mask_enabled (specified ?k)) cur"
    by (simp add: key_match_def same_types_def cond_rule_key(2)[OF assms(1)])
  moreover have "av_id ?k = rule_id_of n" using plain_kind[OF plain] by (simp add: av_id_def rule_id_of_def)
  ultimately show ?thesis using match_iff[OF plain assms(2)] by simp
qed

lemma type_rule_id: "cond_rule m \<Longrightarrow> cond_rule n \<Longrightarrow> rule_id_of m = rule_id_of n \<Longrightarrow> is_type_rule m = is_type_rule n"
  using cond_kinds_facts(6)[of "specified (fst m)"] cond_kinds_facts(6)[of "specified (fst n)"]
  by (simp add: rule_id_of_def av_id_def is_type_rule_def cond_rule_def)

text \<open>Unconditional rules are looked up whether the conditional one is switched on or not.\<close>

lemma search_te:
  assumes "avtab_wf te" and "cond_rule n"
  shows "avtab_search (Some te) (fst n) = avtab_abs te (rule_id_of n)"
proof -
  let ?k = "(fst n)\<lparr>specified := av_kind (specified (fst n))\<rparr>"
  have plain: "plain_key ?k" using cond_rule_key(1)[OF assms(2)] by (simp add: plain_key_def single_kind_def)
  then have m: "mask_enabled (av_kind (specified (fst n))) = av_kind (specified (fst n))"
    by (auto simp: plain_key_def spec_order_def mask_enabled_def)
  have find: "chain_find ?k sp ch = chain_find (fst n) sp ch" for sp ch
    by (induction ch) (simp_all add: key_match_def key_before_def same_types_def)
  have "avtab_hash ?k = avtab_hash (fst n)" by (simp add: avtab_hash_def fun_eq_iff)
  then have "avtab_search (Some te) (fst n) = avtab_search (Some te) ?k"
    by (simp add: avtab_search_def avtab_search_node_def find m cond_rule_key(2)[OF assms(2)] split: option.splits)
  moreover have "av_id ?k = rule_id_of n" using plain_kind[OF plain] by (simp add: av_id_def rule_id_of_def)
  ultimately show ?thesis using avtab_search_correct[OF assms(1) plain] by simp
qed

lemma oemits_rule [oemits_intros]: "cond_rule n \<Longrightarrow> oemits (avtab_write_item amc vers True n) (item_bytes amc n)"
proof -
  assume n: "cond_rule n"
  let ?h = "le_bytes 2 (source_type (fst n)) @ le_bytes 2 (target_type (fst n)) @ le_bytes 2 (target_class (fst n)) @ le_bytes 2 (specified (fst n))"
  have none: "av_xperms (snd n) = None" "specified (fst n) AND AVTAB_XPERMS = 0"
    using n cond_kinds_facts(3) by (auto simp: cond_rule_def)
  have bytes: "item_bytes amc n = ?h @ le_bytes 4 (av_data (snd n))"
    using none by (simp add: item_bytes_def item_spec_def del: le_bytes.simps)
  have "avtab_write_item amc vers True n fp = Ret (0, after_put (item_bytes amc n) fp)" if "has_room (length (item_bytes amc n)) fp" for fp
  proof -
    have r: "has_room (length ?h) fp" "has_room (length (le_bytes 4 (av_data (snd n)))) (after_put ?h fp)"
      using that unfolding bytes by (simp_all only: has_room_append)
    have "put_entry ?h 2 4 fp = (4, after_put ?h fp)" using r(1) by (intro put_entry_emits) simp_all
    moreover have "put_entry (le_bytes 4 (av_data (snd n))) 4 1 (after_put ?h fp) = (1, after_put (le_bytes 4 (av_data (snd n))) (after_put ?h fp))"
      using r(2) by (intro put_entry_emits) simp_all
    ultimately show ?thesis
      using none by (simp only: avtab_write_item_def Let_def bytes after_put_append) (simp del: le_bytes.simps)
  qed
  then show ?thesis by (simp add: oemits_def)
qed

lemma read_rule_bytes:
  assumes "cond_rule n" and "vers \<ge> POLICYDB_VERSION_AVTAB"
  shows "avtab_read_item insertf vers amc (item_bytes amc n @ rest) a = (case insertf (fst n) (snd n) a of (rc, a) \<Rightarrow> Ret (rc, a, rest, amc))"
proof -
  obtain k d where n: "n = (k, d)" by (cases n)
  define hd8 where "hd8 = le_bytes 2 (source_type k) @ le_bytes 2 (target_type k) @ le_bytes 2 (target_class k) @ le_bytes 2 (specified k)"
  have len: "length hd8 = 8" by (simp add: hd8_def)
  have parts: "le_word (take 2 hd8) = source_type k" "le_word (take 2 (drop 2 hd8)) = target_type k"
    "le_word (take 2 (drop 4 hd8)) = target_class k" "le_word (drop 6 hd8) = specified k"
    by (simp_all add: hd8_def del: le_bytes.simps)
  have none: "av_xperms d = None" and k: "specified k \<in> set cond_kinds" using assms(1) by (simp_all add: n cond_rule_def)
  have "item_bytes amc n @ rest = hd8 @ le_bytes 4 (av_data d) @ rest"
    using none by (simp add: n item_bytes_def item_spec_def hd8_def del: le_bytes.simps)
  moreover have key: "\<lparr>source_type = source_type k, target_type = target_type k, target_class = target_class k, specified = specified k\<rparr> = k"
    by simp
  moreover have "\<lparr>av_data = av_data d, av_xperms = None\<rparr> = d" using none by simp
  moreover have "next_entry (le_bytes 4 (av_data d) @ rest) 4 = (0, le_bytes 4 (av_data d), rest)" by simp
  moreover have "\<not> vers < POLICYDB_VERSION_AVTAB" using assms(2) by simp
  ultimately show ?thesis
    using cond_kinds_facts[OF k]
    by (simp add: n avtab_read_item_def next_entry_append[OF len] parts key zero_datum_def Let_def split: prod.splits)
qed

section \<open>Chains\<close>

text \<open>Chains are in the order of types and class; rules of the same kind may occur more than once.\<close>

definition loose :: "avtab_node list \<Rightarrow> bool" where
  "loose ch \<longleftrightarrow> sorted_wrt (\<lambda>x y. \<not> key_before (fst y) (fst x)) ch \<and> (\<forall>x \<in> set ch. cond_rule x)"

lemma find_loose:
  assumes "cond_rule n"
  shows "loose ch \<Longrightarrow> chain_find (fst n) (mask_enabled (specified (fst n))) ch = dropWhile (\<lambda>x. rule_id_of x \<noteq> rule_id_of n) ch"
proof (induction ch)
  case (Cons x ch)
  have x: "single_kind (fst x)" and ch: "loose ch" and up: "\<And>y. y \<in> set ch \<Longrightarrow> \<not> key_before (fst y) (fst x)"
    using Cons.prems cond_rule_key(1) by (auto simp: loose_def)
  have match: "key_match (fst n) (mask_enabled (specified (fst n))) (fst x) \<longleftrightarrow> rule_id_of x = rule_id_of n"
    using cond_match[OF assms x] by (simp add: rule_id_of_def)
  have "rule_id_of y \<noteq> rule_id_of n" if "key_before (fst n) (fst x)" "y \<in> set ch" for y
    using that up key_before_cong(1)[OF id_same_types, of "fst y" "fst n" "fst x"] by (auto simp: rule_id_of_def)
  then have d: "dropWhile (\<lambda>x. rule_id_of x \<noteq> rule_id_of n) ch = []" if "key_before (fst n) (fst x)"
    using that by simp
  show ?case
    by (cases "key_before (fst n) (fst x)") (simp_all only: chain_find.simps dropWhile.simps match d Cons.IH[OF ch] if_True if_False if_not_P, simp_all)
qed simp

lemma find_same_types: "same_types k k' \<Longrightarrow> chain_find k' sp ch = chain_find k sp ch"
  by (induction ch) (simp_all add: key_match_def key_before_def same_types_def)

lemma nonunique_stop_split:
  assumes "nonunique_stop key sp pre ch = (a, b)"
  shows "\<exists>m. a = pre @ m \<and> ch = m @ b \<and> (\<forall>x \<in> set m. \<not> key_before key (fst x)) \<and>
    (b = [] \<or> key_before key (fst (hd b)) \<or> key_match key sp (fst (hd b)))"
  using assms
proof (induction key sp pre ch rule: nonunique_stop.induct)
  case (2 key sp pre x cur)
  show ?case
  proof (cases "key_match key sp (fst x) \<or> key_before key (fst x)")
    case True
    with 2(2) have "a = pre" "b = x # cur" by (auto split: if_splits)
    then show ?thesis using True by (intro exI[of _ "[]"]) auto
  next
    case False
    with 2(2) have rec: "nonunique_stop key sp (pre @ [x]) cur = (a, b)" by simp
    from 2(1)[OF _ _ rec] False obtain m where "a = (pre @ [x]) @ m" "cur = m @ b" "\<forall>x \<in> set m. \<not> key_before key (fst x)"
      "b = [] \<or> key_before key (fst (hd b)) \<or> key_match key sp (fst (hd b))" by blast
    then show ?thesis using False by (intro exI[of _ "x # m"]) auto
  qed
qed simp

lemma loose_insert:
  assumes "loose ch" and "cond_rule n" and "nonunique_stop (fst n) sp [] ch = (a, b)"
  shows "loose (a @ n # b)" and "ch = a @ b"
proof -
  from nonunique_stop_split[OF assms(3)] have ch: "ch = a @ b" and pre: "\<forall>x \<in> set a. \<not> key_before (fst n) (fst x)"
    and b: "b = [] \<or> key_before (fst n) (fst (hd b)) \<or> key_match (fst n) sp (fst (hd b))" by auto
  show "ch = a @ b" by (fact ch)
  have lb: "loose b" using assms(1) by (simp add: ch loose_def sorted_wrt_append)
  have "\<not> key_before (fst y) (fst n)" if "y \<in> set b" for y
  proof (cases b)
    case (Cons z b')
    have "\<not> key_before (fst y) (fst z)" using that lb Cons by (auto simp: loose_def key_before_def)
    moreover have "key_before (fst n) (fst z) \<or> same_types (fst n) (fst z)" using b Cons by (auto simp: key_match_def)
    ultimately show ?thesis using key_before_trans key_before_cong(2) by blast
  qed (use that in simp)
  with pre assms(1,2) show "loose (a @ n # b)" by (auto simp: ch loose_def sorted_wrt_append)
qed

lemma suffix_dropWhile: "at_suffix ch (dropWhile P (map f ch)) = dropWhile (P \<circ> f) ch"
proof -
  have "length (dropWhile P (map f ch)) = length (dropWhile (P \<circ> f) ch)" by (simp add: dropWhile_map)
  moreover have "drop (length ch - length (dropWhile Q ch)) ch = dropWhile Q ch" for Q
    by (metis add_diff_cancel_right' append_eq_conv_conj length_append takeWhile_dropWhile_id)
  ultimately show ?thesis by (simp add: at_suffix_def)
qed

section \<open>The table\<close>

definition ct_ids :: "cond_tab \<Rightarrow> rule_id list" where
  "ct_ids ct = map (rule_id_of \<circ> fst) (ct_nodes ct)"

text \<open>Every node is in the chain of its bucket, once.\<close>

definition ct_wf :: "cond_tab \<Rightarrow> bool" where
  "ct_wf ct \<longleftrightarrow> (\<forall>x \<in> set (ct_nodes ct). cond_rule (fst x)) \<and>
     (case ct_chains ct of None \<Rightarrow> False
      | Some cs \<Rightarrow> length cs = unat (ct_nslot ct) \<and> ct_mask ct < ct_nslot ct \<and>
          (\<forall>i < length cs. loose (map (ct_node ct) (cs ! i)) \<and> distinct (cs ! i) \<and>
             set (cs ! i) = {a. a < length (ct_nodes ct) \<and> id_bucket (ct_mask ct) (ct_ids ct ! a) = i}))"

lemma ct_node_id: "a < length (ct_nodes ct) \<Longrightarrow> rule_id_of (ct_node ct a) = ct_ids ct ! a"
  by (simp add: ct_ids_def ct_node_def)

lemma ct_bucket:
  fixes key :: avtab_key
  assumes "ct_wf ct"
  defines "hv \<equiv> unat (avtab_hash key (ct_mask ct))"
  obtains cs where "ct_chains ct = Some cs" and "hv < length cs" and "loose (map (ct_node ct) (cs ! hv))" and "distinct (cs ! hv)"
    and "set (cs ! hv) = {a. a < length (ct_nodes ct) \<and> id_bucket (ct_mask ct) (ct_ids ct ! a) = id_bucket (ct_mask ct) (av_id key)}"
proof -
  from assms(1) obtain cs where cs: "ct_chains ct = Some cs" "length cs = unat (ct_nslot ct)" "ct_mask ct < ct_nslot ct"
    and c: "\<And>i. i < length cs \<Longrightarrow> loose (map (ct_node ct) (cs ! i)) \<and> distinct (cs ! i) \<and>
      set (cs ! i) = {a. a < length (ct_nodes ct) \<and> id_bucket (ct_mask ct) (ct_ids ct ! a) = i}"
    by (auto simp: ct_wf_def split: option.splits)
  have "avtab_hash key (ct_mask ct) \<le> ct_mask ct" by (simp add: avtab_hash_def Let_def word_and_le1)
  then have "hv < length cs" using cs(2,3) by (simp add: hv_def word_less_nat_alt word_le_nat_alt)
  with cs(1) c[of hv] show ?thesis by (intro that[of cs]) (auto simp: hv_def hash_id)
qed

text \<open>Searching finds the first node with the rule's identity in its bucket, if there is one.\<close>

lemma ct_search:
  assumes wf: "ct_wf ct" and n: "cond_rule n"
  obtains ch where "ct_search_node ct (fst n) = dropWhile (\<lambda>a. rule_id_of (ct_node ct a) \<noteq> rule_id_of n) ch" and "distinct ch"
    and "loose (map (ct_node ct) ch)" and "\<And>a. a < length (ct_nodes ct) \<Longrightarrow> ct_ids ct ! a = rule_id_of n \<Longrightarrow> a \<in> set ch"
    and "\<And>a. a \<in> set ch \<Longrightarrow> a < length (ct_nodes ct)"
    and "avtab_search_node (Some (ct_table ct)) (fst n) = map (ct_node ct) (ct_search_node ct (fst n))"
proof -
  let ?hv = "unat (avtab_hash (fst n) (ct_mask ct))"
  obtain cs where cs: "ct_chains ct = Some cs" "?hv < length cs" "loose (map (ct_node ct) (cs ! ?hv))" "distinct (cs ! ?hv)"
    and el: "set (cs ! ?hv) = {a. a < length (ct_nodes ct) \<and> id_bucket (ct_mask ct) (ct_ids ct ! a) = id_bucket (ct_mask ct) (av_id (fst n))}"
    by (rule ct_bucket[OF wf])
  let ?P = "\<lambda>x. rule_id_of x \<noteq> rule_id_of n"
  have s: "avtab_search_node (Some (ct_table ct)) (fst n) = dropWhile ?P (map (ct_node ct) (cs ! ?hv))"
    using cs by (simp add: avtab_search_node_def ct_table_def find_loose[OF n])
  have c: "ct_search_node ct (fst n) = dropWhile (?P \<circ> ct_node ct) (cs ! ?hv)"
    by (simp only: ct_search_node_def cs option.case s suffix_dropWhile)
  show thesis
    using cs el by (intro that[of "cs ! ?hv"]) (auto simp: c s comp_def dropWhile_map rule_id_of_def)
qed

lemma map_split: "map f ch = p @ r \<Longrightarrow> map f (take (length p) ch) = p \<and> map f (drop (length p) ch) = r"
  by (simp flip: take_map drop_map)

lemma set_insertion: "set (take k xs @ x # drop k xs) = insert x (set xs)"
  by (metis Un_insert_right append_take_drop_id list.simps(15) set_append)

lemma distinct_insertion: "distinct (take k xs @ x # drop k xs) \<longleftrightarrow> x \<notin> set xs \<and> distinct xs"
proof -
  have "distinct (a @ x # b) \<longleftrightarrow> x \<notin> set (a @ b) \<and> distinct (a @ b)" for a b by auto
  from this[of "take k xs" "drop k xs"] show ?thesis by (simp only: append_take_drop_id)
qed

text \<open>What \<open>cond_insertf\<close> leaves of the table when nothing fails.\<close>

definition ct_add :: "cond_tab \<Rightarrow> avtab_node \<Rightarrow> cond_tab" where
  "ct_add ct n = set_parse_context (length (ct_nodes ct)) (snd (ct_insert_nonunique True ct (fst n) (snd n)))"

lemma ct_node_append:
  "ct_nodes ct' = ct_nodes ct @ xs \<Longrightarrow> a < length (ct_nodes ct) \<Longrightarrow> ct_node ct' a = ct_node ct a"
  "ct_nodes ct' = ct_nodes ct @ (n, b) # xs \<Longrightarrow> ct_node ct' (length (ct_nodes ct)) = n"
  by (simp_all add: ct_node_def nth_append)

lemma ct_insert:
  assumes wf: "ct_wf ct" and n: "cond_rule n"
  shows "fst (ct_insert_nonunique True ct (fst n) (snd n)) = Some (length (ct_nodes ct))"
    and "ct_nodes (ct_add ct n) = ct_nodes ct @ [(n, True)]" and "ct_wf (ct_add ct n)"
proof -
  let ?hv = "unat (avtab_hash (fst n) (ct_mask ct))" and ?new = "length (ct_nodes ct)"
  let ?bucket = "\<lambda>r. id_bucket (ct_mask ct) r"
  obtain cs where cs: "ct_chains ct = Some cs" "?hv < length cs" "loose (map (ct_node ct) (cs ! ?hv))" "distinct (cs ! ?hv)"
    and el: "set (cs ! ?hv) = {a. a < ?new \<and> ?bucket (ct_ids ct ! a) = ?bucket (rule_id_of n)}"
    by (rule ct_bucket[OF wf, of "fst n"]) (auto simp: rule_id_of_def)
  obtain p r where stop: "nonunique_stop (fst n) (mask_enabled (specified (fst n))) [] (map (ct_node ct) (cs ! ?hv)) = (p, r)"
    by (metis surj_pair)
  note loose = loose_insert[OF cs(3) n stop]
  have lens: "length (cs ! ?hv) = length p + length r" using arg_cong[OF loose(2), of length] by simp
  let ?ch = "take (length p) (cs ! ?hv) @ ?new # drop (length p) (cs ! ?hv)"
  have ins: "ct_insert_nonunique True ct (fst n) (snd n) =
      (Some ?new, ct\<lparr>ct_nodes := ct_nodes ct @ [(n, False)], ct_chains := Some (cs[?hv := ?ch]), ct_nel := ct_nel ct + 1\<rparr>)"
    using lens by (simp add: ct_insert_nonunique_def cs(1) stop at_suffix_def Let_def cond_rule_key(3)[OF n])
  then show "fst (ct_insert_nonunique True ct (fst n) (snd n)) = Some ?new" by simp
  have add: "ct_add ct n = ct\<lparr>ct_nodes := ct_nodes ct @ [(n, True)], ct_chains := Some (cs[?hv := ?ch]), ct_nel := ct_nel ct + 1\<rparr>"
    by (simp add: ct_add_def ins set_parse_context_def ct_node_def)
  then show nodes: "ct_nodes (ct_add ct n) = ct_nodes ct @ [(n, True)]" by simp
  have ids: "ct_ids (ct_add ct n) = ct_ids ct @ [rule_id_of n]" by (simp add: ct_ids_def nodes)
  have lid: "length (ct_ids ct) = ?new" by (simp add: ct_ids_def)
  have old: "map (ct_node (ct_add ct n)) xs = map (ct_node ct) xs" if "\<forall>a \<in> set xs. a < ?new" for xs
    using that ct_node_append(1)[OF nodes] by simp
  have new: "ct_node (ct_add ct n) ?new = n" using ct_node_append(2)[OF nodes] .
  have range: "\<forall>a \<in> set (cs ! ?hv). a < ?new" using el by simp
  then have "\<forall>a \<in> set (take (length p) (cs ! ?hv)). a < ?new" "\<forall>a \<in> set (drop (length p) (cs ! ?hv)). a < ?new"
    by (auto dest: in_set_takeD in_set_dropD)
  then have "map (ct_node (ct_add ct n)) ?ch = p @ n # r"
    using map_split[OF loose(2)] by (simp only: map_append list.map old new)
  then have hit: "loose (map (ct_node (ct_add ct n)) ?ch)" using loose(1) by simp
  have dist: "distinct ?ch" and set: "set ?ch = insert ?new (set (cs ! ?hv))"
    using cs(4) range by (auto simp only: distinct_insertion set_insertion)
  have hv: "?bucket (rule_id_of n) = ?hv" by (simp add: hash_id rule_id_of_def)
  have members: "{a. a < Suc ?new \<and> ?bucket (ct_ids (ct_add ct n) ! a) = i} =
      (if i = ?hv then insert ?new {a. a < ?new \<and> ?bucket (ct_ids ct ! a) = i} else {a. a < ?new \<and> ?bucket (ct_ids ct ! a) = i})" for i
    using hv by (auto simp: ids nth_append lid less_Suc_eq)
  have bucket: "loose (map (ct_node (ct_add ct n)) (cs[?hv := ?ch] ! i)) \<and> distinct (cs[?hv := ?ch] ! i) \<and>
      set (cs[?hv := ?ch] ! i) = {a. a < Suc ?new \<and> ?bucket (ct_ids (ct_add ct n) ! a) = i}" if i: "i < length cs" for i
  proof (cases "i = ?hv")
    case True
    then show ?thesis using hit dist set el i hv members by (simp only: nth_list_update_eq simp_thms if_True)
  next
    case False
    have c: "loose (map (ct_node ct) (cs ! i)) \<and> distinct (cs ! i) \<and> set (cs ! i) = {a. a < ?new \<and> ?bucket (ct_ids ct ! a) = i}"
      using wf i by (simp add: ct_wf_def cs(1))
    then have "map (ct_node (ct_add ct n)) (cs ! i) = map (ct_node ct) (cs ! i)" by (intro old) simp
    with c False show ?thesis by (simp only: nth_list_update_neq members if_False)
  qed
  have "length cs = unat (ct_nslot ct)" "ct_mask ct < ct_nslot ct" "\<forall>x \<in> set (ct_nodes ct). cond_rule (fst x)"
    using wf by (simp_all add: ct_wf_def cs(1))
  then show "ct_wf (ct_add ct n)"
    using n bucket by (simp add: ct_wf_def nodes) (simp add: add)
qed

text \<open>
  A type rule does not conflict if it is not an unconditional rule, and at most one conditional rule has its identity, which is
  in the other list.
\<close>

definition type_fits :: "avtab \<Rightarrow> nat list \<Rightarrow> cond_tab \<Rightarrow> avtab_node \<Rightarrow> bool" where
  "type_fits te other ct n \<longleftrightarrow> avtab_abs te (rule_id_of n) = None \<and>
     (\<forall>a b. a < length (ct_nodes ct) \<longrightarrow> b < length (ct_nodes ct) \<longrightarrow> ct_ids ct ! a = rule_id_of n \<longrightarrow> ct_ids ct ! b = rule_id_of n \<longrightarrow>
        a \<in> set other \<and> a = b)"

lemma no_conflict:
  assumes wf: "ct_wf ct" and te: "avtab_wf te" and n: "cond_rule n" and fits: "type_fits te other ct n"
  shows "\<not> type_conflict te other ct (fst n)"
proof -
  let ?P = "\<lambda>a. rule_id_of (ct_node ct a) \<noteq> rule_id_of n"
  obtain ch where s: "ct_search_node ct (fst n) = dropWhile ?P ch" and d: "distinct ch" and l: "loose (map (ct_node ct) ch)"
    and range: "\<And>a. a \<in> set ch \<Longrightarrow> a < length (ct_nodes ct)"
    and val: "avtab_search_node (Some (ct_table ct)) (fst n) = map (ct_node ct) (ct_search_node ct (fst n))"
    by (rule ct_search[OF wf n]) blast
  have none: "avtab_search (Some te) (fst n) = None" using search_te[OF te n] fits by (simp add: type_fits_def)
  show ?thesis
  proof (cases "ct_search_node ct (fst n)")
    case Nil
    then show ?thesis by (simp add: type_conflict_def none avtab_search_def[of "Some (ct_table ct)"] val)
  next
    case (Cons a nxt)
    obtain pre where ch: "ch = pre @ a # nxt" using Cons takeWhile_dropWhile_id[of ?P ch] s by metis
    have id: "rule_id_of (ct_node ct a) = rule_id_of n" using Cons s hd_dropWhile[of ?P ch] by auto
    have a: "a \<in> set other" and uniq: "b = a" if "b \<in> set nxt" "rule_id_of (ct_node ct b) = rule_id_of n" for b
      using that id fits range[of a] range[of b] ct_node_id by (auto simp: type_fits_def ch)
    have mem: "a \<in> set other" using id fits range[of a] ct_node_id[of a ct] by (auto simp: type_fits_def ch)
    have "loose (map (ct_node ct) nxt)" using l by (simp add: ch loose_def sorted_wrt_append)
    moreover have "same_types (fst n) (fst (ct_node ct a))" using id_same_types[of "fst n"] id by (simp add: rule_id_of_def)
    ultimately have "avtab_search_node_next (map (ct_node ct) (a # nxt)) (specified (fst n)) =
        dropWhile (\<lambda>x. rule_id_of x \<noteq> rule_id_of n) (map (ct_node ct) nxt)"
      using find_same_types[of "fst n" "fst (ct_node ct a)"]
      by (simp add: avtab_search_node_next_def find_loose[OF n] split_beta split: prod.split)
    moreover have "dropWhile (\<lambda>x. rule_id_of x \<noteq> rule_id_of n) (map (ct_node ct) nxt) = []" using uniq d by (auto simp: ch)
    ultimately have "ct_search_node_next ct (a # nxt) (specified (fst n)) = []"
      by (simp only: ct_search_node_next_def) (simp add: at_suffix_def)
    then show ?thesis using mem by (auto simp: type_conflict_def none Cons)
  qed
qed

lemma cond_insertf_ok:
  assumes "ct_wf ct" and "avtab_wf te" and "cond_rule n" and "is_type_rule n \<Longrightarrow> type_fits te other ct n"
  shows "cond_insertf True te other (fst n) (snd n) (ct, l) = (0, ct_add ct n, l @ [length (ct_nodes ct)])"
proof -
  have "\<not> (is_type_rule n \<and> type_conflict te other ct (fst n))" using no_conflict[OF assms(1-3)] assms(4) by blast
  moreover obtain ct' where "ct_insert_nonunique True ct (fst n) (snd n) = (Some (length (ct_nodes ct)), ct')"
    using ct_insert(1)[OF assms(1,3)] by (metis prod.collapse)
  ultimately show ?thesis by (simp add: cond_insertf_def is_type_rule_def ct_add_def Let_def)
qed

section \<open>Lists of rules\<close>

definition type_ids :: "avtab_node list \<Rightarrow> rule_id list" where
  "type_ids ns = map rule_id_of (filter is_type_rule ns)"

lemma fits_add:
  assumes "type_fits te other ct m" and "cond_rule m" "cond_rule n" "ct_wf ct" and "rule_id_of m \<noteq> rule_id_of n"
  shows "type_fits te other (ct_add ct n) m"
proof -
  note nodes = ct_insert(2)[OF assms(4,3)]
  then have "ct_ids (ct_add ct n) ! a = rule_id_of m \<Longrightarrow> a < length (ct_nodes (ct_add ct n)) \<Longrightarrow>
      a < length (ct_nodes ct) \<and> ct_ids ct ! a = rule_id_of m" for a
    using assms(5) by (auto simp: ct_ids_def nth_append less_Suc_eq split: if_splits)
  then show ?thesis using assms(1) unfolding type_fits_def by blast
qed

lemma read_rules_ok:
  assumes "vers \<ge> POLICYDB_VERSION_AVTAB" and "avtab_wf te" and "ct_wf ct" and "\<forall>n \<in> set ns. cond_rule n"
    and "distinct (type_ids ns)" and "\<forall>n \<in> set ns. is_type_rule n \<longrightarrow> type_fits te other ct n"
  shows "\<exists>ct'. loads amc (cond_read_rules True vers te other (length ns) (ct, l)) (concat (map (item_bytes amc) ns))
      (ct', l @ [length (ct_nodes ct)..<length (ct_nodes ct) + length ns]) \<and> ct_wf ct' \<and>
    ct_nodes ct' = ct_nodes ct @ map (\<lambda>n. (n, True)) ns"
  using assms(3-)
proof (induction ns arbitrary: ct l)
  case Nil
  then show ?case using loads_return[of amc "(ct, l)"] by auto
next
  case (Cons n ns)
  have n: "cond_rule n" and fits: "is_type_rule n \<Longrightarrow> type_fits te other ct n" using Cons.prems by auto
  have "type_fits te other (ct_add ct n) m" if m: "m \<in> set ns" "is_type_rule m" for m
  proof (rule fits_add)
    show "rule_id_of m \<noteq> rule_id_of n"
    proof
      assume eq: "rule_id_of m = rule_id_of n"
      then have "is_type_rule n" using m n Cons.prems(2) type_rule_id[of m n] by simp
      then have "rule_id_of n \<notin> set (type_ids ns)" using Cons.prems(3) by (simp add: type_ids_def)
      moreover have "rule_id_of m \<in> set (type_ids ns)" using m by (simp add: type_ids_def)
      ultimately show False using eq by simp
    qed
  qed (use m n Cons.prems in auto)
  with Cons.prems ct_insert(2,3)[OF Cons.prems(1) n]
  obtain ct' where ct': "loads amc (cond_read_rules True vers te other (length ns) (ct_add ct n, l @ [length (ct_nodes ct)]))
      (concat (map (item_bytes amc) ns)) (ct', (l @ [length (ct_nodes ct)]) @ [Suc (length (ct_nodes ct))..<Suc (length (ct_nodes ct)) + length ns])"
    "ct_wf ct'" "ct_nodes ct' = ct_nodes ct @ (n, True) # map (\<lambda>n. (n, True)) ns"
    using Cons.IH[of "ct_add ct n" "l @ [length (ct_nodes ct)]"] by (auto simp: type_ids_def split: if_splits)
  have "loads amc (\<lambda>amc fp. obind (avtab_read_item (cond_insertf True te other) vers amc fp (ct, l))
      (\<lambda>(rc, cl, fp, amc). Ret (if rc \<noteq> 0 then None else Some (cl, fp, amc)))) (item_bytes amc n) (ct_add ct n, l @ [length (ct_nodes ct)])"
    by (simp add: loads_def read_rule_bytes[OF n assms(1)] cond_insertf_ok[OF Cons.prems(1) assms(2) n fits])
  from loads_bind[where f = "cond_read_rules True vers te other (length ns)", OF this ct'(1)] ct'(2,3)
  show ?case by (intro exI[of _ ct']) (simp add: upt_conv_Cons del: upt_Suc)
qed

definition rules_image :: "bool \<Rightarrow> avtab_node list \<Rightarrow> u8 list" where
  "rules_image amc ns = words_image [of_nat (length ns)] @ concat (map (item_bytes amc) ns)"

lemma read_av_list_ok:
  assumes "vers \<ge> POLICYDB_VERSION_AVTAB" and "avtab_wf te" and "ct_wf ct" and "\<forall>n \<in> set ns. cond_rule n"
    and "distinct (type_ids ns)" and "\<forall>n \<in> set ns. is_type_rule n \<longrightarrow> type_fits te other ct n" and "length ns < 4294967296"
  obtains ct' where "loads amc (cond_read_av_list True vers te other ct) (rules_image amc ns)
      (ct', [length (ct_nodes ct)..<length (ct_nodes ct) + length ns])" and "ct_wf ct'"
    and "ct_nodes ct' = ct_nodes ct @ map (\<lambda>n. (n, True)) ns"
proof -
  from read_rules_ok[OF assms(1-6), of amc "[]"] obtain ct'
    where ct': "loads amc (cond_read_rules True vers te other (length ns) (ct, [])) (concat (map (item_bytes amc) ns))
      (ct', [length (ct_nodes ct)..<length (ct_nodes ct) + length ns])" "ct_wf ct'"
      "ct_nodes ct' = ct_nodes ct @ map (\<lambda>n. (n, True)) ns" by auto
  have "loads amc (lread (read_words 1)) (words_image [of_nat (length ns)]) [of_nat (length ns)]"
    by (intro loads_read reads_words) simp
  then have "loads amc (cond_read_av_list True vers te other ct) (rules_image amc ns)
      (ct', [length (ct_nodes ct)..<length (ct_nodes ct) + length ns])"
    unfolding cond_read_av_list_def rules_image_def
    by (rule loads_bind) (use ct'(1) assms(7) in \<open>simp add: unat_of_nat32\<close>)
  with ct'(2,3) show ?thesis by (rule that[rotated 1])
qed

section \<open>Blocks\<close>

text \<open>What the image keeps of a block: its state, its expression and the rules of both lists.\<close>

type_synonym cond_block = "int \<times> cond_expr list \<times> avtab_node list \<times> avtab_node list"

definition block_of :: "cond_tab \<Rightarrow> cond_node \<Rightarrow> cond_block" where
  "block_of ct node = (cur_state node, cexpr node, written_rules ct (true_list node), written_rules ct (false_list node))"

definition block_image :: "bool \<Rightarrow> cond_block \<Rightarrow> u8 list" where
  "block_image amc b = (case b of (st, es, ts, fs) \<Rightarrow>
     words_image [word_of_int st] @ (words_image [of_nat (length es)] @ concat (map (\<lambda>e. words_image [expr_type e, expr_bool e]) es)) @
     rules_image amc ts @ rules_image amc fs)"

definition block_ok :: "u32 \<Rightarrow> cond_block \<Rightarrow> bool" where
  "block_ok nb b \<longleftrightarrow> (case b of (st, es, ts, fs) \<Rightarrow>
     - 2147483648 \<le> st \<and> st < 2147483648 \<and> length es < 2147483648 \<and> (\<forall>e \<in> set es. expr_isvalid nb e) \<and>
     length ts < 4294967296 \<and> length fs < 4294967296 \<and> (\<forall>n \<in> set ts \<union> set fs. cond_rule n))"

text \<open>Type rules of different blocks or of the same list of a block do not have the same identity, nor that of an unconditional rule.\<close>

fun blocks_fit :: "avtab \<Rightarrow> rule_id set \<Rightarrow> cond_block list \<Rightarrow> bool" where
  "blocks_fit te seen [] = True"
| "blocks_fit te seen ((st, es, ts, fs) # bs) \<longleftrightarrow> distinct (type_ids ts) \<and> distinct (type_ids fs) \<and>
     (set (type_ids ts) \<union> set (type_ids fs)) \<inter> (seen \<union> dom (avtab_abs te)) = {} \<and>
     blocks_fit te (seen \<union> set (type_ids ts) \<union> set (type_ids fs)) bs"

lemma expr_item:
  "next_entry (words_image [a, b] @ fp) 8 = (0, words_image [a, b], fp)" "le_word (take 4 (words_image [a, b])) = a"
  "le_word (drop 4 (words_image [a, b])) = b"
  using next_entry_append[of "words_image [a, b]" 8 fp] by (simp_all add: words_image_def del: le_bytes.simps next_entry_append)

lemma read_exprs_ok:
  "\<forall>e \<in> set es. expr_isvalid nb e \<Longrightarrow>
   cond_read_exprs True nb (length es) (concat (map (\<lambda>e. words_image [expr_type e, expr_bool e]) es) @ rest) = (0, es, rest)"
proof (induction es)
  case (Cons e es)
  have eta: "\<lparr>expr_type = expr_type e, expr_bool = expr_bool e\<rparr> = e" by simp
  show ?case using Cons by (simp add: expr_item eta Let_def)
qed simp

lemma nat_sint_len: "n < 2147483648 \<Longrightarrow> nat (sint (of_nat n :: u32)) = n"
  by (simp add: signed_of_nat signed_take_bit_int_eq_self)

lemma sint_state: "- 2147483648 \<le> i \<Longrightarrow> i < 2147483648 \<Longrightarrow> sint (word_of_int i :: u32) = i"
  by (simp add: signed_of_int signed_take_bit_int_eq_self)

lemma reads_exprs:
  assumes "length es < 2147483648" and "\<forall>e \<in> set es. expr_isvalid nb e"
  shows "reads (cond_expr_reader True nb)
    (words_image [of_nat (length es)] @ concat (map (\<lambda>e. words_image [expr_type e, expr_bool e]) es)) es"
  unfolding cond_expr_reader_def
  by (rule reads_bind[OF reads_words]) (use assms in \<open>simp_all add: reads_def nat_sint_len read_exprs_ok\<close>)

lemma distinct_filter_nth:
  "distinct (map f (filter P xs)) \<Longrightarrow> i < length xs \<Longrightarrow> j < length xs \<Longrightarrow> P (xs ! i) \<Longrightarrow> P (xs ! j) \<Longrightarrow> f (xs ! i) = f (xs ! j) \<Longrightarrow> i = j"
proof (induction xs arbitrary: i j)
  case (Cons x xs)
  have new: "f x \<noteq> f (xs ! k)" if "P x" "k < length xs" "P (xs ! k)" for k
  proof -
    have "xs ! k \<in> set (filter P xs)" using that by simp
    then have "f (xs ! k) \<in> set (map f (filter P xs))" unfolding set_map by (rule imageI)
    then show ?thesis using that(1) Cons.prems(1) by auto
  qed
  have d: "distinct (map f (filter P xs))" using Cons.prems(1) by (simp split: if_splits)
  show ?case
    using Cons.IH[OF d] Cons.prems(2-) new new[THEN not_sym] by (cases i; cases j) auto
qed simp

text \<open>The identities of the type rules in the table.\<close>

definition seen_types :: "cond_tab \<Rightarrow> rule_id set" where
  "seen_types ct = set (type_ids (map fst (ct_nodes ct)))"

lemma seen_types_append: "ct_nodes ct' = ct_nodes ct @ map (\<lambda>n. (n, True)) ns \<Longrightarrow> seen_types ct' = seen_types ct \<union> set (type_ids ns)"
  by (simp add: seen_types_def type_ids_def comp_def image_Un)

lemma ct_wf_rule: "ct_wf ct \<Longrightarrow> a < length (ct_nodes ct) \<Longrightarrow> cond_rule (ct_node ct a)"
  by (simp add: ct_wf_def ct_node_def)

lemma seen_types_at:
  assumes "ct_wf ct" and "cond_rule n" "is_type_rule n" and "a < length (ct_nodes ct)" and "ct_ids ct ! a = rule_id_of n"
  shows "rule_id_of n \<in> seen_types ct"
proof -
  have "is_type_rule (ct_node ct a)"
    using type_rule_id[OF ct_wf_rule[OF assms(1,4)] assms(2)] assms(3-5) by (simp add: ct_node_id)
  moreover have "ct_node ct a \<in> set (map fst (ct_nodes ct))" using assms(4) by (simp add: ct_node_def)
  ultimately have "ct_node ct a \<in> set (filter is_type_rule (map fst (ct_nodes ct)))" by simp
  then have "rule_id_of (ct_node ct a) \<in> seen_types ct" unfolding seen_types_def type_ids_def set_map by (rule imageI)
  then show ?thesis using ct_node_id[OF assms(4)] assms(5) by simp
qed

lemma fits_fresh:
  "ct_wf ct \<Longrightarrow> cond_rule n \<Longrightarrow> is_type_rule n \<Longrightarrow> avtab_abs te (rule_id_of n) = None \<Longrightarrow> rule_id_of n \<notin> seen_types ct \<Longrightarrow>
   type_fits te other ct n"
  using seen_types_at[of ct n] unfolding type_fits_def by blast

text \<open>While the false list is read, the rules of the true list are the last of the table.\<close>

lemma fits_other:
  assumes wf: "ct_wf ct1" "ct_wf ct" and nodes: "ct_nodes ct1 = ct_nodes ct @ map (\<lambda>n. (n, True)) ts" and d: "distinct (type_ids ts)"
    and n: "cond_rule n" "is_type_rule n" and te: "avtab_abs te (rule_id_of n) = None" and fresh: "rule_id_of n \<notin> seen_types ct"
  shows "type_fits te [length (ct_nodes ct)..<length (ct_nodes ct) + length ts] ct1 n"
proof -
  let ?l = "length (ct_nodes ct)"
  have in_ts: "?l \<le> a \<and> a - ?l < length ts \<and> rule_id_of (ts ! (a - ?l)) = rule_id_of n \<and> is_type_rule (ts ! (a - ?l))"
    if a: "a < length (ct_nodes ct1)" "ct_ids ct1 ! a = rule_id_of n" for a
  proof -
    have ge: "\<not> a < ?l"
    proof
      assume lt: "a < ?l"
      then have "ct_ids ct ! a = rule_id_of n" using a(2) by (simp add: ct_ids_def nodes nth_append)
      then show False using seen_types_at[OF wf(2) n lt] fresh by simp
    qed
    then have node: "ct_node ct1 a = ts ! (a - ?l)" using a(1) by (simp add: ct_node_def nodes nth_append)
    have "is_type_rule (ct_node ct1 a)"
      using type_rule_id[OF ct_wf_rule[OF wf(1) a(1)] n(1)] n(2) a by (simp add: ct_node_id)
    then show ?thesis using ge a ct_node_id[OF a(1)] by (simp add: node nodes)
  qed
  show ?thesis unfolding type_fits_def
  proof (intro conjI allI impI te)
    fix a b
    assume a: "a < length (ct_nodes ct1)" "ct_ids ct1 ! a = rule_id_of n" and b: "b < length (ct_nodes ct1)" "ct_ids ct1 ! b = rule_id_of n"
    note in_a = in_ts[OF a] and in_b = in_ts[OF b]
    then have "a - ?l = b - ?l" using d by (intro distinct_filter_nth[of rule_id_of is_type_rule ts]) (simp_all add: type_ids_def)
    with conjunct1[OF in_a] conjunct1[OF in_b] show "a = b" by linarith
    show "a \<in> set [?l..<?l + length ts]" using in_a by auto
  qed
qed

lemma written_upt:
  assumes "ct_nodes ct = pre @ map (\<lambda>n. (n, True)) ns @ post"
  shows "written_rules ct [length pre..<length pre + length ns] = ns"
proof -
  have at: "ct_nodes ct ! a = (ns ! (a - length pre), True)" if "a \<in> set [length pre..<length pre + length ns]" for a
    using that by (auto simp: assms nth_append)
  then have "filter (\<lambda>a. snd (ct_nodes ct ! a)) [length pre..<length pre + length ns] = [length pre..<length pre + length ns]"
    by (simp add: filter_id_conv)
  then have "written_rules ct [length pre..<length pre + length ns] = map (\<lambda>a. ns ! (a - length pre)) [length pre..<length pre + length ns]"
    using at by (auto simp: written_rules_def ct_node_def)
  also have "\<dots> = ns" by (rule nth_equalityI) simp_all
  finally show ?thesis .
qed

lemma read_node_ok:
  assumes vers: "vers \<ge> POLICYDB_VERSION_AVTAB" and te: "avtab_wf te" and wf: "ct_wf ct" and ok: "block_ok nb (st, es, ts, fs)"
    and d: "distinct (type_ids ts)" "distinct (type_ids fs)"
    and fresh: "(set (type_ids ts) \<union> set (type_ids fs)) \<inter> (seen_types ct \<union> dom (avtab_abs te)) = {}"
  obtains ct' node where "loads amc (cond_read_node True vers nb te ct) (block_image amc (st, es, ts, fs)) (ct', node)" and "ct_wf ct'"
    and "ct_nodes ct' = ct_nodes ct @ map (\<lambda>n. (n, True)) (ts @ fs)"
    and "\<And>ct'' post. ct_nodes ct'' = ct_nodes ct' @ post \<Longrightarrow> block_of ct'' node = (st, es, ts, fs)"
proof -
  let ?l = "length (ct_nodes ct)"
  let ?tl = "[?l..<?l + length ts]" and ?fl = "[?l + length ts..<?l + length ts + length fs]"
  have new: "avtab_abs te (rule_id_of n) = None \<and> rule_id_of n \<notin> seen_types ct"
    if "n \<in> set ts \<union> set fs" "is_type_rule n" for n
  proof -
    have "rule_id_of n \<in> set (type_ids ts) \<union> set (type_ids fs)" using that by (auto simp: type_ids_def)
    then show ?thesis using fresh by blast
  qed
  have rules: "\<forall>n \<in> set ts. cond_rule n" "\<forall>n \<in> set fs. cond_rule n" and lens: "length ts < 4294967296" "length fs < 4294967296"
    using ok by (auto simp: block_ok_def)
  obtain ct1 where ct1: "loads amc (cond_read_av_list True vers te [] ct) (rules_image amc ts) (ct1, ?tl)" "ct_wf ct1"
    "ct_nodes ct1 = ct_nodes ct @ map (\<lambda>n. (n, True)) ts"
    using read_av_list_ok[OF vers te wf rules(1) d(1) _ lens(1)] fits_fresh[OF wf] new rules by blast
  have l1: "length (ct_nodes ct1) = ?l + length ts" by (simp add: ct1(3))
  obtain ct2 where ct2: "loads amc (cond_read_av_list True vers te ?tl ct1) (rules_image amc fs) (ct2, ?fl)" "ct_wf ct2"
    "ct_nodes ct2 = ct_nodes ct1 @ map (\<lambda>n. (n, True)) fs"
    using read_av_list_ok[OF vers te ct1(2) rules(2) d(2) _ lens(2), of ?tl amc] fits_other[OF ct1(2) wf ct1(3) d(1)] new rules
    unfolding l1 by blast
  define node where "node = zero_node\<lparr>cur_state := st, cexpr := es, true_list := ?tl, false_list := ?fl\<rparr>"
  have st: "sint (word_of_int st :: u32) = st" using ok sint_state by (simp add: block_ok_def)
  have exprs: "reads (cond_expr_reader True nb)
      (words_image [of_nat (length es)] @ concat (map (\<lambda>e. words_image [expr_type e, expr_bool e]) es)) es"
    using ok by (intro reads_exprs) (simp_all add: block_ok_def)
  have "loads amc (lbind (cond_read_av_list True vers te ?tl ct1) (\<lambda>(ct, fl).
      lreturn (ct, zero_node\<lparr>cur_state := sint ([word_of_int st :: u32] ! 0), cexpr := es, true_list := ?tl, false_list := fl\<rparr>)))
      (rules_image amc fs) (ct2, node)"
    by (rule loads_bind_last[OF ct2(1)]) (simp add: node_def st loads_return)
  then have "loads amc (cond_read_node True vers nb te ct) (block_image amc (st, es, ts, fs)) (ct2, node)"
    unfolding cond_read_node_def block_image_def prod.case
    by (intro loads_bind[OF loads_read[OF reads_words]] loads_bind[OF loads_read[OF exprs]] loads_bind[OF ct1(1)]) simp_all
  moreover have "block_of ct'' node = (st, es, ts, fs)" if "ct_nodes ct'' = ct_nodes ct2 @ post" for ct'' post
    using that written_upt[of ct'' "ct_nodes ct" ts "map (\<lambda>n. (n, True)) fs @ post"] written_upt[of ct'' "ct_nodes ct1" fs post]
    by (simp add: block_of_def node_def ct2(3) ct1(3))
  ultimately show ?thesis using ct2(2,3) ct1(3) by (intro that[of ct2 node]) simp_all
qed

lemma read_nodes_ok:
  assumes "vers \<ge> POLICYDB_VERSION_AVTAB" and "avtab_wf te" and "ct_wf ct" and "\<forall>b \<in> set bs. block_ok nb b" and "blocks_fit te (seen_types ct) bs"
  shows "\<exists>ct' cl post. loads amc (cond_read_nodes True vers nb te (length bs) ct) (concat (map (block_image amc) bs)) (ct', cl) \<and> ct_wf ct' \<and>
    ct_nodes ct' = ct_nodes ct @ post \<and> (\<forall>ct'' post. ct_nodes ct'' = ct_nodes ct' @ post \<longrightarrow> map (block_of ct'') cl = bs)"
  using assms(3-)
proof (induction bs arbitrary: ct)
  case Nil
  then show ?case using loads_return[of amc "(ct, [])"] by fastforce
next
  case (Cons b bs)
  obtain st es ts fs where b: "b = (st, es, ts, fs)" by (metis prod_cases4)
  obtain ct1 node where n: "loads amc (cond_read_node True vers nb te ct) (block_image amc b) (ct1, node)" "ct_wf ct1"
    "ct_nodes ct1 = ct_nodes ct @ map (\<lambda>n. (n, True)) (ts @ fs)" "\<And>ct'' post. ct_nodes ct'' = ct_nodes ct1 @ post \<Longrightarrow> block_of ct'' node = b"
    using read_node_ok[OF assms(1,2) Cons.prems(1), of nb st es ts fs amc] Cons.prems(2,3) by (auto simp: b)
  have "blocks_fit te (seen_types ct1) bs"
    using Cons.prems(3) seen_types_append[OF n(3)] by (simp add: b type_ids_def Un_assoc image_Un)
  with Cons.IH[OF n(2)] Cons.prems(2) obtain ct2 cl post where
    r: "loads amc (cond_read_nodes True vers nb te (length bs) ct1) (concat (map (block_image amc) bs)) (ct2, cl)" "ct_wf ct2"
      "ct_nodes ct2 = ct_nodes ct1 @ post" "\<And>ct'' post. ct_nodes ct'' = ct_nodes ct2 @ post \<Longrightarrow> map (block_of ct'') cl = bs"
    by auto
  have "loads amc (lbind (cond_read_nodes True vers nb te (length bs) ct1) (\<lambda>(ct, nodes). lreturn (ct, node # nodes)))
      (concat (map (block_image amc) bs)) (ct2, node # cl)"
    by (rule loads_bind_last[OF r(1)]) (simp add: loads_return)
  then have "loads amc (cond_read_nodes True vers nb te (length (b # bs)) ct) (concat (map (block_image amc) (b # bs))) (ct2, node # cl)"
    by (simp add: loads_bind[OF n(1)])
  moreover have "map (block_of ct'') (node # cl) = b # bs" if "ct_nodes ct'' = ct_nodes ct2 @ p" for ct'' p
    using that n(4)[of ct''] r(3) r(4)[OF that] by simp
  moreover have "ct_nodes ct2 = ct_nodes ct @ map (\<lambda>n. (n, True)) (ts @ fs) @ post" by (simp add: r(3) n(3))
  ultimately show ?case using r(2) by blast
qed

section \<open>The list of blocks\<close>

definition cond_image :: "bool \<Rightarrow> cond_block list \<Rightarrow> u8 list" where
  "cond_image amc bs = words_image [of_nat (length bs)] @ concat (map (block_image amc) bs)"

definition cond_list_ok :: "u32 \<Rightarrow> avtab \<Rightarrow> cond_block list \<Rightarrow> bool" where
  "cond_list_ok nb te bs \<longleftrightarrow> length bs < 2147483648 \<and> (\<forall>b \<in> set bs. block_ok nb b) \<and> blocks_fit te {} bs"

lemma ct_alloc_wf:
  assumes "n \<noteq> 0"
  obtains ct where "ct_alloc True ct_init n = (0, ct)" and "ct_wf ct" and "ct_nodes ct = []"
proof -
  obtain h bs where h: "avtab_alloc True (ct_table ct_init) n = (0, h)" "av_htable h = Some bs" "length bs = unat (av_nslot h)" "av_mask h < av_nslot h"
  proof (rule avtab_alloc_correct[OF assms, of "ct_table ct_init"])
    fix h assume "avtab_alloc True (ct_table ct_init) n = (0, h)" "avtab_wf h"
    then show thesis by (intro that[of h "the (av_htable h)"]) (auto simp: avtab_wf_def split: option.splits)
  qed
  then show ?thesis
    by (intro that) (auto simp: ct_alloc_def ct_wf_def ct_init_def loose_def)
qed

lemma cond_read_list_ok:
  assumes "vers \<ge> POLICYDB_VERSION_AVTAB" and "avtab_wf te" and "av_nel te \<noteq> 0" and "cond_list_ok nb te bs"
  obtains ct cl where "loads amc (cond_read_list True vers nb te ct_init) (cond_image amc bs) (ct, cl)" and "ct_wf ct" and "map (block_of ct) cl = bs"
proof -
  obtain ct0 where ct0: "ct_alloc True ct_init (av_nel te) = (0, ct0)" "ct_wf ct0" "ct_nodes ct0 = []" by (rule ct_alloc_wf[OF assms(3)])
  have "seen_types ct0 = {}" by (simp add: seen_types_def type_ids_def ct0(3))
  then obtain ct cl where r: "loads amc (cond_read_nodes True vers nb te (length bs) ct0) (concat (map (block_image amc) bs)) (ct, cl)"
    "ct_wf ct" "\<And>ct'' post. ct_nodes ct'' = ct_nodes ct @ post \<Longrightarrow> map (block_of ct'') cl = bs"
    using read_nodes_ok[OF assms(1,2) ct0(2), of bs nb amc] assms(4) by (auto simp: cond_list_ok_def)
  have "loads amc (cond_read_list True vers nb te ct_init) (cond_image amc bs) (ct, cl)"
    unfolding cond_read_list_def cond_image_def
    by (rule loads_bind[OF loads_read[OF reads_words]]) (use r(1) ct0(1) assms(4) in \<open>simp_all add: cond_list_ok_def nat_sint_len\<close>)
  with r(2) r(3)[of ct "[]"] show ?thesis by (intro that[of ct cl]) simp_all
qed

lemma oemits_av_list:
  "\<forall>n \<in> set (written_rules ct l). cond_rule n \<Longrightarrow> oemits (cond_write_av_list amc vers True ct l) (rules_image amc (written_rules ct l))"
  by (auto simp: cond_write_av_list_def rules_image_def Let_def intro!: oemits_seq oemits_put emits_words oemits_list oemits_rule)

lemma oemits_node:
  assumes "block_ok nb (block_of ct node)"
  shows "oemits (cond_write_node amc vers True ct node) (block_image amc (block_of ct node))"
proof -
  have "\<forall>n \<in> set (written_rules ct (true_list node)). cond_rule n" "\<forall>n \<in> set (written_rules ct (false_list node)). cond_rule n"
    using assms by (auto simp: block_ok_def block_of_def)
  then show ?thesis
    by (auto simp: cond_write_node_def block_image_def block_of_def intro!: oemits_seq oemits_put emits_words emits_list oemits_av_list)
qed

lemma cond_write_list_ok:
  assumes "cond_list_ok nb te (map (block_of ct) cl)"
  shows "oemits (cond_write_list amc vers True ct cl) (cond_image amc (map (block_of ct) cl))"
proof -
  have "oemits (olist (cond_write_node amc vers True ct) cl) (concat (map (block_image amc \<circ> block_of ct) cl))"
    using assms by (intro oemits_list) (auto simp: cond_list_ok_def intro!: oemits_node)
  moreover have "oemits (oput (put_words [of_nat (length cl)])) (words_image [of_nat (length cl)])" by (intro oemits_put emits_words)
  ultimately show ?thesis using oemits_seq by (fastforce simp: cond_write_list_def cond_image_def)
qed

section \<open>Longer input\<close>

lemma read_item_old_more:
  assumes "read_item_old insertf fp a = Ret (0, a', y)"
  shows "read_item_old insertf (fp @ tail) a = Ret (0, a', y @ tail)"
proof (cases rule: next_entry_cases[of fp 4])
  case short
  with assms show ?thesis by (simp add: read_item_old_def)
next
  case (full buf fp1)
  let ?n = "4 * unat (le_word buf :: u32)"
  show ?thesis
  proof (cases rule: next_entry_cases[of fp1 ?n])
    case short
    with full assms show ?thesis by (simp add: read_item_old_def Let_def split: if_splits)
  next
    case full2: (full buf2 fp2)
    show ?thesis using assms by (auto simp: read_item_old_def full full2 Let_def split: if_splits)
  qed
qed

lemma read_item_extends:
  assumes "avtab_read_item insertf vers amc fp a = Ret (0, a', y, amc')"
  shows "avtab_read_item insertf vers amc (fp @ tail) a = Ret (0, a', y @ tail, amc')"
proof (cases "vers < POLICYDB_VERSION_AVTAB")
  case True
  with assms show ?thesis by (auto simp: avtab_read_item_def dest: read_item_old_more[where tail = tail])
next
  case False
  then show ?thesis using assms by (rule read_item_more)
qed

lemma lextends_rules: "lextends (cond_read_rules mok vers te other n cl)"
proof (induction n arbitrary: cl)
  case (Suc n)
  have "lextends (\<lambda>amc fp. obind (avtab_read_item (cond_insertf mok te other) vers amc fp cl)
      (\<lambda>(rc, cl, fp, amc). Ret (if rc \<noteq> 0 then None else Some (cl, fp, amc))))"
    unfolding lextends_def
  proof (intro allI impI)
    fix amc fp x fp' amc' post
    assume "obind (avtab_read_item (cond_insertf mok te other) vers amc fp cl)
      (\<lambda>(rc, cl, fp, amc). Ret (if rc \<noteq> 0 then None else Some (cl, fp, amc))) = Ret (Some (x, fp', amc'))"
    then have "avtab_read_item (cond_insertf mok te other) vers amc fp cl = Ret (0, x, fp', amc')" by (auto split: prod.splits if_splits)
    from read_item_extends[OF this, of post]
    show "obind (avtab_read_item (cond_insertf mok te other) vers amc (fp @ post) cl)
      (\<lambda>(rc, cl, fp, amc). Ret (if rc \<noteq> 0 then None else Some (cl, fp, amc))) = Ret (Some (x, fp' @ post, amc'))" by simp
  qed
  then show ?case using Suc by (simp add: lextends_bind)
qed (simp add: lextends_return)

lemma read_exprs_rc: "fst (cond_read_exprs mok nb n fp) \<in> {0, -1}"
  by (induction n arbitrary: fp) (simp_all add: Let_def split: prod.splits)

lemma read_exprs_more:
  assumes "cond_read_exprs mok nb n fp = (0, es, fp')"
  shows "cond_read_exprs mok nb n (fp @ post) = (0, es, fp' @ post)"
proof (cases mok)
  case True
  have "cond_read_exprs True nb n fp = (0, es, fp') \<Longrightarrow> cond_read_exprs True nb n (fp @ post) = (0, es, fp' @ post)"
  proof (induction n arbitrary: fp es)
    case (Suc n)
    obtain rc buf fp1 where e: "next_entry fp 8 = (rc, buf, fp1)" by (metis surj_pair)
    obtain rc2 es2 fp2 where r: "cond_read_exprs True nb n fp1 = (rc2, es2, fp2)" by (metis surj_pair)
    have rc: "\<not> rc < 0" using Suc.prems by (auto simp: e)
    have "rc2 = 0" using Suc.prems rc read_exprs_rc[of True nb n fp1] by (auto simp: e r Let_def split: if_splits)
    with Suc.prems rc Suc.IH[of fp1 es2] show ?case
      by (simp add: e next_entry_more[OF e rc] r Let_def split: if_splits)
  qed simp
  with assms True show ?thesis by simp
next
  case False
  with assms show ?thesis by (cases n) (auto split: prod.splits)
qed

lemma extends_exprs: "extends (cond_expr_reader mok nb)"
  unfolding cond_expr_reader_def
  by (intro extends_bind extends_words) (auto simp: extends_def read_exprs_more split: prod.splits if_splits)

lemma lextends_av_list: "lextends (cond_read_av_list mok vers te other ct)"
  unfolding cond_read_av_list_def by (intro lextends_bind lextends_read extends_words lextends_rules)

lemma lextends_node: "lextends (cond_read_node mok vers nb te ct)"
  unfolding cond_read_node_def
  by (intro lextends_bind lextends_read extends_words extends_exprs lextends_av_list)
    (auto intro!: lextends_bind lextends_av_list lextends_return split: prod.splits)

lemma lextends_nodes: "lextends (cond_read_nodes mok vers nb te n ct)"
proof (induction n arbitrary: ct)
  case (Suc n)
  then show ?case
    by (auto intro!: lextends_bind lextends_node lextends_fail lextends_return split: prod.splits)
qed (simp add: lextends_return)

lemma lextends_list [lextends_intros]: "lextends (cond_read_list mok vers nb te ct)"
  unfolding cond_read_list_def
  by (intro lextends_bind lextends_read extends_words) (auto intro!: lextends_nodes lextends_fail split: prod.splits)

end
