(* ===== verification/KernelPolicy.thy ===== *)
theory KernelPolicy
  imports ContextFile ConditionalFile
begin

unbundle bit_operations_syntax

text \<open>
  The binary policy as a whole: \<open>policydb_read\<close> (\<^verbatim>\<open>libsepol/src/policydb.c\<close>), \<open>policydb_write\<close> (\<^verbatim>\<open>write.c\<close>) and
  \<open>policydb_to_image\<close> (\<^verbatim>\<open>policydb_convert.c\<close>), for kernel policies of the SELinux platform. The sections are those of the theories
  below this one; here are the header, the index arrays of the symbols the policy patcher does not use, the caches of users, and the maps
  from types to attributes and back. Images of policy modules and of the Xen platform are outside the model: its reader
  stops at their magic number or target. Writing is that of the versions from 20 on.
\<close>

section \<open>Definitions\<close>

abbreviation (input) POLICYDB_MAGIC :: u32 where "POLICYDB_MAGIC \<equiv> 0xf97cff8c"
abbreviation (input) POLICYDB_STRING :: string where "POLICYDB_STRING \<equiv> ''SE Linux''"
abbreviation (input) POLICYDB_STRING_MAX_LENGTH :: u32 where "POLICYDB_STRING_MAX_LENGTH \<equiv> 32"
abbreviation (input) POLICYDB_VERSION_MIN :: u32 where "POLICYDB_VERSION_MIN \<equiv> 15"
abbreviation (input) POLICYDB_VERSION_MAX :: u32 where "POLICYDB_VERSION_MAX \<equiv> 31"
abbreviation (input) POLICYDB_VERSION_POLCAP :: u32 where "POLICYDB_VERSION_POLCAP \<equiv> 22"
abbreviation (input) POLICYDB_VERSION_PERMISSIVE :: u32 where "POLICYDB_VERSION_PERMISSIVE \<equiv> 23"
abbreviation (input) POLICYDB_CONFIG_MLS :: u32 where "POLICYDB_CONFIG_MLS \<equiv> 1"
abbreviation (input) POLICYDB_CONFIG_UNKNOWN_MASK :: u32 where "POLICYDB_CONFIG_UNKNOWN_MASK \<equiv> 6"
abbreviation (input) POLICYDB_UNSUPPORTED :: int where "POLICYDB_UNSUPPORTED \<equiv> -2"

subsection \<open>The policy\<close>

text \<open>The database of the policy patcher and what else \<^verbatim>\<open>struct policydb\<close> holds of a kernel policy.\<close>

record kernel_policy =
  kp_unsupported :: bool
  kp_mls :: bool
  kp_handle_unknown :: u32
  kp_policycaps :: ebitmap
  kp_db :: policydb
  kp_users :: "user_datum symtab"
  kp_bools :: "cond_bool_datum symtab"
  kp_levels :: "level_datum symtab"
  kp_cats :: "cat_datum symtab"
  kp_user_names :: "string option list"
  kp_bool_names :: "string option list"
  kp_sens_names :: "string option list"
  kp_cat_names :: "string option list"
  kp_user_caches :: "(string \<times> ebitmap) list"
  kp_cond :: cond_tab
  kp_cond_list :: "cond_node list"
  kp_role_tr :: "role_trans list"
  kp_filename :: "(filename_trans, u32) hashtab option"
  kp_ocontexts :: "ocontext list list"
  kp_genfs :: "genfs list"
  kp_ranges :: "(range_trans, mls_range) hashtab option"

definition symtabs_of :: "kernel_policy \<Rightarrow> symbol_tables" where
  "symtabs_of kp = \<lparr>sy_commons = p_commons (kp_db kp), sy_classes = p_classes (kp_db kp), sy_roles = p_roles (kp_db kp),
     sy_types = p_types (kp_db kp), sy_users = kp_users kp, sy_bools = kp_bools kp, sy_levels = kp_levels kp, sy_cats = kp_cats kp\<rparr>"

subsection \<open>The header\<close>

definition read_header :: "bool \<Rightarrow> (u32 \<times> u32) reader" where
  "read_header mok =
     rbind (read_words 2) (\<lambda>buf.
       if buf ! 0 \<noteq> POLICYDB_MAGIC then rfail
       else if buf ! 1 = 0 \<or> buf ! 1 > POLICYDB_STRING_MAX_LENGTH then rfail
       else rbind (read_chars mok (buf ! 1)) (\<lambda>policydb_str.
         if policydb_str \<noteq> POLICYDB_STRING then rfail
         else rbind (read_words 4) (\<lambda>buf.
           if buf ! 0 < POLICYDB_VERSION_MIN \<or> buf ! 0 > POLICYDB_VERSION_MAX then rfail
           else if buf ! 2 \<noteq> of_nat (sym_num (buf ! 0)) \<or> buf ! 3 \<noteq> of_nat (ocon_num (buf ! 0)) then rfail
           else rreturn (buf ! 0, buf ! 1))))"

definition config_of :: "bool \<Rightarrow> u32 \<Rightarrow> u32" where
  "config_of mls handle_unknown = (if mls then POLICYDB_CONFIG_MLS else 0) OR (POLICYDB_CONFIG_UNKNOWN_MASK AND handle_unknown)"

text \<open>\<open>policydb_lookup_compat\<close> knows exactly the versions between the two bounds.\<close>

definition write_header :: "u32 \<Rightarrow> u32 \<Rightarrow> writer" where
  "write_header vers config =
     wseq (put_words [POLICYDB_MAGIC, strlen32 POLICYDB_STRING])
    (wseq (put_string POLICYDB_STRING)
      (if vers < POLICYDB_VERSION_MIN \<or> vers > POLICYDB_VERSION_MAX then wfail
       else put_words [vers, config, of_nat (sym_num vers), of_nat (ocon_num vers)]))"

subsection \<open>Index arrays and caches\<close>

definition user_index :: "u32 \<Rightarrow> string \<Rightarrow> user_datum \<Rightarrow> string option list \<Rightarrow> int \<times> string option list" where
  "user_index np key d arr = index_slot key (u_value d) np arr"

definition cond_index_bool :: "u32 \<Rightarrow> string \<Rightarrow> cond_bool_datum \<Rightarrow> string option list \<Rightarrow> int \<times> string option list" where
  "cond_index_bool np key d arr = index_slot key (b_value d) np arr"

definition sens_index :: "u32 \<Rightarrow> string \<Rightarrow> level_datum \<Rightarrow> string option list \<Rightarrow> int \<times> string option list" where
  "sens_index np key d arr = (if ld_isalias d = 0 then index_slot key (sens (ld_level d)) np arr else (0, arr))"

definition cat_index :: "u32 \<Rightarrow> string \<Rightarrow> cat_datum \<Rightarrow> string option list \<Rightarrow> int \<times> string option list" where
  "cat_index np key d arr = (if cd_isalias d = 0 then index_slot key (cd_value d) np arr else (0, arr))"

text \<open>The rounds of the loop in \<open>policydb_index_others\<close> for users, booleans, levels and categories.\<close>

definition index_rest :: "symbol_tables \<Rightarrow> (string option list \<times> string option list \<times> string option list \<times> string option list) option" where
  "index_rest s =
     (case index_table (user_index (nprim (sy_users s))) (sy_users s) of (rc, users) \<Rightarrow>
      if rc \<noteq> 0 then None
      else case index_table (cond_index_bool (nprim (sy_bools s))) (sy_bools s) of (rc, bools) \<Rightarrow>
      if rc \<noteq> 0 then None
      else case index_table (sens_index (nprim (sy_levels s))) (sy_levels s) of (rc, levels) \<Rightarrow>
      if rc \<noteq> 0 then None
      else case index_table (cat_index (nprim (sy_cats s))) (sy_cats s) of (rc, cats) \<Rightarrow>
      if rc \<noteq> 0 then None else Some (users, bools, levels, cats))"

text \<open>\<open>role_set_expand\<close> without flags (the kernel format has none) and without a map of roles.\<close>

primrec set_bits :: "bool \<Rightarrow> u32 list \<Rightarrow> ebitmap \<Rightarrow> int \<times> ebitmap" where
  "set_bits mok [] r = (0, r)"
| "set_bits mok (i # is) r = (case ebitmap_set_bit mok r i True of (rc, r) \<Rightarrow> if rc \<noteq> 0 then (-1, r) else set_bits mok is r)"

definition role_set_expand :: "bool \<Rightarrow> ebitmap \<Rightarrow> int \<times> ebitmap" where
  "role_set_expand mok roles =
     (case ebitmap_cpy mok roles of (rc, mapped_roles) \<Rightarrow>
      if rc \<noteq> 0 then (-1, ebitmap_init) else set_bits mok (ebitmap_for_each_bit mapped_roles) ebitmap_init)"

text \<open>\<open>policydb_user_cache\<close> for every user: the caches, by the user's name.\<close>

primrec user_caches :: "bool \<Rightarrow> (string \<times> user_datum) list \<Rightarrow> (string \<times> ebitmap) list option" where
  "user_caches mok [] = Some []"
| "user_caches mok (ku # us) =
     (case role_set_expand mok (u_roles (snd ku)) of (rc, c) \<Rightarrow>
      if rc \<noteq> 0 then None else map_option ((#) (fst ku, c)) (user_caches mok us))"

text \<open>
  What indexing reads and writes of the database: the symbol tables. The one declaration is that of \<open>policydb_init\<close>. The other
  fields are filled in by \<open>policydb_read\<close>.
\<close>

definition symbols_db :: "symbol_tables \<Rightarrow> policydb" where
  "symbols_db s =
     \<lparr>p_commons = sy_commons s, p_classes = sy_classes s, p_roles = sy_roles s, p_types = sy_types s, scope_types = empty_symtab 512,
      declared_types = ebitmap_init, decl_blocks = [[1]], te_avtab = \<lparr>av_htable = None, av_nel = 0, av_nslot = 0, av_mask = 0\<rparr>,
      te_cond_avtab = \<lparr>av_htable = None, av_nel = 0, av_nslot = 0, av_mask = 0\<rparr>, type_attr_map = [], attr_type_map = [],
      permissive_map = ebitmap_init, p_filename_trans = [], common_val_to_name = [], class_val_to_struct = [], role_val_to_struct = [],
      type_val_to_struct = [], user_val_to_name = (case index_rest s of None \<Rightarrow> [] | Some (users, _) \<Rightarrow> users), decl_val_to_struct = [], p_role_allow = [], policyvers = 0, p_rest_ok = index_rest s \<noteq> None\<rparr>"

definition index_symbols :: "bool \<Rightarrow> symbol_tables \<Rightarrow> (policydb \<times> (string \<times> ebitmap) list) option outcome" where
  "index_symbols mok s =
     obind (index_policy mok (symbols_db s)) (\<lambda>(rc, db).
       if rc \<noteq> 0 then Ret None
       else Ret (map_option (Pair db) (user_caches mok (case table (sy_users s) of None \<Rightarrow> [] | Some h \<Rightarrow> hashtab_nodes h))))"

text \<open>What the validity of contexts is checked against.\<close>

definition struct_at :: "(string, 'd) hashtab option \<Rightarrow> string option \<Rightarrow> 'd option" where
  "struct_at h ko = (case ko of None \<Rightarrow> None | Some k \<Rightarrow> hashtab_search h k)"

definition context_db_of :: "kernel_policy \<Rightarrow> context_db" where
  "context_db_of kp =
     \<lparr>cx_mls = kp_mls kp, cx_roles = map (struct_at (table (p_roles (kp_db kp)))) (role_val_to_struct (kp_db kp)),
      cx_users = map (\<lambda>ko. case struct_at (table (kp_users kp)) ko of None \<Rightarrow> None
                     | Some u \<Rightarrow> map_option (Pair u) (map_of (kp_user_caches kp) (the ko))) (kp_user_names kp),
      cx_types = nprim (p_types (kp_db kp)), cx_levels = kp_levels kp, cx_sens_names = kp_sens_names kp, cx_cats = nprim (kp_cats kp)\<rparr>"

subsection \<open>Types and attributes\<close>

text \<open>The loop over the attributes \<open>j\<close> of type \<open>i\<close>: the type is added to each attribute's types.\<close>

fun mark_attributes :: "bool \<Rightarrow> u32 \<Rightarrow> nat \<Rightarrow> u32 list \<Rightarrow> ebitmap list \<Rightarrow> ebitmap list option" where
  "mark_attributes mok np i [] atm = Some atm"
| "mark_attributes mok np i (j # js) atm =
     (if unat j = i then mark_attributes mok np i js atm
      else if j \<ge> np then None
      else case ebitmap_set_bit mok (atm ! unat j) (of_nat i) True of (rc, e) \<Rightarrow>
        if rc \<noteq> 0 then None else mark_attributes mok np i js (atm[unat j := e]))"

text \<open>What the loop does with the map of type \<open>i\<close> once it has been read.\<close>

definition map_type :: "bool \<Rightarrow> type_datum option list \<Rightarrow> u32 \<Rightarrow> nat \<Rightarrow> ebitmap \<Rightarrow> ebitmap list \<Rightarrow> (ebitmap \<times> ebitmap list) option" where
  "map_type mok tys np i e atm =
     (case mark_attributes mok np i (ebitmap_for_each_bit e) atm of None \<Rightarrow> None
      | Some atm \<Rightarrow>
          (case ebitmap_set_bit mok e (of_nat i) True of (rc, e) \<Rightarrow>
           if rc \<noteq> 0 then None
           else if (case tys ! i of None \<Rightarrow> False | Some d \<Rightarrow> t_flavor d \<noteq> TYPE_ATTRIB) then
             (case ebitmap_set_bit mok (atm ! i) (of_nat i) True of (rc, a) \<Rightarrow> if rc \<noteq> 0 then None else Some (e, atm[i := a]))
           else Some (e, atm)))"

primrec read_type_maps :: "bool \<Rightarrow> u32 \<Rightarrow> type_datum option list \<Rightarrow> u32 \<Rightarrow> nat list \<Rightarrow> ebitmap list \<times> ebitmap list \<Rightarrow> (ebitmap list \<times> ebitmap list) reader" where
  "read_type_maps mok vers tys np [] ms = rreturn ms"
| "read_type_maps mok vers tys np (i # is) ms =
     rbind (if vers \<ge> POLICYDB_VERSION_AVTAB then read_ebitmap mok else rreturn ebitmap_init) (\<lambda>e.
       case map_type mok tys np i e (snd ms) of None \<Rightarrow> rfail
       | Some (e, atm) \<Rightarrow> read_type_maps mok vers tys np is (fst ms @ [e], atm))"

definition type_maps_read :: "bool \<Rightarrow> u32 \<Rightarrow> policydb \<Rightarrow> (ebitmap list \<times> ebitmap list) reader" where
  "type_maps_read mok vers db =
     (let np = nprim (p_types db) in
      if \<not> mok then rfail
      else read_type_maps mok vers (map (struct_at (table (p_types db))) (type_val_to_struct db)) np [0..<unat np]
             ([], replicate (unat np) ebitmap_init))"

definition write_type_maps :: "u32 \<Rightarrow> policydb \<Rightarrow> owriter" where
  "write_type_maps vers db fp =
     (if vers \<ge> POLICYDB_VERSION_AVTAB then
        if length (type_attr_map db) < unat (nprim (p_types db)) then UB OutOfBounds
        else oput (wlist ebitmap_write (take (unat (nprim (p_types db))) (type_attr_map db))) fp
      else oput wskip fp)"

subsection \<open>Reading\<close>

definition lcheck :: "'a option outcome \<Rightarrow> 'a loader" where
  "lcheck m amc fp = obind m (\<lambda>r. Ret (map_option (\<lambda>x. (x, fp, amc)) r))"

definition avtab_loader :: "bool \<Rightarrow> u32 \<Rightarrow> avtab loader" where
  "avtab_loader mok vers amc fp =
     obind (avtab_read mok vers amc fp \<lparr>av_htable = None, av_nel = 0, av_nslot = 0, av_mask = 0\<rparr>)
       (\<lambda>(rc, a, fp, amc). Ret (if rc \<noteq> 0 then None else Some (a, fp, amc)))"

definition filename_loader :: "bool \<Rightarrow> (filename_trans, u32) hashtab option \<Rightarrow> (filename_trans, u32) hashtab option loader" where
  "filename_loader mok h amc fp =
     obind (filename_trans_read mok h fp) (\<lambda>r. Ret (case r of None \<Rightarrow> None | Some (h, fp) \<Rightarrow> Some (h, fp, amc)))"

text \<open>The table of file name transitions of \<open>policydb_init\<close>.\<close>

definition filename_table :: "(filename_trans, u32) hashtab" where
  "filename_table = the (hashtab_create True filenametr_hash filenametr_cmp 1024)"

definition filename_chains :: "(filename_trans, u32) hashtab option \<Rightarrow> (ft_key \<times> u32) list list" where
  "filename_chains h = (case h of None \<Rightarrow> [] | Some h \<Rightarrow> map (map (map_prod HeapKey id)) (htable h))"

text \<open>The sections up to the index: unconditional and conditional rules, roles and file names.\<close>

definition read_rules :: "bool \<Rightarrow> u32 \<Rightarrow> symbol_tables \<Rightarrow>
    (avtab \<times> (cond_tab \<times> cond_node list) \<times> role_trans list \<times> (u32 \<times> u32) list \<times> (filename_trans, u32) hashtab option) loader" where
  "read_rules mok vers s =
     lbind (avtab_loader mok vers) (\<lambda>te.
     lbind (if vers \<ge> POLICYDB_VERSION_BOOL then cond_read_list mok vers (nprim (sy_bools s)) te ct_init else lreturn (ct_init, [])) (\<lambda>cond.
     lbind (lread (role_trans_read mok vers)) (\<lambda>rt.
     lbind (lread (role_allow_read mok)) (\<lambda>ra.
     lbind (if vers \<ge> POLICYDB_VERSION_FILENAME_TRANS then filename_loader mok (Some filename_table) else lreturn (Some filename_table)) (\<lambda>ft.
       lreturn (te, cond, rt, ra, ft))))))"

text \<open>The sections after it, which need the index arrays.\<close>

definition read_labels :: "bool \<Rightarrow> u32 \<Rightarrow> kernel_policy \<Rightarrow> kernel_policy reader" where
  "read_labels mok vers kp =
     rbind (ocontext_read_selinux mok vers (context_db_of kp)) (\<lambda>ocs.
     rbind (genfs_read mok vers (context_db_of kp)) (\<lambda>gs.
     rbind (if vers \<ge> POLICYDB_VERSION_MLS then range_read mok vers (Some range_table) else rreturn (Some range_table)) (\<lambda>rg.
     rbind (type_maps_read mok vers (kp_db kp)) (\<lambda>maps.
       rreturn (kp\<lparr>kp_ocontexts := ocs, kp_genfs := gs, kp_ranges := rg,
                  kp_db := (kp_db kp)\<lparr>type_attr_map := fst maps, attr_type_map := snd maps\<rparr>\<rparr>)))))"

text \<open>The policy before the labels are read: the sections so far and the index.\<close>

definition indexed_policy :: "u32 \<Rightarrow> u32 \<Rightarrow> ebitmap \<Rightarrow> ebitmap \<Rightarrow> symbol_tables \<Rightarrow>
    avtab \<times> (cond_tab \<times> cond_node list) \<times> role_trans list \<times> (u32 \<times> u32) list \<times> (filename_trans, u32) hashtab option \<Rightarrow>
    policydb \<times> (string \<times> ebitmap) list \<Rightarrow> kernel_policy" where
  "indexed_policy vers config caps permissive s rules index =
     (case (rules, index, the (index_rest s)) of ((te, (ct, cl), rt, ra, ft), (db, caches), (users, bools, levels, cats)) \<Rightarrow>
       \<lparr>kp_unsupported = False, kp_mls = (config AND POLICYDB_CONFIG_MLS \<noteq> 0), kp_handle_unknown = config AND POLICYDB_CONFIG_UNKNOWN_MASK,
        kp_policycaps = caps,
        kp_db = db\<lparr>te_avtab := te, te_cond_avtab := ct_table ct, permissive_map := permissive, p_filename_trans := filename_chains ft,
                   p_role_allow := ra, policyvers := vers\<rparr>,
        kp_users = sy_users s, kp_bools = sy_bools s, kp_levels = sy_levels s, kp_cats = sy_cats s,
        kp_user_names = users, kp_bool_names = bools, kp_sens_names = levels, kp_cat_names = cats, kp_user_caches = caches,
        kp_cond = ct, kp_cond_list = cl, kp_role_tr = rt, kp_filename = ft, kp_ocontexts = [], kp_genfs = [], kp_ranges = Some range_table\<rparr>)"

definition policydb_read :: "bool \<Rightarrow> kernel_policy loader" where
  "policydb_read mok =
     lbind (lread (read_header mok)) (\<lambda>(vers, config).
     lbind (lread (if vers \<ge> POLICYDB_VERSION_POLCAP then read_ebitmap mok else rreturn ebitmap_init)) (\<lambda>caps.
     lbind (lread (if vers \<ge> POLICYDB_VERSION_PERMISSIVE then read_ebitmap mok else rreturn ebitmap_init)) (\<lambda>permissive.
     lbind (lread (read_symtabs mok vers init_symtabs)) (\<lambda>s.
     lbind (read_rules mok vers s) (\<lambda>rules.
     lbind (lcheck (index_symbols mok s)) (\<lambda>index.
       lread (read_labels mok vers (indexed_policy vers config caps permissive s rules index))))))))"

subsection \<open>Writing\<close>

definition policydb_write :: "bool \<Rightarrow> kernel_policy \<Rightarrow> owriter" where
  "policydb_write amc kp fp =
     (let vers = policyvers (kp_db kp) in
      if kp_unsupported kp then Ret (POLICYDB_UNSUPPORTED, fp)
      else if kp_mls kp \<and> vers < POLICYDB_VERSION_MLS then Ret (-1, fp)
      else
        oseq (oput (write_header vers (config_of (kp_mls kp) (kp_handle_unknown kp))))
       (oseq (oput (if vers \<ge> POLICYDB_VERSION_POLCAP then ebitmap_write (kp_policycaps kp) else wskip))
       (oseq (oput (if vers \<ge> POLICYDB_VERSION_PERMISSIVE then ebitmap_write (permissive_map (kp_db kp)) else wskip))
       (oseq (oput (write_symtabs vers (symtabs_of kp)))
       (oseq (avtab_write amc vers True (te_avtab (kp_db kp)))
       (oseq (if vers \<ge> POLICYDB_VERSION_BOOL then cond_write_list amc vers True (kp_cond kp) (kp_cond_list kp) else oput wskip)
       (oseq (oput (role_trans_write vers (kp_role_tr kp)))
       (oseq (oput (role_allow_write (p_role_allow (kp_db kp))))
       (oseq (oput (filename_trans_write vers (kp_filename kp)))
       (oseq (oput (ocontext_write_selinux vers (kp_ocontexts kp)))
       (oseq (oput (genfs_write vers (kp_genfs kp)))
       (oseq (oput (if vers \<ge> POLICYDB_VERSION_MLS then range_write vers (kp_ranges kp) else wskip))
             (write_type_maps vers (kp_db kp))))))))))))) fp)"

text \<open>
  \<open>policydb_to_image\<close>: the policy is written once to count the bytes and once into a block of that size, and the image is read back into a
  new policy to verify it. The result is the image with the compatibility flag, or \<open>None\<close> for \<^verbatim>\<open>STATUS_ERR\<close>.
\<close>

definition policydb_to_image :: "bool \<Rightarrow> bool \<Rightarrow> kernel_policy \<Rightarrow> (u8 list \<times> bool) option outcome" where
  "policydb_to_image mok amc kp =
     obind (policydb_write amc kp \<lparr>pf_type = PF_LEN, pf_data = [], pf_len = 0\<rparr>) (\<lambda>(rc, fp).
     if rc \<noteq> 0 \<or> \<not> mok then Ret None
     else obind (policydb_write amc kp \<lparr>pf_type = PF_USE_MEMORY, pf_data = [], pf_len = pf_len fp\<rparr>) (\<lambda>(rc, out).
     if rc \<noteq> 0 then Ret None
     else if pf_len out \<noteq> 0 then UB Uninitialised
     else obind (policydb_read mok amc (pf_data out)) (\<lambda>r.
       Ret (map_option (\<lambda>(_, _, amc). (pf_data out, amc)) r))))"

end
