(* ===== verification/KernelImage.thy ===== *)
theory KernelImage
  imports KernelPolicy
begin

unbundle bit_operations_syntax

text \<open>
  The kernel policy image: what is written of a policy that satisfies \<open>policy_ok\<close> is \<open>policy_image\<close>, reading it gives the policy
  back, no truncation of it is read, and every policy that is read from any bytes satisfies \<open>loaded_ok\<close>.
\<close>

section \<open>The parts of the image\<close>

definition header_image :: "u32 \<Rightarrow> u32 \<Rightarrow> u8 list" where
  "header_image vers config = words_image [POLICYDB_MAGIC, strlen32 POLICYDB_STRING] @ string_image POLICYDB_STRING @
     words_image [vers, config, of_nat (sym_num vers), of_nat (ocon_num vers)]"

text \<open>
  The start of a kernel policy for SELinux. Images of modules and images for Xen start otherwise; \<open>policydb_read\<close> is modelled
  for the kernel policies for SELinux only.
\<close>

definition selinux_kernel_image :: "u8 list \<Rightarrow> bool" where
  "selinux_kernel_image fp \<longleftrightarrow> (\<exists>rest. fp = words_image [POLICYDB_MAGIC, strlen32 POLICYDB_STRING] @ string_image POLICYDB_STRING @ rest)"

lemma emits_header:
  assumes "POLICYDB_VERSION_MIN \<le> vers" and "vers \<le> POLICYDB_VERSION_MAX"
  shows "emits (write_header vers config) (header_image vers config)"
proof -
  have known: "\<not> (vers < POLICYDB_VERSION_MIN \<or> vers > POLICYDB_VERSION_MAX)" using assms by (simp add: linorder_not_less)
  show ?thesis unfolding write_header_def header_image_def if_not_P[OF known] by (intro emits_seq emits_words emits_string)
qed

lemma reads_header:
  assumes "POLICYDB_VERSION_MIN \<le> vers" and "vers \<le> POLICYDB_VERSION_MAX"
  shows "reads (read_header True) (header_image vers config) (vers, config)"
proof -
  have str: "reads (read_chars True (strlen32 POLICYDB_STRING)) (string_image POLICYDB_STRING) POLICYDB_STRING"
    by (intro reads_chars) (simp_all add: cstr_def)
  have tail: "reads (read_words 4) (words_image [vers, config, of_nat (sym_num vers), of_nat (ocon_num vers)])
      [vers, config, of_nat (sym_num vers), of_nat (ocon_num vers)]"
    by (intro reads_words) simp
  show ?thesis
    unfolding read_header_def header_image_def
    by (rule reads_bind[OF reads_words], simp, simp, rule reads_bind[OF str[simplified]], simp, rule reads_bind_last[OF tail])
      (use leD[OF assms(1)] leD[OF assms(2)] in \<open>simp add: reads_return\<close>)
qed

lemma extends_header: "extends (read_header mok)"
  unfolding read_header_def by (intro extends_intros)

text \<open>A rule of the unconditional table, in both modes of the writer.\<close>

lemma oemits_item:
  assumes "storable amc vers cur"
  shows "oemits (avtab_write_item amc vers True cur) (item_bytes amc cur)"
proof -
  define hb where "hb = le_bytes 2 (source_type (fst cur)) @ le_bytes 2 (target_type (fst cur)) @ le_bytes 2 (target_class (fst cur)) @
    le_bytes 2 (item_spec amc cur)"
  define xb where "xb = (case av_xperms (snd cur) of None \<Rightarrow> le_bytes 4 (av_data (snd cur))
    | Some x \<Rightarrow> (if amc then [] else [xp_specified x]) @ [xp_driver x] @ concat (map (le_bytes 4) (xp_perms x)))"
  have bytes: "item_bytes amc cur = hb @ xb" by (simp add: item_bytes_def hb_def xb_def del: le_bytes.simps)
  have sp: "(if amc \<and> specified (fst cur) AND AVTAB_XPERMS \<noteq> 0 then
        (case av_xperms (snd cur) of None \<Rightarrow> UB NullDeref
         | Some x \<Rightarrow> Ret (if xp_specified x = AVTAB_XPERMS_IOCTLDRIVER then avtab_xperms_to_optype (specified (fst cur)) else specified (fst cur)))
      else Ret (specified (fst cur))) = Ret (item_spec amc cur)"
    using assms by (auto simp: storable_def item_spec_def split: option.splits)
  show ?thesis
    unfolding oemits_def bytes
  proof (intro allI impI)
    fix fp
    assume room: "has_room (length (hb @ xb)) fp"
    then have r: "has_room (length hb) fp" "has_room (length xb) (after_put hb fp)" by (simp_all only: has_room_append)
    have h: "put_entry (le_bytes 2 (source_type (fst cur)) @ le_bytes 2 (target_type (fst cur)) @ le_bytes 2 (target_class (fst cur)) @
        le_bytes 2 (item_spec amc cur)) 2 4 fp = (4, after_put hb fp)"
      using r(1) unfolding hb_def by (intro put_entry_emits) simp_all
    show "avtab_write_item amc vers True cur fp = Ret (0, after_put (hb @ xb) fp)"
    proof (cases "av_xperms (snd cur)")
      case None
      have xp: "specified (fst cur) AND AVTAB_XPERMS = 0" using assms None by (simp add: storable_def)
      have "put_entry (le_bytes 4 (av_data (snd cur))) 4 1 (after_put hb fp) = (1, after_put xb (after_put hb fp))"
        using r(2) unfolding xb_def None option.case by (intro put_entry_emits) simp_all
      then show ?thesis
        by (simp only: avtab_write_item_def Let_def sp obind.simps h prod.case after_put_append) (simp add: xp)
    next
      case (Some x)
      define sb where "sb = (if amc then [] else [xp_specified x])"
      define pb where "pb = concat (map (le_bytes 4) (xp_perms x))"
      have xb: "xb = sb @ [xp_driver x] @ pb" by (simp add: xb_def Some sb_def pb_def)
      have len: "length (xp_perms x) = 8" and xp: "specified (fst cur) AND AVTAB_XPERMS \<noteq> 0" and v: "\<not> vers < POLICYDB_VERSION_XPERMS_IOCTL"
        using assms Some by (simp_all add: storable_def leD)
      let ?f1 = "after_put hb fp"
      have r2: "has_room (length sb) ?f1" "has_room (length [xp_driver x]) (after_put sb ?f1)" "has_room (length pb) (after_put [xp_driver x] (after_put sb ?f1))"
        using r(2) unfolding xb by (simp_all only: has_room_append after_put_append)
      have p1: "(if amc then (1, ?f1) else put_entry [xp_specified x] 1 1 ?f1) = (1, after_put sb ?f1)"
        using r2(1) put_entry_emits[of "[xp_specified x]" 1 1 ?f1] by (cases amc) (simp_all add: sb_def)
      have p2: "put_entry [xp_driver x] 1 1 (after_put sb ?f1) = (1, after_put [xp_driver x] (after_put sb ?f1))"
        using r2(2) by (intro put_entry_emits) simp_all
      have p3: "put_entry (concat (map (le_bytes 4) (xp_perms x))) 4 8 (after_put [xp_driver x] (after_put sb ?f1)) =
          (8, after_put pb (after_put [xp_driver x] (after_put sb ?f1)))"
        using r2(3) len unfolding pb_def by (intro put_entry_emits) simp_all
      show ?thesis
        by (simp only: avtab_write_item_def Let_def sp obind.simps h prod.case after_put_append xb)
          (simp only: Some option.case p1 p2 p3 prod.case, simp add: xp v)
    qed
  qed
qed

lemma oemits_avtab:
  assumes "avtab_wf a" and "\<forall>x \<in> set (avtab_nodes a). storable amc vers x"
  shows "oemits (avtab_write amc vers True a) (avtab_bytes amc a)"
proof -
  have items: "avtab_write_items amc vers True ns fp = olist (avtab_write_item amc vers True) ns fp" for ns fp
    by (induction ns arbitrary: fp) (simp_all add: oput_def wskip_def oseq_def cong: if_cong)
  have nodes: "oemits (olist (avtab_write_item amc vers True) (avtab_nodes a)) (concat (map (item_bytes amc) (avtab_nodes a)))"
    using assms(2) by (intro oemits_list oemits_item) simp
  have "put_entry (le_bytes 4 (av_nel a)) 4 1 fp = (1, after_put (le_bytes 4 (av_nel a)) fp)" if "has_room (length (le_bytes 4 (av_nel a))) fp" for fp
    using that by (intro put_entry_emits) simp_all
  moreover have "\<exists>bs. av_htable a = Some bs" using assms(1) by (auto simp: avtab_wf_def split: option.splits)
  ultimately show ?thesis
    using nodes by (simp only: oemits_def avtab_bytes_def has_room_append after_put_append) (auto simp: avtab_write_def items)
qed

text \<open>What is read back has the same rules; the chains and the number of buckets may differ.\<close>

lemma loads_avtab:
  assumes "vers \<ge> POLICYDB_VERSION_AVTAB" and "avtab_wf a" and "avtab_counted a" and "\<forall>x \<in> set (avtab_nodes a). storable amc vers x"
  obtains a' where "loads amc (avtab_loader True vers) (avtab_bytes amc a) a'" and "avtab_wf a'" and "avtab_abs a' = avtab_abs a" and "av_nel a' = av_nel a"
proof -
  let ?a0 = "\<lparr>av_htable = None, av_nel = 0, av_nslot = 0, av_mask = 0\<rparr>"
  obtain a' where a': "avtab_read True vers amc (avtab_bytes amc a @ []) ?a0 = Ret (0, a', [], amc)" "avtab_wf a'" "avtab_abs a' = avtab_abs a" "av_nel a' = av_nel a"
    by (rule avtab_read_bytes[OF assms, of "[]" ?a0])
  have "avtab_read True vers amc (avtab_bytes amc a @ rest) ?a0 = Ret (0, a', rest, amc)" for rest
    using avtab_read_more[of vers True amc "avtab_bytes amc a" ?a0 a' "[]" amc rest] a'(1) assms(1) by simp
  with a'(2-) show ?thesis by (intro that[of a']) (simp_all add: loads_def avtab_loader_def)
qed

text \<open>The table of file name transitions is rebuilt node by node.\<close>

definition filename_table_ok :: "u32 \<Rightarrow> (filename_trans, u32) hashtab option \<Rightarrow> bool" where
  "filename_table_ok vers t \<longleftrightarrow>
     (if vers \<ge> POLICYDB_VERSION_FILENAME_TRANS
      then \<exists>h. t = Some h \<and> chains_ascend h \<and> emptied h = filename_table \<and> length (hashtab_nodes h) < 4294967296 \<and>
        (\<forall>kd \<in> set (hashtab_nodes h). filename_ok kd)
      else t = Some filename_table)"

definition filename_table_image :: "(filename_trans, u32) hashtab option \<Rightarrow> u8 list" where
  "filename_table_image t = words_image [table_nel t] @ (case t of None \<Rightarrow> [] | Some h \<Rightarrow> concat (map filename_image (hashtab_nodes h)))"

lemma filename_loop:
  "reads (read_loop n (\<lambda>h. rbind (filename_trans_entry True) (insert_entry True h)) h) bs h' \<Longrightarrow>
   filename_trans_loop True n h (bs @ rest) = Ret (Some (h', rest))"
proof -
  have "read_loop n (\<lambda>h. rbind (filename_trans_entry True) (insert_entry True h)) h fp = Some (h', rest) \<Longrightarrow>
      filename_trans_loop True n h fp = Ret (Some (h', rest))" for fp
  proof (induction n arbitrary: h fp)
    case (Suc n)
    then show ?case
      by (auto simp: rbind_def insert_entry_def rfail_def rreturn_def split: option.splits prod.splits if_splits)
  qed (simp add: rreturn_def)
  then show "reads (read_loop n (\<lambda>h. rbind (filename_trans_entry True) (insert_entry True h)) h) bs h' \<Longrightarrow> ?thesis"
    by (simp add: reads_def)
qed

lemma filename_table_io:
  assumes "filename_table_ok vers t" and "vers \<ge> POLICYDB_VERSION_FILENAME_TRANS"
  shows "emits (filename_trans_write vers t) (filename_table_image t)" and "loads amc (filename_loader True (Some filename_table)) (filename_table_image t) t"
proof -
  obtain h where h: "t = Some h" "chains_ascend h" "emptied h = filename_table" "length (hashtab_nodes h) < 4294967296"
    "\<forall>kd \<in> set (hashtab_nodes h). filename_ok kd" using assms by (auto simp: filename_table_ok_def)
  have nel: "nel h = of_nat (length (hashtab_nodes h))" using h(2) by (simp add: chains_ascend_def)
  have "emits (hashtab_map filename_write_helper (Some h)) (concat (map filename_image (hashtab_nodes h)))"
    using h(5) filename_file.write_image by (intro emits_table) fastforce
  then show "emits (filename_trans_write vers t) (filename_table_image t)"
    using leD[OF assms(2)] unfolding filename_trans_write_def filename_table_image_def h(1) by (simp add: emits_seq emits_words)
  have "reads (read_loop (unat (nel h)) (\<lambda>h. rbind (filename_trans_entry True) (insert_entry True h)) (Some (emptied h)))
      (concat (map filename_image (hashtab_nodes h))) (Some h)"
  proof (rule table_rebuilt[OF h(2)])
    show "unat (nel h) = length (hashtab_nodes h)" using nel h(4) by (simp add: unat_of_nat32)
    fix x g g' assume "x \<in> set (hashtab_nodes h)" and "hashtab_insert True (Some g) (fst x) (snd x) = (0, Some g')"
    then show "reads (rbind (filename_trans_entry True) (insert_entry True (Some g))) (filename_image x) (Some g')"
      using h(5) by (intro reads_bind_last[OF filename_file.read_image]) (simp_all add: insert_entry_def reads_return)
  qed
  from filename_loop[OF this] have loop: "filename_trans_loop True (unat (nel h)) (Some filename_table) (concat (map filename_image (hashtab_nodes h)) @ rest) =
      Ret (Some (Some h, rest))" for rest by (simp add: h(3))
  have "read_words 1 (words_image [nel h] @ bs) = Some ([nel h], bs)" for bs by (rule readsD[OF reads_words]) simp
  then show "loads amc (filename_loader True (Some filename_table)) (filename_table_image t) t"
    unfolding loads_def filename_loader_def filename_trans_read_def filename_table_image_def h(1) by (simp add: loop table_nel_def)
qed

lemma filename_loop_more: "filename_trans_loop mok n h fp = Ret (Some (h', fp')) \<Longrightarrow> filename_trans_loop mok n h (fp @ post) = Ret (Some (h', fp' @ post))"
proof (induction n arbitrary: h fp)
  case (Suc n)
  have "extends (filename_trans_entry mok)" unfolding filename_trans_entry_def by (intro extends_intros)
  then have e: "filename_trans_entry mok fp = Some (kd, fp1) \<Longrightarrow> filename_trans_entry mok (fp @ post) = Some (kd, fp1 @ post)" for kd fp1
    unfolding extends_def by blast
  show ?case using Suc by (auto simp: e split: option.splits prod.splits if_splits)
qed simp

lemma lextends_filename: "lextends (filename_loader mok h)"
  unfolding lextends_def
proof (intro allI impI)
  fix amc fp x fp' amc' post
  assume l: "filename_loader mok h amc fp = Ret (Some (x, fp', amc'))"
  then obtain buf fp1 where w: "read_words 1 fp = Some (buf, fp1)" by (auto simp: filename_loader_def filename_trans_read_def split: option.splits)
  then have w': "read_words 1 (fp @ post) = Some (buf, fp1 @ post)" using extends_words[of 1] unfolding extends_def by blast
  from l w have "filename_trans_loop mok (unat (buf ! 0)) h fp1 = Ret (Some (x, fp'))" and "amc' = amc"
    by (auto simp: filename_loader_def filename_trans_read_def split: option.splits)
  with filename_loop_more[OF this(1), of post] w' show "filename_loader mok h amc (fp @ post) = Ret (Some (x, fp' @ post, amc'))"
    by (simp add: filename_loader_def filename_trans_read_def)
qed

section \<open>Types and attributes\<close>

text \<open>
  A map from types to attributes that holds every type itself, and the map from attributes to types that reading makes of it: attribute
  \<open>j\<close> has the types \<open>i\<close> whose map holds \<open>j\<close>, and a type that is not an attribute also has itself.
\<close>

definition is_real_type :: "type_datum option list \<Rightarrow> nat \<Rightarrow> bool" where
  "is_real_type tys i \<longleftrightarrow> (case tys ! i of None \<Rightarrow> False | Some d \<Rightarrow> t_flavor d \<noteq> TYPE_ATTRIB)"

definition attr_members :: "type_datum option list \<Rightarrow> ebitmap list \<Rightarrow> nat \<Rightarrow> nat \<Rightarrow> nat set" where
  "attr_members tys tam k j = {i. i < k \<and> (if i = j then is_real_type tys j else j \<in> ebitmap_set (tam ! i))}"

definition attr_maps :: "type_datum option list \<Rightarrow> ebitmap list \<Rightarrow> nat \<Rightarrow> ebitmap list \<Rightarrow> bool" where
  "attr_maps tys tam k atm \<longleftrightarrow> (\<forall>j < length atm. ebitmap_wf (atm ! j) \<and> ebitmap_set (atm ! j) = attr_members tys tam k j)"

definition type_map_ok :: "nat \<Rightarrow> nat \<Rightarrow> ebitmap \<Rightarrow> bool" where
  "type_map_ok n i e \<longleftrightarrow> ebitmap_wf e \<and> i \<in> ebitmap_set e \<and> ebitmap_set e \<subseteq> {..<n}"

lemma ebitmap_eqI: "ebitmap_wf a \<Longrightarrow> ebitmap_wf b \<Longrightarrow> ebitmap_set a = ebitmap_set b \<Longrightarrow> a = (b :: ebitmap)"
  using nodes_canonical[of "enode a" "enode b"] by (simp add: ebitmap_wf_def ebitmap_set_def)

lemma set_bit_true:
  assumes "ebitmap_wf e" and "i < 4294967232"
  obtains e' where "ebitmap_set_bit True e (of_nat i) True = (0, e')" and "ebitmap_wf e'" and "ebitmap_set e' = insert i (ebitmap_set e)"
proof -
  have i: "unat (of_nat i :: u32) = i" using assms(2) by (simp add: unat_of_nat32)
  show ?thesis
    by (rule set_bit_correct[OF assms(1), of "of_nat i" True]) (use that assms(2) i in \<open>simp_all add: upd_set_def\<close>)
qed

lemma set_bit_idem: "ebitmap_wf e \<Longrightarrow> i < 4294967232 \<Longrightarrow> i \<in> ebitmap_set e \<Longrightarrow> ebitmap_set_bit True e (of_nat i) True = (0, e)"
  by (rule set_bit_true[of e i]) (auto dest: ebitmap_eqI[of _ e] simp: insert_absorb)

lemma mark_attributes_ok:
  assumes "i < 4294967232" and "unat np = length atm" and "\<forall>j < length atm. ebitmap_wf (atm ! j)" and "\<forall>j \<in> set js. unat j < length atm"
  shows "\<exists>atm'. mark_attributes True np i js atm = Some atm' \<and> length atm' = length atm \<and>
    (\<forall>j < length atm. ebitmap_wf (atm' ! j) \<and> ebitmap_set (atm' ! j) = ebitmap_set (atm ! j) \<union> (if j \<noteq> i \<and> j \<in> unat ` set js then {i} else {}))"
  using assms(2-)
proof (induction js arbitrary: atm)
  case (Cons j js)
  show ?case
  proof (cases "unat j = i")
    case True
    then have same: "(k \<noteq> i \<and> k \<in> unat ` set (j # js)) = (k \<noteq> i \<and> k \<in> unat ` set js)" for k by auto
    have "mark_attributes True np i (j # js) atm = mark_attributes True np i js atm" using True by simp
    then show ?thesis using Cons.IH[OF Cons.prems(1,2)] Cons.prems(3) unfolding same by simp
  next
    case False
    have j: "unat j < length atm" and wf: "ebitmap_wf (atm ! unat j)" using Cons.prems by auto
    then have lt: "\<not> j \<ge> np" using Cons.prems(1) by (simp add: word_le_nat_alt)
    obtain e where e: "ebitmap_set_bit True (atm ! unat j) (of_nat i) True = (0, e)" "ebitmap_wf e"
      "ebitmap_set e = insert i (ebitmap_set (atm ! unat j))" by (rule set_bit_true[OF wf assms(1)])
    let ?atm = "atm[unat j := e]"
    have wf': "\<forall>k < length ?atm. ebitmap_wf (?atm ! k)" using Cons.prems(2) e(2) j by (simp add: nth_list_update)
    have "\<forall>k \<in> set js. unat k < length atm" using Cons.prems(3) by simp
    note IH = Cons.IH[OF _ wf', unfolded length_list_update, OF Cons.prems(1) this]
    obtain atm' where atm': "mark_attributes True np i js ?atm = Some atm'" "length atm' = length atm"
      "\<And>k. k < length atm \<Longrightarrow> ebitmap_wf (atm' ! k) \<and> ebitmap_set (atm' ! k) = ebitmap_set (?atm ! k) \<union> (if k \<noteq> i \<and> k \<in> unat ` set js then {i} else {})"
      using IH by blast
    have "mark_attributes True np i (j # js) atm = Some atm'" using False lt e(1) atm'(1) by simp
    moreover have "ebitmap_set (atm' ! k) = ebitmap_set (atm ! k) \<union> (if k \<noteq> i \<and> k \<in> unat ` set (j # js) then {i} else {})" if "k < length atm" for k
      using atm'(3)[OF that] False e(3) j by (cases "k = unat j") (auto simp: nth_list_update)
    ultimately show ?thesis using atm'(2,3) by blast
  qed
qed auto

lemma map_type_ok:
  assumes n: "unat np = length atm" "length atm \<le> 4294967232" and i: "i < length atm" and e: "type_map_ok (length atm) i e" "tam ! i = e"
    and atm: "attr_maps tys tam i atm"
  obtains atm' where "map_type True tys np i e atm = Some (e, atm')" and "length atm' = length atm" and "attr_maps tys tam (Suc i) atm'"
proof -
  have wf: "ebitmap_wf e" and own: "i \<in> ebitmap_set e" and le: "ebitmap_set e \<subseteq> {..<length atm}" using e(1) by (simp_all add: type_map_ok_def)
  have bits: "unat ` set (ebitmap_for_each_bit e) = ebitmap_set e" by (rule for_each_bit_set[OF wf])
  have i32: "i < 4294967232" using i n(2) by simp
  have "\<forall>j \<in> set (ebitmap_for_each_bit e). unat j < length atm" using bits le by auto
  then obtain a1 where a1: "mark_attributes True np i (ebitmap_for_each_bit e) atm = Some a1" "length a1 = length atm"
    "\<And>j. j < length atm \<Longrightarrow> ebitmap_wf (a1 ! j) \<and> ebitmap_set (a1 ! j) = attr_members tys tam i j \<union> (if j \<noteq> i \<and> j \<in> ebitmap_set e then {i} else {})"
    using mark_attributes_ok[OF i32 n(1), of "ebitmap_for_each_bit e"] atm by (auto simp: attr_maps_def bits)
  obtain a2 where a2: "ebitmap_set_bit True (a1 ! i) (of_nat i) True = (0, a2)" "ebitmap_wf a2" "ebitmap_set a2 = insert i (ebitmap_set (a1 ! i))"
    using a1(3)[OF i] by (auto intro: set_bit_true[OF _ i32])
  let ?atm = "if is_real_type tys i then a1[i := a2] else a1"
  have "map_type True tys np i e atm = Some (e, ?atm)"
    using a1(1) a2(1) set_bit_idem[OF wf i32 own] by (simp add: map_type_def is_real_type_def)
  moreover have "length ?atm = length atm" using a1(2) by simp
  moreover have "attr_maps tys tam (Suc i) ?atm"
  proof -
    have members: "attr_members tys tam (Suc i) j = attr_members tys tam i j \<union> (if (if i = j then is_real_type tys j else j \<in> ebitmap_set e) then {i} else {})" for j
      using e(2) by (auto simp: attr_members_def less_Suc_eq)
    show ?thesis
      using a1(2,3) a2(2,3) i by (auto simp: attr_maps_def nth_list_update members)
  qed
  ultimately show ?thesis by (rule that)
qed

lemma read_type_maps_ok:
  assumes vers: "vers \<ge> POLICYDB_VERSION_AVTAB" and n: "unat np = length tam" "length tam \<le> 4294967232"
    and ok: "\<forall>i < length tam. type_map_ok (length tam) i (tam ! i)"
  shows "attr_maps tys tam k atm \<Longrightarrow> length atm = length tam \<Longrightarrow> k \<le> length tam \<Longrightarrow>
    \<exists>atm'. reads (read_type_maps True vers tys np [k..<length tam] (take k tam, atm)) (concat (map ebitmap_bytes (drop k tam))) (tam, atm') \<and>
      length atm' = length tam \<and> attr_maps tys tam (length tam) atm'"
proof (induction "length tam - k" arbitrary: k atm)
  case 0
  then have "k = length tam" by simp
  then show ?case using 0 reads_return[of "(tam, atm)"] by auto
next
  case (Suc m)
  then have k: "k < length tam" by simp
  have m: "m = length tam - Suc k" using Suc.hyps(2) by simp
  let ?e = "tam ! k" and ?ms = "(take k tam, atm)"
  have e: "type_map_ok (length atm) k ?e" "ebitmap_wf ?e" using ok k Suc.prems(2) by (simp_all add: type_map_ok_def)
  obtain a1 where a1: "map_type True tys np k ?e atm = Some (?e, a1)" "length a1 = length atm" "attr_maps tys tam (Suc k) a1"
    using map_type_ok[of np atm k ?e tam tys] n e(1) k Suc.prems by auto
  obtain atm' where atm': "reads (read_type_maps True vers tys np [Suc k..<length tam] (take (Suc k) tam, a1)) (concat (map ebitmap_bytes (drop (Suc k) tam))) (tam, atm')"
    "length atm' = length tam" "attr_maps tys tam (length tam) atm'"
    using Suc.hyps(1)[OF m a1(3)] a1(2) k Suc.prems(2) by auto
  have "reads (rbind (if vers \<ge> POLICYDB_VERSION_AVTAB then read_ebitmap True else rreturn ebitmap_init) (\<lambda>e.
      case map_type True tys np k e (snd ?ms) of None \<Rightarrow> rfail
      | Some (e, atm) \<Rightarrow> read_type_maps True vers tys np [Suc k..<length tam] (fst ?ms @ [e], atm)))
      (ebitmap_bytes ?e @ concat (map ebitmap_bytes (drop (Suc k) tam))) (tam, atm')"
    using atm'(1) vers by (intro reads_bind[where x = ?e]) (simp_all add: reads_ebitmap e(2) a1(1) take_Suc_conv_app_nth[OF k])
  then show ?case
    using atm'(2,3) unfolding upt_conv_Cons[OF k] Cons_nth_drop_Suc[OF k, symmetric] list.map concat.simps read_type_maps.simps by blast
qed

lemma extends_type_maps: "extends (read_type_maps mok vers tys np is ms)"
proof (induction "is" arbitrary: ms)
  case (Cons i "is")
  then show ?case by (auto intro!: extends_bind extends_if extends_ebitmap extends_return extends_fail split: option.splits)
qed (simp add: extends_return)

section \<open>The whole policy\<close>

text \<open>A policy whose index arrays, caches and copies of tables are those that reading makes.\<close>

definition indexed :: "kernel_policy \<Rightarrow> bool" where
  "indexed kp \<longleftrightarrow>
     index_rest (symtabs_of kp) = Some (kp_user_names kp, kp_bool_names kp, kp_sens_names kp, kp_cat_names kp) \<and>
     (\<exists>db. index_symbols True ((symtabs_of kp)\<lparr>sy_roles := kernel_roles (p_roles (kp_db kp))\<rparr>) = Ret (Some (db, kp_user_caches kp)) \<and>
        kp_db kp = db\<lparr>te_avtab := te_avtab (kp_db kp), te_cond_avtab := ct_table (kp_cond kp), permissive_map := permissive_map (kp_db kp),
          p_filename_trans := filename_chains (kp_filename kp), p_role_allow := p_role_allow (kp_db kp), policyvers := policyvers (kp_db kp),
          type_attr_map := type_attr_map (kp_db kp), attr_type_map := attr_type_map (kp_db kp)\<rparr>)"

text \<open>The structures of the types, by value.\<close>

definition type_structs :: "policydb \<Rightarrow> type_datum option list" where
  "type_structs db = map (struct_at (table (p_types db))) (type_val_to_struct db)"

definition type_maps_ok :: "policydb \<Rightarrow> bool" where
  "type_maps_ok db \<longleftrightarrow> (let n = unat (nprim (p_types db)) in
     n \<le> 4294967232 \<and> length (type_attr_map db) = n \<and> length (attr_type_map db) = n \<and>
     (\<forall>i < n. type_map_ok n i (type_attr_map db ! i)) \<and> attr_maps (type_structs db) (type_attr_map db) n (attr_type_map db))"

definition rules_ok :: "bool \<Rightarrow> u32 \<Rightarrow> kernel_policy \<Rightarrow> bool" where
  "rules_ok amc vers kp \<longleftrightarrow>
     avtab_wf (te_avtab (kp_db kp)) \<and> avtab_counted (te_avtab (kp_db kp)) \<and> (\<forall>x \<in> set (avtab_nodes (te_avtab (kp_db kp))). storable amc vers x) \<and>
     cond_list_ok (nprim (kp_bools kp)) (te_avtab (kp_db kp)) (map (block_of (kp_cond kp)) (kp_cond_list kp)) \<and>
     length (kp_role_tr kp) < 4294967296 \<and> (\<forall>tr \<in> set (kp_role_tr kp). role_trans_ok vers tr) \<and>
     length (p_role_allow (kp_db kp)) < 4294967296 \<and> filename_table_ok vers (kp_filename kp)"

definition labels_ok :: "u32 \<Rightarrow> kernel_policy \<Rightarrow> bool" where
  "labels_ok vers kp \<longleftrightarrow> ocontexts_ok vers (context_db_of kp) (kp_ocontexts kp) \<and> genfs_list_ok vers (context_db_of kp) (kp_genfs kp) \<and>
     range_table_ok vers (kp_ranges kp) \<and> type_maps_ok (kp_db kp)"

definition header_ok :: "u32 \<Rightarrow> kernel_policy \<Rightarrow> bool" where
  "header_ok vers kp \<longleftrightarrow> \<not> kp_unsupported kp \<and> POLICYDB_VERSION_AVTAB \<le> vers \<and> vers \<le> POLICYDB_VERSION_MAX \<and> kp_handle_unknown kp \<in> {0, 2, 4, 6} \<and>
     (if vers \<ge> POLICYDB_VERSION_POLCAP then ebitmap_wf (kp_policycaps kp) else kp_policycaps kp = ebitmap_init) \<and>
     (if vers \<ge> POLICYDB_VERSION_PERMISSIVE then ebitmap_wf (permissive_map (kp_db kp)) else permissive_map (kp_db kp) = ebitmap_init)"

definition policy_ok :: "bool \<Rightarrow> kernel_policy \<Rightarrow> bool" where
  "policy_ok amc kp \<longleftrightarrow> (let vers = policyvers (kp_db kp) in
     header_ok vers kp \<and> symtabs_ok vers (symtabs_of kp) \<and> rules_ok amc vers kp \<and> indexed kp \<and> labels_ok vers kp)"

text \<open>The image, section by section.\<close>

definition rules_section :: "bool \<Rightarrow> u32 \<Rightarrow> kernel_policy \<Rightarrow> u8 list" where
  "rules_section amc vers kp =
     avtab_bytes amc (te_avtab (kp_db kp)) @ cond_image amc (map (block_of (kp_cond kp)) (kp_cond_list kp)) @
     (words_image [of_nat (length (kp_role_tr kp))] @ concat (map (role_trans_image vers) (kp_role_tr kp))) @
     (words_image [of_nat (length (p_role_allow (kp_db kp)))] @ concat (map (\<lambda>ra. words_image [fst ra, snd ra]) (p_role_allow (kp_db kp)))) @
     (if vers \<ge> POLICYDB_VERSION_FILENAME_TRANS then filename_table_image (kp_filename kp) else [])"

definition labels_section :: "u32 \<Rightarrow> kernel_policy \<Rightarrow> u8 list" where
  "labels_section vers kp = concat (map (kind_image vers) (kp_ocontexts kp)) @ genfs_list_image vers (kp_genfs kp) @
     range_table_image vers (kp_ranges kp) @ concat (map ebitmap_bytes (type_attr_map (kp_db kp)))"

definition policy_image :: "bool \<Rightarrow> kernel_policy \<Rightarrow> u8 list" where
  "policy_image amc kp = (let vers = policyvers (kp_db kp) in
     header_image vers (config_of (kp_mls kp) (kp_handle_unknown kp)) @
     (if vers \<ge> POLICYDB_VERSION_POLCAP then ebitmap_bytes (kp_policycaps kp) else []) @
     (if vers \<ge> POLICYDB_VERSION_PERMISSIVE then ebitmap_bytes (permissive_map (kp_db kp)) else []) @
     symtabs_image vers (symtabs_of kp) @ rules_section amc vers kp @ labels_section vers kp)"

lemma policy_image_kernel: "selinux_kernel_image (policy_image amc kp @ rest)"
  unfolding selinux_kernel_image_def policy_image_def header_image_def Let_def append_assoc by blast

text \<open>The policy with other tables of rules.\<close>

definition with_rules :: "avtab \<Rightarrow> cond_tab \<times> cond_node list \<Rightarrow> kernel_policy \<Rightarrow> kernel_policy" where
  "with_rules te cond kp = kp\<lparr>kp_db := (kp_db kp)\<lparr>te_avtab := te, te_cond_avtab := ct_table (fst cond)\<rparr>, kp_cond := fst cond, kp_cond_list := snd cond\<rparr>"

text \<open>The same rules: the unconditional ones by identity, the conditional ones block by block and in order.\<close>

definition same_rules :: "kernel_policy \<Rightarrow> avtab \<Rightarrow> cond_tab \<times> cond_node list \<Rightarrow> bool" where
  "same_rules kp te cond \<longleftrightarrow> avtab_wf te \<and> avtab_abs te = avtab_abs (te_avtab (kp_db kp)) \<and> av_nel te = av_nel (te_avtab (kp_db kp)) \<and>
     ct_wf (fst cond) \<and> map (block_of (fst cond)) (snd cond) = map (block_of (kp_cond kp)) (kp_cond_list kp)"

lemma oemits_skip: "oemits (oput wskip) []"
  by (intro oemits_put emits_skip)

lemma blocks_fit_cong: "avtab_abs te = avtab_abs te' \<Longrightarrow> blocks_fit te seen bs = blocks_fit te' seen bs"
  by (induction te seen bs rule: blocks_fit.induct) simp_all

lemma write_rules:
  assumes "rules_ok amc vers kp" and "vers \<ge> POLICYDB_VERSION_AVTAB"
  shows "oemits (oseq (avtab_write amc vers True (te_avtab (kp_db kp)))
       (oseq (if vers \<ge> POLICYDB_VERSION_BOOL then cond_write_list amc vers True (kp_cond kp) (kp_cond_list kp) else oput wskip)
       (oseq (oput (role_trans_write vers (kp_role_tr kp)))
       (oseq (oput (role_allow_write (p_role_allow (kp_db kp)))) (oput (filename_trans_write vers (kp_filename kp))))))) (rules_section amc vers kp)"
proof -
  note r = assms(1)[unfolded rules_ok_def]
  have kept: "filter (role_trans_ok vers) (kp_role_tr kp) = kp_role_tr kp" using r by (simp add: filter_id_conv)
  have v: "vers \<ge> POLICYDB_VERSION_BOOL" using assms(2) by (simp add: word_le_nat_alt)
  have ft: "emits (filename_trans_write vers (kp_filename kp)) (if vers \<ge> POLICYDB_VERSION_FILENAME_TRANS then filename_table_image (kp_filename kp) else [])"
    using r filename_table_io(1)[of vers "kp_filename kp"] by (auto simp: filename_trans_write_def emits_skip)
  show ?thesis
    unfolding rules_section_def if_P[OF v]
    using r role_trans_roundtrip(1)[of "kp_role_tr kp" vers, unfolded kept] role_allow_roundtrip(1)[of "p_role_allow (kp_db kp)"]
    by (intro oemits_seq oemits_avtab cond_write_list_ok oemits_put ft) auto
qed

lemma load_rules:
  assumes "rules_ok amc vers kp" and "vers \<ge> POLICYDB_VERSION_AVTAB" and "sy_bools s = kp_bools kp"
  obtains te cond where "loads amc (read_rules True vers s) (rules_section amc vers kp) (te, cond, kp_role_tr kp, p_role_allow (kp_db kp), kp_filename kp)"
    and "same_rules kp te cond"
proof -
  note r = assms(1)[unfolded rules_ok_def]
  let ?te = "te_avtab (kp_db kp)" and ?bs = "map (block_of (kp_cond kp)) (kp_cond_list kp)"
  obtain te where te: "loads amc (avtab_loader True vers) (avtab_bytes amc ?te) te" "avtab_wf te" "avtab_abs te = avtab_abs ?te" "av_nel te = av_nel ?te"
    using loads_avtab[OF assms(2)] r by blast
  have "av_nel te \<noteq> 0" using r te(4) by (auto simp: avtab_counted_def unat_of_nat32 simp flip: unat_eq_zero)
  moreover have "cond_list_ok (nprim (kp_bools kp)) te ?bs" using r blocks_fit_cong[OF te(3)] by (simp add: cond_list_ok_def)
  ultimately obtain ct cl where c: "loads amc (cond_read_list True vers (nprim (kp_bools kp)) te ct_init) (cond_image amc ?bs) (ct, cl)"
    "ct_wf ct" "map (block_of ct) cl = ?bs" using cond_read_list_ok[OF assms(2) te(2)] by blast
  have v: "vers \<ge> POLICYDB_VERSION_BOOL" using assms(2) by (simp add: word_le_nat_alt)
  have kept: "filter (role_trans_ok vers) (kp_role_tr kp) = kp_role_tr kp" using r by (simp add: filter_id_conv)
  have rt: "loads amc (lread (role_trans_read True vers)) (words_image [of_nat (length (kp_role_tr kp))] @ concat (map (role_trans_image vers) (kp_role_tr kp))) (kp_role_tr kp)"
    using role_trans_roundtrip(2)[of "kp_role_tr kp" vers, unfolded kept] r by (intro loads_read) blast
  have ra: "loads amc (lread (role_allow_read True)) (words_image [of_nat (length (p_role_allow (kp_db kp)))] @
      concat (map (\<lambda>ra. words_image [fst ra, snd ra]) (p_role_allow (kp_db kp)))) (p_role_allow (kp_db kp))"
    using role_allow_roundtrip(2)[of "p_role_allow (kp_db kp)"] r by (intro loads_read) blast
  have ft: "loads amc (if vers \<ge> POLICYDB_VERSION_FILENAME_TRANS then filename_loader True (Some filename_table) else lreturn (Some filename_table))
      (if vers \<ge> POLICYDB_VERSION_FILENAME_TRANS then filename_table_image (kp_filename kp) else []) (kp_filename kp)"
    using r filename_table_io(2)[of vers "kp_filename kp" amc] by (intro loads_when) (auto simp: filename_table_ok_def)
  have "loads amc (read_rules True vers s) (rules_section amc vers kp) (te, (ct, cl), kp_role_tr kp, p_role_allow (kp_db kp), kp_filename kp)"
    unfolding read_rules_def rules_section_def if_P[OF v] assms(3)
    by (intro loads_bind[OF te(1)] loads_bind[OF c(1)] loads_bind[OF rt] loads_bind[OF ra] loads_bind_last[OF ft] loads_return)
  with te c show ?thesis by (intro that[of te "(ct, cl)"]) (simp_all add: same_rules_def)
qed

lemma attr_maps_unique:
  assumes "attr_maps tys tam k a" and "attr_maps tys tam k b" and "length a = length b"
  shows "a = b"
  using assms by (intro nth_equalityI ebitmap_eqI) (simp_all add: attr_maps_def)

lemma type_maps_io:
  assumes "type_maps_ok db" and "vers \<ge> POLICYDB_VERSION_AVTAB"
  shows "oemits (write_type_maps vers db) (concat (map ebitmap_bytes (type_attr_map db)))"
    and "reads (type_maps_read True vers db) (concat (map ebitmap_bytes (type_attr_map db))) (type_attr_map db, attr_type_map db)"
proof -
  define n where "n = unat (nprim (p_types db))"
  have m: "n \<le> 4294967232" "length (type_attr_map db) = n" "length (attr_type_map db) = n" "\<forall>i < n. type_map_ok n i (type_attr_map db ! i)"
    "attr_maps (type_structs db) (type_attr_map db) n (attr_type_map db)"
    using assms(1) unfolding type_maps_ok_def Let_def n_def by simp_all
  have "oemits (oput (wlist ebitmap_write (type_attr_map db))) (concat (map ebitmap_bytes (type_attr_map db)))"
    by (intro oemits_put emits_list emits_ebitmap)
  then show "oemits (write_type_maps vers db) (concat (map ebitmap_bytes (type_attr_map db)))"
    using m(2) assms(2) by (simp add: oemits_def write_type_maps_def flip: n_def)
  have "attr_maps (type_structs db) (type_attr_map db) 0 (replicate n ebitmap_init)" by (simp add: attr_maps_def attr_members_def)
  then obtain atm where atm: "reads (read_type_maps True vers (type_structs db) (nprim (p_types db)) [0..<n] ([], replicate n ebitmap_init))
      (concat (map ebitmap_bytes (type_attr_map db))) (type_attr_map db, atm)" "length atm = n"
      "attr_maps (type_structs db) (type_attr_map db) n atm"
    using read_type_maps_ok[OF assms(2), of "nprim (p_types db)" "type_attr_map db" "type_structs db" 0 "replicate n ebitmap_init"] m n_def by auto
  then have "atm = attr_type_map db" using m(3,5) by (intro attr_maps_unique) simp_all
  with atm(1) show "reads (type_maps_read True vers db) (concat (map ebitmap_bytes (type_attr_map db))) (type_attr_map db, attr_type_map db)"
    by (simp add: type_maps_read_def type_structs_def Let_def flip: n_def)
qed

lemma write_labels:
  assumes "labels_ok vers kp" and "vers \<ge> POLICYDB_VERSION_AVTAB"
  shows "oemits (oseq (oput (ocontext_write_selinux vers (kp_ocontexts kp))) (oseq (oput (genfs_write vers (kp_genfs kp)))
      (oseq (oput (if vers \<ge> POLICYDB_VERSION_MLS then range_write vers (kp_ranges kp) else wskip)) (write_type_maps vers (kp_db kp)))))
    (labels_section vers kp)"
proof -
  have v: "vers \<ge> POLICYDB_VERSION_MLS" using assms(2) by (simp add: word_le_nat_alt)
  show ?thesis
    unfolding labels_section_def if_P[OF v] using assms(1)[unfolded labels_ok_def] assms(2)
    by (intro oemits_seq oemits_put type_maps_io(1) ocontexts_file.write_image genfs_file.write_image range_table_file.write_image) auto
qed

lemma read_labels_ok:
  assumes ok: "labels_ok vers kp" and vers: "vers \<ge> POLICYDB_VERSION_AVTAB" and cx: "context_db_of kp0 = context_db_of kp"
    and types: "p_types (kp_db kp0) = p_types (kp_db kp)" "type_val_to_struct (kp_db kp0) = type_val_to_struct (kp_db kp)"
  shows "reads (read_labels True vers kp0) (labels_section vers kp)
    (kp0\<lparr>kp_ocontexts := kp_ocontexts kp, kp_genfs := kp_genfs kp, kp_ranges := kp_ranges kp,
         kp_db := (kp_db kp0)\<lparr>type_attr_map := type_attr_map (kp_db kp), attr_type_map := attr_type_map (kp_db kp)\<rparr>\<rparr>)"
proof -
  note l = ok[unfolded labels_ok_def]
  have v: "vers \<ge> POLICYDB_VERSION_MLS" using vers by (simp add: word_le_nat_alt)
  have maps: "reads (type_maps_read True vers (kp_db kp0)) (concat (map ebitmap_bytes (type_attr_map (kp_db kp)))) (type_attr_map (kp_db kp), attr_type_map (kp_db kp))"
    using type_maps_io(2)[of "kp_db kp" vers] l vers by (simp add: type_maps_read_def types)
  show ?thesis
    unfolding read_labels_def labels_section_def cx if_P[OF v] using l
    by (intro reads_bind[OF ocontexts_file.read_image] reads_bind[OF genfs_file.read_image] reads_bind[OF range_table_file.read_image]
        reads_bind_last[OF maps]) (auto simp: reads_return)
qed

lemma config_bits:
  assumes "h \<in> {0, 2, 4, 6}"
  shows "config_of mls h AND POLICYDB_CONFIG_MLS \<noteq> 0 \<longleftrightarrow> mls" and "config_of mls h AND POLICYDB_CONFIG_UNKNOWN_MASK = h"
  using assms by (auto simp: config_of_def)

lemma index_rest_roles: "index_rest (s\<lparr>sy_roles := r\<rparr>) = index_rest s"
  by (simp add: index_rest_def cong: if_cong)

text \<open>Before the labels are read, the policy is the one written but for the tables of rules, the labels and the maps.\<close>

lemma indexed_policy_parts:
  fixes te :: avtab and cond :: "cond_tab \<times> cond_node list"
  assumes ok: "policy_ok amc kp" and index: "index_symbols True s = Ret (Some (db, kp_user_caches kp))"
    and db: "kp_db kp = db\<lparr>te_avtab := te_avtab (kp_db kp), te_cond_avtab := ct_table (kp_cond kp), permissive_map := permissive_map (kp_db kp),
          p_filename_trans := filename_chains (kp_filename kp), p_role_allow := p_role_allow (kp_db kp), policyvers := policyvers (kp_db kp),
          type_attr_map := type_attr_map (kp_db kp), attr_type_map := attr_type_map (kp_db kp)\<rparr>"
    and s: "s = (symtabs_of kp)\<lparr>sy_roles := r\<rparr>"
  defines "kp0 \<equiv> indexed_policy (policyvers (kp_db kp)) (config_of (kp_mls kp) (kp_handle_unknown kp)) (kp_policycaps kp) (permissive_map (kp_db kp)) s
      (te, cond, kp_role_tr kp, p_role_allow (kp_db kp), kp_filename kp) (db, kp_user_caches kp)"
  shows "context_db_of kp0 = context_db_of kp" and "p_types (kp_db kp0) = p_types (kp_db kp)" and "type_val_to_struct (kp_db kp0) = type_val_to_struct (kp_db kp)"
    and "kp0\<lparr>kp_ocontexts := kp_ocontexts kp, kp_genfs := kp_genfs kp, kp_ranges := kp_ranges kp,
         kp_db := (kp_db kp0)\<lparr>type_attr_map := type_attr_map (kp_db kp), attr_type_map := attr_type_map (kp_db kp)\<rparr>\<rparr> = with_rules te cond kp"
proof -
  have rest: "index_rest s = Some (kp_user_names kp, kp_bool_names kp, kp_sens_names kp, kp_cat_names kp)"
    using ok by (simp add: policy_ok_def indexed_def s index_rest_roles Let_def)
  have h: "kp_handle_unknown kp \<in> {0, 2, 4, 6}" and u: "\<not> kp_unsupported kp" using ok by (simp_all add: policy_ok_def header_ok_def Let_def)
  obtain ct cl where c: "cond = (ct, cl)" by (cases cond)
  have fields: "p_types db = p_types (kp_db kp)" "p_roles db = p_roles (kp_db kp)" "type_val_to_struct db = type_val_to_struct (kp_db kp)"
    "role_val_to_struct db = role_val_to_struct (kp_db kp)"
    by (subst db, simp)+
  have sy: "sy_users s = kp_users kp" "sy_bools s = kp_bools kp" "sy_levels s = kp_levels kp" "sy_cats s = kp_cats kp"
    by (simp_all add: s symtabs_of_def)
  have kp0: "kp_db kp0 = db\<lparr>te_avtab := te, te_cond_avtab := ct_table ct, permissive_map := permissive_map (kp_db kp),
      p_filename_trans := filename_chains (kp_filename kp), p_role_allow := p_role_allow (kp_db kp), policyvers := policyvers (kp_db kp)\<rparr>"
    "kp_unsupported kp0 = kp_unsupported kp" "kp_mls kp0 = kp_mls kp" "kp_handle_unknown kp0 = kp_handle_unknown kp" "kp_policycaps kp0 = kp_policycaps kp"
    "kp_users kp0 = kp_users kp" "kp_bools kp0 = kp_bools kp" "kp_levels kp0 = kp_levels kp" "kp_cats kp0 = kp_cats kp"
    "kp_user_names kp0 = kp_user_names kp" "kp_bool_names kp0 = kp_bool_names kp" "kp_sens_names kp0 = kp_sens_names kp" "kp_cat_names kp0 = kp_cat_names kp"
    "kp_user_caches kp0 = kp_user_caches kp" "kp_cond kp0 = ct" "kp_cond_list kp0 = cl" "kp_role_tr kp0 = kp_role_tr kp" "kp_filename kp0 = kp_filename kp"
    by (simp_all add: kp0_def indexed_policy_def rest c config_bits[OF h, simplified] u sy)
  show "context_db_of kp0 = context_db_of kp" by (simp add: context_db_of_def kp0 fields cong: option.case_cong)
  show "p_types (kp_db kp0) = p_types (kp_db kp)" "type_val_to_struct (kp_db kp0) = type_val_to_struct (kp_db kp)" by (simp_all add: kp0 fields)
  have d: "(kp_db kp0)\<lparr>type_attr_map := type_attr_map (kp_db kp), attr_type_map := attr_type_map (kp_db kp)\<rparr> =
      (kp_db kp)\<lparr>te_avtab := te, te_cond_avtab := ct_table ct\<rparr>"
    unfolding kp0(1) by (subst (5) db) simp
  show "kp0\<lparr>kp_ocontexts := kp_ocontexts kp, kp_genfs := kp_genfs kp, kp_ranges := kp_ranges kp,
         kp_db := (kp_db kp0)\<lparr>type_attr_map := type_attr_map (kp_db kp), attr_type_map := attr_type_map (kp_db kp)\<rparr>\<rparr> = with_rules te cond kp"
    unfolding d by (rule kernel_policy.equality) (simp_all add: with_rules_def kp0 c)
qed

lemma loads_check [loads_intros]: "m = Ret (Some x) \<Longrightarrow> loads amc (lcheck m) [] x"
  by (simp add: loads_def lcheck_def)

lemma policy_loads:
  assumes ok: "policy_ok amc kp"
  obtains te cond where "loads amc (policydb_read True) (policy_image amc kp) (with_rules te cond kp)" and "same_rules kp te cond"
proof -
  define vers where "vers = policyvers (kp_db kp)"
  have h: "header_ok vers kp" and sy: "symtabs_ok vers (symtabs_of kp)" and r: "rules_ok amc vers kp" and i: "indexed kp" and l: "labels_ok vers kp"
    using ok by (simp_all add: policy_ok_def vers_def Let_def)
  have v: "vers \<ge> POLICYDB_VERSION_AVTAB" "vers \<le> POLICYDB_VERSION_MAX" and v15: "POLICYDB_VERSION_MIN \<le> vers"
    using h by (simp_all add: header_ok_def word_le_nat_alt)
  let ?s = "(symtabs_of kp)\<lparr>sy_roles := kernel_roles (p_roles (kp_db kp))\<rparr>"
  obtain db where db: "index_symbols True ?s = Ret (Some (db, kp_user_caches kp))"
    "kp_db kp = db\<lparr>te_avtab := te_avtab (kp_db kp), te_cond_avtab := ct_table (kp_cond kp), permissive_map := permissive_map (kp_db kp),
          p_filename_trans := filename_chains (kp_filename kp), p_role_allow := p_role_allow (kp_db kp), policyvers := policyvers (kp_db kp),
          type_attr_map := type_attr_map (kp_db kp), attr_type_map := attr_type_map (kp_db kp)\<rparr>"
    using i unfolding indexed_def by blast
  obtain te cond where rules: "loads amc (read_rules True vers ?s) (rules_section amc vers kp) (te, cond, kp_role_tr kp, p_role_allow (kp_db kp), kp_filename kp)"
    and same: "same_rules kp te cond" by (rule load_rules[OF r v(1), of ?s]) (simp add: symtabs_of_def)
  note parts = indexed_policy_parts[OF ok db refl, of te cond, folded vers_def]
  note labels = read_labels_ok[OF l v(1) parts(1-3), unfolded parts(4)]
  have caps: "reads (if vers \<ge> POLICYDB_VERSION_POLCAP then read_ebitmap True else rreturn ebitmap_init)
      (if vers \<ge> POLICYDB_VERSION_POLCAP then ebitmap_bytes (kp_policycaps kp) else []) (kp_policycaps kp)"
    using h by (intro reads_when reads_ebitmap) (simp_all add: header_ok_def)
  have perm: "reads (if vers \<ge> POLICYDB_VERSION_PERMISSIVE then read_ebitmap True else rreturn ebitmap_init)
      (if vers \<ge> POLICYDB_VERSION_PERMISSIVE then ebitmap_bytes (permissive_map (kp_db kp)) else []) (permissive_map (kp_db kp))"
    using h by (intro reads_when reads_ebitmap) (simp_all add: header_ok_def)
  have tables: "reads (read_symtabs True vers init_symtabs) (symtabs_image vers (symtabs_of kp)) ?s"
    using symtabs_read[OF sy] by (simp add: symtabs_of_def)
  have tail: "loads amc (lbind (lcheck (index_symbols True ?s)) (\<lambda>index. lread (read_labels True vers (indexed_policy vers
      (config_of (kp_mls kp) (kp_handle_unknown kp)) (kp_policycaps kp) (permissive_map (kp_db kp)) ?s
      (te, cond, kp_role_tr kp, p_role_allow (kp_db kp), kp_filename kp) index)))) ([] @ labels_section vers kp) (with_rules te cond kp)"
    by (rule loads_bind[OF loads_check[OF db(1)]]) (rule loads_read[OF labels])
  have "loads amc (policydb_read True) (policy_image amc kp) (with_rules te cond kp)"
    unfolding policydb_read_def policy_image_def Let_def vers_def[symmetric]
    by (rule loads_bind[OF loads_read[OF reads_header[OF v15 v(2)]]], unfold prod.case,
        intro loads_bind[OF loads_read[OF caps]] loads_bind[OF loads_read[OF perm]] loads_bind[OF loads_read[OF tables]] loads_bind[OF rules] tail[simplified])
  then show ?thesis using same by (rule that)
qed

lemma oseq_assoc: "oseq (oseq a b) c = oseq a (oseq b c)"
  by (auto simp: oseq_def fun_eq_iff obind_assoc split_beta intro!: arg_cong[where f = "obind _"])

lemma policy_writes:
  assumes ok: "policy_ok amc kp"
  shows "oemits (policydb_write amc kp) (policy_image amc kp)"
proof -
  define vers where "vers = policyvers (kp_db kp)"
  have h: "header_ok vers kp" and sy: "symtabs_ok vers (symtabs_of kp)" and r: "rules_ok amc vers kp" and l: "labels_ok vers kp"
    using ok by (simp_all add: policy_ok_def vers_def Let_def)
  have v: "vers \<ge> POLICYDB_VERSION_AVTAB" and v15: "POLICYDB_VERSION_MIN \<le> vers" and v31: "vers \<le> POLICYDB_VERSION_MAX"
    and mls: "\<not> (kp_mls kp \<and> vers < POLICYDB_VERSION_MLS)" and u: "\<not> kp_unsupported kp"
    using h by (auto simp: header_ok_def word_le_nat_alt word_less_nat_alt)
  note rest = oemits_seq[OF write_rules[OF r v] write_labels[OF l v], unfolded oseq_assoc]
  show ?thesis
    unfolding oemits_def policydb_write_def policy_image_def Let_def vers_def[symmetric] if_not_P[OF mls] if_not_P[OF u]
    unfolding oemits_def[symmetric]
    by (intro oemits_seq[OF oemits_put[OF emits_header[OF v15 v31]]] oemits_seq[OF oemits_put[OF emits_when[OF emits_ebitmap]]]
        oemits_seq[OF oemits_put[OF symtabs_emit[OF sy]]] rest)
qed

lemma policy_to_image:
  assumes "policy_ok amc kp"
  shows "policydb_to_image True amc kp = Ret (Some (policy_image amc kp, amc))"
proof -
  have w: "policydb_write amc kp fp = Ret (0, after_put (policy_image amc kp) fp)" if "has_room (length (policy_image amc kp)) fp" for fp
    using policy_writes[OF assms] that by (simp add: oemits_def)
  obtain te cond where "loads amc (policydb_read True) (policy_image amc kp) (with_rules te cond kp)" by (rule policy_loads[OF assms])
  then have "policydb_read True amc (policy_image amc kp @ []) = Ret (Some (with_rules te cond kp, [], amc))" unfolding loads_def by blast
  then show ?thesis by (simp add: policydb_to_image_def w has_room_def after_put_def)
qed

section \<open>Longer and shorter input\<close>

lemma lextends_avtab: "lextends (avtab_loader mok vers)"
proof -
  have items: "avtab_read_items mok vers n amc fp a = Ret (0, a', y, amc') \<Longrightarrow> avtab_read_items mok vers n amc (fp @ post) a = Ret (0, a', y @ post, amc')"
    for n amc fp a a' y amc' post
  proof (induction n arbitrary: amc fp a)
    case (Suc n)
    then obtain b fp1 amc1 where b: "avtab_read_item (avtab_insertf mok) vers amc fp a = Ret (0, b, fp1, amc1)"
      "avtab_read_items mok vers n amc1 fp1 b = Ret (0, a', y, amc')" by (auto split: if_splits)
    then show ?case using read_item_extends[OF b(1), of post] Suc.IH[OF b(2)] by simp
  qed simp
  show ?thesis
    unfolding lextends_def
  proof (intro allI impI)
    fix amc fp x fp' amc' post
    assume "avtab_loader mok vers amc fp = Ret (Some (x, fp', amc'))"
    then have "avtab_read mok vers amc fp \<lparr>av_htable = None, av_nel = 0, av_nslot = 0, av_mask = 0\<rparr> = Ret (0, x, fp', amc')"
      by (auto simp: avtab_loader_def split: if_splits)
    then have "avtab_read mok vers amc (fp @ post) \<lparr>av_htable = None, av_nel = 0, av_nslot = 0, av_mask = 0\<rparr> = Ret (0, x, fp' @ post, amc')"
      by (cases rule: next_entry_cases[of fp 4])
        (auto simp: avtab_read_def Let_def split: prod.splits if_splits dest: items[where post = post])
    then show "avtab_loader mok vers amc (fp @ post) = Ret (Some (x, fp' @ post, amc'))" by (simp add: avtab_loader_def)
  qed
qed

lemma lextends_check: "lextends (lcheck m)"
  by (auto simp: lextends_def lcheck_def)

lemma extends_labels: "extends (read_labels True vers kp)"
proof -
  have "extends (type_maps_read True vers db)" for db
    unfolding type_maps_read_def Let_def by (intro extends_if extends_fail extends_type_maps)
  then show ?thesis
    unfolding read_labels_def
    by (intro extends_bind extends_if extends_return ocontexts_file.read_extends genfs_file.read_extends range_table_file.read_extends)
qed

lemma lextends_policy: "lextends (policydb_read True)"
proof -
  have rules: "lextends (read_rules True vers s)" for vers s
  proof -
    have "extends (role_trans_read True vers)" "extends (role_allow_read True)"
      unfolding role_trans_read_def role_allow_read_def
      by (intro extends_intros role_trans_file.read_extends role_allow_file.read_extends)+
    then show ?thesis
      unfolding read_rules_def
      by (intro lextends_bind lextends_if lextends_avtab lextends_list lextends_read lextends_filename lextends_return)
  qed
  have body: "lextends (lbind (lread (if vers \<ge> POLICYDB_VERSION_POLCAP then read_ebitmap True else rreturn ebitmap_init)) (\<lambda>caps.
     lbind (lread (if vers \<ge> POLICYDB_VERSION_PERMISSIVE then read_ebitmap True else rreturn ebitmap_init)) (\<lambda>permissive.
     lbind (lread (read_symtabs True vers init_symtabs)) (\<lambda>s.
     lbind (read_rules True vers s) (\<lambda>rules.
     lbind (lcheck (index_symbols True s)) (\<lambda>index.
       lread (read_labels True vers (indexed_policy vers config caps permissive s rules index))))))))" for vers config
    by (intro lextends_bind lextends_read extends_if extends_ebitmap extends_return extends_symtabs rules lextends_check extends_labels)
  show ?thesis
    unfolding policydb_read_def by (rule lextends_bind[OF lextends_read[OF extends_header]]) (simp only: split_beta, rule body)
qed

section \<open>What is read is consistent\<close>

lemma set_bit_success:
  assumes "ebitmap_wf e" and "ebitmap_set_bit True e b True = (0, e')"
  shows "ebitmap_wf e' \<and> ebitmap_set e' = insert (unat b) (ebitmap_set e) \<and> unat b < 4294967232"
proof (cases "unat b < 4294967232")
  case True
  then show ?thesis by (rule set_bit_correct[OF assms(1), of b True]) (use assms(2) True in \<open>auto simp: upd_set_def\<close>)
next
  case False
  then show ?thesis using assms(2) set_bit_overflow[of b True e True] by simp
qed

lemma mark_attributes_success:
  assumes "mark_attributes True np i js atm = Some atm'" and "unat np = length atm" and "\<forall>j < length atm. ebitmap_wf (atm ! j)" and "i < 4294967296"
  shows "length atm' = length atm \<and> (\<forall>j \<in> set js. unat j \<noteq> i \<longrightarrow> unat j < length atm) \<and>
    (\<forall>j < length atm. ebitmap_wf (atm' ! j) \<and> ebitmap_set (atm' ! j) = ebitmap_set (atm ! j) \<union> (if j \<noteq> i \<and> j \<in> unat ` set js then {i} else {}))"
  using assms(1-3)
proof (induction js arbitrary: atm)
  case (Cons j js)
  show ?case
  proof (cases "unat j = i")
    case True
    then have same: "(k \<noteq> i \<and> k \<in> unat ` set (j # js)) = (k \<noteq> i \<and> k \<in> unat ` set js)" for k by auto
    show ?thesis using Cons.IH[of atm] Cons.prems True unfolding same by simp
  next
    case False
    then obtain e where lt: "\<not> j \<ge> np" and e: "ebitmap_set_bit True (atm ! unat j) (of_nat i) True = (0, e)" and rec: "mark_attributes True np i js (atm[unat j := e]) = Some atm'"
      using Cons.prems(1) by (auto split: if_splits prod.splits)
    have j: "unat j < length atm" using lt Cons.prems(2) by (simp add: word_le_nat_alt)
    have e': "ebitmap_wf e" "ebitmap_set e = insert i (ebitmap_set (atm ! unat j))"
      using set_bit_success[OF _ e] Cons.prems(3) j assms(4) by (simp_all add: unat_of_nat32)
    have wf: "\<forall>k < length (atm[unat j := e]). ebitmap_wf (atm[unat j := e] ! k)" using Cons.prems(3) e'(1) j by (simp add: nth_list_update)
    note IH = Cons.IH[OF rec _ wf, unfolded length_list_update, OF Cons.prems(2)]
    have "ebitmap_set (atm' ! k) = ebitmap_set (atm ! k) \<union> (if k \<noteq> i \<and> k \<in> unat ` set (j # js) then {i} else {})" if "k < length atm" for k
      using IH that False e'(2) j by (cases "k = unat j") (auto simp: nth_list_update)
    then show ?thesis using IH j by auto
  qed
qed auto

lemma map_type_success:
  assumes m: "map_type True tys np i e atm = Some (e', atm')" and e: "ebitmap_wf e" and n: "unat np = length atm" "i < length atm"
    and atm: "attr_maps tys tam i atm" and i: "length tam = i"
  shows "type_map_ok (length atm) i e' \<and> length atm' = length atm \<and> attr_maps tys (tam @ [e']) (Suc i) atm'"
proof -
  have i32: "i < 4294967296" using n unat_lt32[of np] by simp
  have bits: "unat ` set (ebitmap_for_each_bit e) = ebitmap_set e" by (rule for_each_bit_set[OF e])
  obtain a1 where a1: "mark_attributes True np i (ebitmap_for_each_bit e) atm = Some a1" and b: "ebitmap_set_bit True e (of_nat i) True = (0, e')"
    and r: "if is_real_type tys i then \<exists>a. ebitmap_set_bit True (a1 ! i) (of_nat i) True = (0, a) \<and> atm' = a1[i := a] else atm' = a1"
    using m by (auto simp: map_type_def is_real_type_def split: option.splits prod.splits if_splits)
  have wf: "\<forall>j < length atm. ebitmap_wf (atm ! j)" and old: "\<And>j. j < length atm \<Longrightarrow> ebitmap_set (atm ! j) = attr_members tys tam i j"
    using atm by (simp_all add: attr_maps_def)
  note mark = mark_attributes_success[OF a1 n(1) wf i32]
  have e': "ebitmap_wf e'" "ebitmap_set e' = insert i (ebitmap_set e)" using set_bit_success[OF e b] i32 by (simp_all add: unat_of_nat32)
  have le: "ebitmap_set e' \<subseteq> {..<length atm}" using mark n(2) by (auto simp: e'(2) bits[symmetric])
  have members: "attr_members tys (tam @ [e']) (Suc i) j =
      attr_members tys tam i j \<union> (if (if i = j then is_real_type tys j else j \<in> ebitmap_set e) then {i} else {})" for j
    using i e'(2) by (auto simp: attr_members_def less_Suc_eq nth_append)
  have a1s: "ebitmap_wf (a1 ! j) \<and> ebitmap_set (a1 ! j) = attr_members tys tam i j \<union> (if j \<noteq> i \<and> j \<in> ebitmap_set e then {i} else {})"
    if "j < length atm" for j using mark old that by (simp add: bits)
  have len: "length a1 = length atm" using mark by simp
  have "attr_maps tys (tam @ [e']) (Suc i) atm' \<and> length atm' = length atm"
  proof (cases "is_real_type tys i")
    case True
    with r obtain a where a: "ebitmap_set_bit True (a1 ! i) (of_nat i) True = (0, a)" "atm' = a1[i := a]" by auto
    have "ebitmap_wf a" "ebitmap_set a = insert i (ebitmap_set (a1 ! i))"
      using set_bit_success[OF _ a(1)] a1s[OF n(2)] i32 by (simp_all add: unat_of_nat32)
    then show ?thesis using a1s len True n(2) by (auto simp: attr_maps_def a(2) nth_list_update members)
  next
    case False
    with r a1s len show ?thesis by (auto simp: attr_maps_def members)
  qed
  then show ?thesis using e'(1,2) le by (simp add: type_map_ok_def)
qed

lemma yields_type_maps:
  "unat np = length atm \<Longrightarrow> length tam = k \<Longrightarrow> k \<le> length atm \<Longrightarrow> \<forall>i < k. type_map_ok (length atm) i (tam ! i) \<Longrightarrow> attr_maps tys tam k atm \<Longrightarrow>
   yields (read_type_maps True vers tys np [k..<length atm] (tam, atm))
     (\<lambda>ms. length (fst ms) = length atm \<and> length (snd ms) = length atm \<and> (\<forall>i < length atm. type_map_ok (length atm) i (fst ms ! i)) \<and>
        attr_maps tys (fst ms) (length atm) (snd ms))"
proof (induction "length atm - k" arbitrary: k tam atm)
  case 0
  then have "k = length atm" by simp
  then show ?case using 0 by (simp add: yields_return)
next
  case (Suc m)
  then have k: "k < length atm" by simp
  have m: "m = length atm - Suc k" using Suc.hyps(2) by simp
  let ?n = "length atm"
  show ?case
    unfolding upt_conv_Cons[OF k] read_type_maps.simps snd_conv fst_conv
  proof (rule yields_bind[where P = ebitmap_wf])
    show "yields (if vers \<ge> POLICYDB_VERSION_AVTAB then read_ebitmap True else rreturn ebitmap_init) ebitmap_wf"
      by (intro yields_if yields_ebitmap yields_return) simp
    fix e :: ebitmap
    assume e: "ebitmap_wf e"
    show "yields (case map_type True tys np k e atm of None \<Rightarrow> rfail | Some (e, atm) \<Rightarrow> read_type_maps True vers tys np [Suc k..<?n] (tam @ [e], atm))
      (\<lambda>ms. length (fst ms) = length atm \<and> length (snd ms) = length atm \<and> (\<forall>i < length atm. type_map_ok (length atm) i (fst ms ! i)) \<and>
        attr_maps tys (fst ms) (length atm) (snd ms))"
    proof (cases "map_type True tys np k e atm")
      case (Some r)
      obtain e' a1 where r: "r = (e', a1)" by (cases r)
      note s = map_type_success[OF Some[unfolded r] e Suc.prems(1) k Suc.prems(5,2)]
      have "\<forall>i < Suc k. type_map_ok (length a1) i ((tam @ [e']) ! i)" using s Suc.prems(2,4) by (auto simp: nth_append less_Suc_eq)
      then show ?thesis using Suc.hyps(1)[of a1 "Suc k" "tam @ [e']"] s m k Suc.prems(1,2) by (simp add: Some r)
    qed (simp add: yields_fail)
  qed
qed

definition loaded_ok :: "kernel_policy \<Rightarrow> bool" where
  "loaded_ok kp \<longleftrightarrow> (let cx = context_db_of kp; vers = policyvers (kp_db kp); n = unat (nprim (p_types (kp_db kp))) in
     POLICYDB_VERSION_MIN \<le> vers \<and> vers \<le> POLICYDB_VERSION_MAX \<and>
     length (kp_ocontexts kp) = ocon_num vers \<and> (\<forall>cs \<in> set (kp_ocontexts kp). \<forall>oc \<in> set cs. ocontext_valid cx oc) \<and>
     (\<forall>g \<in> set (kp_genfs kp). genfs_valid cx g) \<and>
     length (type_attr_map (kp_db kp)) = n \<and> length (attr_type_map (kp_db kp)) = n \<and>
     (\<forall>i < n. type_map_ok n i (type_attr_map (kp_db kp) ! i)) \<and> attr_maps (type_structs (kp_db kp)) (type_attr_map (kp_db kp)) n (attr_type_map (kp_db kp)))"

lemma yields_type_maps_read:
  "yields (type_maps_read True vers db) (\<lambda>ms. let n = unat (nprim (p_types db)) in length (fst ms) = n \<and> length (snd ms) = n \<and>
     (\<forall>i < n. type_map_ok n i (fst ms ! i)) \<and> attr_maps (type_structs db) (fst ms) n (snd ms))"
proof -
  have "attr_maps (type_structs db) [] 0 (replicate n ebitmap_init)" for n by (simp add: attr_maps_def attr_members_def)
  then show ?thesis
    using yields_type_maps[of "nprim (p_types db)" "replicate (unat (nprim (p_types db))) ebitmap_init" "[]" 0 "type_structs db" vers]
    by (simp add: type_maps_read_def type_structs_def Let_def)
qed

lemma yields_labels:
  assumes "policyvers (kp_db kp0) = vers" and "POLICYDB_VERSION_MIN \<le> vers" and "vers \<le> POLICYDB_VERSION_MAX"
  shows "yields (read_labels True vers kp0) loaded_ok"
proof -
  have cx: "context_db_of (kp0\<lparr>kp_ocontexts := ocs, kp_genfs := gs, kp_ranges := rg, kp_db := (kp_db kp0)\<lparr>type_attr_map := a, attr_type_map := b\<rparr>\<rparr>) = context_db_of kp0"
    for ocs gs rg a b by (simp add: context_db_of_def cong: option.case_cong)
  have len: "length [0..<ocon_num vers] = ocon_num vers" by simp
  show ?thesis
    unfolding read_labels_def ocontext_read_selinux_def
    by (rule yields_bind[OF yields_ocontexts], rule yields_bind[OF yields_genfs], rule yields_any, rule yields_bind[OF yields_type_maps_read], rule yields_return)
      (use assms cx in \<open>simp add: loaded_ok_def Let_def list_all_iff type_structs_def\<close>)
qed

definition lyields :: "'a loader \<Rightarrow> ('a \<Rightarrow> bool) \<Rightarrow> bool" where
  "lyields l P \<longleftrightarrow> (\<forall>amc fp x fp' amc'. l amc fp = Ret (Some (x, fp', amc')) \<longrightarrow> P x)"

lemma lyields_bind: "lyields l P \<Longrightarrow> (\<And>x. P x \<Longrightarrow> lyields (f x) Q) \<Longrightarrow> lyields (lbind l f) Q"
  by (fastforce simp: lyields_def lbind_def split: option.splits)

lemma lyields_any: "(\<And>x. lyields (f x) Q) \<Longrightarrow> lyields (lbind l f) Q"
  by (rule lyields_bind[where P = "\<lambda>_. True"]) (simp_all add: lyields_def)

lemma lyields_read: "yields r P \<Longrightarrow> lyields (lread r) P"
  by (auto simp: lyields_def lread_def yields_def split: option.splits)

lemma policy_read_ok: "lyields (policydb_read True) loaded_ok"
proof -
  have h: "yields (read_header True) (\<lambda>vc. POLICYDB_VERSION_MIN \<le> fst vc \<and> fst vc \<le> POLICYDB_VERSION_MAX)"
    unfolding read_header_def by (intro yields_any yields_if yields_fail yields_return) auto
  have "policyvers (kp_db (indexed_policy vers config caps permissive s rules index)) = vers" for vers config caps permissive s rules index
    by (simp add: indexed_policy_def split: prod.split)
  note labels = yields_labels[OF this]
  show ?thesis
    unfolding policydb_read_def
    by (rule lyields_bind[OF lyields_read[OF h]], simp only: split_beta, intro lyields_any lyields_read labels) auto
qed

end
