(* ===== verification/PatchedImage.thy ===== *)
theory PatchedImage
  imports KernelImage Statements "HOL-Library.Multiset"
begin

unbundle bit_operations_syntax

text \<open>
  From the image of a policy through the patcher to the next image: adding, removing and auditing permissions
  keeps a policy in the form that can be written, so the patched policy is dumped, verified and read back by
  the kernel's format with exactly the rules the patch made.
\<close>

section \<open>Tables of rules under edits\<close>

text \<open>
  A table of rules that can be written, apart from the bound on its size, and the relation between such a table and one in which
  rules for permissions were changed or added.
\<close>

definition image_table :: "bool \<Rightarrow> u32 \<Rightarrow> avtab \<Rightarrow> bool" where
  "image_table amc vers a \<longleftrightarrow> avtab_wf a \<and> avtab_nodes a \<noteq> [] \<and> av_nel a = of_nat (length (avtab_nodes a)) \<and>
     distinct (map (av_id \<circ> fst) (avtab_nodes a)) \<and> (\<forall>x \<in> set (avtab_nodes a). storable amc vers x)"

definition edits :: "bool \<Rightarrow> u32 \<Rightarrow> avtab \<Rightarrow> avtab \<Rightarrow> bool" where
  "edits amc vers a a' \<longleftrightarrow> image_table amc vers a' \<and>
     (\<forall>r \<in> dom (avtab_abs a'). r \<in> dom (avtab_abs a) \<or> snd (snd (snd r)) \<in> set av_effects)"

lemma edits_refl: "image_table amc vers a \<Longrightarrow> edits amc vers a a"
  by (simp add: edits_def)

lemma edits_trans: "edits amc vers a b \<Longrightarrow> edits amc vers b c \<Longrightarrow> edits amc vers a c"
  unfolding edits_def by blast

lemma wf_nodes: "avtab_wf a \<Longrightarrow> av_htable a = Some bs \<Longrightarrow> avtab_nodes a = concat bs"
  by (simp add: avtab_wf_def avtab_nodes_def)

lemma mset_concat_update:
  "i < length bs \<Longrightarrow> mset (concat (bs[i := ch])) + mset (bs ! i) = mset (concat bs) + mset ch"
proof (induction bs arbitrary: i)
  case (Cons b bs)
  then show ?case by (cases i) (simp_all add: ac_simps)
qed simp

lemma insert_nodes:
  assumes wf: "avtab_wf a" and ins: "avtab_insert True (Some a) key d = (0, Some a')" and wf': "avtab_wf a'"
  shows "mset (avtab_nodes a') = add_mset (key, new_datum key d) (mset (avtab_nodes a))" and "av_nel a' = av_nel a + 1"
proof -
  let ?hv = "unat (avtab_hash key (av_mask a))" and ?sp = "mask_enabled (specified key)"
  obtain bs where bs: "av_htable a = Some bs" using wf by (auto simp: avtab_wf_def split: option.splits)
  obtain pre rest where stop: "insert_stop key ?sp [] (bs ! ?hv) = At pre rest"
    and a': "a' = a\<lparr>av_htable := Some (bs[?hv := pre @ (key, new_datum key d) # rest]), av_nel := av_nel a + 1\<rparr>"
    using ins by (auto simp: avtab_insert_def bs avtab_insert_node_def Let_def split: stop.splits)
  have hv: "?hv < length bs" using wf
  proof (rule wf_Some)
    fix bs' assume "av_htable a = Some bs'" and "bucketed (id_bucket (av_mask a)) (map av_assoc bs')"
    then show ?thesis unfolding hash_id bucketed_def using bs by (simp del: split_paired_All)
  qed
  obtain m where "pre = [] @ m" "bs ! ?hv = m @ rest" by (rule insert_stop_At[OF stop])
  then have "mset (pre @ (key, new_datum key d) # rest) = add_mset (key, new_datum key d) (mset (bs ! ?hv))" by simp
  with mset_concat_update[OF hv, of "pre @ (key, new_datum key d) # rest"]
  show "mset (avtab_nodes a') = add_mset (key, new_datum key d) (mset (avtab_nodes a))"
    using wf_nodes[OF wf bs] wf_nodes[OF wf'] a' by simp
  show "av_nel a' = av_nel a + 1" by (simp add: a')
qed

lemma chain_assign_nodes:
  assumes "x \<in> set (chain_assign key sp f ch)"
  obtains "x \<in> set ch" | y where "y \<in> set ch" and "key_match key sp (fst y)" and "x = (fst y, f (snd y))"
  using assms by (induction ch) (auto split: if_splits)

lemma concat_update_keys: "map fst ch = map fst (bs ! i) \<Longrightarrow> map fst (concat (bs[i := ch])) = map fst (concat bs)"
proof (induction bs arbitrary: i)
  case (Cons b bs)
  then show ?case by (cases i) simp_all
qed simp

lemma effect_kinds:
  assumes "effect \<in> set av_effects"
  shows "effect \<in> set spec_order" "effect AND AVTAB_XPERMS = 0" "effect AND AVTAB_TYPE = 0"
  using assms by (auto simp: av_effects_def spec_order_def)

lemma insert_edits:
  assumes tab: "image_table amc vers a" and eff: "effect \<in> set av_effects" and new: "avtab_abs a (av_id (rule_key s t c effect)) = None"
    and ins: "avtab_insert True (Some a) (rule_key s t c effect) d = (0, Some a')" and d: "av_xperms d = None"
  shows "edits amc vers a a'"
proof -
  let ?k = "rule_key s t c effect"
  note e = effect_kinds[OF eff] and key = rule_key_id[OF effect_kinds(1)[OF eff], of s t c]
  have wf: "avtab_wf a" using tab by (simp add: image_table_def)
  obtain h where h: "avtab_insert True (Some a) ?k d = (0, Some h)" "avtab_wf h" "avtab_abs h = (avtab_abs a)(av_id ?k \<mapsto> new_datum ?k d)"
    using avtab_insert_correct[OF wf key(1), of d] new by blast
  have a': "avtab_wf a'" "avtab_abs a' = (avtab_abs a)(av_id ?k \<mapsto> new_datum ?k d)" using h ins by simp_all
  note nodes = insert_nodes[OF wf ins a'(1)]
  have nd: "new_datum ?k d = d" using e(2) by (simp add: new_datum_def rule_key_def)
  have len: "length (avtab_nodes a') = Suc (length (avtab_nodes a))" using arg_cong[OF nodes(1), of size] by simp
  have elems: "set (avtab_nodes a') = insert (?k, d) (set (avtab_nodes a))" using arg_cong[OF nodes(1), of set_mset] nd by simp
  have "av_id ?k \<notin> set (map (av_id \<circ> fst) (avtab_nodes a))"
  proof -
    obtain bs where bs: "av_htable a = Some bs" using wf by (auto simp: avtab_wf_def split: option.splits)
    have "map_of (concat (map av_assoc bs)) (av_id ?k) = None" using new by (simp add: avtab_abs_def bs)
    then show ?thesis unfolding map_of_eq_None_iff by (force simp: wf_nodes[OF wf bs] av_assoc_def)
  qed
  then have "distinct (map (av_id \<circ> fst) ((?k, d) # avtab_nodes a))" using tab by (simp add: image_table_def)
  moreover have "mset (map (av_id \<circ> fst) (avtab_nodes a')) = mset (map (av_id \<circ> fst) ((?k, d) # avtab_nodes a))" using nodes(1) nd by simp
  ultimately have "distinct (map (av_id \<circ> fst) (avtab_nodes a'))" using mset_eq_imp_distinct_iff by blast
  moreover have "storable amc vers (?k, d)" using key(1) e(2) d by (simp add: storable_def rule_key_def)
  ultimately have "image_table amc vers a'" using tab a'(1) nodes(2) len elems by (auto simp: image_table_def)
  then show ?thesis using a'(2) eff key(2) by (auto simp: edits_def)
qed

lemma assign_edits:
  assumes tab: "image_table amc vers a" and eff: "effect \<in> set av_effects" and f: "\<And>d. av_xperms (f d) = av_xperms d"
  shows "edits amc vers a (avtab_assign a (rule_key s t c effect) f)"
proof -
  let ?k = "rule_key s t c effect" and ?a = "avtab_assign a (rule_key s t c effect) f"
  note e = effect_kinds[OF eff] and key = rule_key_id[OF effect_kinds(1)[OF eff], of s t c]
  have wf: "avtab_wf a" using tab by (simp add: image_table_def)
  obtain bs where bs: "av_htable a = Some bs" using wf by (auto simp: avtab_wf_def split: option.splits)
  let ?hv = "unat (avtab_hash ?k (av_mask a))"
  let ?ch = "chain_assign ?k (mask_enabled (specified ?k)) f (bs ! ?hv)"
  note a' = avtab_assign_correct[OF wf key(1), of f]
  have htab: "av_htable ?a = Some (bs[?hv := ?ch])" by (simp add: avtab_assign_def bs Let_def)
  have keys: "map fst (avtab_nodes ?a) = map fst (avtab_nodes a)"
    unfolding wf_nodes[OF wf bs] wf_nodes[OF a'(1) htab] by (rule concat_update_keys) simp
  have "storable amc vers x" if x: "x \<in> set (avtab_nodes ?a)" for x
  proof -
    have old: "storable amc vers y" if "y \<in> set b" "b \<in> set bs" for y b using tab that by (auto simp: image_table_def wf_nodes[OF wf bs])
    obtain b where b: "x \<in> set b" "b \<in> set (bs[?hv := ?ch])" using x by (auto simp: wf_nodes[OF a'(1) htab])
    show ?thesis
    proof (cases "b \<in> set bs")
      case False
      then have "b = ?ch" using b(2) set_update_subset_insert[of bs ?hv ?ch] by blast
      moreover have hv: "?hv < length bs" using False b(2) by (metis list_update_beyond linorder_not_less)
      ultimately have "x \<in> set ?ch" using b(1) by simp
      then show ?thesis
      proof (rule chain_assign_nodes)
        fix y assume y: "y \<in> set (bs ! ?hv)" "key_match ?k (mask_enabled (specified ?k)) (fst y)" "x = (fst y, f (snd y))"
        then have st: "storable amc vers y" using old hv by auto
        then have "specified (fst y) = effect"
          using y(2) match_iff[OF key(1), of "fst y"] key(2) plain_kind[of "fst y"] by (auto simp: storable_def av_id_def)
        with st e(2) f show ?thesis by (auto simp: storable_def y(3) split: option.splits)
      qed (use old hv in auto)
    qed (use b old in blast)
  qed
  then have "image_table amc vers ?a"
    using tab a'(1) keys by (auto simp: image_table_def avtab_assign_def Let_def simp flip: map_map dest: map_eq_imp_length_eq)
  then show ?thesis using a'(2) eff key(2) by (auto simp: edits_def split: if_splits)
qed

section \<open>Rules for permissions\<close>

text \<open>An operation that edits the table of rules and nothing else.\<close>

definition patches :: "bool \<Rightarrow> u32 \<Rightarrow> (policydb \<Rightarrow> (int \<times> policydb) outcome) \<Rightarrow> bool" where
  "patches amc vers F \<longleftrightarrow> (\<forall>p rc p'. image_table amc vers (te_avtab p) \<longrightarrow> F p = Ret (rc, p') \<longrightarrow>
     (\<exists>te. p' = p\<lparr>te_avtab := te\<rparr> \<and> edits amc vers (te_avtab p) te))"

lemma patchesI:
  assumes "\<And>p rc p'. image_table amc vers (te_avtab p) \<Longrightarrow> F p = Ret (rc, p') \<Longrightarrow> \<exists>te. p' = p\<lparr>te_avtab := te\<rparr> \<and> edits amc vers (te_avtab p) te"
  shows "patches amc vers F"
  using assms unfolding patches_def by blast

lemma patchesD:
  assumes "patches amc vers F" and "image_table amc vers (te_avtab p)" and "F p = Ret (rc, p')"
  obtains te where "p' = p\<lparr>te_avtab := te\<rparr>" and "edits amc vers (te_avtab p) te" and "image_table amc vers te"
  using assms unfolding patches_def edits_def by blast

lemma patches_for_each:
  assumes "\<And>x. patches amc vers (f x)"
  shows "patches amc vers (for_each_or f xs ret)"
proof (induction xs arbitrary: ret)
  case Nil
  show ?case by (intro patchesI) (auto intro!: exI[of _ "te_avtab _"] edits_refl)
next
  case (Cons x xs)
  show ?case
  proof (intro patchesI)
    fix p rc p'
    assume tab: "image_table amc vers (te_avtab p)" and "for_each_or f (x # xs) ret p = Ret (rc, p')"
    then obtain r q where q: "f x p = Ret (r, q)" "for_each_or f xs (ret OR r) q = Ret (rc, p')" by auto
    obtain te where te: "q = p\<lparr>te_avtab := te\<rparr>" "edits amc vers (te_avtab p) te" "image_table amc vers te" by (rule patchesD[OF assms tab q(1)])
    obtain te' where "p' = q\<lparr>te_avtab := te'\<rparr>" "edits amc vers te te'"
      using patchesD[OF Cons.IH _ q(2)] te by auto
    with te show "\<exists>te. p' = p\<lparr>te_avtab := te\<rparr> \<and> edits amc vers (te_avtab p) te" by (auto intro: edits_trans)
  qed
qed

lemma patches_each: "(\<And>x. patches amc vers (f x)) \<Longrightarrow> patches amc vers (\<lambda>p. each_entry (tab p) f p)"
  using patches_for_each[of amc vers f] by (auto simp: patches_def each_entry_def split: option.splits)

lemma patches_one:
  assumes "effect \<in> set av_effects"
  shows "patches amc vers (\<lambda>p. add_rule_one True True p s t c perm effect neg)"
proof (intro patchesI)
  fix p rc p'
  assume tab: "image_table amc vers (te_avtab p)" and run: "add_rule_one True True p s t c perm effect neg = Ret (rc, p')"
  let ?k = "rule_key s t c effect"
  have look: "avtab_search (Some (te_avtab p)) ?k = avtab_abs (te_avtab p) (av_id ?k)"
    using tab avtab_search_correct rule_key_id(1)[OF effect_kinds(1)[OF assms]] by (simp add: image_table_def)
  show "\<exists>te. p' = p\<lparr>te_avtab := te\<rparr> \<and> edits amc vers (te_avtab p) te"
  proof (cases "avtab_abs (te_avtab p) (av_id ?k)")
    case None
    obtain rc' te where ins: "avtab_insert True (Some (te_avtab p)) ?k (set_av perm neg zero_datum) = (rc', te)" by fastforce
    show ?thesis
    proof (cases "rc' = 0")
      case True
      obtain h where "avtab_insert True (Some (te_avtab p)) ?k (set_av perm neg zero_datum) = (0, Some h)"
        using avtab_insert_correct[OF _ rule_key_id(1)[OF effect_kinds(1)[OF assms]] disjI1[OF None]] tab unfolding image_table_def by metis
      then show ?thesis
        using run look None insert_edits[OF tab assms None] by (auto simp: add_rule_one_def Let_def zero_datum_def split: if_splits)
    qed (use run look None ins tab in \<open>auto simp: add_rule_one_def Let_def intro: edits_refl exI[of _ "te_avtab p"] split: if_splits\<close>)
  next
    case (Some d)
    then show ?thesis
      using run look assign_edits[OF tab assms, of "set_av perm neg"] by (auto simp: add_rule_one_def Let_def split: if_splits)
  qed
qed

lemma patches_add_rule:
  assumes "effect \<in> set av_effects"
  shows "patches amc vers (\<lambda>p. add_rule True True p s t c perm effect neg)"
proof -
  note one = patches_one[OF assms]
  have cls: "patches amc vers (add_rule_cls True True sd td cd pd effect neg)" for sd td cd pd
    unfolding add_rule_cls_def[abs_def] by (cases cd) (simp_all add: one patches_each)
  have tgt: "patches amc vers (add_rule_tgt True True sd td cd pd effect neg)" for sd td cd pd
    unfolding add_rule_tgt_def[abs_def] by (cases td) (simp_all add: cls patches_each)
  have auto: "patches amc vers (add_rule_auto True True sd td cd pd effect neg)" for sd td cd pd
    unfolding add_rule_auto_def[abs_def] by (cases sd) (simp_all add: tgt patches_each)
  show ?thesis
  proof (intro patchesI)
    fix p rc p'
    assume tab: "image_table amc vers (te_avtab p)" and run: "add_rule True True p s t c perm effect neg = Ret (rc, p')"
    then consider "p' = p" | sd td cd pd where "add_rule_auto True True sd td cd pd effect neg p = Ret (rc, p')"
      by (auto simp: add_rule_def Let_def split: if_splits option.splits resolved.splits)
    then show "\<exists>te. p' = p\<lparr>te_avtab := te\<rparr> \<and> edits amc vers (te_avtab p) te"
    proof cases
      case 1
      then show ?thesis using tab by (intro exI[of _ "te_avtab p"]) (simp add: edits_refl)
    next
      case 2
      then show ?thesis using patchesD[OF auto tab] by metis
    qed
  qed
qed

text \<open>A call that changes permissions: of the calls of the built-in rules, \<open>sepol_allow\<close> and \<open>sepol_deny\<close>.\<close>

definition is_av_call :: "rule_call \<Rightarrow> bool" where
  "is_av_call x = (case x of Allow _ _ _ _ \<Rightarrow> True | Deny _ _ _ _ \<Rightarrow> True | _ \<Rightarrow> False)"

lemma calls_edit:
  assumes "list_all is_av_call xs" and "image_table amc vers (te_avtab p)" and "run_calls True True xs p = Ret p'"
  obtains te where "p' = p\<lparr>te_avtab := te\<rparr>" and "edits amc vers (te_avtab p) te"
  using assms
proof (induction xs arbitrary: p thesis)
  case Nil
  then show ?case by (intro Nil(1)[of "te_avtab p"]) (simp_all add: edits_refl)
next
  case (Cons x xs)
  have call: "patches amc vers (run_call True True x)"
    using Cons.prems(2) patches_add_rule[of AVTAB_ALLOWED]
    by (cases x) (simp_all add: is_av_call_def run_call.simps[abs_def] sepol_allow_def sepol_deny_def av_effects_def)
  obtain rc q where q: "run_call True True x p = Ret (rc, q)" "run_calls True True xs q = Ret p'"
    using Cons.prems(4) by auto
  obtain te where te: "q = p\<lparr>te_avtab := te\<rparr>" "edits amc vers (te_avtab p) te" "image_table amc vers te" by (rule patchesD[OF call Cons.prems(3) q(1)])
  obtain te' where "p' = q\<lparr>te_avtab := te'\<rparr>" "edits amc vers te te'"
    using Cons.IH[of q] Cons.prems(2) te q(2) by auto
  with te show ?case by (intro Cons.prems(1)[of te']) (auto intro: edits_trans)
qed

section \<open>The patched policy\<close>

lemma edits_type_ids:
  assumes "edits amc vers te te'" and "\<forall>n \<in> set ns. cond_rule n" and "r \<in> set (type_ids ns)" and "r \<in> dom (avtab_abs te')"
  shows "r \<in> dom (avtab_abs te)"
proof (rule ccontr)
  assume "r \<notin> dom (avtab_abs te)"
  then have eff: "snd (snd (snd r)) \<in> set av_effects" using assms(1,4) unfolding edits_def by blast
  obtain n where n: "n \<in> set ns" "is_type_rule n" "r = av_id (fst n)" using assms(3) by (auto simp: type_ids_def rule_id_of_def)
  then have "av_kind (specified (fst n)) AND AVTAB_TYPE \<noteq> 0"
    using assms(2) cond_kinds_facts(6)[of "specified (fst n)"] by (simp add: cond_rule_def is_type_rule_def)
  with effect_kinds(3)[OF eff] n(3) show False by (simp add: av_id_def)
qed

lemma blocks_fit_edits:
  assumes "\<forall>b \<in> set bs. block_ok nb b" and "edits amc vers te te'" and "blocks_fit te seen bs"
  shows "blocks_fit te' seen bs"
  using assms(1,3)
proof (induction bs arbitrary: seen)
  case (Cons b bs)
  obtain st es ts fs where b: "b = (st, es, ts, fs)" by (metis surj_pair)
  with Cons.prems have rules: "\<forall>n \<in> set ts. cond_rule n" "\<forall>n \<in> set fs. cond_rule n" by (auto simp: block_ok_def)
  have fit: "distinct (type_ids ts)" "distinct (type_ids fs)" "(set (type_ids ts) \<union> set (type_ids fs)) \<inter> (seen \<union> dom (avtab_abs te)) = {}"
    "blocks_fit te (seen \<union> set (type_ids ts) \<union> set (type_ids fs)) bs" using Cons.prems(2) by (simp_all add: b)
  have "(set (type_ids ts) \<union> set (type_ids fs)) \<inter> (seen \<union> dom (avtab_abs te')) = {}"
    using fit(3) edits_type_ids[OF assms(2) rules(1)] edits_type_ids[OF assms(2) rules(2)] by blast
  then show ?case using fit Cons.IH[OF _ fit(4)] Cons.prems(1) by (simp add: b)
qed simp

lemma indexed_te: "indexed kp \<Longrightarrow> indexed (kp\<lparr>kp_db := (kp_db kp)\<lparr>te_avtab := te\<rparr>\<rparr>)"
proof -
  assume i: "indexed kp"
  let ?kp = "kp\<lparr>kp_db := (kp_db kp)\<lparr>te_avtab := te\<rparr>\<rparr>"
  have s: "symtabs_of ?kp = symtabs_of kp" by (simp add: symtabs_of_def)
  obtain db where db: "index_symbols True ((symtabs_of kp)\<lparr>sy_roles := kernel_roles (p_roles (kp_db kp))\<rparr>) = Ret (Some (db, kp_user_caches kp))"
    and eq: "kp_db kp = db\<lparr>te_avtab := te_avtab (kp_db kp), te_cond_avtab := ct_table (kp_cond kp), permissive_map := permissive_map (kp_db kp),
          p_filename_trans := filename_chains (kp_filename kp), p_role_allow := p_role_allow (kp_db kp), policyvers := policyvers (kp_db kp),
          type_attr_map := type_attr_map (kp_db kp), attr_type_map := attr_type_map (kp_db kp)\<rparr>"
    using i unfolding indexed_def by blast
  have new: "(kp_db kp)\<lparr>te_avtab := te\<rparr> = db\<lparr>te_avtab := te, te_cond_avtab := ct_table (kp_cond kp), permissive_map := permissive_map (kp_db kp),
          p_filename_trans := filename_chains (kp_filename kp), p_role_allow := p_role_allow (kp_db kp), policyvers := policyvers (kp_db kp),
          type_attr_map := type_attr_map (kp_db kp), attr_type_map := attr_type_map (kp_db kp)\<rparr>"
    by (subst eq) simp
  show "indexed ?kp"
    unfolding indexed_def s
  proof (intro conjI exI[of _ db])
    show "index_rest (symtabs_of kp) = Some (kp_user_names ?kp, kp_bool_names ?kp, kp_sens_names ?kp, kp_cat_names ?kp)"
      using i by (simp add: indexed_def)
    show "index_symbols True ((symtabs_of kp)\<lparr>sy_roles := kernel_roles (p_roles (kp_db ?kp))\<rparr>) = Ret (Some (db, kp_user_caches ?kp))"
      using db by simp
  qed (use new in simp)
qed

lemma policy_ok_edits:
  assumes ok: "policy_ok amc kp" and ed: "edits amc (policyvers (kp_db kp)) (te_avtab (kp_db kp)) te" and len: "length (avtab_nodes te) < 2 ^ 32"
  shows "policy_ok amc (kp\<lparr>kp_db := (kp_db kp)\<lparr>te_avtab := te\<rparr>\<rparr>)"
proof -
  let ?kp = "kp\<lparr>kp_db := (kp_db kp)\<lparr>te_avtab := te\<rparr>\<rparr>" and ?v = "policyvers (kp_db kp)"
  note o = ok[unfolded policy_ok_def Let_def]
  have s: "symtabs_of ?kp = symtabs_of kp" and c: "context_db_of ?kp = context_db_of kp" by (simp_all add: symtabs_of_def context_db_of_def cong: option.case_cong)
  have "header_ok ?v ?kp" using o by (simp add: header_ok_def)
  moreover have "rules_ok amc ?v ?kp"
  proof -
    have r: "rules_ok amc ?v kp" using o by blast
    then have b: "\<forall>b \<in> set (map (block_of (kp_cond kp)) (kp_cond_list kp)). block_ok (nprim (kp_bools kp)) b"
      unfolding rules_ok_def cond_list_ok_def by blast
    have "cond_list_ok (nprim (kp_bools kp)) te (map (block_of (kp_cond kp)) (kp_cond_list kp))"
      using r blocks_fit_edits[OF b ed] unfolding rules_ok_def cond_list_ok_def by blast
    moreover have "image_table amc ?v te" using ed by (simp add: edits_def)
    ultimately show ?thesis using r len by (simp add: rules_ok_def image_table_def avtab_counted_def)
  qed
  moreover have "labels_ok ?v ?kp" using o by (simp add: labels_ok_def c type_maps_ok_def type_structs_def)
  ultimately show ?thesis using o indexed_te by (simp add: policy_ok_def s)
qed

lemma patched_ok:
  assumes ok: "policy_ok amc kp" and calls: "list_all is_av_call xs" "run_calls True True xs (kp_db kp) = Ret p"
    and len: "length (avtab_nodes (te_avtab p)) < 2 ^ 32"
  shows "policy_ok amc (kp\<lparr>kp_db := p\<rparr>)"
proof -
  have "image_table amc (policyvers (kp_db kp)) (te_avtab (kp_db kp))"
    using ok by (simp add: policy_ok_def Let_def rules_ok_def image_table_def avtab_counted_def)
  then obtain te where "p = (kp_db kp)\<lparr>te_avtab := te\<rparr>" "edits amc (policyvers (kp_db kp)) (te_avtab (kp_db kp)) te"
    using calls_edit[OF calls(1) _ calls(2)] by blast
  with policy_ok_edits[OF ok] len show ?thesis by simp
qed

section \<open>Files\<close>

text \<open>The reader and the writer that \<open>load_policydb\<close> and \<open>dump_policydb\<close> call: \<open>None\<close> where they fail.\<close>

definition policy_in :: "bool \<Rightarrow> u8 list \<Rightarrow> kernel_policy option" where
  "policy_in amc img = (case policydb_read True amc img of Ret (Some (kp, _, _)) \<Rightarrow> Some kp | _ \<Rightarrow> None)"

definition image_of :: "bool \<Rightarrow> kernel_policy \<Rightarrow> u8 list option" where
  "image_of amc kp = (case policydb_to_image True amc kp of Ret (Some (img, _)) \<Rightarrow> Some img | _ \<Rightarrow> None)"

abbreviation file_with :: "u8 list \<Rightarrow> load_env" where
  "file_with bs \<equiv> \<lparr>open_ok = True, fstat_ok = True, mmap_ok = True, contents = bs\<rparr>"

lemma dump_then_load:
  assumes "policy_ok amc kp"
  obtains new te cond where "dump_policydb (image_of amc) True Some old kp = (0, new)"
    and "load_policydb (policy_in amc) (\<lambda>_. file_with new) name = (0, Some (with_rules te cond kp))"
    and "same_rules kp te cond"
proof -
  let ?img = "policy_image amc kp"
  obtain te cond where l: "loads amc (policydb_read True) ?img (with_rules te cond kp)" and s: "same_rules kp te cond" by (rule policy_loads[OF assms])
  have "dump_policydb (image_of amc) True Some old kp = (0, ?img @ drop (length ?img) old)"
    using policy_to_image[OF assms] by (simp add: dump_policydb_def image_of_def)
  moreover have "load_policydb (policy_in amc) (\<lambda>_. file_with (?img @ drop (length ?img) old)) name = (0, Some (with_rules te cond kp))"
    using l by (simp add: load_policydb_def policy_in_def loads_def)
  ultimately show thesis using s by (rule that)
qed

end
