(* ===== verification/SampleKernel.thy ===== *)
theory SampleKernel
  imports SampleImage PatchedImage
begin

text \<open>
  A kernel policy of version 30 on which the results on whole images are instantiated: the symbol tables of the
  sample image with a user and a boolean, one unconditional rule, one conditional rule that is on when the
  boolean is, the context of an initial SID and of a path of \<^verbatim>\<open>proc\<close>.
\<close>

definition kernel_user :: user_datum where
  "kernel_user = \<lparr>u_value = 1, u_roles = ebitmap_init, u_exp_range = mls_range_init, u_exp_dfltlevel = mls_level_init, u_bounds = 0\<rparr>"

definition kernel_bool :: cond_bool_datum where
  "kernel_bool = \<lparr>b_value = 1, b_state = 1\<rparr>"

definition kernel_tables :: symbol_tables where
  "kernel_tables = sample_symtabs\<lparr>sy_users := add_symbol (empty_symtab 128) ''user'' kernel_user, sy_bools := add_symbol (empty_symtab 16) ''debug'' kernel_bool\<rparr>"

definition kernel_rule :: "u16 \<Rightarrow> u32 \<Rightarrow> avtab_node" where
  "kernel_rule spec data = (\<lparr>source_type = 1, target_type = 1, target_class = 1, specified = spec\<rparr>, \<lparr>av_data = data, av_xperms = None\<rparr>)"

definition kernel_cond :: cond_tab where
  "kernel_cond = \<lparr>ct_nodes = [(kernel_rule (AVTAB_ALLOWED OR AVTAB_ENABLED) 2, True)], ct_chains = Some [[0]], ct_nel = 1, ct_nslot = 1, ct_mask = 0\<rparr>"

definition kernel_block :: cond_node where
  "kernel_block = \<lparr>cur_state = 1, cexpr = [\<lparr>expr_type = COND_BOOL, expr_bool = 1\<rparr>], true_list = [0], false_list = [],
     avtrue_list = [], avfalse_list = [], nbools = 0, bool_ids = [], expr_pre_comp = 0, cflags = 0\<rparr>"

definition kernel_db :: policydb where
  "kernel_db = (symbols_db kernel_tables)\<lparr>te_avtab := \<lparr>av_htable = Some [[kernel_rule AVTAB_ALLOWED 1]], av_nel = 1, av_nslot = 1, av_mask = 0\<rparr>,
     te_cond_avtab := ct_table kernel_cond, type_attr_map := [bitmap_of 1], attr_type_map := [bitmap_of 1],
     p_filename_trans := filename_chains (Some filename_table), class_val_to_struct := [Some ''file''], role_val_to_struct := [Some OBJECT_R],
     type_val_to_struct := [Some ''su''], decl_val_to_struct := [True], policyvers := 30\<rparr>"

definition sample_kernel :: kernel_policy where
  "sample_kernel = \<lparr>kp_unsupported = False, kp_mls = False, kp_handle_unknown = 4, kp_policycaps = bitmap_of 1, kp_db = kernel_db,
     kp_users = sy_users kernel_tables, kp_bools = sy_bools kernel_tables, kp_levels = sy_levels kernel_tables, kp_cats = sy_cats kernel_tables,
     kp_user_names = [Some ''user''], kp_bool_names = [Some ''debug''], kp_sens_names = [], kp_cat_names = [],
     kp_user_caches = [(''user'', ebitmap_init)], kp_cond = kernel_cond, kp_cond_list = [kernel_block], kp_role_tr = [],
     kp_filename = Some filename_table, kp_ocontexts = sample_ocontexts, kp_genfs = sample_genfs, kp_ranges = Some range_table\<rparr>"

section \<open>Its tables\<close>

lemma single_list: "set xs = {x} \<Longrightarrow> length xs = 1 \<Longrightarrow> xs = [x]"
  by (cases xs) auto

lemma add_nodes:
  assumes "0 < sz"
  obtains h where "table (add_symbol (empty_symtab sz) k d) = Some h" and "hashtab_nodes h = [(k, d)]"
proof -
  obtain h where h: "table (add_symbol (empty_symtab sz) k d) = Some h" "table_form sz h" "set (hashtab_nodes h) = {(k, d)}" by (rule add_form[OF assms])
  then have "hashtab_on symcmp h" by (simp add: table_form_def)
  from sym.nodes_distinct[OF this] h(3) have "length (hashtab_nodes h) = 1" using distinct_card[of "hashtab_nodes h"] by (simp add: distinct_map)
  with h show thesis by (intro that[of h]) (simp_all add: single_list)
qed

lemma map_single: "0 < sz \<Longrightarrow> hashtab_map f (table (add_symbol (empty_symtab sz) k d)) s = (case f k d s of (rc, s) \<Rightarrow> (rc, s))"
  by (erule add_nodes[where k = k and d = d]) (simp add: hashtab_map_def split: prod.splits)

lemma map_none: "0 < sz \<Longrightarrow> hashtab_map f (table (empty_symtab sz :: 'd symtab)) s = (0, s)"
  by (erule empty_form[where 'd = 'd]) (simp add: hashtab_map_def)

lemma add_nprim [simp]: "nprim (add_symbol st k d) = 1"
  by (simp add: add_symbol_def)

lemma empty_nprim [simp]: "nprim (empty_symtab sz) = 0"
  by (simp add: empty_symtab_def symtab_init_def split: option.splits)

lemma object_role:
  obtains h where "table (sy_roles init_symtabs) = Some h" and "hashtab_nodes h = [(OBJECT_R, object_r)]" and "hashtab_search (Some h) OBJECT_R = Some object_r"
    and "hashtab_assign (Some h) OBJECT_R (\<lambda>r. r\<lparr>r_cache := ebitmap_init\<rparr>) = Some h"
proof -
  obtain h where h: "sy_roles init_symtabs = \<lparr>table = Some h, nprim = 1\<rparr>" "hashtab_on symcmp h" "hashtab_abs h = [OBJECT_R \<mapsto> object_r]" by (rule init_roles)
  have nodes: "hashtab_nodes h = [(OBJECT_R, object_r)]" by (rule single_list[OF single_node[OF h(2,3)]])
  have "map (map (\<lambda>(k, d). if keycmp h OBJECT_R k = 0 then (k, d\<lparr>r_cache := ebitmap_init\<rparr>) else (k, d))) (htable h) = htable h"
  proof (intro map_idI)
    fix ch x assume "ch \<in> set (htable h)" and "x \<in> set ch"
    then have "x \<in> set (hashtab_nodes h)" by (auto simp: hashtab_nodes_def)
    then show "(case x of (k, d) \<Rightarrow> if keycmp h OBJECT_R k = 0 then (k, d\<lparr>r_cache := ebitmap_init\<rparr>) else (k, d)) = x"
      by (simp add: nodes object_r_def)
  qed
  then have "hashtab_assign (Some h) OBJECT_R (\<lambda>r. r\<lparr>r_cache := ebitmap_init\<rparr>) = Some h" by (simp add: hashtab_assign_def)
  with h nodes sym.search_correct[OF h(2)] show thesis by (intro that[of h]) simp_all
qed

lemma kernel_tables_simps [simp]:
  "sy_commons kernel_tables = empty_symtab 2" "sy_classes kernel_tables = add_symbol (empty_symtab 32) ''file'' image_class"
  "sy_roles kernel_tables = sy_roles init_symtabs" "sy_types kernel_tables = add_symbol (empty_symtab 512) ''su'' (sample_type 1 TYPE_TYPE)"
  "sy_users kernel_tables = add_symbol (empty_symtab 128) ''user'' kernel_user" "sy_bools kernel_tables = add_symbol (empty_symtab 16) ''debug'' kernel_bool"
  "sy_levels kernel_tables = empty_symtab 16" "sy_cats kernel_tables = empty_symtab 16"
  by (simp_all add: kernel_tables_def sample_symtabs_def init_tables)

lemma kernel_tables_ok: "symtabs_ok 30 kernel_tables"
proof -
  have "symtab_ok 128 (user_ok 30) (add_symbol (empty_symtab 128) ''user'' kernel_user)"
    by (rule add_ok) (simp_all add: user_ok_def kernel_user_def symbol_name_def cstr_def policydb_has_boundary_feature_def)
  moreover have "symtab_ok 16 bool_ok (add_symbol (empty_symtab 16) ''debug'' kernel_bool)"
    by (rule add_ok) (simp_all add: bool_ok_def kernel_bool_def symbol_name_def cstr_def)
  ultimately show ?thesis
    using sample_symtabs_ok by (simp add: symtabs_ok_def kernel_tables_def sym_num_def)
qed

lemma kernel_symtabs: "symtabs_of sample_kernel = kernel_tables"
  by (simp add: symtabs_of_def sample_kernel_def kernel_db_def symbols_db_def kernel_tables_def sample_symtabs_def)

section \<open>Its index\<close>

lemma kernel_index_rest: "index_rest kernel_tables = Some ([Some ''user''], [Some ''debug''], [], [])"
  by (simp add: index_rest_def index_table_def map_single user_index_def cond_index_bool_def index_slot_def fresh_index_def kernel_user_def kernel_bool_def)

lemma no_bits [simp]: "ebitmap_for_each_bit ebitmap_init = []"
  by (simp add: ebitmap_for_each_bit_def ebitmap_init_def)

lemma kernel_role_caches:
  assumes "p_roles p = sy_roles init_symtabs"
  shows "role_caches True [(OBJECT_R, object_r)] p = Ret (0, p)"
proof -
  obtain h where h: "table (sy_roles init_symtabs) = Some h" "hashtab_assign (Some h) OBJECT_R (\<lambda>r. r\<lparr>r_cache := ebitmap_init\<rparr>) = Some h" by (rule object_role)
  have "type_set_expand True (r_types object_r) p True = Ret (0, ebitmap_init)"
    by (simp add: type_set_expand_def object_r_def type_set_init_def Let_def)
  moreover have "(sy_roles init_symtabs)\<lparr>table := Some h\<rparr> = sy_roles init_symtabs" using h(1) by (cases "sy_roles init_symtabs") simp
  moreover have "p\<lparr>p_roles := sy_roles init_symtabs\<rparr> = p" using assms by (cases p) simp
  ultimately show ?thesis using h assms by (simp add: Let_def)
qed

lemma kernel_others:
  assumes "p_roles p = sy_roles init_symtabs" and "p_types p = sy_types kernel_tables" and "p_rest_ok p"
  shows "policydb_index_others True p = Ret (0, p\<lparr>role_val_to_struct := [Some OBJECT_R], type_val_to_struct := [Some ''su'']\<rparr>)"
proof -
  obtain h where h: "sy_roles init_symtabs = \<lparr>table = Some h, nprim = 1\<rparr>" "hashtab_nodes h = [(OBJECT_R, object_r)]"
  proof -
    obtain h where h: "sy_roles init_symtabs = \<lparr>table = Some h, nprim = 1\<rparr>" by (rule init_roles)
    moreover obtain h' where "table (sy_roles init_symtabs) = Some h'" "hashtab_nodes h' = [(OBJECT_R, object_r)]" by (rule object_role)
    ultimately show thesis by (intro that[of h]) simp_all
  qed
  have "index_table (role_index 1) (sy_roles init_symtabs) = (0, [Some OBJECT_R])"
    by (simp add: h index_table_def hashtab_map_def role_index_def index_slot_def fresh_index_def object_r_def)
  moreover have "index_table (type_index 1) (sy_types kernel_tables) = (0, [Some ''su''])"
    by (simp add: index_table_def map_single type_index_def index_slot_def fresh_index_def) (simp add: sample_type_def)
  moreover have "nprim (sy_roles init_symtabs) = 1" "table (sy_roles init_symtabs) = Some h" by (simp_all add: h)
  ultimately show ?thesis
    using assms h(2) by (simp add: policydb_index_others_def Let_def kernel_role_caches del: role_caches.simps)
qed

lemma kernel_index_symbols:
  "index_symbols True kernel_tables = Ret (Some ((symbols_db kernel_tables)\<lparr>class_val_to_struct := [Some ''file''], role_val_to_struct := [Some OBJECT_R],
     type_val_to_struct := [Some ''su''], decl_val_to_struct := [True]\<rparr>, [(''user'', ebitmap_init)]))"
proof -
  let ?p = "(symbols_db kernel_tables)\<lparr>decl_val_to_struct := [True]\<rparr>"
  have rest: "p_rest_ok (symbols_db kernel_tables)" by (simp add: symbols_db_def kernel_index_rest)
  have "policydb_index_decls True (symbols_db kernel_tables) = (0, ?p)" by (simp add: policydb_index_decls_def symbols_db_def)
  moreover have "policydb_index_classes True ?p = (0, ?p\<lparr>class_val_to_struct := [Some ''file'']\<rparr>)"
    by (simp add: policydb_index_classes_def symbols_db_def map_none map_single class_index_def index_slot_def fresh_index_def image_class_def)
  ultimately have index: "index_policy True (symbols_db kernel_tables) = Ret (0, ?p\<lparr>class_val_to_struct := [Some ''file''],
      role_val_to_struct := [Some OBJECT_R], type_val_to_struct := [Some ''su'']\<rparr>)"
    using rest kernel_others[of "?p\<lparr>class_val_to_struct := [Some ''file'']\<rparr>"] by (simp add: index_policy_def) (simp add: symbols_db_def)
  obtain h where "table (add_symbol (empty_symtab 128) ''user'' kernel_user) = Some h" "hashtab_nodes h = [(''user'', kernel_user)]"
    by (rule add_nodes[of 128 "''user''" kernel_user]) simp
  moreover have "role_set_expand True ebitmap_init = (0, ebitmap_init)"
    by (simp add: role_set_expand_def ebitmap_cpy_def) (simp add: ebitmap_for_each_bit_def ebitmap_init_def)
  ultimately have "user_caches True (case table (sy_users kernel_tables) of None \<Rightarrow> [] | Some h \<Rightarrow> hashtab_nodes h) = Some [(''user'', ebitmap_init)]"
    by (simp add: kernel_user_def)
  with index show ?thesis by (simp add: index_symbols_def del: kernel_tables_simps)
qed

section \<open>It is well-formed\<close>

lemma kernel_indexed: "indexed sample_kernel"
proof -
  have roles: "kernel_tables\<lparr>sy_roles := kernel_roles (p_roles (kp_db sample_kernel))\<rparr> = kernel_tables"
    by (simp add: sample_kernel_def kernel_db_def symbols_db_def init_roles_kernel)
  show ?thesis
    unfolding indexed_def kernel_symtabs roles kernel_index_symbols kernel_index_rest by (simp add: sample_kernel_def kernel_db_def)
qed

lemma kernel_rules_ok: "rules_ok False 30 sample_kernel"
proof -
  have "avtab_wf (te_avtab kernel_db)"
    by (simp add: kernel_db_def kernel_rule_def avtab_wf_def av_chain_ok_def plain_key_def av_id_def id_bucket_def avtab_hash_def av_assoc_def avtab_nodes_def spec_order_def)
  moreover have "avtab_nodes (te_avtab kernel_db) = [kernel_rule AVTAB_ALLOWED 1]" by (simp add: kernel_db_def avtab_nodes_def)
  moreover have "storable False 30 (kernel_rule AVTAB_ALLOWED 1)" by (simp add: storable_def kernel_rule_def plain_key_def spec_order_def)
  moreover have "cond_list_ok (nprim (kp_bools sample_kernel)) (te_avtab kernel_db) (map (block_of kernel_cond) [kernel_block])"
    by (simp add: cond_list_ok_def block_of_def block_ok_def kernel_block_def written_rules_def kernel_cond_def ct_node_def cond_rule_def cond_kinds_def
      kernel_rule_def expr_isvalid_def sample_kernel_def type_ids_def is_type_rule_def)
  moreover have "filename_table_ok 30 (Some filename_table)"
    by (simp add: filename_table_ok_def filename_table_def hashtab_create_def chains_ascend_def emptied_def hashtab_nodes_def)
  ultimately show ?thesis
    by (simp add: rules_ok_def sample_kernel_def avtab_counted_def) (simp add: kernel_db_def symbols_db_def)
qed

lemma kernel_contexts: "context_ok 30 (context_db_of sample_kernel) (sample_ctx 1)"
  by (simp add: context_ok_def context_is_valid_def mls_context_isvalid_def context_db_of_def sample_kernel_def sample_ctx_def kernel_db_def symbols_db_def)

lemma kernel_labels_ok: "labels_ok 30 sample_kernel"
proof -
  have "length sample_ocontexts = ocon_num 30" by (simp add: sample_ocontexts_def ocon_num_def)
  then have "ocontexts_ok 30 (context_db_of sample_kernel) sample_ocontexts"
    by (simp add: ocontexts_ok_def ocontext_ok_def sample_ocontexts_nth kernel_contexts symbol_name_def cstr_def)
  moreover have "genfs_list_ok 30 (context_db_of sample_kernel) sample_genfs"
    by (simp add: genfs_list_ok_def genfs_ok_def genfs_context_ok_def sample_genfs_def kernel_contexts symbol_name_def cstr_def)
  moreover have "type_maps_ok kernel_db"
  proof -
    have one: "ebitmap_set (bitmap_of 1) = {0}" by (auto simp: ebitmap_set_def bitmap_of_def ebitmap_node_set_def bit_1_iff)
    have "type_structs kernel_db = [Some (sample_type 1 TYPE_TYPE)]"
      by (simp add: type_structs_def kernel_db_def symbols_db_def struct_at_def add_search)
    then show ?thesis
      by (auto simp: type_maps_ok_def Let_def kernel_db_def symbols_db_def type_map_ok_def attr_maps_def attr_members_def is_real_type_def one)
  qed
  ultimately show ?thesis by (simp add: labels_ok_def sample_kernel_def empty_ranges_ok)
qed

lemma sample_kernel_ok: "policy_ok False sample_kernel"
proof -
  have vers: "policyvers (kp_db sample_kernel) = 30" by (simp add: sample_kernel_def kernel_db_def)
  have "header_ok 30 sample_kernel" by (simp add: header_ok_def sample_kernel_def kernel_db_def symbols_db_def)
  then show ?thesis
    using kernel_tables_ok kernel_rules_ok kernel_indexed kernel_labels_ok by (simp add: policy_ok_def vers kernel_symtabs)
qed

section \<open>Patching it\<close>

definition kernel_denied :: policydb where
  "kernel_denied = kernel_db\<lparr>te_avtab := \<lparr>av_htable = Some [[kernel_rule AVTAB_ALLOWED 0]], av_nel = 1, av_nslot = 1, av_mask = 0\<rparr>\<rparr>"

lemma kernel_deny: "run_calls True True [Deny (Some ''su'') (Some ''su'') (Some ''file'') (Some ''read'')] kernel_db = Ret kernel_denied"
proof -
  have types: "resolve (table (p_types kernel_db)) (Some ''su'') = Entry (sample_type 1 TYPE_TYPE)"
    by (simp add: resolve_def kernel_db_def symbols_db_def add_search)
  have cls: "resolve (table (p_classes kernel_db)) (Some ''file'') = Entry image_class"
    by (simp add: resolve_def kernel_db_def symbols_db_def add_search)
  have perm: "find_perm image_class ''read'' = Some \<lparr>pm_value = 1\<rparr>"
    by (simp add: find_perm_def image_class_def add_search)
  have search: "avtab_search (Some (te_avtab kernel_db)) (rule_key 1 1 1 AVTAB_ALLOWED) = Some \<lparr>av_data = 1, av_xperms = None\<rparr>"
    by (simp add: avtab_search_def avtab_search_node_def kernel_db_def kernel_rule_def rule_key_def avtab_hash_def key_match_def same_types_def mask_enabled_def)
  have "avtab_assign (te_avtab kernel_db) (rule_key 1 1 1 AVTAB_ALLOWED) (set_av 1 True) = te_avtab kernel_denied"
    by (simp add: avtab_assign_def kernel_denied_def kernel_db_def kernel_rule_def rule_key_def avtab_hash_def key_match_def same_types_def mask_enabled_def edit_av_def)
  then have "add_rule_one True True kernel_db 1 1 1 1 AVTAB_ALLOWED True = Ret (0, kernel_denied)"
    using search by (simp add: add_rule_one_def) (simp add: kernel_denied_def)
  moreover have "cl_value image_class = 1" by (simp add: image_class_def)
  ultimately show ?thesis
    by (simp add: sepol_deny_def add_rule_def types cls perm entry_opt_def add_rule_auto_def add_rule_tgt_def add_rule_cls_def Let_def)
qed

end
