(* ===== verification/LinkedRing.thy ===== *)
theory LinkedRing
  imports Prelude
begin

text \<open>
  The intrusive circular doubly linked list of \<^verbatim>\<open>src/jni/utils/list.c\<close> and
  \<^verbatim>\<open>src/jni/include/list.h\<close>. The memory is an explicit store: the \<open>next\<close> and \<open>prev\<close>
  fields of every node, indexed by address, so that the four assignments of
  \<open>list_insert\<close> and the aliasing of its arguments are visible. The abstraction \<open>ring\<close>
  relates a store, a head node and the list of the other nodes in traversal order.
\<close>

section \<open>Definitions\<close>

type_synonym addr = nat

record store =
  lnext :: "addr \<Rightarrow> addr"
  lprev :: "addr \<Rightarrow> addr"

definition set_next :: "addr \<Rightarrow> addr \<Rightarrow> store \<Rightarrow> store" where
  "set_next a v h = h\<lparr>lnext := (lnext h)(a := v)\<rparr>"

definition set_prev :: "addr \<Rightarrow> addr \<Rightarrow> store \<Rightarrow> store" where
  "set_prev a v h = h\<lparr>lprev := (lprev h)(a := v)\<rparr>"

definition init_list_head :: "addr \<Rightarrow> store \<Rightarrow> store" where
  "init_list_head head h = set_prev head head (set_next head head h)"

text \<open>The four assignments, in the order of the source; each reads the store it runs in.\<close>

definition list_insert :: "addr \<Rightarrow> addr \<Rightarrow> store \<Rightarrow> store" where
  "list_insert pos node h0 =
     (let h1 = set_next node (lnext h0 pos) h0;
          h2 = set_prev node pos h1;
          h3 = set_prev (lnext h2 pos) node h2;
          h4 = set_next pos node h3
      in h4)"

definition list_insert_end :: "addr \<Rightarrow> addr \<Rightarrow> store \<Rightarrow> store" where
  "list_insert_end head node h = list_insert (lprev h head) node h"

definition list_pop :: "addr \<Rightarrow> store \<Rightarrow> addr \<times> store" where
  "list_pop pos h0 =
     (let ret = lprev h0 pos;
          h1 = set_next (lprev h0 pos) (lnext h0 pos) h0;
          h2 = set_prev (lnext h1 pos) (lprev h1 pos) h1;
          h3 = set_next pos pos h2;
          h4 = set_prev pos pos h3
      in (ret, h4))"

definition list_pop_end :: "addr \<Rightarrow> store \<Rightarrow> addr \<times> store" where
  "list_pop_end head h = list_pop (lprev h head) h"

text \<open>
  The traversals \<open>list_for_each\<close> and \<open>list_for_each_r\<close>: the nodes visited, with fuel since a
  store that is no ring need not lead back to the head.
\<close>

fun list_for_each :: "nat \<Rightarrow> store \<Rightarrow> addr \<Rightarrow> addr \<Rightarrow> addr list option" where
  "list_for_each 0 h head cur = None"
| "list_for_each (Suc fuel) h head cur =
     (if cur = head then Some [] else map_option ((#) cur) (list_for_each fuel h head (lnext h cur)))"

fun list_for_each_r :: "nat \<Rightarrow> store \<Rightarrow> addr \<Rightarrow> addr \<Rightarrow> addr list option" where
  "list_for_each_r 0 h head cur = None"
| "list_for_each_r (Suc fuel) h head cur =
     (if cur = head then Some [] else map_option ((#) cur) (list_for_each_r fuel h head (lprev h cur)))"

text \<open>\<open>linked h a xs b\<close>: from \<open>a\<close> through \<open>xs\<close> to \<open>b\<close>, consistently in both directions.\<close>

fun linked :: "store \<Rightarrow> addr \<Rightarrow> addr list \<Rightarrow> addr \<Rightarrow> bool" where
  "linked h a [] b \<longleftrightarrow> lnext h a = b \<and> lprev h b = a"
| "linked h a (x # xs) b \<longleftrightarrow> lnext h a = x \<and> lprev h x = a \<and> linked h x xs b"

definition ring :: "store \<Rightarrow> addr \<Rightarrow> addr list \<Rightarrow> bool" where
  "ring h head xs \<longleftrightarrow> distinct (head # xs) \<and> linked h head xs head"

section \<open>Lemmas\<close>

lemma store_updates [simp]:
  "lnext (set_next a v h) = (lnext h)(a := v)"  "lprev (set_next a v h) = lprev h"
  "lnext (set_prev a v h) = lnext h"  "lprev (set_prev a v h) = (lprev h)(a := v)"
  by (simp_all add: set_next_def set_prev_def)

lemma linked_append [simp]:
  "linked h a (xs @ x # ys) b \<longleftrightarrow> linked h a xs x \<and> linked h x ys b"
  by (induction xs arbitrary: a) auto

lemma linked_set_next: "c \<notin> insert a (set xs) \<Longrightarrow> linked (set_next c v h) a xs b = linked h a xs b"
  by (induction xs arbitrary: a) auto

lemma linked_set_prev: "c \<notin> insert b (set xs) \<Longrightarrow> linked (set_prev c v h) a xs b = linked h a xs b"
  by (induction xs arbitrary: a) auto

lemma linked_first: "linked h a xs b \<Longrightarrow> lnext h a = hd (xs @ [b])"
  by (cases xs) auto

lemma linked_last: "linked h a xs b \<Longrightarrow> lprev h b = last (a # xs)"
  by (induction xs arbitrary: a) auto

lemma linked_relink_start:
  "linked h a xs b \<Longrightarrow> a' \<notin> set xs \<Longrightarrow> hd (xs @ [b]) \<notin> set (tl (xs @ [b])) \<Longrightarrow>
     linked (set_next a' (hd (xs @ [b])) (set_prev (hd (xs @ [b])) a' h)) a' xs b"
  by (cases xs) (auto simp: linked_set_next linked_set_prev)

lemma linked_relink_end:
  "linked h a xs b \<Longrightarrow> distinct (a # xs) \<Longrightarrow> b \<notin> set xs \<Longrightarrow> b' \<notin> set xs \<Longrightarrow>
     linked (set_prev b' (last (a # xs)) (set_next (last (a # xs)) b' h)) a xs b'"
proof (induction xs arbitrary: a)
  case (Cons x xs)
  then have "linked (set_prev b' (last (x # xs)) (set_next (last (x # xs)) b' h)) x xs b'"
    by simp
  with Cons.prems show ?case by auto
qed simp

lemma ring_init: "ring (init_list_head head h) head []"
  by (simp add: ring_def init_list_head_def)

lemma store_eqI: "lnext h = lnext h' \<Longrightarrow> lprev h = lprev h' \<Longrightarrow> h = (h' :: store)"
  by (cases h; cases h') simp

lemma set_next_prev_commute: "set_next a v (set_prev b w h) = set_prev b w (set_next a v h)"
  by (rule store_eqI) simp_all

text \<open>Both ways a node can sit in a ring: it is the head, or it is among the other nodes.\<close>

lemma ring_position:
  assumes "ring h head xs" and "pos \<in> insert head (set xs)"
  obtains (head) "pos = head"
    | (inner) us vs where "xs = us @ pos # vs" and "linked h head us pos" and "linked h pos vs head"
      and "distinct (head # us @ pos # vs)"
proof (cases "pos = head")
  case False
  with assms(2) obtain us vs where "xs = us @ pos # vs" by (auto dest: split_list)
  with assms(1) inner show ?thesis by (auto simp: ring_def)
qed (use head in simp)

lemma linked_insert_after:
  assumes "linked h pos ys b" and "node \<notin> insert pos (set ys)" and "node \<noteq> b"
    and "distinct (pos # ys)" and "b \<notin> set ys"
  shows "linked (list_insert pos node h) pos (node # ys) b"
  using assms by (cases ys) (auto simp: list_insert_def Let_def linked_set_next linked_set_prev)

lemma linked_insert_frame:
  assumes "linked h a xs b" and "node \<notin> insert a (set xs)" and "pos \<notin> insert a (set xs)"
    and "node \<noteq> b" and "node \<noteq> pos" and "lnext h pos \<notin> insert b (set xs)"
  shows "linked (list_insert pos node h) a xs b"
  using assms by (simp add: list_insert_def Let_def linked_set_next linked_set_prev)

lemma ring_list_insert:
  assumes "ring h head xs" and "node \<notin> insert head (set xs)"
    and "head # xs = us @ pos # vs"
  shows "ring (list_insert pos node h) head (tl (us @ pos # node # vs))"
proof (cases us)
  case Nil
  with assms show ?thesis
    using linked_insert_after[of h head xs head node] by (auto simp: ring_def)
next
  case (Cons u us')
  with assms have xs: "xs = us' @ pos # vs" and pre: "linked h head us' pos"
    and post: "linked h pos vs head" and dist: "distinct (head # us' @ pos # vs)"
    by (auto simp: ring_def)
  have "lnext h pos \<in> insert head (set vs)"
    using linked_first[OF post] by (cases vs) auto
  then have "linked (list_insert pos node h) head us' pos"
    using pre dist assms(2) xs by (intro linked_insert_frame) auto
  moreover have "linked (list_insert pos node h) pos (node # vs) head"
    using post dist assms(2) xs by (intro linked_insert_after) auto
  ultimately show ?thesis
    using Cons dist assms(2) xs by (auto simp: ring_def)
qed

lemma ring_list_insert_end:
  assumes "ring h head xs" and "node \<notin> insert head (set xs)"
  shows "ring (list_insert_end head node h) head (xs @ [node])"
proof -
  have last: "lprev h head = last (head # xs)"
    using assms(1) linked_last by (auto simp: ring_def)
  show ?thesis
  proof (cases xs rule: rev_cases)
    case Nil
    with ring_list_insert[OF assms, of "[]" head "[]"] last show ?thesis
      by (simp add: list_insert_end_def)
  next
    case (snoc ys y)
    with ring_list_insert[OF assms, of "head # ys" y "[]"] last show ?thesis
      by (simp add: list_insert_end_def)
  qed
qed

lemma linked_unlink:
  assumes "linked h a us pos" and "linked h pos vs b" and "distinct (us @ pos # vs)"
    and "a \<notin> set (us @ pos # vs)" and "b \<notin> set (us @ pos # vs)"
  shows "linked (snd (list_pop pos h)) a (us @ vs) b"
proof -
  let ?p = "last (a # us)" and ?n = "hd (vs @ [b])"
  have pn: "lprev h pos = ?p" "lnext h pos = ?n"
    using assms linked_last linked_first by auto
  have p: "?p \<in> insert a (set us)"
    using last_in_set[of "a # us"] by simp
  have n: "?n \<in> insert b (set vs)"
    by (cases vs) auto
  have pop: "snd (list_pop pos h) = set_prev pos pos (set_next pos pos (set_prev ?n ?p (set_next ?p ?n h)))"
    using pn p n assms by (auto simp: list_pop_def Let_def)
  show ?thesis
  proof (cases vs)
    case Nil
    have "linked (set_prev b ?p (set_next ?p b h)) a us b"
      using assms by (intro linked_relink_end[where b = pos]) auto
    with Nil pop assms show ?thesis by (simp add: linked_set_next linked_set_prev)
  next
    case (Cons v vs')
    have "linked (set_prev v ?p (set_next ?p v h)) a us v"
      using assms Cons by (intro linked_relink_end[where b = pos]) auto
    moreover have "?p \<notin> insert v (set vs')"
      using p assms Cons by auto
    then have "linked (set_prev v ?p (set_next ?p v h)) v vs' b"
      using assms Cons by (subst linked_set_prev; (subst linked_set_next)?) auto
    ultimately show ?thesis
      using Cons pop assms by (auto simp: linked_set_next linked_set_prev)
  qed
qed

lemma ring_list_pop:
  assumes "ring h head (us @ pos # vs)"
  shows "ring (snd (list_pop pos h)) head (us @ vs)"
    and "ring (snd (list_pop pos h)) pos []"
    and "fst (list_pop pos h) = last (head # us)"
proof -
  from assms have pre: "linked h head us pos" and post: "linked h pos vs head"
    and dist: "distinct (head # us @ pos # vs)" by (auto simp: ring_def)
  show "ring (snd (list_pop pos h)) head (us @ vs)"
    using dist linked_unlink[OF pre post] by (auto simp: ring_def)
  show "ring (snd (list_pop pos h)) pos []"
    by (simp add: ring_def list_pop_def Let_def)
  show "fst (list_pop pos h) = last (head # us)"
    using linked_last[OF pre] by (simp add: list_pop_def Let_def)
qed

lemma list_for_each_linked:
  "linked h a xs head \<Longrightarrow> head \<notin> set xs \<Longrightarrow> length xs < fuel \<Longrightarrow>
     list_for_each fuel h head (lnext h a) = Some xs"
proof (induction xs arbitrary: a fuel)
  case Nil
  then show ?case by (cases fuel) auto
next
  case (Cons x xs)
  then show ?case by (cases fuel) auto
qed

lemma list_for_each_r_linked:
  "linked h head xs b \<Longrightarrow> head \<notin> set xs \<Longrightarrow> length xs < fuel \<Longrightarrow>
     list_for_each_r fuel h head (lprev h b) = Some (rev xs)"
proof (induction xs arbitrary: b fuel rule: rev_induct)
  case Nil
  then show ?case by (cases fuel) auto
next
  case (snoc x xs)
  then show ?case by (cases fuel) auto
qed

end
