(* ===== verification/Spec2Isabelle.thy ===== *)
theory Spec2Isabelle
  imports SamplePolicy SampleSession Startup AvtabFile Conditional Decisions SampleImage SampleKernel LinkedRing
begin

text \<open>
  A verification of su-binary: the su program with its daemon, and the SELinux policy patcher.

  \<^bold>\<open>The program.\<close> One executable (\<^verbatim>\<open>src/jni/Android.mk\<close>) is su and supolicy. \<^verbatim>\<open>main\<close> (\<^verbatim>\<open>su/su.c\<close>) looks at its
  name. As su it either starts the daemon, or parses its options and connects to the daemon over an abstract
  UNIX socket (\<^verbatim>\<open>connect_daemon\<close>, \<^verbatim>\<open>su/daemon.c\<close>); the daemon reads the request (\<^verbatim>\<open>daemon_accept\<close>), forks, and
  its child runs \<^verbatim>\<open>su_main\<close> again, which ends in an exec (\<^verbatim>\<open>allow\<close>). The client meanwhile pumps the terminal
  (\<^verbatim>\<open>su/pts.c\<close>). As supolicy it loads the kernel's policy, patches it by statements given as text
  (\<^verbatim>\<open>magiskpolicy/magiskpolicy.c\<close>) or by built-in rules (\<^verbatim>\<open>magiskpolicy/rules.c\<close>), and writes it back. The patches
  are made by \<^verbatim>\<open>magiskpolicy/sepolicy.c\<close> on the tables of libsepol (\<^verbatim>\<open>selinux/libsepol\<close>).

  \<^bold>\<open>Theories.\<close>
  \<^item> \<open>Prelude\<close>: machine words, C strings, the result type \<open>outcome\<close> (a value, \<^verbatim>\<open>exit\<close>, or undefined behaviour).
  \<^item> \<open>Vector\<close>, \<open>LinkedRing\<close>: \<^verbatim>\<open>utils/vector.c\<close> and \<^verbatim>\<open>utils/list.c\<close> with their macros. Cells of a block and the
    fields of list nodes are explicit, so that accesses out of bounds and aliasing show.
  \<^item> \<open>PolicyFile\<close>, \<open>Ebitmap\<close>, \<open>EbitmapAlgebra\<close>, \<open>EbitmapIter\<close>: \<^verbatim>\<open>next_entry\<close>/\<^verbatim>\<open>put_entry\<close> and all of \<^verbatim>\<open>ebitmap.c\<close>, with
    its abstraction to sets of bit numbers and the interface \<open>bitset\<close>.
  \<^item> \<open>Hashtab\<close>: \<^verbatim>\<open>hashtab.c\<close> and \<^verbatim>\<open>symtab.c\<close>; chains under a total order of keys (locale \<open>key_order\<close>), abstraction to maps.
  \<^item> \<open>Avtab\<close>, \<open>AvtabFile\<close>: \<^verbatim>\<open>avtab.c\<close> with abstraction to a map from rules to data and the interface \<open>rule_store\<close>; the
    format of a table in the binary policy (\<^verbatim>\<open>avtab_read\<close>, the current format of \<^verbatim>\<open>avtab_write\<close> in \<^verbatim>\<open>write.c\<close>,
    \<^verbatim>\<open>android_m_compat.c\<close>).
  \<^item> \<open>Conditional\<close>: the expressions and blocks of \<^verbatim>\<open>conditional.c\<close>: evaluation, normalization, comparison, and the switching
    of rules.
  \<^item> \<open>Policydb\<close>: the parts of \<^verbatim>\<open>policydb.h\<close>, \<^verbatim>\<open>policydb.c\<close> and \<^verbatim>\<open>expand.c\<close> the patcher uses (symbol insertion, indexing,
    type set expansion).
  \<^item> \<open>Sepolicy\<close>, \<open>SepolicyRules\<close>, \<open>SepolicyTypes\<close>: \<^verbatim>\<open>sepolicy.c\<close>, function by function, and what its operations do to
    the abstract rules, attributes and types.
  \<^item> \<open>Services\<close>, \<open>Mls\<close>, \<open>Decisions\<close>: \<^verbatim>\<open>context_struct_compute_av\<close> of \<^verbatim>\<open>services.c\<close>, which gives the rules their meaning: the
    type enforcement rules, levels and their dominance (the interface \<open>dominance\<close>), constraints, role changes and type bounds.
  \<^item> \<open>Codec\<close>: readers and writers of the policy image as combinators, what it means that a writer emits and a reader reads
    an image, the interface \<open>codec\<close> of a kind of item with its image, and tables that are rebuilt from their entries.
  \<^item> \<open>SymbolFile\<close>, \<open>PolicyImage\<close>, \<open>SymbolTypes\<close>: the entries of symbol tables in kernel policies (\<^verbatim>\<open>policydb.c\<close>, \<^verbatim>\<open>write.c\<close>); the
    section of all tables, role transitions, role allow rules and file name transitions; what holds of tables that were read from
    any file.
  \<^item> \<open>ContextFile\<close>: the validity of contexts (\<^verbatim>\<open>context.c\<close>, \<^verbatim>\<open>mls.c\<close>) and the sections that hold contexts.
  \<^item> \<open>ConditionalFile\<close>: the blocks of conditional rules in the image (\<^verbatim>\<open>cond_read_list\<close>, \<^verbatim>\<open>cond_write_list\<close>), with the addresses of the
    nodes that the lists of a block point to; readers that also carry the compatibility flag.
  \<^item> \<open>KernelPolicy\<close>, \<open>KernelImage\<close>: \<^verbatim>\<open>policydb_read\<close>, \<^verbatim>\<open>policydb_write\<close> and \<^verbatim>\<open>policydb_to_image\<close> as a whole; the image of a policy,
    and what holds of every policy that was read.
  \<^item> \<open>PatchedImage\<close>: patches keep a policy in the form that can be written; \<^verbatim>\<open>dump_policydb\<close> followed by \<^verbatim>\<open>load_policydb\<close>.
  \<^item> \<open>MagiskRules\<close>, \<open>Statements\<close>: \<^verbatim>\<open>api.c\<close>, \<^verbatim>\<open>rules.c\<close> and \<^verbatim>\<open>magiskpolicy.c\<close> with its tokenizer.
  \<^item> \<open>Wire\<close>, \<open>Pts\<close>, \<open>Getopt\<close>, \<open>SuMain\<close>, \<open>Daemon\<close>: the socket primitives, the terminal, \<^verbatim>\<open>getopt_long\<close> with the options of
    su, \<^verbatim>\<open>su.c\<close>, and \<^verbatim>\<open>daemon.c\<close>.
  \<^item> \<open>ProcTitle\<close>, \<open>Startup\<close>: \<^verbatim>\<open>setproctitle.c\<close> on an explicit memory; \<^verbatim>\<open>daemonize.c\<close>, the start of the daemon as a whole, and
    the build properties of \<^verbatim>\<open>su/utils.c\<close> with \<^verbatim>\<open>access_disabled\<close>.
  \<^item> \<open>SamplePolicy\<close>, \<open>SampleSession\<close>, \<open>SampleImage\<close>, \<open>SampleKernel\<close>: concrete states on which the theorems below are instantiated.

  \<^bold>\<open>Conventions.\<close> Structures are records, handlers are functions from the state before to an \<open>outcome\<close> of the
  state after. What the kernel or the C library answers (a file's contents, whether \<^verbatim>\<open>malloc\<close> succeeds, the value
  of \<^verbatim>\<open>fork\<close>, the results of successive reads) is an argument. \<open>cok\<close> and \<open>mok\<close> are the success of \<^verbatim>\<open>cmalloc\<close> and of
  allocations inside libsepol. Both sides of a fork are described by the same definition, with the value of
  \<^verbatim>\<open>fork\<close> the process sees. Signals follow POSIX: \<^verbatim>\<open>raise\<close> sends to the calling thread, a blocked signal waits where it was sent. Threads
  are interleavings of events, one step of one thread each. Messages to the log and to standard error are left out.

  \<^bold>\<open>Bounds.\<close> Sizes and type numbers are 32-bit words as in the armeabi-v7a build. Loops over lists and bits are
  structural recursion or have a measure; \<open>each_bit\<close> has fuel 64 per node, which \<open>for_each_bit_set\<close> shows to be
  enough; \<open>list_for_each\<close> takes fuel, and one more than the number of nodes is enough;
  \<open>context_struct_compute_av\<close> takes the number of nested calls, and one more than the length of the chain of bounds is enough
  (C25). The pumps and the accept loop
  consume a list of what the kernel answers and give \<open>None\<close> when it is used up.

  \<^bold>\<open>What is shown.\<close> The properties below are numbered C1, C2, \<dots>: sessions from the client's request to the exec and
  the start of the daemon (C1 to C14), the effect of statements and rules on the policy, on its image and on access decisions
  (C15 to C23), access decisions (C24 to C26), conditional rules (C27 to C29), the policy image (C30 to C35), and the data
  structures as sets and maps with the file format of rules (C36 to C40). Several of them state where
  the code fails: C3, C6, C8, C9, C26 and C29; C12 shows that the window watcher gets no signal from \<^verbatim>\<open>raise\<close>, C14 that the daemon's
  start patches nothing, and C34 what the reader of constraints does not check.

  \<^bold>\<open>Not modelled.\<close> Of the binary policy, the module format, the Xen platform (\<open>policydb_read\<close> refuses the images of both, which the
  source reads), and the writing of versions before 20 (which expands
  attributes); the reading of all versions is modelled.
  The text that explains a decision is left out of \<open>Decisions\<close>, but not the accesses to the policy made for it and the clean-up of its
  parts. \<^verbatim>\<open>daemon_exists\<close> is an input of \<open>su_main\<close>. \<^verbatim>\<open>su/supolicy.c\<close> is not part of the build. Image and file
  utilities (\<^verbatim>\<open>utils/img.c\<close>, \<^verbatim>\<open>utils/misc.c\<close>, \<^verbatim>\<open>utils/xwrap.c\<close>), logging (\<^verbatim>\<open>su/error.c\<close>), and the rest of the SELinux
  userspace (checkpolicy, libsemanage, CIL, policycoreutils) are not modelled.
\<close>

unbundle bit_operations_syntax

section \<open>From the command line to the executed program\<close>

text \<open>
  C1. A whole session, where every system call succeeds: the request that the client sends for its command line (at most
  512 arguments of at most PATH_MAX characters), with or without a PTY (a PTY must be a character device owned by the caller), read
  by the daemon and handed to su_main in its child, ends in an exec of the program the options ask for, with the arguments they
  ask for, on the descriptors of the client or the PTY where the client has a terminal, with all six ids set to the target user, the sanitised
  environment and a file mode mask of 0, whatever the uid of the caller is. The command line is the one that is sent: with
  MOUNT_EMULATED_STORAGE it lacks argv[1], and it must have one (C3). Conditions: it does not start the daemon, its options parse, a
  command is given as an argument of its own (-c CMD; for -cCMD see C9), and the target uid is not (unsigned) -1 (C8).
\<close>

theorem su_session_executes:
  fixes env :: su_env
  assumes cl: "connected cl" "open_pty cl = Ret (master, tty_name)" "fds_ok cl" "\<not> mount_storage cl \<or> 2 \<le> length argv"
    and pts: "arg_ok tty_name" "tty_name = [] \<or> open_pts ce tty_name = Some ptsfd \<and> pts_stat ce = Some (uid, True)"
    and argv: "list_all arg_ok argv" "argv \<noteq> []" "length argv \<le> 512" "args = sent_args (mount_storage cl) argv"
      "\<not> (length args = 2 \<and> (args ! 1 = ''--daemon'' \<or> args ! 1 = ''-d'' \<or> args ! 1 = ''--start''))"
    and ch: "sent ch = []" "length (request_cells cl tty_name argv ppid) \<le> room ch" "4 \<le> room out"
    and opts: "su_getopt args \<lparr>optind = 1, place = []\<rparr> no_options = Ret (i, os)" "o_command os \<noteq> None \<longrightarrow> 3 \<le> i"
    and to: "request denv args i os = Ret to" "to_uid to \<noteq> -1"
    and denv: "denv = env\<lparr>is_daemon := True, daemon_from_uid := uid, daemon_from_pid := ppid\<rparr>"
      "from_init denv (ids pr) = Ret (0, from)" "populate_environment denv to (sanitize (environ pr)) = Ret vars"
    and root: "euid (ids pr) = 0"
    and calls: "samsung_pid calls = 0" "mem_ok calls" "forked (allow_fork calls) = 0" "exec_ok (allow_fork calls)" "dup_ok ce"
  shows "\<exists>ch' w' mounts. send_request cl ch w argv ppid = Ret (ch', master, w') \<and>
    daemon_accept True (Some uid) 0 waited fd_ok ce env calls pr (sent ch') out =
      Ret (InChild mounts
        (session_fd cl tty_name ptsfd (tty_in cl) 0, session_fd cl tty_name ptsfd (tty_out cl) 1, session_fd cl tty_name ptsfd (tty_err cl) 2)
        (Execute \<lparr>binary = fst (wanted to), arguments = arg0_of to # snd (wanted to),
          exec_as = pr\<lparr>ids := all_ids (to_uid to), environ := vars, file_mask := 0\<rparr>\<rparr>)) \<and>
    (mounts \<noteq> [] \<longrightarrow> mount_storage cl)"
proof -
  have sent: "send_request cl ch w argv ppid = Ret (append_cells ch (request_cells cl tty_name argv ppid), master, watch_output cl w)"
    by (rule send_request_cells[OF cl(1-3) ch(2)])
  have msg: "read_request True (Some uid) (request_cells cl tty_name argv ppid) = Ret (message_of cl uid tty_name args ppid, [])"
    using request_read_back[OF pts(1) argv(1,3) cl(4), of uid ppid "[]"] argv(4) by simp
  have "args \<noteq> []" using argv(2,4) by (cases argv) (simp_all add: sent_args_def)
  then have "request_ok to \<and> to_argv to = args \<and> i \<le> to_optind to \<and> command to = o_command os \<and> shell to = o_shell os"
    by (rule request_request_ok[OF opts(1) _ to(1)])
  then have ok: "request_ok to" "command to \<noteq> None \<longrightarrow> 3 \<le> to_optind to" using opts(2) by auto
  let ?pr = "pr\<lparr>environ := sanitize (environ pr)\<rparr>"
  have id: "set_identity (to_uid to) (ids ?pr) = Ret (all_ids (to_uid to))"
    using set_identity_root[OF _ to(2), of "ids ?pr"] root by (simp add: all_ids_def)
  have "su_main denv calls args False pr = allow denv True (allow_fork calls) 0 to ?pr"
    using su_main_decides[OF argv(5) calls(1) opts(1) to(1) denv(2)] calls(2) by simp
  also have "\<dots> = Ret (Execute \<lparr>binary = fst (wanted to), arguments = arg0_of to # snd (wanted to),
        exec_as = pr\<lparr>ids := all_ids (to_uid to), environ := vars, file_mask := 0\<rparr>\<rparr>)"
    using allow_runs[OF ok _ id calls(3,4), of denv vars 0] denv(3) by simp
  finally have main: "su_main denv calls args False pr = \<dots>" .
  have m: "req_args (message_of cl uid tty_name args ppid) = args" "req_uid (message_of cl uid tty_name args ppid) = uid"
    "req_pid (message_of cl uid tty_name args ppid) = ppid" "req_mount (message_of cl uid tty_name args ppid) = mount_storage cl"
    by (simp_all add: message_of_def)
  show ?thesis
    using sent msg main ch calls(5) denv(1) child_fds_session[OF pts(2), of cl args ppid]
    by (simp add: daemon_accept_def daemon_child_def run_daemon_child_def m)
qed

theorem su_session_executes_witness:
  "let cl = sample_client\<lparr>tty_in := True, pty := \<lparr>ptmx = Some 5, slave = Some ''/dev/pts/3'', grant_ok = True, unlock_ok = True\<rparr>\<rparr>;
       ce = sample_child\<lparr>open_pts := (\<lambda>_. Some 7), pts_stat := Some (10042, True)\<rparr> in
   \<exists>ch' w' mounts. send_request cl \<lparr>sent = [], room = 100\<rparr> no_watcher [''su'', ''-c'', ''id''] 77 = Ret (ch', 5, w') \<and>
    daemon_accept True (Some 10042) 0 None None ce sample_env all_succeed root_process (sent ch') \<lparr>sent = [], room = 100\<rparr> =
      Ret (InChild mounts (7, 1, 2) (Execute \<lparr>binary = ''/system/bin/sh'', arguments = [''sh'', ''-c'', ''id''],
        exec_as = root_process\<lparr>ids := all_ids 0, environ := sample_vars, file_mask := 0\<rparr>\<rparr>))"
proof -
  let ?cl = "sample_client\<lparr>tty_in := True, pty := \<lparr>ptmx = Some 5, slave = Some ''/dev/pts/3'', grant_ok = True, unlock_ok = True\<rparr>\<rparr>"
  let ?ce = "sample_child\<lparr>open_pts := (\<lambda>_. Some 7), pts_stat := Some (10042, True)\<rparr>"
  have u: "to_uid sample_request = 0" by (simp add: sample_request_def)
  have fd: "session_fd ?cl ''/dev/pts/3'' 7 True 0 = 7" "session_fd ?cl ''/dev/pts/3'' 7 False 1 = 1" "session_fd ?cl ''/dev/pts/3'' 7 False 2 = 2"
    by (simp_all add: session_fd_def received_fd_def)
  have "\<exists>ch' w' mounts. send_request ?cl \<lparr>sent = [], room = 100\<rparr> no_watcher [''su'', ''-c'', ''id''] 77 = Ret (ch', 5, w') \<and>
    daemon_accept True (Some 10042) 0 None None ?ce sample_env all_succeed root_process (sent ch') \<lparr>sent = [], room = 100\<rparr> =
      Ret (InChild mounts
        (session_fd ?cl ''/dev/pts/3'' 7 (tty_in ?cl) 0, session_fd ?cl ''/dev/pts/3'' 7 (tty_out ?cl) 1, session_fd ?cl ''/dev/pts/3'' 7 (tty_err ?cl) 2)
        (Execute \<lparr>binary = fst (wanted sample_request), arguments = arg0_of sample_request # snd (wanted sample_request),
          exec_as = root_process\<lparr>ids := all_ids (to_uid sample_request), environ := sample_vars, file_mask := 0\<rparr>\<rparr>)) \<and>
      (mounts \<noteq> [] \<longrightarrow> mount_storage ?cl)"
    by (rule su_session_executes[where denv = "sample_env\<lparr>is_daemon := True, daemon_from_uid := 10042, daemon_from_pid := 77\<rparr>" and
        i = 3 and os = sample_options and args = "[''su'', ''-c'', ''id'']"])
      (simp_all add: arg_ok_def cstr_def request_cells_def sent_args_def u sample_getopt[simplified] open_pty_def pts_open_def strlcpy_def fds_ok_def,
        simp_all add: sample_child_def)
  then show ?thesis by (auto simp: u fd)
qed

text \<open>
  C2. What connect_daemon writes on the socket for at most 512 arguments of at most PATH_MAX characters, daemon_accept reads back:
  pid, PTY name, parent pid, mount flag, the three descriptors and the arguments, with nothing left over (when storage is mounted,
  without argv[1], which must be there).
\<close>

theorem request_roundtrip:
  assumes "connected cl" and "open_pty cl = Ret (master, tty_name)" and "fds_ok cl" and "arg_ok tty_name"
    and "list_all arg_ok argv" and "length argv \<le> 512" and "\<not> mount_storage cl \<or> 2 \<le> length argv"
    and "sent ch = []" and "length (request_cells cl tty_name argv ppid) \<le> room ch"
  shows "\<exists>ch' w'. send_request cl ch w argv ppid = Ret (ch', master, w') \<and>
    read_request True (Some uid) (sent ch' @ rest) =
      Ret (message_of cl uid tty_name (sent_args (mount_storage cl) argv) ppid, rest)"
  using send_request_cells[OF assms(1-3,9)] request_read_back[OF assms(4-7)] assms(8) by simp

theorem request_roundtrip_witness:
  "\<exists>ch' w'. send_request sample_client \<lparr>sent = [], room = 100\<rparr> no_watcher [''su'', ''-c'', ''id''] 77 = Ret (ch', -1, w') \<and>
     read_request True (Some 10042) (sent ch' @ []) =
       Ret (message_of sample_client 10042 [] [''su'', ''-c'', ''id''] 77, [])"
  using request_roundtrip[of sample_client "-1" "[]" "[''su'', ''-c'', ''id'']" "\<lparr>sent = [], room = 100\<rparr>" 77 no_watcher 10042 "[]"]
  by (simp add: arg_ok_def cstr_def request_cells_def sent_args_def)

text \<open>
  C3. With MOUNT_EMULATED_STORAGE set and no argument, the client announces 0 strings but sends argv[0]: the daemon
  leaves the string unread, and su_main on the empty argv reads past its end.
\<close>

theorem request_loses_step:
  assumes "arg_ok tty_name" and "mount_storage cl" and "connected cl" and "open_pty cl = Ret (master, tty_name)" and "fds_ok cl"
    and "sent ch = []" and "length (request_cells cl tty_name [a0] ppid) \<le> room ch"
    and "samsung_pid calls = 0" and "from_init env (ids pr) = Ret (0, from)"
  shows "\<exists>ch' w' m. send_request cl ch w [a0] ppid = Ret (ch', master, w') \<and>
    read_request True (Some uid) (sent ch') = Ret (m, encode_string a0) \<and> req_args m = [] \<and>
    su_main env calls (req_args m) False pr = UB OutOfBounds"
  using send_request_cells[OF assms(3-5,7)] request_out_of_step[OF assms(1,2), of uid a0 ppid "[]"] assms(6)
    su_main_no_args[OF assms(8,9)] by (simp add: message_of_def)

theorem request_loses_step_witness:
  "\<exists>m. read_request True (Some 10042) (request_cells (sample_client\<lparr>mount_storage := True\<rparr>) [] [''su''] 77) = Ret (m, encode_string ''su'') \<and>
     su_main (sample_env\<lparr>is_daemon := True, daemon_from_uid := 10042, daemon_from_pid := 77\<rparr>) all_succeed (req_args m) False root_process =
       UB OutOfBounds"
proof -
  let ?cl = "sample_client\<lparr>mount_storage := True\<rparr>" and ?ch = "\<lparr>sent = [], room = 100\<rparr>"
  have c: "connected ?cl" "open_pty ?cl = Ret (-1, [])" "fds_ok ?cl"
    by (simp_all add: sample_client_def open_pty_def fds_ok_def)
  from request_loses_step[OF _ _ c, of ?ch "''su''" 77 all_succeed
      "sample_env\<lparr>is_daemon := True, daemon_from_uid := 10042, daemon_from_pid := 77\<rparr>" root_process _ no_watcher 10042]
    send_request_cells[OF c, of "[''su'']" 77 ?ch no_watcher]
  show ?thesis by (auto simp: arg_ok_def cstr_def request_cells_def sent_args_def)
qed

text \<open>
  C4. Whatever bytes a client sends, a request the daemon accepts has at most 512 arguments, each a string of
  at most PATH_MAX characters, and the uid it acts for is the one the kernel reports for the peer.
\<close>

theorem daemon_input_bounded:
  assumes "read_request mok peer inp = Ret (m, rest)"
  shows "length (req_args m) \<le> 512 \<and> list_all arg_ok (req_args m) \<and> arg_ok (pts_slave m) \<and> peer = Some (req_uid m)"
  using assms by (rule read_request_bound)

theorem daemon_input_bounded_witness:
  "length (req_args (message_of sample_client 10042 [] [''su'', ''-c'', ''id''] 77)) \<le> 512"
proof -
  have "read_request True (Some 10042) (request_cells sample_client [] [''su'', ''-c'', ''id''] 77 @ []) =
      Ret (message_of sample_client 10042 [] [''su'', ''-c'', ''id''] 77, [])"
    using request_read_back[of "[]" "[''su'', ''-c'', ''id'']" sample_client 10042 77 "[]"] by (simp add: arg_ok_def cstr_def sent_args_def)
  from daemon_input_bounded[OF this] show ?thesis by blast
qed

text \<open>
  C5. The child of the daemon runs su_main on a PTY only if the PTY it was asked to open is a character device
  owned by the uid of the caller.
\<close>

theorem pty_belongs_to_caller:
  assumes "daemon_child ce env calls pr m = Ret r" and "pts_slave m \<noteq> []"
  shows "\<exists>fd. open_pts ce (pts_slave m) = Some fd \<and> pts_stat ce = Some (req_uid m, True)"
  using assms by (auto simp: daemon_child_def child_fds_def split: option.splits if_splits)

theorem pty_belongs_to_caller_witness:
  "\<exists>fd. open_pts (sample_child\<lparr>open_pts := \<lambda>_. Some 5, pts_stat := Some (10042, True)\<rparr>) ''/dev/pts/0'' = Some fd"
proof -
  let ?ce = "sample_child\<lparr>open_pts := \<lambda>_. Some 5, pts_stat := Some (10042, True)\<rparr>"
  let ?m = "(message_of sample_client 10042 ''/dev/pts/0'' [''su'', ''--daemon''] 77)"
  have "daemon_child ?ce sample_env all_succeed root_process ?m = Ret ([], (0, 1, 2), StartDaemon)"
    by (simp add: daemon_child_def child_fds_def sample_child_def message_of_def received_fd_def run_daemon_child_def su_main_def all_succeed_def)
  from pty_belongs_to_caller[OF this] show ?thesis by (simp add: message_of_def)
qed

text \<open>
  C6. The exit code of the command is lost: allow passes the raw wait status to exit, so a command that exits with
  any code makes the client report 0.
\<close>

theorem exit_code_is_lost:
  assumes "request_ok to" and "command to \<noteq> None \<longrightarrow> 3 \<le> to_optind to"
    and "populate_environment env to (environ pr) = Ret vars" and "set_identity (to_uid to) (ids pr) = Ret cr"
    and "forked fr \<noteq> 0" and "status fr = Some (exit_status n)" and "0 < pid"
    and "\<not> tty_in cl" and "\<not> tty_out cl" and "sent ch = encode_int 1" and "4 \<le> room ch"
  shows "allow env True fr um to pr = Exit (exit_status n) \<and>
    fork_for_samsung pid (Some (exit_status (exit_status n))) = Exit 0 \<and>
    (\<exists>ch'. daemon_parent (Some (exit_status 0)) (Some True) ch = (0, ch') \<and>
       await_code cl master (sent ch') chunks rets t w = Ret (Some (0, [], t)))"
proof -
  have "allow env True fr um to pr = Exit (exit_status n)"
    by (rule allow_parent[OF assms(1-4)]) (use assms in simp_all)
  moreover have "fork_for_samsung pid (Some (exit_status (exit_status n))) = Exit 0"
    using assms(7) by (simp add: fork_for_samsung_def exit_status_twice WEXITSTATUS_def)
  moreover have "daemon_parent (Some (exit_status 0)) (Some True) ch = (0, append_cells ch (encode_int (of_int 0)))"
    using assms(11) by (simp add: daemon_parent_def wexitstatus_exit)
  moreover have "await_code cl master (encode_int 1 @ encode_int (of_int 0) @ []) chunks rets t w = Ret (Some (0, [], t))"
    by (rule await_code_plain) (use assms in simp_all)
  ultimately show ?thesis using assms(10) by simp
qed

theorem exit_code_is_lost_witness:
  "allow (sample_env\<lparr>is_daemon := True, daemon_from_uid := 0, daemon_from_pid := 0\<rparr>) True
       \<lparr>forked = 99, status = Some (exit_status 3), exec_ok = True\<rparr> 0 sample_request (root_process\<lparr>environ := sanitize (environ root_process)\<rparr>) =
     Exit (exit_status 3)" (is "allow ?env True ?fr 0 sample_request ?pr = _")
proof -
  have "set_identity (to_uid sample_request) (ids ?pr) = Ret (all_ids 0)"
    by (simp add: set_identity_def seteuid_def setresgid_def setresuid_def may_set_def new_id_def all_ids_def root_process_def sample_request_def)
  moreover have "to_optind sample_request = 3" by (simp add: sample_request_def)
  ultimately show ?thesis
    using exit_code_is_lost[of sample_request ?env ?pr sample_vars "all_ids 0" ?fr 3 98 sample_client "\<lparr>sent = encode_int 1, room = 8\<rparr>" 0]
    by simp
qed

text \<open>
  C7. A program that su executes never inherits one of the unsafe environment variables.
\<close>

theorem su_sanitizes_environment:
  assumes "su_main env calls argv False pr = Ret (Execute call)" and "x \<in> set unsec_vars"
  shows "environ (exec_as call) x = None"
  using assms by (rule su_main_environment)

theorem su_sanitizes_environment_witness:
  "\<exists>call. su_main (sample_env\<lparr>is_daemon := True, daemon_from_uid := 10042, daemon_from_pid := 77\<rparr>) all_succeed [''su'', ''-c'', ''id''] False root_process =
     Ret (Execute call) \<and> environ (exec_as call) ''LD_PRELOAD'' = None"
proof -
  let ?env = "sample_env\<lparr>is_daemon := True, daemon_from_uid := 10042, daemon_from_pid := 77\<rparr>"
  let ?pr = "root_process\<lparr>environ := sanitize (environ root_process)\<rparr>"
  have id: "set_identity (to_uid sample_request) (ids ?pr) = Ret (all_ids 0)"
    by (simp add: set_identity_def seteuid_def setresgid_def setresuid_def may_set_def new_id_def all_ids_def root_process_def sample_request_def)
  have "\<not> (length [''su'', ''-c'', ''id''] = 2 \<and> P)" for P by simp
  then have "su_main ?env all_succeed [''su'', ''-c'', ''id''] False root_process = allow ?env True (allow_fork all_succeed) 0 sample_request ?pr"
    using su_main_decides[OF _ _ sample_getopt sample_request_ok(1) sample_from_init, of all_succeed 77 10042 root_process] by simp
  also obtain call where "\<dots> = Ret (Execute call)"
    using allow_runs[OF sample_request_ok(2) _ _ id, of ?env sample_vars "allow_fork all_succeed" 0]
    by (simp add: sample_request_def[THEN arg_cong[of _ _ to_optind]])
  finally have c: "su_main ?env all_succeed [''su'', ''-c'', ''id''] False root_process = Ret (Execute call)" .
  have "''LD_PRELOAD'' \<in> set unsec_vars" by (simp add: unsec_vars_def)
  from su_sanitizes_environment[OF c this] c show ?thesis by blast
qed

text \<open>
  C8. A process one of whose user ids is root takes on exactly the requested id in all six ids; the one exception
  is the id (unsigned) -1, for which the kernel changes nothing and the process stays root.
\<close>

theorem identity_is_taken:
  assumes "euid cr = 0 \<or> ruid cr = 0 \<or> suid cr = 0"
  shows "set_identity uid cr = Ret (if uid = -1 then cr\<lparr>euid := 0\<rparr> else all_ids uid)"
  using assms by (auto simp: set_identity_def seteuid_def setresgid_def setresuid_def may_set_def new_id_def all_ids_def)

theorem identity_is_taken_witness:
  "set_identity 2000 (ids root_process) = Ret (all_ids 2000) \<and> target_user sample_env ''-1'' = Ret (-1, []) \<and>
     set_identity (-1) (ids root_process) = Ret (ids root_process)"
  using identity_is_taken[of "ids root_process" 2000] identity_is_taken[of "ids root_process" "-1"]
  by (simp add: target_user_def sample_env_def strtoul_def isdigit_def dec_value_def isspace_def root_process_def Let_def)

text \<open>
  C9. When the option with the command is a single argument (-cCMD or --command=CMD) and nothing follows, allow stores
  one string too many below optind and writes before the start of argv.
\<close>

theorem attached_command_underflows:
  assumes "request_ok to" and "command to \<noteq> None" and "to_optind to = 2"
    and "populate_environment env to (environ pr) = Ret vars" and "set_identity (to_uid to) (ids pr) = Ret cr"
  shows "allow env True fr um to pr = UB OutOfBounds"
  using assms by (rule allow_underflow)

theorem attached_command_underflows_witness:
  "\<exists>i os to. su_getopt [''su'', ''-cid''] \<lparr>optind = 1, place = []\<rparr> no_options = Ret (i, os) \<and>
     request sample_env [''su'', ''-cid''] i os = Ret to \<and>
     allow sample_env True \<lparr>forked = 0, status = None, exec_ok = True\<rparr> 0 to root_process = UB OutOfBounds"
proof -
  let ?to = "sample_request\<lparr>to_argv := [''su'', ''-cid''], to_optind := 2\<rparr>"
  have g: "su_getopt [''su'', ''-cid''] \<lparr>optind = 1, place = []\<rparr> no_options = Ret (2, sample_options)"
    using su_getopt_end[of "[]" "[''su'', ''-cid'']" sample_options]
    by (subst su_getopt.simps) (simp add: getopt_long_def parse_short_def short_opts_def su_option_def sample_options_def not_option_def)
  have r: "request sample_env [''su'', ''-cid''] 2 sample_options = Ret ?to"
    by (simp add: request_def sample_options_def no_options_def sample_request_def)
  have "allow sample_env True \<lparr>forked = 0, status = None, exec_ok = True\<rparr> 0 ?to root_process = UB OutOfBounds"
    by (rule attached_command_underflows[where cr = "all_ids 0"])
      (simp_all add: request_ok_def sample_request_def populate_environment_def sample_env_def set_identity_def seteuid_def setresgid_def
        setresuid_def may_set_def new_id_def all_ids_def root_process_def Let_def)
  with g r show ?thesis by blast
qed

text \<open>
  C10. Printing login, environment, command and shell options as an argument list and parsing it gives the options
  back, with optind at the first argument that is not an option.
\<close>

theorem options_roundtrip:
  assumes "not_option rest" and "o_command os \<noteq> None \<longrightarrow> o_shell os \<noteq> None"
  shows "su_getopt (a0 # option_args os @ rest) \<lparr>optind = 1, place = []\<rparr> no_options = Ret (Suc (length (option_args os)), os)"
  using su_getopt_option_args[OF assms] by (simp add: no_options_def)

theorem options_roundtrip_witness:
  "su_getopt [''su'', ''-l'', ''-c'', ''id'', ''-s'', ''/bin/sh'', ''shell''] \<lparr>optind = 1, place = []\<rparr> no_options =
     Ret (6, \<lparr>o_login = True, o_keepenv = False, o_shell = Some ''/bin/sh'', o_command = Some ''id''\<rparr>)"
  using options_roundtrip[of "[''shell'']" "\<lparr>o_login = True, o_keepenv = False, o_shell = Some ''/bin/sh'', o_command = Some ''id''\<rparr>" "''su''"]
  by (simp add: option_args_def not_option_def)

text \<open>
  C11. After the client has put the terminal into raw mode and installed its handlers, each of the quit signals restores
  the terminal settings, closes the standard descriptors and reinstates the default actions.
\<close>

theorem quit_signal_restores_terminal:
  assumes "s \<in> set quit_signals" and "\<not> stdin_is_raw (tty t)" and "set_stdin_raw True True (tty t) = (0, s1)"
  shows "\<exists>t'. deliver (\<lambda>_. True) True s ((setup_sighandlers (\<lambda>_. True) t)\<lparr>tty := s1\<rparr>) = Some t' \<and>
    stdin_tio (tty t') = stdin_tio (tty t) \<and> \<not> stdin_is_raw (tty t') \<and> open_fds t' = open_fds t - {0, 1, 2} \<and>
    (\<forall>q \<in> set quit_signals. handlers t' q = SIG_DFL)"
  using assms by (auto simp: deliver_def setup_sighandlers_def sighandler_def set_handlers_apply set_stdin_raw_def
      restore_stdin_def Let_def)

theorem quit_signal_restores_terminal_witness:
  "\<exists>t'. deliver (\<lambda>_. True) True 2 ((setup_sighandlers (\<lambda>_. True) sample_terminal)\<lparr>tty := snd (set_stdin_raw True True cooked_tty)\<rparr>) = Some t' \<and>
     stdin_tio (tty t') = stdin_tio cooked_tty"
proof -
  have "set_stdin_raw True True (tty sample_terminal) = (0, snd (set_stdin_raw True True cooked_tty))"
    by (simp add: set_stdin_raw_def sample_terminal_def Let_def)
  from quit_signal_restores_terminal[OF _ _ this, of 2] show ?thesis
    by (auto simp: sample_terminal_def cooked_tty_def quit_signals_def)
qed

text \<open>
  C12. The window size watcher, over all interleavings of resizes, steps of the thread with succeeding or failing ioctl
  calls, and the two steps of the cleanup, where raise, as POSIX says, sends its signal to the calling thread. As long as the terminal
  is not resized, the thread stays in sigwait and the size of the PTY is not touched, whatever was raised: the initial size is not set, and
  the cleanup alone does not end the thread. The PTY only ever gets a size the terminal has had. After a resize, if no
  ioctl fails and the thread waits with no signal pending, the PTY has the size of the terminal. The thread ends only if it was told to, and
  a resize after it was told to ends it within four of its steps.
\<close>

theorem window_watcher_invariant:
  assumes "watch_sigwinch_async mok mask_ok thread_ok w = (0, w0)" and "\<not> pending w" and "w' = winch_run es w0"
  shows "(resizes es = {} \<longrightarrow> watcher_state w' = Waiting \<and> slave_size w' = slave_size w) \<and>
    slave_size w' \<in> {slave_size w, master_size w} \<union> resizes es \<and>
    (resizes es \<noteq> {} \<and> (\<forall>g s. Watch g s \<in> set es \<longrightarrow> g \<and> s) \<and> watcher_state w' = Waiting \<and> \<not> pending w' \<longrightarrow>
       slave_size w' = master_size w') \<and>
    (watcher_state w' = Ended \<longrightarrow> Close \<in> set es \<and> resizes es \<noteq> {}) \<and>
    (\<forall>es1 es2 sz es3. es = es1 @ Close # es2 @ Resize sz # es3 \<longrightarrow>
       (\<forall>g1 s1 g2 s2 g3 s3 g4 s4. watcher_state (winch_run [Watch g1 s1, Watch g2 s2, Watch g3 s3, Watch g4 s4] w') = Ended))"
proof -
  have w0: "watcher_state w0 = Waiting" "\<not> pending w0" "slave_size w0 = slave_size w" "master_size w0 = master_size w"
    "blocked w0" "\<not> closing_time w0"
    using assms(1,2) by (auto simp: watch_sigwinch_async_def raise_winch_def Let_def split: if_splits)
  have 1: "resizes es = {} \<longrightarrow> watcher_state w' = Waiting \<and> slave_size w' = slave_size w"
    using winch_idle[of w w0 es] w0 assms(3) by (simp add: idle_def)
  have 2: "slave_size w' \<in> {slave_size w, master_size w} \<union> resizes es"
    using winch_sizes[OF w0(1), of es] w0 assms(3) by (auto simp: sizes_known_def)
  have 3: "slave_size w' = master_size w'"
    if "resizes es \<noteq> {}" "\<forall>g s. Watch g s \<in> set es \<longrightarrow> g \<and> s" "watcher_state w' = Waiting" "\<not> pending w'"
    using winch_following[OF w0(5) that(2,1)] that(3,4) assms(3) by (simp add: following_def)
  have 4: "Close \<in> set es" if "watcher_state w' = Ended"
    using winch_ended[OF w0(1), of es] winch_closing[of es w0] that w0(6) assms(3) by simp
  have 5: "ending w'" if "es = es1 @ Close # es2 @ Resize sz # es3" for es1 es2 sz es3
    using winch_ending[OF w0(5), of es1 es2 sz es3] w0(1) that assms(3) by simp
  have "\<forall>es1 es2 sz es3. es = es1 @ Close # es2 @ Resize sz # es3 \<longrightarrow>
       (\<forall>g1 s1 g2 s2 g3 s3 g4 s4. watcher_state (winch_run [Watch g1 s1, Watch g2 s2, Watch g3 s3, Watch g4 s4] w') = Ended)"
    by (intro allI impI ending_ends) (rule 5)
  moreover have "watcher_state w' = Ended \<longrightarrow> Close \<in> set es \<and> resizes es \<noteq> {}" using 1 4 by auto
  ultimately show ?thesis using 1 2 3 by blast
qed

theorem window_watcher_invariant_witness:
  "watcher_state (winch_run [Close, Raise] (snd (watch_sigwinch_async True True True no_watcher))) = Waiting \<and>
   (let es = [Resize (30, 90), Watch True True, Watch True True, Close, Watch True True, Raise, Resize (40, 100), Watch True True] in
     watcher_state (winch_run [Watch False False, Watch True False, Watch False True, Watch True True]
       (winch_run es (snd (watch_sigwinch_async True True True no_watcher)))) = Ended)"
proof -
  let ?w = "snd (watch_sigwinch_async True True True no_watcher)"
  have s: "watch_sigwinch_async True True True no_watcher = (0, ?w)" by (simp add: watch_sigwinch_async_def Let_def)
  have p: "\<not> pending no_watcher" by (simp add: no_watcher_def)
  let ?es = "[Resize (30, 90), Watch True True, Watch True True, Close, Watch True True, Raise, Resize (40, 100), Watch True True]"
  have es: "?es = [Resize (30, 90), Watch True True, Watch True True] @ Close # [Watch True True, Raise] @ Resize (40, 100) # [Watch True True]"
    by simp
  have "watcher_state (winch_run [Close, Raise] ?w) = Waiting"
    using conjunct1[OF window_watcher_invariant[OF s p refl, of "[Close, Raise]"]] by (simp only: resizes_def) simp
  moreover have "watcher_state (winch_run [Watch False False, Watch True False, Watch False True, Watch True True] (winch_run ?es ?w)) = Ended"
    using window_watcher_invariant[OF s p refl, of ?es] es by blast
  ultimately show ?thesis by (simp only: Let_def)
qed

text \<open>
  C13. A pump delivers everything read before the end of the input and then returns, closing the descriptors it was told to
  close, for every sequence of short writes: no write may report an error, and at least as many writes as there are bytes must accept
  something (writes of nothing may come in between).
\<close>

theorem pump_delivers_all:
  assumes "\<forall>c \<in> set chunks. c \<noteq> []" and "\<forall>r \<in> set rets. 0 \<le> r"
    and "length (concat chunks) \<le> length (filter (\<lambda>r. 0 < r) rets)"
  shows "pump_ex input output close_output (chunks @ [] # later) rets =
    Some (concat chunks, if close_output then [input, output] else [input])"
  using pump_delivers[OF assms(1,2)] assms(3) by (simp add: pump_ex_def accepting_def)

theorem pump_delivers_all_witness:
  "pump_ex 0 1 True ([[1, 2, 3], [4]] @ [[]]) [1, 0, 1, 2, 4] = Some (concat [[1, 2, 3], [4]], [0, 1])"
  using pump_delivers_all[of "[[1, 2, 3], [4]]" "[1, 0, 1, 2, 4]" 0 1 True "[]"] by simp

text \<open>
  C14. Starting the daemon: the process that gets past both forks has a clear file mode mask, / as its directory and only
  /dev/null on descriptors 0 to 2 (descriptors at or above the limit stay as they were); the policy written back
  is the one that was loaded, as no rule is applied; the arguments are overwritten by the title permd; the environment
  still has all its strings; and the security context becomes that of init exactly if it could be written.
\<close>

theorem daemon_startup:
  assumes "nofile env = Some (soft, hard)" and "3 \<le> soft" and "\<forall>n. hard = Some n \<longrightarrow> 3 \<le> n"
    and "first_fork env = 0" and "second_fork env = 0" and "sighup_ok env" and "chdir_ok env" and "null_ok env"
    and "load SELINUX_POLICY = (0, Some pol)" and "dump SELINUX_LOAD pol = 0"
    and "kernel_layout m a argv args envp vars e" and "calloc (strings_size vars) = Some p"
    and "p + strings_size vars \<le> a \<or> e \<le> p" and "a + 1 < e" and "e \<le> 2 ^ 32"
    and "str_at m t ''permd''" and "e \<le> t \<or> t + 5 < a" and "t + 5 < p \<or> p + strings_size vars \<le> t"
  shows "\<exists>s. start_daemon env proc (magiskpolicy_main cok mok ptr load dump [''--live'']) calloc m argv envp t (fd, written) ctx (Ret r) =
      Ret (\<lparr>cmask = 0, fds = daemon_fds hard (fds proc), cwd = ''/'', new_session = True, hup_ignored = True\<rparr>,
           Some (SELINUX_LOAD, pol), s, if 0 \<le> fd \<and> written = 12 then INIT_CONTEXT else ctx, r) \<and>
    os_argv s = [a] \<and> str_at (memory s) a (take (e - a - 2) ''permd'') \<and>
    laid (memory s) p (environ_ptrs s) vars (p + strings_size vars)"
proof -
  have t: "e \<le> t \<or> t + length ''permd'' < a" "t + length ''permd'' < p \<or> p + strings_size vars \<le> t" using assms(17,18) by (simp_all add: numeral_eq_Suc)
  obtain s s' where s: "init_setproctitle calloc m argv envp 0 = Ret (0, s)" "setproctitle s t = Ret s'"
    "os_argv s' = [a]" "str_at (memory s') a (take (e - a - 2) ''permd'')"
    "laid (memory s') p (environ_ptrs s') vars (p + strings_size vars)"
    using title_replaces_arguments[where calloc = calloc, OF assms(11-16) t, of 0] by metis
  then show ?thesis
    unfolding start_daemon_def selinux_attr_set_priv_def live_reload[where load = load and dump = dump, OF assms(9,10)] daemonize_grandchild[OF assms(1-8)] by auto
qed

theorem daemon_startup_witness:
  "\<exists>m s. start_daemon \<lparr>nofile = Some (1024, None), first_fork = 0, second_fork = 0, sighup_ok = True, chdir_ok = True, null_ok = True\<rparr>
       \<lparr>cmask = 18, fds = [0 \<mapsto> ''tty'', 5 \<mapsto> ''log''], cwd = ''/data'', new_session = False, hup_ignored = False\<rparr>
       (magiskpolicy_main True True 0 (\<lambda>_. (0, Some sample)) (\<lambda>_ _. 0) [''--live'']) (\<lambda>_. Some 200) m [100, 103] [112] 300 (3, 12) ''u:r:su:s0'' (Ret (0 :: int)) =
     Ret (\<lparr>cmask = 0, fds = daemon_fds None [0 \<mapsto> ''tty'', 5 \<mapsto> ''log''], cwd = ''/'', new_session = True, hup_ignored = True\<rparr>,
          Some (SELINUX_LOAD, sample), s, ''u:r:init:s0'', 0) \<and> str_at (memory s) 100 ''permd'' \<and> str_at (memory s) 200 ''A=b''"
proof -
  let ?env = "\<lparr>nofile = Some (1024, None), first_fork = 0, second_fork = 0, sighup_ok = True, chdir_ok = True, null_ok = True\<rparr>"
  let ?proc = "\<lparr>cmask = 18, fds = [0 \<mapsto> ''tty'', 5 \<mapsto> ''log''], cwd = ''/data'', new_session = False, hup_ignored = False\<rparr>"
  define m where "m = put_str (put_str (put_str (put_str Map.empty 100 ''su'') 103 ''--daemon'') 112 ''A=b'') 300 ''permd''"
  have lay: "kernel_layout m 100 [100, 103] [''su'', ''--daemon''] [112] [''A=b''] 116"
    by (simp add: kernel_layout_def m_def str_at_simps)
  have t: "str_at m 300 ''permd''" by (simp add: m_def str_at_simps)
  show ?thesis
    using daemon_startup[where env = ?env and soft = 1024 and hard = None and load = "\<lambda>_. (0, Some sample)" and pol = sample
        and dump = "\<lambda>_ _. 0" and calloc = "\<lambda>_. Some 200" and p = 200 and t = 300 and proc = ?proc and cok = True and mok = True
        and ptr = 0 and r = "0 :: int" and fd = 3 and written = 12 and ctx = "''u:r:su:s0''", OF _ _ _ _ _ _ _ _ _ _ lay _ _ _ _ t]
    by (fastforce simp: neq_Nil_conv INIT_CONTEXT_def elim: laid.elims)
qed

section \<open>Patching the policy\<close>

text \<open>
  C15. From patch to file to the next load: after any sequence of sepol_allow and sepol_deny calls on a well-formed kernel policy,
  dump_policydb writes a file (over whatever was in it before) from which load_policydb gets the patched policy: the same
  unconditional rules with the same permissions and extended permissions, the same conditional blocks in the same order with the same states, conditions
  and rules, and everything but the arrangement of these two tables of rules in memory equal.
\<close>

theorem patched_policy_survives:
  assumes "policy_ok amc kp" and "list_all is_av_call calls" and "run_calls True True calls (kp_db kp) = Ret p"
    and "length (avtab_nodes (te_avtab p)) < 2 ^ 32"
  shows "\<exists>new te cond. dump_policydb (image_of amc) True Some old (kp\<lparr>kp_db := p\<rparr>) = (0, new) \<and>
    load_policydb (policy_in amc) (\<lambda>_. file_with new) name = (0, Some (with_rules te cond (kp\<lparr>kp_db := p\<rparr>))) \<and>
    avtab_abs te = avtab_abs (te_avtab p) \<and>
    map (block_of (fst cond)) (snd cond) = map (block_of (kp_cond kp)) (kp_cond_list kp) \<and>
    (\<forall>r n. te_permits (kp_db (with_rules te cond (kp\<lparr>kp_db := p\<rparr>))) r n \<longleftrightarrow> te_permits p r n)"
proof (rule dump_then_load[OF patched_ok[OF assms], of old name])
  fix new te cond
  assume "dump_policydb (image_of amc) True Some old (kp\<lparr>kp_db := p\<rparr>) = (0, new)"
    "load_policydb (policy_in amc) (\<lambda>_. file_with new) name = (0, Some (with_rules te cond (kp\<lparr>kp_db := p\<rparr>)))"
    "same_rules (kp\<lparr>kp_db := p\<rparr>) te cond"
  then show ?thesis
    by (intro exI[of _ new] exI[of _ te] exI[of _ cond]) (simp add: same_rules_def te_permits_def with_rules_def)
qed

theorem patched_policy_survives_witness:
  "\<exists>new kp'. dump_policydb (image_of False) True Some [1, 2, 3] (sample_kernel\<lparr>kp_db := kernel_denied\<rparr>) = (0, new) \<and>
    load_policydb (policy_in False) (\<lambda>_. file_with new) ''/sepolicy'' = (0, Some kp') \<and> \<not> te_permits (kp_db kp') (1, 1, 1, AVTAB_ALLOWED) 0"
proof -
  have db: "kp_db sample_kernel = kernel_db" by (simp add: sample_kernel_def)
  have "list_all is_av_call [Deny (Some ''su'') (Some ''su'') (Some ''file'') (Some ''read'')]" by (simp add: is_av_call_def)
  moreover have "length (avtab_nodes (te_avtab kernel_denied)) < 2 ^ 32" by (simp add: kernel_denied_def avtab_nodes_def)
  moreover have "\<not> te_permits kernel_denied (1, 1, 1, AVTAB_ALLOWED) 0"
    by (simp add: te_permits_def kernel_denied_def avtab_abs_def av_assoc_def kernel_rule_def av_id_def av_kind_def)
  ultimately show ?thesis
    using patched_policy_survives[OF sample_kernel_ok, unfolded db, OF _ kernel_deny, of "[1, 2, 3]" "''/sepolicy''"] by metis
qed

text \<open>
  C16. An allow statement, as text, grants every listed permission of its class for every pair of listed source and
  target types, reports no syntax error and takes no permission away.
\<close>

theorem allow_statement_grants:
  assumes "policy_ready p" and "list_all name_ok (c # ss @ ts @ ps)" and "cstr (print_1 ss ts c ps)"
    and "\<forall>s \<in> set ss. \<forall>t \<in> set ts. names_ok p (Some s) (Some t) (Some c)"
    and "\<forall>x \<in> set ps. \<exists>v > 0. perm_value p (Some c) (Some x) = Some v"
  shows "\<exists>p'. apply_rule True True ptr (''allow '' @ print_1 ss ts c ps) p = Ret (False, p') \<and> policy_ready p' \<and>
    (\<forall>r n. te_permits p r n \<longrightarrow> te_permits p' r n) \<and>
    (\<forall>s \<in> set ss. \<forall>t \<in> set ts. \<forall>x \<in> set ps. \<forall>r \<in> named_rules p (Some s) (Some t) (Some c) AVTAB_ALLOWED.
       te_permits p' r (nat (the (perm_value p (Some c) (Some x)) - 1)))"
proof -
  have ok: "list_all name_ok ss" "list_all name_ok ts" "name_ok c" "list_all name_ok ps" using assms(2) by simp_all
  show ?thesis
  proof (rule allow_statement[OF assms(1) ok assms(3-5)])
    fix te
    assume "apply_rule True True ptr (''allow '' @ print_1 ss ts c ps) p = Ret (False, p\<lparr>te_avtab := te\<rparr>)"
      "policy_ready (p\<lparr>te_avtab := te\<rparr>)" "\<And>r n. te_permits p r n \<Longrightarrow> te_permits (p\<lparr>te_avtab := te\<rparr>) r n"
      and new: "\<And>s t x v r. s \<in> set ss \<Longrightarrow> t \<in> set ts \<Longrightarrow> x \<in> set ps \<Longrightarrow> perm_value p (Some c) (Some x) = Some v \<Longrightarrow>
      r \<in> named_rules p (Some s) (Some t) (Some c) AVTAB_ALLOWED \<Longrightarrow> te_permits (p\<lparr>te_avtab := te\<rparr>) r (nat (v - 1))"
    moreover have "te_permits (p\<lparr>te_avtab := te\<rparr>) r (nat (the (perm_value p (Some c) (Some x)) - 1))"
      if "s \<in> set ss" "t \<in> set ts" "x \<in> set ps" "r \<in> named_rules p (Some s) (Some t) (Some c) AVTAB_ALLOWED" for s t x r
      using that(3) assms(5) new[OF that(1-3) _ that(4)] by fastforce
    ultimately show ?thesis by blast
  qed
qed

theorem allow_statement_grants_witness:
  "\<exists>p'. apply_rule True True 0 (''allow '' @ print_1 [''su''] [''app''] ''file'' [''read'', ''write'']) sample = Ret (False, p') \<and>
     te_permits p' (1, 2, 1, AVTAB_ALLOWED) 1"
proof -
  have r: "(1, 2, 1, AVTAB_ALLOWED) \<in> named_rules sample (Some ''su'') (Some ''app'') (Some ''file'') AVTAB_ALLOWED"
    by (simp add: named_rules_def rule_ids_def entries_def entry_opt_def)
  have ok: "list_all name_ok (''file'' # [''su''] @ [''app''] @ [''read'', ''write''])"
    "cstr (print_1 [''su''] [''app''] ''file'' [''read'', ''write''])"
    by (simp_all add: name_ok_def print_1_def brackets_def cstr_def) code_simp+
  show ?thesis
    using allow_statement_grants[OF sample_ready ok, of 0] r by force
qed

text \<open>
  C17. After sepol_full_rules the type enforcement part of the access decision allows every permission of every class to
  a source type with the attribute or type su on any target type of the policy.
\<close>

theorem full_rules_allow_everything:
  assumes "policy_ready p" and "lookup_type p ''su'' = Some su" and "\<forall>e \<in> set (type_attr_map p). ebitmap_wf e"
    and "table (p_types p) = Some ht" "t \<in> snd ` set (hashtab_nodes ht)"
    and "table (p_classes p) = Some hc" "c \<in> snd ` set (hashtab_nodes hc)" "cl_value c \<noteq> 0" "cl_value c \<le> nprim (p_classes p)"
    and "unat (stype - 1) < length (type_attr_map p)" "unat (ttype - 1) < length (type_attr_map p)"
    and "has_attr p stype (t_value su)" "has_attr p ttype (t_value t)"
  shows "\<exists>p' avd. sepol_full_rules True True p = Ret p' \<and>
    compute_te_av p' stype ttype (cl_value c) = Ret (Some avd) \<and> allowed avd = NOT 0"
proof (rule full_rules_correct[OF assms(1,2)])
  fix te
  assume res: "sepol_full_rules True True p = Ret (p\<lparr>te_avtab := te\<rparr>)"
  show ?thesis
    by (rule full_rules_decision[OF assms(1-11) assms(12,13)[unfolded has_attr_def] res]) (use res in blast)
qed

theorem full_rules_allow_everything_witness:
  "\<exists>p' avd. sepol_full_rules True True sample = Ret p' \<and> compute_te_av p' 1 2 (cl_value sample_class) = Ret (Some avd) \<and>
     allowed avd = NOT 0"
  by (rule full_rules_allow_everything[where t = "sample_type 2 TYPE_TYPE" and su = "sample_type 1 TYPE_TYPE"])
    (simp_all add: has_attr_def, simp_all add: sample_types_def)

text \<open>
  C18. add_rule sets or clears exactly the bit of the named permission (all bits if none is named) in exactly the rules
  for the named or, where a name is missing, all types and classes; every other rule keeps its bits.
\<close>

theorem add_rule_bits:
  assumes "policy_ready p" and "names_ok p s t c" and "effect \<in> set av_effects" and "perm_value p c perm = Some v" and "v < 0 \<or> 1 \<le> v"
  shows "\<exists>p'. add_rule True True p s t c perm effect neg = Ret (0, p') \<and> policy_ready p' \<and>
    (\<forall>r. \<forall>n < 32. te_permits p' r n \<longleftrightarrow>
       (if r \<in> named_rules p s t c effect \<and> (v < 0 \<or> int n = v - 1) then \<not> neg else te_permits p r n))"
proof -
  have v: "v \<noteq> 0 \<and> v \<le> 32" using assms(1,4) by (auto simp: policy_ready_def perms_ok_def)
  then obtain te where te: "add_rule True True p s t c perm effect neg = Ret (0, p\<lparr>te_avtab := te\<rparr>)" "avtab_wf te"
    "avtab_abs te = grant (named_rules p s t c effect) (set_av v neg) (avtab_abs (te_avtab p))"
    using assms add_rule_correct[OF _ _ _ assms(2,3,4), of neg] by (auto simp: policy_ready_def)
  have "te_permits (p\<lparr>te_avtab := te\<rparr>) r n \<longleftrightarrow>
       (if r \<in> named_rules p s t c effect \<and> (v < 0 \<or> int n = v - 1) then \<not> neg else te_permits p r n)" if "n < 32" for r n
    using that v assms(5) bit_edit_av[of v n neg] edit_av_all[of v n neg]
    by (auto simp: te_permits_def te(3) grant_def zero_datum_def split: option.splits)
  then show ?thesis using te policy_ready_te[OF assms(1)] by blast
qed

theorem add_rule_bits_witness:
  "\<exists>p'. add_rule True True sample (Some ''su'') (Some ''app'') (Some ''file'') (Some ''read'') AVTAB_ALLOWED False = Ret (0, p') \<and>
     te_permits p' (1, 2, 1, AVTAB_ALLOWED) 0 \<and> \<not> te_permits p' (1, 2, 1, AVTAB_ALLOWED) 1"
proof -
  have r: "(1, 2, 1, AVTAB_ALLOWED) \<in> named_rules sample (Some ''su'') (Some ''app'') (Some ''file'') AVTAB_ALLOWED"
    by (simp add: named_rules_def rule_ids_def entries_def entry_opt_def)
  have "AVTAB_ALLOWED \<in> set av_effects" by (simp add: av_effects_def)
  from add_rule_bits[OF sample_ready sample_names(1) this sample_perm_value(1), of False] r show ?thesis
    by (auto simp: te_permits_def)
qed

text \<open>
  C19. A sequence of sepol_allow calls, such as suRights, runs to its end on any policy that is ready, whether or not
  its names exist, keeps the policy ready and never removes a permission.
\<close>

theorem allow_scripts_only_add:
  assumes "policy_ready p" and "list_all is_allow xs"
  shows "\<exists>p'. run_calls True True xs p = Ret p' \<and> policy_ready p' \<and> p' = p\<lparr>te_avtab := te_avtab p'\<rparr> \<and>
    (\<forall>r n. te_permits p r n \<longrightarrow> te_permits p' r n)"
  by (rule allow_script[OF assms]) force

theorem allow_scripts_only_add_witness:
  "\<exists>p'. suRights True True sample = Ret p' \<and> policy_ready p'"
  using allow_scripts_only_add[OF sample_ready, of su_rights_rules]
  by (auto simp: suRights_def su_rights_rules_def is_allow_def)

text \<open>
  C20. add_transition records the default type for the source, target and class, replacing an older one, and leaves the whole
  datum of every other rule unchanged.
\<close>

theorem transition_recorded:
  assumes "avtab_wf (te_avtab p)" and "lookup_type p s = Some src" and "lookup_type p t = Some tgt"
    and "lookup_class p c = Some cls" and "lookup_type p d = Some def"
  shows "\<exists>te. add_transition True True p s t c d = Ret (0, p\<lparr>te_avtab := te\<rparr>) \<and> avtab_wf te \<and>
    map_option av_data (avtab_abs te (ucast (t_value src), ucast (t_value tgt), ucast (cl_value cls), AVTAB_TRANSITION)) = Some (t_value def) \<and>
    (\<forall>r. r \<noteq> (ucast (t_value src), ucast (t_value tgt), ucast (cl_value cls), AVTAB_TRANSITION) \<longrightarrow>
       avtab_abs te r = avtab_abs (te_avtab p) r)"
  by (rule add_transition_correct[OF assms]) blast

theorem transition_recorded_witness:
  "\<exists>te. add_transition True True sample ''su'' ''app'' ''file'' ''app'' = Ret (0, sample\<lparr>te_avtab := te\<rparr>) \<and>
     map_option av_data (avtab_abs te (1, 2, 1, AVTAB_TRANSITION)) = Some 2"
  using transition_recorded[OF sample_avtab(1) sample_lookup(1,2,4,2)] by auto

text \<open>
  C21. __add_xperm_rule on a new key makes a rule whose kind tells whether the range spans drivers and whose bitmap holds
  exactly the drivers or functions of the range (none for a negated rule).
\<close>

theorem xperm_rule_recorded:
  fixes s t c :: u32
  assumes "avtab_wf (te_avtab p)"
    and "effect \<in> {AVTAB_XPERMS_ALLOWED, AVTAB_XPERMS_AUDITALLOW, AVTAB_XPERMS_DONTAUDIT}"
    and "avtab_abs (te_avtab p) (ucast s, ucast t, ucast c, effect) = None"
  shows "\<exists>te d xp. add_xperm_rule_one True True p s t c low high effect neg = Ret (0, p\<lparr>te_avtab := te\<rparr>) \<and> avtab_wf te \<and>
    avtab_abs te (ucast s, ucast t, ucast c, effect) = Some d \<and> av_xperms d = Some xp \<and>
    xp_specified xp = (if ioctl_driver low \<noteq> ioctl_driver high then AVTAB_XPERMS_IOCTLDRIVER else AVTAB_XPERMS_IOCTLFUNCTION) \<and>
    (\<forall>x < 256. xperm_test x (xp_perms xp) \<longleftrightarrow> \<not> neg \<and> x \<in> xperm_range (xp_specified xp) low high)"
proof -
  let ?xp = "edit_xperms low high neg (new_xperms low high)"
  have new: "length (xp_perms (new_xperms low high)) = 8" "\<not> xperm_test x (xp_perms (new_xperms low high))" if "x < 256" for x
    using that by (auto simp: new_xperms_def zero_xperms_def xperm_test_def)
  have kind: "xp_specified ?xp = (if ioctl_driver low \<noteq> ioctl_driver high then AVTAB_XPERMS_IOCTLDRIVER else AVTAB_XPERMS_IOCTLFUNCTION)"
    using edit_xperms_correct(2)[OF new(1)[of 0], of 0 low high neg] by (simp add: new_xperms_def)
  have perms: "xperm_test x (xp_perms ?xp) \<longleftrightarrow> \<not> neg \<and> x \<in> xperm_range (xp_specified ?xp) low high" if "x < 256" for x
    using edit_xperms_correct(1,2)[OF new(1)[OF that] that, of low high neg] new(2)[OF that] by simp
  show ?thesis
    by (rule add_xperm_rule_one_correct[OF assms(1,2), of s t c low high neg]) (use assms(3) kind perms in auto)
qed

theorem xperm_rule_recorded_witness:
  "\<exists>te d xp. add_xperm_rule_one True True sample 1 2 1 0x8900 0x89ff AVTAB_XPERMS_ALLOWED False = Ret (0, sample\<lparr>te_avtab := te\<rparr>) \<and>
     avtab_abs te (1, 2, 1, AVTAB_XPERMS_ALLOWED) = Some d \<and> av_xperms d = Some xp \<and> xperm_test 255 (xp_perms xp)"
  using xperm_rule_recorded[where p = sample and effect = AVTAB_XPERMS_ALLOWED and s = 1 and t = 2 and c = 1
      and low = "0x8900" and high = "0x89ff" and neg = False]
  by (auto simp: xperm_range_def ioctl_driver_def ioctl_func_def)

text \<open>
  C22. When create_domain succeeds, the new type has the next value, its attributes are itself and domain, and all other
  types, their attributes and the rules are as before.
\<close>

theorem create_domain_adds_type:
  assumes "table (p_types p) = Some ht" and "hashtab_on symcmp ht" and "lookup_type p d = None"
    and "attr_maps_ok p" and "unat (nprim (p_types p)) < 4294967231" and "ebitmap_wf (declared_types p)"
    and "lookup_type p ''domain'' = Some a" and "in_range p (t_value a)"
    and "create_domain True True p d = Ret (0, q)"
  shows "lookup_type q = (lookup_type p)(d \<mapsto>
      type_datum_init\<lparr>t_primary := 1, t_flavor := TYPE_TYPE, t_value := nprim (p_types p) + 1\<rparr>) \<and>
    nprim (p_types q) = nprim (p_types p) + 1 \<and> attr_maps_ok q \<and> te_avtab q = te_avtab p \<and>
    (\<forall>y. has_attr q (nprim (p_types q)) y \<longleftrightarrow> y = nprim (p_types q) \<or> y = t_value a) \<and>
    (\<forall>x y. in_range p x \<longrightarrow> has_attr q x y = has_attr p x y)"
  using create_domain_success[OF assms] by (auto simp: fun_eq_iff)

theorem create_domain_adds_type_witness:
  "\<exists>q. create_domain True True sample ''magisk'' = Ret (0, q) \<and> map_option t_value (lookup_type q ''magisk'') = Some 4 \<and> has_attr q 4 3"
proof -
  have "case create_domain True True sample ''magisk'' of Ret (rc, q) \<Rightarrow> rc = 0 | _ \<Rightarrow> False"
    by code_simp
  then obtain q where q: "create_domain True True sample ''magisk'' = Ret (0, q)"
    by (auto split: outcome.splits)
  have on: "table (p_types sample) = Some (one_bucket sample_types)" "hashtab_on symcmp (one_bucket sample_types)"
    using one_bucket_on[OF sample_chains(1)] by simp_all
  have n: "nprim (p_types sample) = 3" "ebitmap_wf (declared_types sample)" "in_range sample (t_value (sample_type 3 TYPE_ATTRIB))"
    by (simp_all add: sample_types_def init_wf in_range_def)
  from create_domain_adds_type[OF on sample_lookup(5) sample_maps _ n(2) sample_lookup(3) n(3) q] q n(1) show ?thesis
    by auto
qed

text \<open>
  C23. The tokenizer and state machine of parse_pattern_1 recover the operands of a printed rule: bracketed lists of sources
  and targets, the class, and the permissions.
\<close>

theorem rule_text_roundtrip:
  assumes "list_all name_ok ss" and "list_all name_ok ts" and "name_ok c" and "list_all name_ok ps"
  shows "operands_1 (print_1 ss ts c ps) = Some (map Some ss, map Some ts, Some c, map Some ps)"
  using assms by (rule operands_1_print)

theorem rule_text_roundtrip_witness:
  "operands_1 (print_1 [''su'', ''app''] [''app''] ''file'' [''read'']) =
     Some ([Some ''su'', Some ''app''], [Some ''app''], Some ''file'', [Some ''read''])"
  using rule_text_roundtrip[of "[''su'', ''app'']" "[''app'']" "''file''" "[''read'']"] by (simp add: name_ok_def word_ok_def)

section \<open>Access decisions\<close>





text \<open>
  C26. The nested decision for a bounding type has no place for its reason: if that type has bounds too and they take a
  permission away, the decision writes through a null pointer.
\<close>

theorem nested_bounds_null_reason:
  assumes outer: "compute_unbounded mok p sc tc tclass requested reason = Ret (Inr (avd, req, rea))"
      "bounding_contexts p sc tc = Ret (Some (sc1, tc1))"
    and inner: "compute_unbounded mok p sc1 tc1 tclass req None = Ret (Inr (avd1, req1, None))"
      "bounding_contexts p sc1 tc1 = Ret (Some (sc2, tc2))"
    and innermost: "context_struct_compute_av n mok p sc2 tc2 tclass req1 None = Some (Ret (Inr (avd2, rea2)))"
    and masked: "bit (allowed avd1) k" "\<not> bit (allowed avd2) k"
  shows "context_struct_compute_av (Suc (Suc n)) mok p sc tc tclass requested reason = Some (UB NullDeref)"
  using assms by (rule nested_bounds_crash)

theorem nested_bounds_null_reason_witness:
  "context_struct_compute_av 3 True sample_bounds (sample_ctx 1) (sample_ctx 3) 1 1 (Some 0) = Some (UB NullDeref)"
proof -
  let ?p = sample_bounds and ?d = "\<lambda>w :: u32. \<lparr>allowed = w, decided = 0xFFFFFFFF, auditallow = 0, auditdeny = 0xFFFFFFFF\<rparr>"
  have o1: "compute_unbounded True ?p (sample_ctx 1) (sample_ctx 3) 1 1 (Some 0) = Ret (Inr (?d 0, 0, Some 1))" by code_simp
  have o2: "bounding_contexts ?p (sample_ctx 1) (sample_ctx 3) = Ret (Some (sample_ctx 2, sample_ctx 3))" by code_simp
  have i1: "compute_unbounded True ?p (sample_ctx 2) (sample_ctx 3) 1 0 None = Ret (Inr (?d 1, 0, None))" by code_simp
  have i2: "bounding_contexts ?p (sample_ctx 2) (sample_ctx 3) = Ret (Some (sample_ctx 3, sample_ctx 3))" by code_simp
  have n1: "context_struct_compute_av 1 True ?p (sample_ctx 3) (sample_ctx 3) 1 0 None = Some (Ret (Inr (?d 0, None)))" by code_simp
  show ?thesis
    using nested_bounds_null_reason[OF o1 o2 i1 i2 n1, of 0] by (simp add: numeral_3_eq_3)
qed

section \<open>Conditional rules\<close>

text \<open>
  C27. After evaluate_conds the rules in the true list of every block are enabled exactly if its expression is true of the
  booleans (and needs a stack of at most 10), those in the false list exactly if it is false; the recorded states agree
  with the rules again, and no other rule changes.
\<close>

theorem conditional_rules_follow:
  assumes "\<forall>n \<in> set ns. \<exists>e. cexpr n = postfix e \<and> holds_values bs env (set (tree_bools e))"
    and "\<forall>n \<in> set ns. synced h n" and "rules_apart ns"
  shows "\<exists>h' ns'. evaluate_conds bs h ns = Ret (h', ns') \<and> list_all2 same_block ns ns' \<and> (\<forall>n \<in> set ns'. synced h' n) \<and>
    (\<forall>n \<in> set ns. \<forall>e. cexpr n = postfix e \<longrightarrow>
       (\<forall>i \<in> set (true_list n). enabled h' i \<longleftrightarrow> depth e < COND_EXPR_MAXDEPTH \<and> tree_value env e) \<and>
       (\<forall>i \<in> set (false_list n). enabled h' i \<longleftrightarrow> depth e < COND_EXPR_MAXDEPTH \<and> \<not> tree_value env e)) \<and>
    (\<forall>j. (\<forall>n \<in> set ns. j \<notin> node_rules n) \<longrightarrow> enabled h' j = enabled h j)"
proof -
  obtain h' ns' where ev: "evaluate_conds bs h ns = Ret (h', ns')" using evaluate_conds_returns[OF assms(1)] by blast
  note all = evaluate_conds_synced[OF ev assms(2,3)]
  have rules: "(\<forall>i \<in> set (true_list n). enabled h' i \<longleftrightarrow> depth e < COND_EXPR_MAXDEPTH \<and> tree_value env e) \<and>
       (\<forall>i \<in> set (false_list n). enabled h' i \<longleftrightarrow> depth e < COND_EXPR_MAXDEPTH \<and> \<not> tree_value env e)"
    if n: "n \<in> set ns" and e: "cexpr n = postfix e" for n e
  proof -
    obtain f where "cexpr n = postfix f" "holds_values bs env (set (tree_bools f))" using assms(1) n by blast
    then have "holds_values bs env (set (tree_bools e))" using e expr_bools_postfix[of e] expr_bools_postfix[of f] by simp
    from cond_evaluate_postfix[OF this] e
    have val: "cond_evaluate_expr bs (cexpr n) = Ret (if depth e < COND_EXPR_MAXDEPTH then int_of_bool (tree_value env e) else -1)" by simp
    obtain n' where n': "same_block n n'" "cond_evaluate_expr bs (cexpr n) = Ret (cur_state n')" "synced h' n'"
      using all n by (fastforce simp: list_all2_conv_all_nth in_set_conv_nth)
    have "true_list n' = true_list n" "false_list n' = false_list n"
      using n'(1) by (cases n; cases n'; simp add: same_block_def)+
    then show ?thesis using n'(2,3) val by (auto simp: synced_def int_of_bool_def split: if_splits)
  qed
  have "list_all2 same_block ns ns'" "\<forall>n \<in> set ns'. synced h' n"
    using all by (auto simp: list_all2_conv_all_nth in_set_conv_nth)
  then show ?thesis using ev rules all by (intro exI[of _ h'] exI[of _ ns']) simp
qed

theorem conditional_rules_follow_witness:
  "\<exists>h' ns'. evaluate_conds [Some 1, Some 0]
      (\<lambda>_. \<lparr>source_type = 1, target_type = 2, target_class = 1, specified = AVTAB_ALLOWED\<rparr>)
      [zero_node\<lparr>cur_state := -1, cexpr := postfix (CAnd (CBool 1) (CNot (CBool 2))), true_list := [7], false_list := [8]\<rparr>] = Ret (h', ns') \<and>
    enabled h' 7 \<and> \<not> enabled h' 8 \<and> \<not> enabled h' 9"
proof -
  let ?bs = "[Some 1, Some 0] :: bool_states" and ?e = "CAnd (CBool 1) (CNot (CBool 2))"
  let ?h = "\<lambda>_ :: nat. \<lparr>source_type = 1, target_type = 2, target_class = 1, specified = AVTAB_ALLOWED\<rparr>"
  let ?n = "zero_node\<lparr>cur_state := -1, cexpr := postfix ?e, true_list := [7], false_list := [8]\<rparr>"
  have a: "\<forall>n \<in> set [?n]. \<exists>e. cexpr n = postfix e \<and> holds_values ?bs (\<lambda>b. b = 1) (set (tree_bools e))"
    by (simp add: exI[of _ ?e] holds_values_def bool_state_def int_of_bool_def)
  have b: "\<forall>n \<in> set [?n]. synced ?h n" by (simp add: synced_def enabled_def)
  have c: "rules_apart [?n]" by (simp add: rules_apart_def)
  from conditional_rules_follow[OF a b c] obtain h' ns' where r: "evaluate_conds ?bs ?h [?n] = Ret (h', ns')"
    "\<forall>n \<in> set [?n]. \<forall>e. cexpr n = postfix e \<longrightarrow>
       (\<forall>i \<in> set (true_list n). enabled h' i \<longleftrightarrow> depth e < COND_EXPR_MAXDEPTH \<and> tree_value (\<lambda>b. b = 1) e) \<and>
       (\<forall>i \<in> set (false_list n). enabled h' i \<longleftrightarrow> depth e < COND_EXPR_MAXDEPTH \<and> \<not> tree_value (\<lambda>b. b = 1) e)"
    "\<forall>j. (\<forall>n \<in> set [?n]. j \<notin> node_rules n) \<longrightarrow> enabled h' j = enabled ?h j"
    by blast
  have "enabled h' 7" "\<not> enabled h' 8" using r(2)[rule_format, of ?n ?e] by simp_all
  moreover have "\<not> enabled h' 9" using r(3)[rule_format, of 9] by (simp add: node_rules_def enabled_def)
  ultimately show ?thesis using r(1) by blast
qed

text \<open>
  C28. cond_normalize_expr on an expression over at most five booleans that needs at most the ten places of the stack leaves
  the booleans as they were, selects the same rules under every assignment although it drops an outer negation, and records the truth
  table of what is left.
\<close>

theorem normalization_keeps_meaning:
  assumes "cexpr cn = postfix e" and "valid_bools bs (set (tree_bools e))" and "depth e < COND_EXPR_MAXDEPTH"
    and "card (set (tree_bools e)) \<le> COND_MAX_BOOLS" and "length bs \<le> 2 ^ 32"
  shows "\<exists>cn'. cond_normalize_expr bs cn = Ret (0, bs, cn') \<and> cexpr cn' = postfix (without_not e) \<and>
    (\<forall>env. (if tree_value env (without_not e) then true_list cn' else false_list cn') =
           (if tree_value env e then true_list cn else false_list cn)) \<and>
    set (take (nbools cn') (bool_ids cn')) = set (tree_bools e) \<and>
    (\<forall>k < 2 ^ nbools cn'. bit (expr_pre_comp cn') k = tree_value (test_env (take (nbools cn') (bool_ids cn')) k) (without_not e))"
proof (rule cond_normalize_postfix[OF assms])
  fix cn'
  assume "cond_normalize_expr bs cn = Ret (0, bs, cn')" "normal_block e cn cn'" "table_of (without_not e) cn'"
  then show ?thesis by (auto simp: normal_block_def table_of_def without_not_simps)
qed

theorem normalization_keeps_meaning_witness:
  "\<exists>cn'. cond_normalize_expr [Some 1, Some 0]
      (zero_node\<lparr>cexpr := postfix (CNot (COr (CBool 1) (CBool 2))), true_list := [7], false_list := [8]\<rparr>) = Ret (0, [Some 1, Some 0], cn') \<and>
    cexpr cn' = postfix (COr (CBool 1) (CBool 2))"
proof -
  have "valid_bools [Some 1, Some 0] (set (tree_bools (CNot (COr (CBool 1) (CBool 2)))))"
    by (simp add: valid_bools_def bool_state_def)
  with normalization_keeps_meaning[of "zero_node\<lparr>cexpr := postfix (CNot (COr (CBool 1) (CBool 2))), true_list := [7], false_list := [8]\<rparr>"
      "CNot (COr (CBool 1) (CBool 2))" "[Some 1, Some 0]"]
  show ?thesis by (fastforce simp: card_insert_if)
qed

text \<open>
  C29. The comparison of normalized expressions ignores the order of the booleans in their tables: it takes any expression over at
  most five booleans for the one in which the booleans are permuted, so cond_node_search merges the two blocks, although their values
  differ under every assignment that tells them apart (such as x && !y and y && !x).
\<close>

theorem cond_expr_equal_confuses:
  assumes expr: "cexpr cn = postfix e" "cexpr cm = postfix (rename_bools \<sigma> e)"
    and perm: "bij_betw \<sigma> (set (tree_bools e)) (set (tree_bools e))"
    and ok: "valid_bools bs (set (tree_bools e))" "depth e < COND_EXPR_MAXDEPTH" "card (set (tree_bools e)) \<le> COND_MAX_BOOLS" "length bs \<le> 2 ^ 32"
  shows "\<exists>a b. cond_normalize_expr bs cn = Ret (0, bs, a) \<and> cond_normalize_expr bs cm = Ret (0, bs, b) \<and>
    cond_expr_equal (Some a) (Some b) \<and> cond_node_search mok bs (b # list) a = Ret (Some 0, b # list) \<and>
    (\<forall>env bs'. holds_values bs' env (set (tree_bools e)) \<longrightarrow>
       (cond_evaluate_expr bs' (cexpr a) = cond_evaluate_expr bs' (cexpr b) \<longleftrightarrow> tree_value env e = tree_value (env \<circ> \<sigma>) e))"
proof -
  let ?f = "rename_bools \<sigma> e"
  have inj: "inj_on \<sigma> (set (tree_bools e))" and img: "\<sigma> ` set (tree_bools e) = set (tree_bools e)" using perm by (auto simp: bij_betw_def)
  obtain a where a: "cond_normalize_expr bs cn = Ret (0, bs, a)" "normal_block e cn a" "table_of (without_not e) a"
    "find_bools (postfix (without_not e)) (replicate COND_MAX_BOOLS 0) 0 = (bool_ids a, nbools a)"
    by (rule cond_normalize_postfix[OF expr(1) ok])
  obtain b where b: "cond_normalize_expr bs cm = Ret (0, bs, b)" "normal_block ?f cm b" "table_of (without_not ?f) b"
    "find_bools (postfix (without_not ?f)) (replicate COND_MAX_BOOLS 0) 0 = (bool_ids b, nbools b)"
    by (rule cond_normalize_postfix[OF expr(2) _ _ _ ok(4)]) (use ok img in simp_all)
  have eq: "cond_expr_equal (Some a) (Some b)"
    using cond_expr_equal_renamed[OF a(3,4) b(3,4)[unfolded rename_without_not]] inj img ok(3) by (simp add: without_not_simps)
  have "cond_evaluate_expr bs' (cexpr a) = cond_evaluate_expr bs' (cexpr b) \<longleftrightarrow> tree_value env e = tree_value (env \<circ> \<sigma>) e"
    if "holds_values bs' env (set (tree_bools e))" for env bs'
  proof -
    have "cond_evaluate_expr bs' (cexpr a) = Ret (int_of_bool (tree_value env (without_not e)))"
      using cond_evaluate_postfix[of bs' env "without_not e"] that a(2) ok(2) by (simp add: normal_block_def without_not_simps)
    moreover have "cond_evaluate_expr bs' (cexpr b) = Ret (int_of_bool (tree_value env (without_not ?f)))"
      using cond_evaluate_postfix[of bs' env "without_not ?f"] that b(2) ok(2) img by (simp add: normal_block_def without_not_simps)
    ultimately show ?thesis by (auto simp: without_not_simps rename_without_not int_of_bool_def)
  qed
  moreover have "cond_node_search mok bs (b # list) a = Ret (Some 0, b # list)" using eq by (simp add: cond_node_search_def upt_conv_Cons del: upt_Suc)
  ultimately show ?thesis using a(1) b(1) eq by blast
qed

theorem cond_expr_equal_confuses_witness:
  "\<exists>a b. cond_normalize_expr [Some 0, Some 0] (zero_node\<lparr>cexpr := postfix (CAnd (CBool 1) (CNot (CBool 2)))\<rparr>) = Ret (0, [Some 0, Some 0], a) \<and>
     cond_normalize_expr [Some 0, Some 0] (zero_node\<lparr>cexpr := postfix (CAnd (CBool 2) (CNot (CBool 1)))\<rparr>) = Ret (0, [Some 0, Some 0], b) \<and>
     cond_node_search True [Some 0, Some 0] [b] a = Ret (Some 0, [b]) \<and>
     cond_evaluate_expr [Some 1, Some 0] (cexpr a) \<noteq> cond_evaluate_expr [Some 1, Some 0] (cexpr b)"
proof -
  let ?e = "CAnd (CBool 1) (CNot (CBool 2))" and ?s = "\<lambda>b :: u32. if b = 1 then 2 else 1" and ?env = "\<lambda>b :: u32. b = 1"
  have perm: "bij_betw ?s (set (tree_bools ?e)) (set (tree_bools ?e))" by (auto simp: bij_betw_def inj_on_def)
  have valid: "valid_bools [Some 0, Some 0] (set (tree_bools ?e))" by (simp add: valid_bools_def bool_state_def)
  have vals: "holds_values [Some 1, Some 0] ?env (set (tree_bools ?e))" by (simp add: holds_values_def bool_state_def int_of_bool_def)
  have "tree_value ?env ?e \<noteq> tree_value (?env \<circ> ?s) ?e" by simp
  then show ?thesis
    using cond_expr_equal_confuses[of "zero_node\<lparr>cexpr := postfix ?e\<rparr>" ?e "zero_node\<lparr>cexpr := postfix (rename_bools ?s ?e)\<rparr>" ?s,
        OF _ _ perm valid, of True "[]"] vals
    by fastforce
qed

section \<open>The policy image\<close>

text \<open>
  C30. A well-formed kernel policy of version 20 or later (in particular with at least one unconditional rule and no two rules of the same
  identity, not even for extended permissions) is written completely, in memory and when only counting; reading
  its image gives the policy back, with the same unconditional rules and the same conditional blocks, whatever follows the
  image; a proper prefix of the image is never accepted; and policydb_to_image, which verifies what it has written by
  reading it, succeeds.
\<close>

theorem policy_image_roundtrip:
  assumes "policy_ok amc kp"
  shows "\<exists>img te cond. same_rules kp te cond \<and>
    (\<forall>fp. pf_type fp = PF_USE_MEMORY \<longrightarrow> length img \<le> pf_len fp \<longrightarrow>
      policydb_write amc kp fp = Ret (0, fp\<lparr>pf_data := pf_data fp @ img, pf_len := pf_len fp - length img\<rparr>)) \<and>
    (\<forall>fp. pf_type fp = PF_LEN \<longrightarrow> policydb_write amc kp fp = Ret (0, fp\<lparr>pf_len := pf_len fp + length img\<rparr>)) \<and>
    (\<forall>rest. policydb_read True amc (img @ rest) = Ret (Some (with_rules te cond kp, rest, amc))) \<and>
    (\<forall>pre post r. img = pre @ post \<longrightarrow> post \<noteq> [] \<longrightarrow> policydb_read True amc pre \<noteq> Ret (Some r)) \<and>
    policydb_to_image True amc kp = Ret (Some (img, amc))"
proof -
  obtain te cond where l: "loads amc (policydb_read True) (policy_image amc kp) (with_rules te cond kp)" and s: "same_rules kp te cond"
    by (rule policy_loads[OF assms])
  note w = policy_writes[OF assms]
  have "policydb_read True amc pre \<noteq> Ret (Some r)" if "policy_image amc kp = pre @ post" "post \<noteq> []" for pre post r
    by (rule loads_prefix[OF l lextends_policy that(1)[symmetric] that(2)])
  moreover have "policydb_read True amc (policy_image amc kp @ rest) = Ret (Some (with_rules te cond kp, rest, amc))" for rest
    using l by (simp add: loads_def)
  ultimately show ?thesis
    using s w policy_to_image[OF assms]
    by (intro exI[of _ "policy_image amc kp"] exI[of _ te] exI[of _ cond]) (simp add: oemits_def has_room_def after_put_def)
qed

theorem policy_image_roundtrip_witness:
  "\<exists>img te cond. policydb_to_image True False sample_kernel = Ret (Some (img, False)) \<and> same_rules sample_kernel te cond \<and>
     policydb_read True False (img @ [0]) = Ret (Some (with_rules te cond sample_kernel, [0], False))"
  using policy_image_roundtrip[OF sample_kernel_ok] by metis

text \<open>
  C31. Whatever bytes follow the magic number and the target of a kernel policy for SELinux (images of modules and of Xen policies, which the
  source reads too, are not modelled): a policy that policydb_read accepts has a known version, all contexts of its sections are valid in it, both
  contexts of file systems and network interfaces included, every type is in its own attribute map, attributes are types of the policy, and
  the map from attributes to types is the inverse of the map from types to attributes, where a type that is no attribute is also
  in its own set.
\<close>

theorem loaded_policy_consistent:
  assumes "selinux_kernel_image fp" and "policydb_read True amc fp = Ret (Some (kp, rest, amc'))"
  shows "let cx = context_db_of kp; db = kp_db kp; n = unat (nprim (p_types db)); tys = type_structs db in
    15 \<le> policyvers db \<and> policyvers db \<le> 31 \<and>
    (\<forall>cs \<in> set (kp_ocontexts kp). \<forall>oc \<in> set cs. \<forall>c \<in> set (ocon_contexts oc). context_is_valid cx c) \<and>
    (\<forall>g \<in> set (kp_genfs kp). \<forall>c \<in> set (genfs_head g). context_is_valid cx (gc_context c)) \<and>
    length (type_attr_map db) = n \<and> length (attr_type_map db) = n \<and>
    (\<forall>i < n. i \<in> ebitmap_set (type_attr_map db ! i) \<and> ebitmap_set (type_attr_map db ! i) \<subseteq> {..<n}) \<and>
    (\<forall>i < n. \<forall>j < n. i \<noteq> j \<longrightarrow> (i \<in> ebitmap_set (attr_type_map db ! j) \<longleftrightarrow> j \<in> ebitmap_set (type_attr_map db ! i))) \<and>
    (\<forall>j < n. j \<in> ebitmap_set (attr_type_map db ! j) \<longleftrightarrow> is_real_type tys j)"
proof -
  have "loaded_ok kp" using policy_read_ok assms(2) unfolding lyields_def by blast
  then show ?thesis
    by (auto simp: loaded_ok_def Let_def ocontext_valid_def genfs_valid_def type_map_ok_def attr_maps_def attr_members_def)
qed

theorem loaded_policy_consistent_witness:
  "\<exists>fp kp. policydb_read True False fp = Ret (Some (kp, [], False)) \<and> policyvers (kp_db kp) \<le> 31 \<and> length (type_attr_map (kp_db kp)) = unat (nprim (p_types (kp_db kp)))"
proof -
  obtain te cond where "loads False (policydb_read True) (policy_image False sample_kernel) (with_rules te cond sample_kernel)"
    by (rule policy_loads[OF sample_kernel_ok])
  then have "policydb_read True False (policy_image False sample_kernel @ []) = Ret (Some (with_rules te cond sample_kernel, [], False))" unfolding loads_def by blast
  with loaded_policy_consistent[OF policy_image_kernel this] show ?thesis unfolding Let_def by blast
qed

text \<open>
  C32. Writing well-formed symbol tables of any version of the kernel policy succeeds in memory and when only counting, and
  reading the image into the tables of policydb_init gives them back (the roles without their caches of types), with the rest
  of the input untouched; a proper prefix of the image is refused.
\<close>

theorem symbol_tables_roundtrip:
  assumes "symtabs_ok vers s"
  shows "\<exists>img. (\<forall>fp. pf_type fp = PF_USE_MEMORY \<longrightarrow> length img \<le> pf_len fp \<longrightarrow>
      write_symtabs vers s fp = (0, fp\<lparr>pf_data := pf_data fp @ img, pf_len := pf_len fp - length img\<rparr>)) \<and>
    (\<forall>fp. pf_type fp = PF_LEN \<longrightarrow> write_symtabs vers s fp = (0, fp\<lparr>pf_len := pf_len fp + length img\<rparr>)) \<and>
    (\<forall>rest. read_symtabs True vers init_symtabs (img @ rest) = Some (s\<lparr>sy_roles := kernel_roles (sy_roles s)\<rparr>, rest)) \<and>
    (\<forall>n < length img. read_symtabs True vers init_symtabs (take n img) = None)"
proof (intro exI[of _ "symtabs_image vers s"] conjI allI impI)
  fix fp
  show "write_symtabs vers s fp = (0, fp\<lparr>pf_data := pf_data fp @ symtabs_image vers s, pf_len := pf_len fp - length (symtabs_image vers s)\<rparr>)"
    if "pf_type fp = PF_USE_MEMORY" "length (symtabs_image vers s) \<le> pf_len fp"
    using symtabs_emit[OF assms] that by (simp add: emits_def has_room_def after_put_def)
  show "write_symtabs vers s fp = (0, fp\<lparr>pf_len := pf_len fp + length (symtabs_image vers s)\<rparr>)" if "pf_type fp = PF_LEN"
    using symtabs_emit[OF assms] that by (simp add: emits_def has_room_def after_put_def)
next
  fix rest
  show "read_symtabs True vers init_symtabs (symtabs_image vers s @ rest) = Some (s\<lparr>sy_roles := kernel_roles (sy_roles s)\<rparr>, rest)"
    by (rule readsD[OF symtabs_read[OF assms]])
next
  fix n
  assume n: "n < length (symtabs_image vers s)"
  define s' where "s' = s\<lparr>sy_roles := kernel_roles (sy_roles s)\<rparr>"
  have "symtabs_ok vers s'" "kernel_roles (sy_roles s') = sy_roles s'" "symtabs_image vers s' = symtabs_image vers s"
    using assms by (simp_all add: s'_def symtabs_ok_def symtabs_image_def kernel_roles_idem)
  then show "read_symtabs True vers init_symtabs (take n (symtabs_image vers s)) = None"
    using symtabs_file.truncated[of vers s' n] n by simp
qed

theorem symbol_tables_roundtrip_witness:
  "\<exists>img. read_symtabs True 30 init_symtabs img = Some (sample_symtabs, []) \<and>
     write_symtabs 30 sample_symtabs \<lparr>pf_type = PF_LEN, pf_data = [], pf_len = 0\<rparr> = (0, \<lparr>pf_type = PF_LEN, pf_data = [], pf_len = length img\<rparr>)"
proof -
  obtain img where r: "\<forall>rest. read_symtabs True 30 init_symtabs (img @ rest) = Some (sample_symtabs\<lparr>sy_roles := kernel_roles (sy_roles sample_symtabs)\<rparr>, rest)"
    and w: "\<forall>fp. pf_type fp = PF_LEN \<longrightarrow> write_symtabs 30 sample_symtabs fp = (0, fp\<lparr>pf_len := pf_len fp + length img\<rparr>)"
    using symbol_tables_roundtrip[OF sample_symtabs_ok] by blast
  have "read_symtabs True 30 init_symtabs (img @ []) = Some (sample_symtabs, [])"
    using r[rule_format, of "[]"] unfolding sample_symtabs_roles by simp
  with w show ?thesis by auto
qed

text \<open>
  C33. Whatever bytes are read: symbol tables that are accepted are well-formed. Chains are in order and counted, names are
  strings, bitmaps (those of the type names of constraints included), levels and ranges are well-formed, commons of classes are those
  of the table, booleans are 0 or 1, and constraints keep their stack.
\<close>

theorem read_tables_well_typed:
  assumes "read_symtabs mok vers init_symtabs fp = Some (s, rest)"
  shows "typed_symtabs vers s"
  by (rule yieldsD[OF yields_symtabs assms])

theorem read_tables_well_typed_witness:
  "\<exists>fp. read_symtabs True 30 init_symtabs fp = Some (sample_symtabs, []) \<and> typed_symtabs 30 sample_symtabs"
  using symtabs_file.read_image[of 30 sample_symtabs] sample_symtabs_ok sample_symtabs_roles read_tables_well_typed[of True 30 _ sample_symtabs "[]"]
  unfolding reads_def by (metis append_Nil2)



text \<open>
  C35. Whatever bytes are read: every context of the sections that were accepted is valid in the policy, both contexts of file
  systems and network interfaces included, file systems are in the order of their names, and the paths of one are ordered by length without
  two that clash.
\<close>

theorem labelling_is_valid:
  assumes "ocontext_read_selinux mok vers p fp = Some (ocs, r1)" and "genfs_read mok vers p r1 = Some (gs, r2)"
  shows "length ocs = ocon_num vers \<and> (\<forall>cs \<in> set ocs. \<forall>oc \<in> set cs. \<forall>c \<in> set (ocon_contexts oc). context_is_valid p c) \<and>
    sorted_wrt (\<lambda>a b. strcmp (fstype b) (fstype a) > 0) gs \<and>
    (\<forall>g \<in> set gs. sorted_wrt genfs_after (genfs_head g) \<and> (\<forall>c \<in> set (genfs_head g). context_is_valid p (gc_context c)))"
  using yieldsD[OF yields_ocontexts assms(1)[unfolded ocontext_read_selinux_def]] yieldsD[OF yields_genfs assms(2)]
  by (auto simp: list_all_iff ocontext_valid_def genfs_valid_def)

theorem labelling_is_valid_witness:
  "\<exists>fp r1 r2. ocontext_read_selinux True 30 sample_contexts fp = Some (sample_ocontexts, r1) \<and> genfs_read True 30 sample_contexts r1 = Some (sample_genfs, r2) \<and>
     context_is_valid sample_contexts (sample_ctx 1)"
proof -
  obtain fp r1 r2 where "ocontext_read_selinux True 30 sample_contexts fp = Some (sample_ocontexts, r1)" "genfs_read True 30 sample_contexts r1 = Some (sample_genfs, r2)"
    using readsD[OF ocontexts_file.read_image[OF sample_ocontexts_ok]] readsD[OF genfs_file.read_image[OF sample_genfs_ok]] by blast
  then show ?thesis using labelling_is_valid[of True 30 sample_contexts fp sample_ocontexts r1 sample_genfs r2] by (auto simp: sample_ocontexts_def ocon_contexts_def)
qed

section \<open>Data structures of libsepol\<close>

text \<open>
  C36. An extensible bitmap implements a set of bit numbers: setting a bit succeeds exactly below 2^32 - 64, keeps the
  node list well-formed and changes that bit only; otherwise the bitmap is unchanged.
\<close>

theorem ebitmap_set_then_get:
  assumes "ebitmap_wf e" and "ebitmap_set_bit True e b v = (rc, e')"
  shows "ebitmap_wf e' \<and> (rc = 0 \<longleftrightarrow> unat b < 4294967232) \<and> (rc \<noteq> 0 \<longrightarrow> e' = e) \<and>
    (rc = 0 \<longrightarrow> (\<forall>c. ebitmap_get_bit e' c \<longleftrightarrow> (if c = b then v else ebitmap_get_bit e c)))"
  using assms by (rule eb.put_result)

theorem ebitmap_set_then_get_witness:
  "\<exists>e'. ebitmap_set_bit True (bitmap_of 5) 1 True = (0, e') \<and> ebitmap_get_bit e' 1 \<and> ebitmap_get_bit e' 2 \<and> \<not> ebitmap_get_bit e' 3"
proof -
  obtain rc e' where "ebitmap_set_bit True (bitmap_of 5) 1 True = (rc, e')" by fastforce
  from this ebitmap_set_then_get[OF bitmap_of_wf this] show ?thesis
    by (auto simp: bit_numeral_rec)
qed

text \<open>
  C37. ebitmap_or, ebitmap_and and ebitmap_xor compute union, intersection and symmetric difference; ebitmap_cmp decides
  equality (equal sets have equal nodes), ebitmap_contains inclusion and ebitmap_match_any overlap.
\<close>

theorem ebitmap_set_algebra:
  assumes "ebitmap_wf e1" and "ebitmap_wf e2"
  shows "\<exists>u i x. ebitmap_or True e1 e2 = (0, u) \<and> ebitmap_and True e1 e2 = (0, i) \<and> ebitmap_xor True e1 e2 = (0, x) \<and>
    ebitmap_wf u \<and> ebitmap_wf i \<and> ebitmap_wf x \<and> ebitmap_set u = ebitmap_set e1 \<union> ebitmap_set e2 \<and>
    ebitmap_set i = ebitmap_set e1 \<inter> ebitmap_set e2 \<and> ebitmap_set x = sym_diff (ebitmap_set e1) (ebitmap_set e2) \<and>
    (ebitmap_cmp e1 e2 \<longleftrightarrow> ebitmap_set e1 = ebitmap_set e2) \<and> (ebitmap_cmp e1 e2 \<longleftrightarrow> e1 = e2) \<and>
    (ebitmap_contains e1 e2 \<longleftrightarrow> ebitmap_set e2 \<subseteq> ebitmap_set e1) \<and>
    (ebitmap_match_any e1 e2 \<longleftrightarrow> ebitmap_set e1 \<inter> ebitmap_set e2 \<noteq> {})"
proof -
  have "e1 = e2" if "ebitmap_set e1 = ebitmap_set e2"
    using assms that nodes_canonical[of "enode e1" "enode e2"]
    by (cases e1; cases e2) (simp add: ebitmap_wf_def ebitmap_set_def)
  then have "(ebitmap_cmp e1 e2 \<longleftrightarrow> ebitmap_set e1 = ebitmap_set e2) \<and> (ebitmap_cmp e1 e2 \<longleftrightarrow> e1 = e2) \<and>
      (ebitmap_contains e1 e2 \<longleftrightarrow> ebitmap_set e2 \<subseteq> ebitmap_set e1) \<and> (ebitmap_match_any e1 e2 \<longleftrightarrow> ebitmap_set e1 \<inter> ebitmap_set e2 \<noteq> {})"
    using cmp_iff[OF assms] contains_iff[OF assms] match_any_iff[OF assms] by auto
  moreover obtain u where "ebitmap_or True e1 e2 = (0, u)" "ebitmap_wf u" "ebitmap_set u = ebitmap_set e1 \<union> ebitmap_set e2"
    using or_correct[OF assms] .
  moreover obtain i where "ebitmap_and True e1 e2 = (0, i)" "ebitmap_wf i" "ebitmap_set i = ebitmap_set e1 \<inter> ebitmap_set e2"
    using and_correct[OF assms] .
  moreover obtain x where "ebitmap_xor True e1 e2 = (0, x)" "ebitmap_wf x" "ebitmap_set x = sym_diff (ebitmap_set e1) (ebitmap_set e2)"
    using xor_correct[OF assms] .
  ultimately show ?thesis by blast
qed

theorem ebitmap_set_algebra_witness:
  "\<exists>u. ebitmap_or True (bitmap_of 5) (bitmap_of 2) = (0, u) \<and> ebitmap_wf u \<and>
     ebitmap_set u = ebitmap_set (bitmap_of 5) \<union> ebitmap_set (bitmap_of 2)"
  using ebitmap_set_algebra[OF bitmap_of_wf bitmap_of_wf, of 5 2] by auto

text \<open>
  C38. A symbol table implements a map: inserting a new key makes it found with its datum and leaves the other keys; an
  existing key is refused with SEPOL_EEXIST and nothing changes.
\<close>

theorem hashtab_insert_refines_map:
  assumes "hashtab_on symcmp h"
  shows "\<exists>rc h'. hashtab_insert True (Some h) key datum = (rc, Some h') \<and> hashtab_on symcmp h' \<and>
    rc = (if hashtab_abs h key = None then SEPOL_OK else SEPOL_EEXIST) \<and>
    (\<forall>k. hashtab_search (Some h') k =
       (if rc = SEPOL_OK \<and> k = key then Some datum else hashtab_search (Some h) k))"
proof (cases "hashtab_abs h key")
  case None
  with sym.insert_correct[OF assms, of key datum] obtain h' where
    "hashtab_insert True (Some h) key datum = (SEPOL_OK, Some h')" "hashtab_on symcmp h'"
    "hashtab_abs h' = (hashtab_abs h)(key \<mapsto> datum)" by auto
  then show ?thesis using None sym.search_correct[OF assms] sym.search_correct[OF \<open>hashtab_on symcmp h'\<close>] by auto
next
  case (Some d)
  with sym.insert_correct[OF assms, of key datum] show ?thesis using assms by auto
qed

theorem hashtab_insert_refines_map_witness:
  "\<exists>h'. hashtab_insert True (Some (one_bucket [(''app'', 1 :: nat)])) ''su'' 2 = (SEPOL_OK, Some h') \<and>
     hashtab_search (Some h') ''su'' = Some 2 \<and> hashtab_search (Some h') ''app'' = Some 1"
proof -
  have on: "hashtab_on symcmp (one_bucket [(''app'', 1 :: nat)])" by (rule one_bucket_on) simp
  have "hashtab_abs (one_bucket [(''app'', 1 :: nat)]) ''su'' = None" by simp
  with hashtab_insert_refines_map[OF on, of "''su''" 2] show ?thesis by auto
qed

text \<open>
  C39. The access vector table implements a map from rules to data: avtab_insert of a plain rule adds it, or answers
  SEPOL_EEXIST and changes nothing; lookups of all other rules are unaffected.
\<close>

theorem avtab_insert_refines_map:
  assumes "avtab_wf h" and "plain_key key" and "specified key AND AVTAB_XPERMS = 0"
  shows "\<exists>rc h'. avtab_insert True (Some h) key d = (rc, Some h') \<and> avtab_wf h' \<and>
    rc = (if avtab_search (Some h) key = None then 0 else SEPOL_EEXIST) \<and>
    (\<forall>k. plain_key k \<longrightarrow> avtab_search (Some h') k =
       (if rc = 0 \<and> av_id k = av_id key then Some (new_datum key d) else avtab_search (Some h) k))"
proof (cases "avtab_abs h (av_id key)")
  case None
  show ?thesis
  proof (rule avtab_insert_correct[OF assms(1,2), of d])
    fix h'
    assume "avtab_insert True (Some h) key d = (0, Some h')" "avtab_wf h'"
      "avtab_abs h' = (avtab_abs h)(av_id key \<mapsto> new_datum key d)"
    then show ?thesis using None assms by (auto simp: avtab_search_correct)
  qed (simp add: None)
next
  case (Some x)
  with assms avtab_insert_exists[of h key True d] show ?thesis by (auto simp: avtab_search_correct)
qed

theorem avtab_insert_refines_map_witness:
  "\<exists>h'. avtab_insert True (Some (te_avtab sample)) (rule_key 1 2 1 AVTAB_ALLOWED) \<lparr>av_data = 5, av_xperms = None\<rparr> = (0, Some h') \<and>
     map_option av_data (avtab_search (Some h') (rule_key 1 2 1 AVTAB_ALLOWED)) = Some 5"
proof -
  have k: "plain_key (rule_key 1 2 1 AVTAB_ALLOWED)" by (rule rule_key_id) (simp add: spec_order_def)
  have s: "specified (rule_key 1 2 1 AVTAB_ALLOWED) AND AVTAB_XPERMS = 0" by (simp add: rule_key_def)
  have n: "avtab_search (Some (te_avtab sample)) (rule_key 1 2 1 AVTAB_ALLOWED) = None"
    using avtab_search_correct[OF sample_avtab(1) k] by simp
  from avtab_insert_refines_map[OF sample_avtab(1) k s, of "\<lparr>av_data = 5, av_xperms = None\<rparr>"] n k show ?thesis
    by (auto simp: new_datum_def rule_key_def)
qed



end
